(* ===== verification/Rust_Prelude.thy ===== *)
theory Rust_Prelude
  imports Main "HOL-Library.Sublist"
begin

text \<open>
  What the components share: the vocabulary of Rust's standard library that the sources use.

  \<^item> A Rust \<open>str\<close>/\<open>String\<close> is the list of its UTF-8 bytes, an Isabelle \<open>string\<close> (a \<open>char\<close> is
    a byte). Equality, \<open>len\<close>, \<open>starts_with\<close>, \<open>find\<close>, \<open>split\<close> on an ASCII character and slicing
    then read exactly as in the memory representation; \<open>chars\<close> groups the bytes back into encoded
    code points.
  \<^item> \<open>Result<A, E>\<close> is the sum \<open>'e + 'a\<close>, with \<open>Err = Inl\<close> and \<open>Ok = Inr\<close>.
  \<^item> A computation that can panic (an out-of-range slice, an out-of-range insertion) returns an
    \<open>option\<close>; \<open>None\<close> is the panic.
  \<^item> A \<open>PathBuf\<close> is the string of its bytes.
\<close>

section \<open>Results, panics and slices\<close>

type_synonym ('e, 'a) result = "'e + 'a"

abbreviation Ok :: "'a \<Rightarrow> 'e + 'a" where "Ok \<equiv> Inr"
abbreviation Err :: "'e \<Rightarrow> 'e + 'a" where "Err \<equiv> Inl"

named_theorems rust_simps \<open>evaluation rules of the standard library's operations\<close>
named_theorems rust_str \<open>laws of the string operations used by the component proofs\<close>

text \<open>\<open>&xs[lo..hi]\<close>: panics unless \<open>lo \<le> hi \<le> len\<close>.\<close>

definition slice :: "'a list \<Rightarrow> nat \<Rightarrow> nat \<Rightarrow> 'a list option" where
  "slice xs lo hi = (if lo \<le> hi \<and> hi \<le> length xs then Some (take (hi - lo) (drop lo xs)) else None)"

text \<open>\<open>&xs[lo..]\<close>.\<close>

definition slice_from :: "'a list \<Rightarrow> nat \<Rightarrow> 'a list option" where
  "slice_from xs lo = (if lo \<le> length xs then Some (drop lo xs) else None)"

text \<open>\<open>Vec::insert\<close> panics past the end.\<close>

definition vec_insert :: "'a list \<Rightarrow> nat \<Rightarrow> 'a \<Rightarrow> 'a list option" where
  "vec_insert xs i x = (if i \<le> length xs then Some (take i xs @ x # drop i xs) else None)"

text \<open>\<open>Vec::remove\<close> panics unless the index is in range.\<close>

definition vec_remove :: "'a list \<Rightarrow> nat \<Rightarrow> 'a list option" where
  "vec_remove xs i = (if i < length xs then Some (take i xs @ drop (Suc i) xs) else None)"

lemma slice_from_Some [simp]: "lo \<le> length xs \<Longrightarrow> slice_from xs lo = Some (drop lo xs)"
  by (simp add: slice_from_def)

lemma slice_inner:
  "2 \<le> length xs \<Longrightarrow> slice xs (Suc 0) (length xs - Suc 0) = Some (butlast (tl xs))"
  by (cases xs) (simp_all add: slice_def butlast_conv_take)

lemma slice_inner_Cons: "xs \<noteq> [] \<Longrightarrow> slice (x # xs) (Suc 0) (length xs) = Some (butlast xs)"
  using slice_inner [of "x # xs"] by (cases xs) simp_all

lemma vec_insert_append [simp]: "vec_insert (xs @ ys) (length xs) x = Some (xs @ x # ys)"
  by (simp add: vec_insert_def)

lemma vec_remove_append [simp]: "vec_remove (xs @ y # ys) (length xs) = Some (xs @ ys)"
  by (simp add: vec_remove_def)

text \<open>\<open>xs.last().is_some_and(String::is_empty)\<close>.\<close>

definition last_is_empty :: "'a list list \<Rightarrow> bool" where
  "last_is_empty xs \<longleftrightarrow> xs \<noteq> [] \<and> last xs = []"

lemma last_is_empty_simps [simp]:
  "\<not> last_is_empty []"
  "last_is_empty (xs @ [x]) \<longleftrightarrow> x = []"
  by (simp_all add: last_is_empty_def)

section \<open>Bytes and characters\<close>

abbreviation nl :: char where "nl \<equiv> CHR 0x0A"
abbreviation cr :: char where "cr \<equiv> CHR 0x0D"

text \<open>A string in single quotes, as the sources format it in messages.\<close>

definition quoted :: "string \<Rightarrow> string" where
  "quoted s = CHR 0x27 # s @ [CHR 0x27]"

text \<open>A continuation byte \<open>10xxxxxx\<close> of UTF-8.\<close>

definition is_cont :: "char \<Rightarrow> bool" where
  "is_cont c \<longleftrightarrow> (of_char c :: nat) div 64 = 2"

text \<open>\<open>str::chars\<close>, each character as its encoding.\<close>

function chars :: "string \<Rightarrow> string list" where
  "chars [] = []"
| "chars (c # cs) = (c # takeWhile is_cont cs) # chars (dropWhile is_cont cs)"
  by pat_completeness auto
termination
  by (relation "measure length") (simp_all add: length_dropWhile_le le_imp_less_Suc)

lemma concat_chars [simp]: "concat (chars s) = s"
  by (induction s rule: chars.induct) simp_all

definition is_ascii_digit :: "char \<Rightarrow> bool" where
  "is_ascii_digit c \<longleftrightarrow> 48 \<le> (of_char c :: nat) \<and> (of_char c :: nat) \<le> 57"

text \<open>\<open>str::is_char_boundary\<close>.\<close>

definition is_char_boundary :: "string \<Rightarrow> nat \<Rightarrow> bool" where
  "is_char_boundary s k \<longleftrightarrow> k = 0 \<or> k = length s \<or> (k < length s \<and> \<not> is_cont (s ! k))"

text \<open>\<open>to_ascii_lowercase\<close> on one byte.\<close>

definition ascii_lower :: "char \<Rightarrow> char" where
  "ascii_lower c = (if 65 \<le> (of_char c :: nat) \<and> (of_char c :: nat) \<le> 90
                    then char_of ((of_char c :: nat) + 32) else c)"

definition to_ascii_lowercase :: "string \<Rightarrow> string" where
  "to_ascii_lowercase s = map ascii_lower s"

lemma chars_singletons: "\<forall>c \<in> set s. \<not> is_cont c \<Longrightarrow> chars s = map (\<lambda>c. [c]) s"
proof (induction s)
  case (Cons c s)
  then have "takeWhile is_cont s = []" "dropWhile is_cont s = s" by (cases s; simp)+
  with Cons show ?case by simp
qed simp

lemma of_char_ascii_lower:
  "(of_char (ascii_lower c) :: nat) =
     (if 65 \<le> (of_char c :: nat) \<and> (of_char c :: nat) \<le> 90 then of_char c + 32 else of_char c)"
  by (auto simp: ascii_lower_def)

lemma ascii_lower_idem [simp]: "ascii_lower (ascii_lower c) = ascii_lower c"
  using of_char_ascii_lower [of c] by (subst ascii_lower_def) (auto split: if_splits)

lemma to_ascii_lowercase_idem [simp]: "to_ascii_lowercase (to_ascii_lowercase s) = to_ascii_lowercase s"
  by (simp add: to_ascii_lowercase_def)

lemma to_ascii_lowercase_Nil [simp]: "to_ascii_lowercase s = [] \<longleftrightarrow> s = []"
  by (simp add: to_ascii_lowercase_def)

text \<open>\<open>format!("{n}")\<close> of an unsigned integer.\<close>

fun show_nat :: "nat \<Rightarrow> string" where
  "show_nat n = (if n < 10 then [char_of (48 + n)] else show_nat (n div 10) @ [char_of (48 + n mod 10)])"

declare show_nat.simps [simp del]

section \<open>Trimming\<close>

text \<open>The characters with the Unicode property White\_Space, in UTF-8.\<close>

definition white_space :: "string list" where
  "white_space =
    [[CHR 0x20], [CHR 0x0A], [CHR 0x09], [CHR 0x0D], [CHR 0x0B], [CHR 0x0C],
     [CHR 0xC2, CHR 0x85], [CHR 0xC2, CHR 0xA0],
     [CHR 0xE1, CHR 0x9A, CHR 0x80],
     [CHR 0xE2, CHR 0x80, CHR 0x80], [CHR 0xE2, CHR 0x80, CHR 0x81], [CHR 0xE2, CHR 0x80, CHR 0x82],
     [CHR 0xE2, CHR 0x80, CHR 0x83], [CHR 0xE2, CHR 0x80, CHR 0x84], [CHR 0xE2, CHR 0x80, CHR 0x85],
     [CHR 0xE2, CHR 0x80, CHR 0x86], [CHR 0xE2, CHR 0x80, CHR 0x87], [CHR 0xE2, CHR 0x80, CHR 0x88],
     [CHR 0xE2, CHR 0x80, CHR 0x89], [CHR 0xE2, CHR 0x80, CHR 0x8A],
     [CHR 0xE2, CHR 0x80, CHR 0xA8], [CHR 0xE2, CHR 0x80, CHR 0xA9], [CHR 0xE2, CHR 0x80, CHR 0xAF],
     [CHR 0xE2, CHR 0x81, CHR 0x9F],
     [CHR 0xE3, CHR 0x80, CHR 0x80]]"

text \<open>Strip any of the words \<open>ws\<close> from the front, as long as one is there.\<close>

function strip_words :: "string list \<Rightarrow> string \<Rightarrow> string" where
  "strip_words ws s =
     (case find (\<lambda>w. w \<noteq> [] \<and> prefix w s) ws of
        None \<Rightarrow> s
      | Some w \<Rightarrow> strip_words ws (drop (length w) s))"
  by pat_completeness auto
termination
  by (relation "measure (length \<circ> snd)") (auto simp: find_Some_iff prefix_def)

declare strip_words.simps [simp del]

definition trim_start :: "string \<Rightarrow> string" where
  "trim_start s = strip_words white_space s"

definition trim_end :: "string \<Rightarrow> string" where
  "trim_end s = rev (strip_words (map rev white_space) (rev s))"

text \<open>\<open>str::trim\<close>; the two ends are independent, and stripping the end first is as good as any order.\<close>

definition trim :: "string \<Rightarrow> string" where
  "trim s = trim_start (trim_end s)"

lemma strip_words_suffix: "suffix (strip_words ws s) s"
proof (induction ws s rule: strip_words.induct)
  case (1 ws s)
  then show ?case
    by (subst strip_words.simps) (auto split: option.splits intro: suffix_order.trans suffix_drop)
qed

lemma strip_words_Nil [simp]: "strip_words ws [] = []"
  using strip_words_suffix [of ws "[]"] by simp

lemma strip_words_stop:
  "(\<And>w. w \<in> set ws \<Longrightarrow> w \<noteq> [] \<Longrightarrow> \<not> prefix w s) \<Longrightarrow> strip_words ws s = s"
  by (subst strip_words.simps) (auto split: option.splits simp: find_Some_iff)

lemma strip_words_no_prefix:
  "w \<in> set ws \<Longrightarrow> w \<noteq> [] \<Longrightarrow> \<not> prefix w (strip_words ws s)"
proof (induction ws s rule: strip_words.induct)
  case (1 ws s)
  then show ?case
    by (subst strip_words.simps) (auto split: option.splits simp: find_None_iff)
qed

lemma strip_words_idem [simp]: "strip_words ws (strip_words ws s) = strip_words ws s"
  by (rule strip_words_stop) (auto dest: strip_words_no_prefix)

lemma trim_start_Nil [simp]: "trim_start [] = []"
  and trim_end_Nil [simp]: "trim_end [] = []"
  and trim_Nil [simp]: "trim [] = []"
  by (simp_all add: trim_start_def trim_end_def trim_def)

lemma trim_start_idem [simp]: "trim_start (trim_start s) = trim_start s"
  and trim_end_idem [simp]: "trim_end (trim_end s) = trim_end s"
  by (simp_all add: trim_start_def trim_end_def)

lemma suffix_trim_start: "suffix (trim_start s) s"
  by (simp add: trim_start_def strip_words_suffix)

lemma prefix_trim_end: "prefix (trim_end s) s"
  by (metis trim_end_def rev_rev_ident strip_words_suffix suffix_to_prefix)

text \<open>The first and last bytes of white space.\<close>

definition ws_heads :: "char list" where
  "ws_heads = [CHR 0x20, CHR 0x0A, CHR 0x09, CHR 0x0D, CHR 0x0B, CHR 0x0C, CHR 0xC2, CHR 0xE1, CHR 0xE2, CHR 0xE3]"

definition ws_lasts :: "char list" where
  "ws_lasts = map last white_space"

lemma white_space_heads: "list_all (\<lambda>w. w \<noteq> [] \<and> hd w \<in> set ws_heads) white_space"
  by (simp add: white_space_def ws_heads_def)

lemma trim_start_stop [rust_str]:
  assumes "s \<noteq> []" "hd s \<notin> set ws_heads"
  shows "trim_start s = s"
  unfolding trim_start_def
proof (rule strip_words_stop)
  fix w assume "w \<in> set white_space" "w \<noteq> []"
  then have "hd w \<in> set ws_heads" using white_space_heads by (simp add: list_all_iff)
  with assms show "\<not> prefix w s" using \<open>w \<noteq> []\<close> by (auto simp: prefix_def)
qed

lemma trim_end_stop [rust_str]:
  assumes "s \<noteq> []" "last s \<notin> set ws_lasts"
  shows "trim_end s = s"
proof -
  have "strip_words (map rev white_space) (rev s) = rev s"
  proof (rule strip_words_stop)
    fix w assume "w \<in> set (map rev white_space)" "w \<noteq> []"
    then obtain v where v: "v \<in> set white_space" "w = rev v" "v \<noteq> []" by auto
    then have "last v \<in> set ws_lasts" by (simp add: ws_lasts_def)
    with assms show "\<not> prefix w (rev s)" using v by (auto simp: suffix_to_prefix [symmetric] suffix_def)
  qed
  then show ?thesis by (simp add: trim_end_def)
qed

lemma trim_stop [rust_str]:
  "s \<noteq> [] \<Longrightarrow> hd s \<notin> set ws_heads \<Longrightarrow> last s \<notin> set ws_lasts \<Longrightarrow> trim s = s"
  by (simp add: trim_def trim_end_stop trim_start_stop)

lemma trim_start_stop_iff: "trim_start s = s \<longleftrightarrow> list_all (\<lambda>w. \<not> prefix w s) white_space"
proof
  assume eq: "trim_start s = s"
  show "list_all (\<lambda>w. \<not> prefix w s) white_space"
    unfolding list_all_iff
  proof
    fix w assume w: "w \<in> set white_space"
    then have "w \<noteq> []" using white_space_heads by (simp add: list_all_iff)
    from strip_words_no_prefix [OF w this, of s] eq show "\<not> prefix w s" by (simp add: trim_start_def)
  qed
next
  assume "list_all (\<lambda>w. \<not> prefix w s) white_space"
  then show "trim_start s = s"
    by (auto simp: trim_start_def list_all_iff intro!: strip_words_stop)
qed

text \<open>Where trimming stops inside a longer string, and when it leaves nothing.\<close>

lemma strip_words_append:
  "\<exists>vs. set vs \<subseteq> set ws \<and> [] \<notin> set vs \<and> s = concat vs @ strip_words ws s"
proof (induction ws s rule: strip_words.induct)
  case (1 ws s)
  show ?case
  proof (cases "find (\<lambda>w. w \<noteq> [] \<and> prefix w s) ws")
    case None
    then have "strip_words ws s = s" by (subst strip_words.simps) simp
    then show ?thesis by (intro exI [of _ "[]"]) simp
  next
    case (Some w)
    then have w: "w \<in> set ws" "w \<noteq> []" "prefix w s" by (auto simp: find_Some_iff)
    from 1 [OF Some] obtain vs where
      vs: "set vs \<subseteq> set ws" "[] \<notin> set vs" "drop (length w) s = concat vs @ strip_words ws (drop (length w) s)"
      by blast
    have "strip_words ws s = strip_words ws (drop (length w) s)"
      by (subst strip_words.simps) (simp add: Some)
    with vs w have "s = concat (w # vs) @ strip_words ws s"
      by (metis append_assoc append_eq_conv_conj concat.simps(2) prefix_def)
    with vs w show ?thesis by (intro exI [of _ "w # vs"]) auto
  qed
qed

lemma trim_end_append: "\<exists>vs. set vs \<subseteq> set white_space \<and> s = trim_end s @ concat vs"
proof -
  obtain vs where vs: "set vs \<subseteq> set (map rev white_space)"
      "rev s = concat vs @ strip_words (map rev white_space) (rev s)"
    using strip_words_append [of "map rev white_space" "rev s"] by blast
  then have "s = trim_end s @ concat (rev (map rev vs))"
    by (metis rev_append rev_concat rev_map rev_rev_ident trim_end_def)
  moreover have "set (rev (map rev vs)) \<subseteq> set white_space" using vs(1) by force
  ultimately show ?thesis by blast
qed

lemma trim_not_Nil:
  assumes "s \<noteq> []" "hd s \<notin> set ws_heads"
  shows "trim s \<noteq> []"
proof -
  obtain vs where vs: "set vs \<subseteq> set white_space" "s = trim_end s @ concat vs"
    using trim_end_append by blast
  have "trim_end s \<noteq> []"
  proof
    assume "trim_end s = []"
    with vs assms obtain v vs' where v: "v \<in> set white_space" "s = v @ concat vs'"
      by (cases vs) auto
    then have "v \<noteq> []" "hd v \<in> set ws_heads" using white_space_heads by (auto simp: list_all_iff)
    with v assms show False by simp
  qed
  moreover from this have "hd (trim_end s) = hd s" using vs(2) by (metis hd_append2)
  ultimately show ?thesis using assms by (simp add: trim_def trim_start_stop)
qed

lemma white_space_conts: "list_all (\<lambda>w. list_all is_cont (tl w)) white_space"
  by (simp add: white_space_def is_cont_def)

lemma trim_end_append_stop:
  assumes "trim_end p = p" "p \<noteq> []" "\<not> is_cont (hd p)"
  shows "trim_end (h @ p) = h @ p"
proof -
  have "strip_words (map rev white_space) (rev (h @ p)) = rev (h @ p)"
  proof (rule strip_words_stop)
    fix w assume "w \<in> set (map rev white_space)" "w \<noteq> []"
    then obtain v where v: "v \<in> set white_space" "w = rev v" "v \<noteq> []" by auto
    have "\<not> suffix v p"
    proof
      assume "suffix v p"
      then have "prefix (rev v) (strip_words (map rev white_space) (rev p))"
        using assms(1) by (metis rev_rev_ident suffix_to_prefix trim_end_def)
      with v strip_words_no_prefix [of "rev v" "map rev white_space" "rev p"] show False by auto
    qed
    moreover have "\<not> strict_suffix p v"
    proof
      assume "strict_suffix p v"
      then obtain us where "v = us @ p" "us \<noteq> []" by (auto simp: strict_suffix_def suffix_def)
      then have "hd p \<in> set (tl v)" using assms(2) by (cases us) auto
      with v white_space_conts assms(3) show False by (auto simp: list_all_iff)
    qed
    ultimately have "\<not> suffix v (h @ p)"
      by (metis strict_suffix_def suffix_append suffix_order.eq_iff suffix_same_cases suffixI)
    then show "\<not> prefix w (rev (h @ p))" using v by (metis suffix_to_prefix)
  qed
  then show ?thesis by (simp add: trim_end_def)
qed

section \<open>Prefixes, suffixes, searching and splitting\<close>

text \<open>\<open>str::strip_prefix\<close> and \<open>str::strip_suffix\<close>.\<close>

definition strip_prefix :: "string \<Rightarrow> string \<Rightarrow> string option" where
  "strip_prefix p s = (if prefix p s then Some (drop (length p) s) else None)"

definition strip_suffix :: "string \<Rightarrow> string \<Rightarrow> string option" where
  "strip_suffix p s = (if suffix p s then Some (take (length s - length p) s) else None)"

lemma strip_prefix_append [simp]: "strip_prefix p (p @ s) = Some s"
  by (simp add: strip_prefix_def)

lemma strip_prefix_Some: "strip_prefix p s = Some r \<longleftrightarrow> s = p @ r"
  by (auto simp: strip_prefix_def prefix_def)

lemma strip_prefix_None: "strip_prefix p s = None \<longleftrightarrow> \<not> prefix p s"
  by (simp add: strip_prefix_def)

lemma strip_suffix_Some: "strip_suffix p s = Some r \<longleftrightarrow> s = r @ p"
  by (auto simp: strip_suffix_def suffix_def)

text \<open>\<open>str::find\<close> with a string needle: the first position where it occurs.\<close>

fun str_find :: "string \<Rightarrow> string \<Rightarrow> nat option" where
  "str_find [] p = (if p = [] then Some 0 else None)"
| "str_find (c # cs) p = (if prefix p (c # cs) then Some 0 else map_option Suc (str_find cs p))"

lemma str_find_Some:
  "str_find s p = Some i \<longleftrightarrow>
     prefix p (drop i s) \<and> i \<le> length s \<and> (\<forall>j < i. \<not> prefix p (drop j s))"
proof (induction s arbitrary: i)
  case Nil
  then show ?case by auto
next
  case (Cons c cs)
  show ?case
  proof (cases i)
    case 0
    then show ?thesis by auto
  next
    case (Suc k)
    then show ?thesis using Cons.IH [of k] by (auto simp: less_Suc_eq_0_disj)
  qed
qed

lemma str_find_None: "str_find s p = None \<longleftrightarrow> (\<forall>i \<le> length s. \<not> prefix p (drop i s))"
proof (induction s)
  case Nil
  then show ?case by auto
next
  case (Cons c cs)
  have all_split: "(\<forall>i \<le> length (c # cs). \<not> prefix p (drop i (c # cs))) \<longleftrightarrow>
      \<not> prefix p (c # cs) \<and> (\<forall>i \<le> length cs. \<not> prefix p (drop i cs))"
  proof safe
    fix i assume "\<forall>i \<le> length (c # cs). \<not> prefix p (drop i (c # cs))" "i \<le> length cs" "prefix p (drop i cs)"
    then show False by (auto dest: spec [of _ "Suc i"])
  next
    fix i assume "\<not> prefix p (c # cs)" "\<forall>i \<le> length cs. \<not> prefix p (drop i cs)"
      "i \<le> length (c # cs)" "prefix p (drop i (c # cs))"
    then show False by (cases i) auto
  qed (auto dest: spec [of _ 0])
  show ?case unfolding all_split using Cons.IH by simp
qed

text \<open>\<open>str::contains\<close>.\<close>

definition str_contains :: "string \<Rightarrow> string \<Rightarrow> bool" where
  "str_contains s p \<longleftrightarrow> str_find s p \<noteq> None"

text \<open>\<open>str::split\<close> on one ASCII character; the result is never empty.\<close>

fun split_on :: "char \<Rightarrow> string \<Rightarrow> string list" where
  "split_on c [] = [[]]"
| "split_on c (x # xs) =
     (if x = c then [] # split_on c xs
      else (case split_on c xs of [] \<Rightarrow> [[x]] | y # ys \<Rightarrow> (x # y) # ys))"

lemma split_on_not_Nil [simp]: "split_on c s \<noteq> []"
  by (induction s) (auto split: list.splits)

text \<open>\<open>[T]::join\<close>.\<close>

fun join :: "string \<Rightarrow> string list \<Rightarrow> string" where
  "join sep [] = []"
| "join sep [x] = x"
| "join sep (x # y # ys) = x @ sep @ join sep (y # ys)"

lemma join_Cons: "xs \<noteq> [] \<Longrightarrow> join sep (x # xs) = x @ sep @ join sep xs"
  by (cases xs) simp_all

lemma split_on_append_sep: "c \<notin> set x \<Longrightarrow> split_on c (x @ c # s) = x # split_on c s"
  by (induction x) auto

lemma split_on_append: "split_on c (x @ c # s) = split_on c x @ split_on c s"
  by (induction x) (auto simp: split_on_not_Nil split: list.split)

lemma split_on_no_sep: "c \<notin> set x \<Longrightarrow> split_on c x = [x]"
  by (induction x) auto

lemma split_on_join:
  "xs \<noteq> [] \<Longrightarrow> \<forall>x \<in> set xs. c \<notin> set x \<Longrightarrow> split_on c (join [c] xs) = xs"
proof (induction xs rule: induct_list012)
  case (3 x y zs)
  then show ?case by (simp add: split_on_append_sep)
qed (simp_all add: split_on_no_sep)

lemma join_split_on: "join [c] (split_on c s) = s"
proof (induction s)
  case (Cons x s)
  obtain y ys where split: "split_on c s = y # ys" by (cases "split_on c s") auto
  with Cons.IH show ?case by (cases ys) auto
qed simp

lemma split_on_no_sep_in: "x \<in> set (split_on c s) \<Longrightarrow> c \<notin> set x"
  by (induction s arbitrary: x) (auto split: list.splits if_splits)

text \<open>
  \<open>str::lines\<close>: the pieces between line feeds, without a trailing carriage return where a line feed
  followed, and without the empty piece after a final line feed.
\<close>

definition strip_cr :: "string \<Rightarrow> string" where
  "strip_cr l = (if l \<noteq> [] \<and> last l = cr then butlast l else l)"

definition str_lines :: "string \<Rightarrow> string list" where
  "str_lines s = (let ps = split_on nl s in
     map strip_cr (butlast ps) @ (if last ps = [] then [] else [last ps]))"

text \<open>A line that \<open>lines\<close> gives back as it is.\<close>

definition plain_line :: "string \<Rightarrow> bool" where
  "plain_line l \<longleftrightarrow> nl \<notin> set l \<and> (l = [] \<or> last l \<noteq> cr)"

lemma plain_line_Cons: "c \<noteq> nl \<Longrightarrow> c \<noteq> cr \<Longrightarrow> plain_line (c # l) \<longleftrightarrow> plain_line l"
  by (auto simp: plain_line_def)

lemma plain_line_append: "plain_line m \<Longrightarrow> plain_line l \<Longrightarrow> plain_line (m @ l)"
  by (cases "l = []") (auto simp: plain_line_def)

lemma strip_cr_plain [simp]: "plain_line l \<Longrightarrow> strip_cr l = l"
  by (auto simp: plain_line_def strip_cr_def)

lemma str_lines_join [rust_str]:
  assumes "xs \<noteq> []" "list_all plain_line xs" "last xs \<noteq> []"
  shows "str_lines (join [nl] xs) = xs"
proof -
  have "\<forall>x \<in> set xs. nl \<notin> set x" using assms by (auto simp: list_all_iff plain_line_def)
  then have split: "split_on nl (join [nl] xs) = xs" using assms by (simp add: split_on_join)
  have "map strip_cr (butlast xs) = butlast xs"
    using assms by (intro map_idI) (auto simp: list_all_iff dest: in_set_butlastD)
  with split assms show ?thesis by (simp add: str_lines_def Let_def)
qed

lemma hd_join: "xs \<noteq> [] \<Longrightarrow> hd xs \<noteq> [] \<Longrightarrow> hd (join sep xs) = hd (hd xs)"
  by (cases "(sep, xs)" rule: join.cases) auto

lemma join_not_Nil: "xs \<noteq> [] \<Longrightarrow> last xs \<noteq> [] \<Longrightarrow> join sep xs \<noteq> []"
  by (induction sep xs rule: join.induct) auto

lemma last_join: "xs \<noteq> [] \<Longrightarrow> last xs \<noteq> [] \<Longrightarrow> last (join sep xs) = last (last xs)"
proof (induction sep xs rule: join.induct)
  case (3 sep x y ys)
  then have "join sep (y # ys) \<noteq> []" by (intro join_not_Nil) auto
  with 3 show ?case by simp
qed auto

text \<open>\<open>str::split_once\<close> and \<open>str::rsplit_once\<close> on one ASCII character.\<close>

fun split_once :: "char \<Rightarrow> string \<Rightarrow> (string \<times> string) option" where
  "split_once c [] = None"
| "split_once c (x # xs) = (if x = c then Some ([], xs) else map_option (\<lambda>(a, b). (x # a, b)) (split_once c xs))"

definition rsplit_once :: "char \<Rightarrow> string \<Rightarrow> (string \<times> string) option" where
  "rsplit_once c s = map_option (\<lambda>(b, a). (rev a, rev b)) (split_once c (rev s))"

lemma split_once_Some: "split_once c s = Some (a, b) \<longleftrightarrow> s = a @ c # b \<and> c \<notin> set a"
proof (induction s arbitrary: a)
  case (Cons x s)
  show ?case
  proof (cases a)
    case Nil
    then show ?thesis by auto
  next
    case (Cons y a')
    then show ?thesis using Cons.IH [of a'] by auto
  qed
qed simp

lemma rsplit_once_Some: "rsplit_once c s = Some (a, b) \<longleftrightarrow> s = a @ c # b \<and> c \<notin> set b"
proof -
  have "rsplit_once c s = Some (a, b) \<longleftrightarrow> split_once c (rev s) = Some (rev b, rev a)"
    by (auto simp: rsplit_once_def)
  also have "\<dots> \<longleftrightarrow> rev s = rev (a @ c # b) \<and> c \<notin> set b"
    by (simp add: split_once_Some)
  finally show ?thesis by (simp only: rev_is_rev_conv)
qed

text \<open>\<open>str::trim_end_matches\<close> on one ASCII character.\<close>

definition trim_end_matches :: "char \<Rightarrow> string \<Rightarrow> string" where
  "trim_end_matches c s = rev (dropWhile (\<lambda>x. x = c) (rev s))"

lemma trim_idem: "trim (trim s) = trim s"
proof -
  have "trim_end (trim_start (trim_end s)) = trim_start (trim_end s)"
  proof -
    have "strip_words (map rev white_space) (rev (trim_start (trim_end s))) = rev (trim_start (trim_end s))"
    proof (rule strip_words_stop)
      fix w assume w: "w \<in> set (map rev white_space)" "w \<noteq> []"
      have "prefix (rev (trim_start (trim_end s))) (strip_words (map rev white_space) (rev s))"
        using suffix_trim_start [of "trim_end s"] by (simp add: suffix_to_prefix trim_end_def)
      then show "\<not> prefix w (rev (trim_start (trim_end s)))" using strip_words_no_prefix [OF w] prefix_order.trans by blast
    qed
    then show ?thesis by (simp add: trim_end_def [of "trim_start (trim_end s)"])
  qed
  then show ?thesis by (simp add: trim_def)
qed

lemma trim_end_matches_Cons: "x \<noteq> c \<Longrightarrow> trim_end_matches c (x # s) = x # trim_end_matches c s"
  by (simp add: trim_end_matches_def dropWhile_append3)

text \<open>\<open>s.chars().any(char::is_whitespace)\<close>.\<close>

definition contains_whitespace :: "string \<Rightarrow> bool" where
  "contains_whitespace s \<longleftrightarrow> list_ex (\<lambda>ch. ch \<in> set white_space) (chars s)"

section \<open>Searching lists\<close>

text \<open>\<open>Iterator::position\<close>.\<close>

fun position :: "('a \<Rightarrow> bool) \<Rightarrow> 'a list \<Rightarrow> nat option" where
  "position P [] = None"
| "position P (x # xs) = (if P x then Some 0 else map_option Suc (position P xs))"

lemma position_Some:
  "position P xs = Some i \<longleftrightarrow> i < length xs \<and> P (xs ! i) \<and> (\<forall>j < i. \<not> P (xs ! j))"
proof (induction xs arbitrary: i)
  case (Cons x xs)
  then show ?case by (cases i) (auto simp: less_Suc_eq_0_disj)
qed simp

lemma position_None: "position P xs = None \<longleftrightarrow> (\<forall>x \<in> set xs. \<not> P x)"
  by (induction xs) simp_all

text \<open>\<open>for i in a..b { if P(i) { return Some(i) } }\<close>.\<close>

lemma find_upt_Some:
  "find P [a..<b] = Some i \<longleftrightarrow> a \<le> i \<and> i < b \<and> P i \<and> (\<forall>j. a \<le> j \<and> j < i \<longrightarrow> \<not> P j)"
proof (induction "b - a" arbitrary: a)
  case 0
  then show ?case by auto
next
  case (Suc n)
  then have ab: "a < b" and IH: "find P [Suc a..<b] = Some i \<longleftrightarrow>
      Suc a \<le> i \<and> i < b \<and> P i \<and> (\<forall>j. Suc a \<le> j \<and> j < i \<longrightarrow> \<not> P j)" by simp_all
  show ?case
  proof (cases "P a")
    case True
    with ab show ?thesis by (auto simp: upt_conv_Cons intro: le_neq_implies_less)
  next
    case False
    with ab IH show ?thesis
      by (simp add: upt_conv_Cons) (metis Suc_leI le_neq_implies_less less_eq_Suc_le less_or_eq_imp_le)
  qed
qed

lemma find_upt_None: "find P [a..<b] = None \<longleftrightarrow> (\<forall>j. a \<le> j \<and> j < b \<longrightarrow> \<not> P j)"
  by (auto simp: find_None_iff)


section \<open>Machine sizes\<close>

text \<open>\<open>usize\<close> on the 64-bit targets, and its saturating operations.\<close>

definition usize_max :: nat where
  "usize_max = 2 ^ 64 - 1"

definition saturating_add :: "nat \<Rightarrow> nat \<Rightarrow> nat" where
  "saturating_add a b = min usize_max (a + b)"

definition saturating_mul :: "nat \<Rightarrow> nat \<Rightarrow> nat" where
  "saturating_mul a b = min usize_max (a * b)"

lemma saturating_add_exact: "a + b \<le> usize_max \<Longrightarrow> saturating_add a b = a + b"
  by (simp add: saturating_add_def)

lemma saturating_add_min [simp]: "saturating_add (min usize_max a) b = min usize_max (a + b)"
  by (simp add: saturating_add_def min_def)

lemma saturating_mul_exact: "a * b \<le> usize_max \<Longrightarrow> saturating_mul a b = a * b"
  by (simp add: saturating_mul_def)

end
