(* ===== verification/Absolute_Path.thy ===== *)
theory Absolute_Path
  imports Rust_Prelude
begin

text \<open>
  \<open>codex-rs/utils/absolute-path\<close> on Unix: how a path from a patch, a policy or a command is resolved to
  the absolute, normalised path the rest of the program works with. A path is the string of its bytes;
  \<open>components\<close> is \<open>std::path::Path::components\<close>, and two paths are equal when their components are.
  The home directory (the \<open>dirs\<close> crate) is the parameter \<open>home\<close>.
\<close>

section \<open>Paths of the standard library\<close>

datatype path_component = RootDir | CurDir | ParentDir | Normal string

abbreviation slash :: char where "slash \<equiv> CHR ''/''"

definition component_of :: "string \<Rightarrow> path_component" where
  "component_of n = (if n = ''.'' then CurDir else if n = ''..'' then ParentDir else Normal n)"

definition is_absolute :: "string \<Rightarrow> bool" where
  "is_absolute p \<longleftrightarrow> prefix [slash] p"

text \<open>Empty pieces vanish, and so does every \<open>.\<close> but a leading one of a relative path.\<close>

definition components :: "string \<Rightarrow> path_component list" where
  "components p =
     (let parts = filter (\<lambda>n. n \<noteq> []) (split_on slash p) in
      if is_absolute p then RootDir # map component_of (filter (\<lambda>n. n \<noteq> ''.'') parts)
      else (case split_on slash p of
          n # _ \<Rightarrow> (if n = ''.'' then [CurDir] else []) @ map component_of (filter (\<lambda>n. n \<noteq> ''.'') parts)
        | [] \<Rightarrow> []))"

fun component_text :: "path_component \<Rightarrow> string" where
  "component_text RootDir = [slash]"
| "component_text CurDir = ''.''"
| "component_text ParentDir = ''..''"
| "component_text (Normal n) = n"

text \<open>The path made by pushing the components one after the other.\<close>

definition render :: "path_component list \<Rightarrow> string" where
  "render cs = (case cs of
      RootDir # rest \<Rightarrow> slash # join [slash] (map component_text rest)
    | _ \<Rightarrow> join [slash] (map component_text cs))"

definition file_name :: "string \<Rightarrow> string option" where
  "file_name p = (case rev (components p) of Normal n # _ \<Rightarrow> Some n | _ \<Rightarrow> None)"

text \<open>\<open>Path::file_stem\<close>: the file name up to its last dot, unless the dot comes first.\<close>

definition file_stem :: "string \<Rightarrow> string option" where
  "file_stem p = map_option (\<lambda>n.
     let parts = split_on (CHR ''.'') n; before = join ''.'' (butlast parts) in
     if length parts \<le> 1 \<or> before = [] then n else before) (file_name p)"

definition path_join :: "string \<Rightarrow> string \<Rightarrow> string" where
  "path_join base p =
     (if is_absolute p then p
      else if base = [] \<or> last base = slash then base @ p else base @ slash # p)"

definition path_parent :: "string \<Rightarrow> string option" where
  "path_parent p = (let cs = components p in
     if cs = [] \<or> last cs = RootDir then None else Some (render (butlast cs)))"

section \<open>Normalising and resolving\<close>

text \<open>One turn of the loop of \<open>normalize_path\<close>, on the components pushed so far.\<close>

fun normalize_step :: "path_component list \<Rightarrow> path_component \<Rightarrow> path_component list" where
  "normalize_step acc CurDir = acc"
| "normalize_step acc ParentDir = (if acc = [] \<or> last acc = RootDir then acc else butlast acc)"
| "normalize_step acc RootDir = [RootDir]"
| "normalize_step acc (Normal n) = acc @ [Normal n]"

definition normalize_path :: "string \<Rightarrow> string" where
  "normalize_path p =
     (let normalized = foldl normalize_step [] (components p) in
      if normalized = [] then ''.'' else render normalized)"

definition path_with_base :: "string \<Rightarrow> string \<Rightarrow> string" where
  "path_with_base p base_path = (if is_absolute p then p else path_join base_path p)"

definition absolutize_from :: "string \<Rightarrow> string \<Rightarrow> string" where
  "absolutize_from p base_path = normalize_path (path_with_base p base_path)"

definition maybe_expand_home_directory :: "string option \<Rightarrow> string \<Rightarrow> string" where
  "maybe_expand_home_directory home p =
     (case home of
        None \<Rightarrow> p
      | Some h \<Rightarrow> (case strip_prefix ''~'' p of
            None \<Rightarrow> p
          | Some rest \<Rightarrow>
              if rest = [] then h
              else (case strip_prefix [slash] rest of
                      Some r \<Rightarrow> path_join h (dropWhile (\<lambda>c. c = slash) r)
                    | None \<Rightarrow> p)))"

definition resolve_path_against_base :: "string option \<Rightarrow> string \<Rightarrow> string \<Rightarrow> string" where
  "resolve_path_against_base home p base_path = absolutize_from (maybe_expand_home_directory home p) base_path"

text \<open>Paths that are relative to the current directory of the process, when it can be read.\<close>

type_synonym current_dir = "(string, string) result"

definition absolutize :: "current_dir \<Rightarrow> string \<Rightarrow> (string, string) result" where
  "absolutize cwd p =
     (if is_absolute p then Ok (normalize_path p)
      else (case cwd of Err e \<Rightarrow> Err e | Ok dir \<Rightarrow> Ok (absolutize_from p dir)))"

definition from_absolute_path :: "string option \<Rightarrow> current_dir \<Rightarrow> string \<Rightarrow> (string, string) result" where
  "from_absolute_path home cwd p = absolutize cwd (maybe_expand_home_directory home p)"

definition from_absolute_path_checked :: "string option \<Rightarrow> string \<Rightarrow> (string, string) result" where
  "from_absolute_path_checked home p =
     (let expanded = maybe_expand_home_directory home p in
      if \<not> is_absolute expanded then Err (''path is not absolute: '' @ p)
      else Ok (absolutize_from expanded [slash]))"

text \<open>\<open>AbsolutePathBuf::join\<close> and \<open>AbsolutePathBuf::parent\<close>.\<close>

definition abs_join :: "string option \<Rightarrow> string \<Rightarrow> string \<Rightarrow> string" where
  "abs_join home self p = resolve_path_against_base home p self"

definition abs_parent :: "string \<Rightarrow> string option" where
  "abs_parent self = path_parent self"

section \<open>What resolution guarantees\<close>

text \<open>A component name as it appears in a normalised path.\<close>

definition wf_name :: "string \<Rightarrow> bool" where
  "wf_name n \<longleftrightarrow> n \<noteq> [] \<and> slash \<notin> set n \<and> n \<noteq> ''.'' \<and> n \<noteq> ''..''"

text \<open>An absolute and normalised path.\<close>

definition normalized_absolute :: "string \<Rightarrow> bool" where
  "normalized_absolute p \<longleftrightarrow> (\<exists>ns. list_all wf_name ns \<and> p = slash # join [slash] ns)"

lemma wf_name_component: "wf_name n \<Longrightarrow> component_of n = Normal n"
  by (simp add: wf_name_def component_of_def)

lemma components_names:
  "Normal n \<in> set (components p) \<Longrightarrow> wf_name n"
  by (auto simp: components_def component_of_def Let_def wf_name_def
      dest: split_on_no_sep_in split: if_splits list.splits)

lemma components_absolute: "is_absolute p \<Longrightarrow> \<exists>cs. components p = RootDir # cs \<and> RootDir \<notin> set cs"
  by (auto simp: components_def Let_def component_of_def split: if_splits)

text \<open>The loop keeps a root and well-formed names, whatever it reads.\<close>

definition norm_state :: "path_component list \<Rightarrow> bool" where
  "norm_state acc \<longleftrightarrow> (\<exists>ns. list_all wf_name ns \<and> acc = RootDir # map Normal ns)"

lemma norm_state_step:
  assumes "norm_state acc" "\<And>n. c = Normal n \<Longrightarrow> wf_name n"
  shows "norm_state (normalize_step acc c)"
proof -
  obtain ns where ns: "list_all wf_name ns" "acc = RootDir # map Normal ns"
    using assms(1) by (auto simp: norm_state_def)
  show ?thesis
  proof (cases c)
    case RootDir
    then show ?thesis by (auto simp: norm_state_def intro: exI [of _ "[]"])
  next
    case CurDir
    with assms show ?thesis by simp
  next
    case ParentDir
    show ?thesis
    proof (cases ns rule: rev_cases)
      case Nil
      with ParentDir ns show ?thesis by (simp add: norm_state_def)
    next
      case (snoc ms m)
      with ParentDir ns show ?thesis by (auto simp: norm_state_def intro!: exI [of _ ms])
    qed
  next
    case (Normal n)
    with assms(2) ns show ?thesis by (auto simp: norm_state_def intro!: exI [of _ "ns @ [n]"])
  qed
qed

lemma norm_state_foldl:
  "norm_state acc \<Longrightarrow> (\<And>n. Normal n \<in> set cs \<Longrightarrow> wf_name n) \<Longrightarrow> norm_state (foldl normalize_step acc cs)"
proof (induction cs arbitrary: acc)
  case (Cons c cs)
  then have "norm_state (normalize_step acc c)" by (auto intro: norm_state_step)
  with Cons show ?case by simp
qed simp

lemma render_norm: "render (RootDir # map Normal ns) = slash # join [slash] ns"
  by (simp add: render_def comp_def)

lemma normalize_path_absolute:
  assumes "is_absolute p"
  shows "normalized_absolute (normalize_path p)"
proof -
  obtain cs where cs: "components p = RootDir # cs" using components_absolute [OF assms] by blast
  have "norm_state (foldl normalize_step [RootDir] cs)"
    using components_names [of _ p] cs by (intro norm_state_foldl) (auto simp: norm_state_def)
  then obtain ns where ns: "list_all wf_name ns" "foldl normalize_step [] (components p) = RootDir # map Normal ns"
    by (auto simp: norm_state_def cs)
  then show ?thesis by (auto simp: normalize_path_def normalized_absolute_def render_norm)
qed

lemma is_absolute_join: "is_absolute base \<Longrightarrow> is_absolute (path_with_base p base)"
  by (auto simp: path_with_base_def path_join_def is_absolute_def prefix_def)

lemma normalized_absolute_is_absolute: "normalized_absolute p \<Longrightarrow> is_absolute p"
  by (auto simp: normalized_absolute_def is_absolute_def)

lemma split_on_normalized:
  "list_all wf_name ns \<Longrightarrow> split_on slash (slash # join [slash] ns) = [] # (if ns = [] then [[]] else ns)"
  by (auto simp: split_on_join wf_name_def list_all_iff)

lemma components_normalized:
  assumes "list_all wf_name ns"
  shows "components (slash # join [slash] ns) = RootDir # map Normal ns"
proof -
  have "filter (\<lambda>n. n \<noteq> [] \<and> n \<noteq> ''.'') ns = ns" "map component_of ns = map Normal ns"
    using assms by (auto simp: list_all_iff wf_name_def wf_name_component intro!: filter_True map_cong)
  then show ?thesis
    unfolding components_def Let_def split_on_normalized [OF assms] by (simp add: is_absolute_def)
qed

lemma foldl_normalized: "foldl normalize_step acc (map Normal ns) = acc @ map Normal ns"
  by (induction ns arbitrary: acc) simp_all

lemma normalize_path_normalized: "normalized_absolute p \<Longrightarrow> normalize_path p = p"
  by (auto simp: normalized_absolute_def normalize_path_def components_normalized foldl_normalized render_norm)

text \<open>
  Resolving any path, with any home directory, against an absolute base gives
  an absolute path without empty, \<open>.\<close> or \<open>..\<close> components; resolving the result again, against any base,
  changes nothing.
\<close>

lemma resolve_path_normalized:
  assumes "is_absolute base"
  shows "normalized_absolute (resolve_path_against_base home p base) \<and>
    resolve_path_against_base home (resolve_path_against_base home p base) base' =
      resolve_path_against_base home p base"
proof
  show norm: "normalized_absolute (resolve_path_against_base home p base)"
    using assms by (simp add: resolve_path_against_base_def absolutize_from_def is_absolute_join
        normalize_path_absolute)
  let ?r = "resolve_path_against_base home p base"
  have "maybe_expand_home_directory home ?r = ?r"
    using norm by (auto simp: maybe_expand_home_directory_def normalized_absolute_def strip_prefix_def
        split: option.splits)
  then show "resolve_path_against_base home ?r base' = ?r"
    using norm normalized_absolute_is_absolute [OF norm] normalize_path_normalized [OF norm]
    by (simp add: resolve_path_against_base_def absolutize_from_def path_with_base_def)
qed

lemma resolve_path_normalized_witness:
  "normalized_absolute (resolve_path_against_base (Some ''/home/u'') ''../b/./c'' ''/a/d'') \<and>
   resolve_path_against_base (Some ''/home/u'') ''../b/./c'' ''/a/d'' = ''/a/b/c'' \<and>
   resolve_path_against_base (Some ''/home/u'') ''/a/b/c'' ''x'' = ''/a/b/c''"
proof -
  have r: "resolve_path_against_base (Some ''/home/u'') ''../b/./c'' ''/a/d'' = ''/a/b/c''"
    by code_simp
  have "is_absolute ''/a/d''" by (simp add: is_absolute_def)
  from resolve_path_normalized [OF this, of "Some ''/home/u''" "''../b/./c''" "''x''"] r show ?thesis by simp
qed

section \<open>Stems\<close>

lemma split_on_piece: "x \<in> set (split_on c s) \<Longrightarrow> length x \<le> length s \<and> (length x = length s \<longrightarrow> x = s)"
proof (induction s arbitrary: x)
  case (Cons a s)
  obtain y ys where split: "split_on c s = y # ys" by (cases "split_on c s") auto
  have y: "length y \<le> length s" "length y = length s \<longrightarrow> y = s" using Cons.IH [of y] split by simp_all
  show ?case
  proof (cases "a = c")
    case True
    with Cons show ?thesis by fastforce
  next
    case False
    with split Cons.prems have "x = a # y \<or> x \<in> set ys" by simp
    then show ?thesis
    proof
      assume "x \<in> set ys"
      with Cons.IH [of x] split show ?thesis by auto
    qed (use y in auto)
  qed
qed simp

lemma file_name_piece:
  assumes "file_name p = Some n"
  shows "n \<in> set (split_on slash p) \<and> wf_name n"
proof -
  from assms have "Normal n \<in> set (components p)"
    by (auto simp: file_name_def split: list.splits path_component.splits)
  then show ?thesis using components_names [of n p]
    by (auto simp: components_def component_of_def Let_def split: if_splits list.splits)
qed

lemma file_stem_cases:
  assumes "file_name p = Some n" "file_stem p = Some m"
  shows "m = n \<or> (\<exists>ext. n = m @ ''.'' @ ext)"
proof -
  let ?parts = "split_on (CHR ''.'') n"
  have n: "join ''.'' ?parts = n" by (rule join_split_on)
  show ?thesis
  proof (cases "length ?parts \<le> 1 \<or> join ''.'' (butlast ?parts) = []")
    case True
    with assms show ?thesis by (auto simp: file_stem_def Let_def)
  next
    case False
    then obtain xs x where xs: "?parts = xs @ [x]" "xs \<noteq> []" by (cases ?parts rule: rev_cases) auto
    have "join ''.'' (xs @ [x]) = join ''.'' xs @ ''.'' @ x"
      using xs(2) by (induction xs rule: induct_list012) simp_all
    with False assms n xs show ?thesis by (auto simp: file_stem_def Let_def)
  qed
qed

lemma file_stem_shorter:
  assumes "file_stem p = Some m" "m \<noteq> p"
  shows "length m < length p"
proof -
  obtain n where n: "file_name p = Some n" using assms(1) by (auto simp: file_stem_def)
  have "length n \<le> length p" "length n = length p \<longrightarrow> n = p" using file_name_piece [OF n] split_on_piece by blast+
  with file_stem_cases [OF n assms(1)] assms(2) show ?thesis by fastforce
qed


section \<open>Resolving a bare name\<close>

text \<open>A bare file name, other than the home directory's shorthand, is resolved to a path with that file name.\<close>

lemma resolve_bare_name:
  assumes "wf_name n" "n \<noteq> ''~''" "is_absolute dir" "from_absolute_path home (Ok dir) n = Ok p"
  shows "file_name p = Some n"
proof -
  have slash: "slash \<notin> set n" using assms(1) by (simp add: wf_name_def)
  have "\<not> is_absolute n" using slash assms(1) by (cases n) (auto simp: is_absolute_def wf_name_def)
  moreover have "maybe_expand_home_directory home n = n"
    using assms(2) slash
    by (auto simp: maybe_expand_home_directory_def strip_prefix_def prefix_def split: option.splits if_splits)
  ultimately have p: "p = normalize_path (path_join dir n)"
    using assms(4) by (simp add: from_absolute_path_def absolutize_def absolutize_from_def path_with_base_def)
  obtain d where d: "path_join dir n = d @ slash # n"
  proof (cases "last dir = slash")
    case True
    then have "dir = butlast dir @ [slash]" using assms(3) by (metis append_butlast_last_id is_absolute_def prefix_Nil list.discI)
    with True \<open>\<not> is_absolute n\<close> that [of "butlast dir"] show ?thesis by (simp add: path_join_def)
  next
    case False
    with assms(3) \<open>\<not> is_absolute n\<close> that [of dir] show ?thesis by (cases dir) (auto simp: path_join_def is_absolute_def)
  qed
  have abs: "is_absolute (path_join dir n)" using is_absolute_join [OF assms(3), of n] \<open>\<not> is_absolute n\<close> by (simp add: path_with_base_def)
  then obtain cs where cs: "components (path_join dir n) = RootDir # cs @ [Normal n]"
    using assms(1) split_on_no_sep [OF slash]
    by (auto simp: components_def d split_on_append wf_name_component wf_name_def)
  have "norm_state (foldl normalize_step [RootDir] cs)"
    using components_names [of _ "path_join dir n"] cs by (intro norm_state_foldl) (auto simp: norm_state_def)
  then obtain ns where ns: "list_all wf_name ns" "foldl normalize_step [RootDir] cs = RootDir # map Normal ns"
    by (auto simp: norm_state_def)
  then have "p = render (RootDir # map Normal (ns @ [n]))" by (simp add: p normalize_path_def cs)
  then have "components p = RootDir # map Normal (ns @ [n])"
    using components_normalized [of "ns @ [n]"] ns(1) assms(1) unfolding render_norm by simp
  then show ?thesis by (simp add: file_name_def)
qed

end
