(* ===== verification/Exec_Policy.thy ===== *)
theory Exec_Policy
  imports Absolute_Path "HOL-Library.List_Lexorder" "HOL-Library.Char_ord"
begin

text \<open>
  \<open>codex-rs/execpolicy/src\<close>: the rules that decide whether a command may run. \<open>decision.rs\<close>, \<open>rule.rs\<close>,
  \<open>executable_name.rs\<close> (on Unix) and \<open>policy.rs\<close>.

  The trait object \<open>dyn Rule\<close> has one implementation, \<open>PrefixRule\<close>, which stands for it. The
  \<open>MultiMap\<close> of rules is the list of its keys with the rules inserted under each, in order; a
  \<open>HashMap\<close> is a map. The home directory and the current directory of the process, which resolving a
  program path reads, are arguments. \<open>None\<close> is a panic.
\<close>

section \<open>Decisions\<close>

datatype decision = Allow | Prompt | Forbidden

text \<open>The derived order: a later constructor is more restrictive.\<close>

fun severity :: "decision \<Rightarrow> nat" where
  "severity Allow = 0"
| "severity Prompt = 1"
| "severity Forbidden = 2"

lemma severity_inject: "severity a = severity b \<Longrightarrow> a = b"
  by (cases a; cases b) simp_all

instantiation decision :: linorder
begin

definition less_eq_decision :: "decision \<Rightarrow> decision \<Rightarrow> bool" where
  "less_eq_decision a b \<longleftrightarrow> severity a \<le> severity b"

definition less_decision :: "decision \<Rightarrow> decision \<Rightarrow> bool" where
  "less_decision a b \<longleftrightarrow> severity a < severity b"

instance
  by standard (auto simp: less_eq_decision_def less_decision_def intro: severity_inject)

end

lemma Forbidden_greatest: "d \<le> Forbidden"
  by (cases d) (simp_all add: less_eq_decision_def)

lemma Allow_least: "Allow \<le> d"
  by (cases d) (simp_all add: less_eq_decision_def)

record text_position =
  pos_line :: nat
  pos_column :: nat

record text_range =
  range_start :: text_position
  range_end :: text_position

record error_location =
  loc_path :: string
  loc_range :: text_range

text \<open>The errors of the crate; those of the Starlark evaluator itself are not produced by this code.\<close>

datatype policy_error =
    InvalidDecision string
  | InvalidPattern string
  | InvalidExample string
  | InvalidRule string
  | ExampleDidNotMatch "string list" "string list" "error_location option"
  | ExampleDidMatch string string "error_location option"

fun with_location :: "error_location \<Rightarrow> policy_error \<Rightarrow> policy_error" where
  "with_location l (ExampleDidNotMatch rs es None) = ExampleDidNotMatch rs es (Some l)"
| "with_location l (ExampleDidMatch r e None) = ExampleDidMatch r e (Some l)"
| "with_location l other = other"

definition parse_decision :: "string \<Rightarrow> (policy_error, decision) result" where
  "parse_decision raw =
     (if raw = ''allow'' then Ok Allow else if raw = ''prompt'' then Ok Prompt
      else if raw = ''forbidden'' then Ok Forbidden else Err (InvalidDecision raw))"

section \<open>Patterns and rules\<close>

datatype pattern_token = Single string | Alts "string list"

fun token_matches :: "pattern_token \<Rightarrow> string \<Rightarrow> bool" where
  "token_matches (Single expected) token \<longleftrightarrow> expected = token"
| "token_matches (Alts alternatives) token \<longleftrightarrow> list_ex (\<lambda>alt. alt = token) alternatives"

fun alternatives :: "pattern_token \<Rightarrow> string list" where
  "alternatives (Single expected) = [expected]"
| "alternatives (Alts alts) = alts"

record prefix_pattern =
  pat_first :: string
  pat_rest :: "pattern_token list"

definition matches_prefix :: "prefix_pattern \<Rightarrow> string list \<Rightarrow> string list option" where
  "matches_prefix p cmd =
     (let pattern_length = length (pat_rest p) + 1 in
      if length cmd < pattern_length \<or> hd cmd \<noteq> pat_first p then None
      else if list_all (\<lambda>(t, c). token_matches t c) (zip (pat_rest p) (take (pattern_length - 1) (tl cmd)))
      then Some (take pattern_length cmd) else None)"

datatype rule_match =
    PrefixRuleMatch "string list" decision "string option" "string option"
  | HeuristicsRuleMatch "string list" decision

fun match_decision :: "rule_match \<Rightarrow> decision" where
  "match_decision (PrefixRuleMatch _ d _ _) = d"
| "match_decision (HeuristicsRuleMatch _ d) = d"

fun with_resolved_program :: "string \<Rightarrow> rule_match \<Rightarrow> rule_match" where
  "with_resolved_program p (PrefixRuleMatch matched_prefix d _ justification) =
     PrefixRuleMatch matched_prefix d (Some p) justification"
| "with_resolved_program p other = other"

record prefix_rule =
  rule_pattern :: prefix_pattern
  rule_decision :: decision
  rule_justification :: "string option"

definition rule_program :: "prefix_rule \<Rightarrow> string" where
  "rule_program r = pat_first (rule_pattern r)"

definition rule_matches :: "prefix_rule \<Rightarrow> string list \<Rightarrow> rule_match option" where
  "rule_matches r cmd =
     map_option (\<lambda>matched. PrefixRuleMatch matched (rule_decision r) None (rule_justification r))
       (matches_prefix (rule_pattern r) cmd)"

datatype network_rule_protocol = Http | Https | Socks5Tcp | Socks5Udp

definition parse_protocol :: "string \<Rightarrow> (policy_error, network_rule_protocol) result" where
  "parse_protocol raw =
     (if raw = ''http'' then Ok Http
      else if raw \<in> {''https'', ''https_connect'', ''http-connect''} then Ok Https
      else if raw = ''socks5_tcp'' then Ok Socks5Tcp
      else if raw = ''socks5_udp'' then Ok Socks5Udp
      else Err (InvalidRule (''network_rule protocol must be one of http, https, socks5_tcp, socks5_udp (got '' @ raw @ '')'')))"

fun as_policy_string :: "network_rule_protocol \<Rightarrow> string" where
  "as_policy_string Http = ''http''"
| "as_policy_string Https = ''https''"
| "as_policy_string Socks5Tcp = ''socks5_tcp''"
| "as_policy_string Socks5Udp = ''socks5_udp''"

record network_rule =
  net_host :: string
  net_protocol :: network_rule_protocol
  net_decision :: decision
  net_justification :: "string option"

section \<open>Hosts of network rules\<close>

definition msg_host_empty :: string where "msg_host_empty = ''network_rule host cannot be empty''"
definition msg_host_form :: string where
  "msg_host_form = ''network_rule host must be a hostname or IP literal (without scheme or path)''"
definition msg_host_bracket :: string where
  "msg_host_bracket = ''network_rule host has an invalid bracketed IPv6 literal''"
definition msg_host_suffix :: "string \<Rightarrow> string" where
  "msg_host_suffix raw = ''network_rule host contains an unsupported suffix: '' @ raw"
definition msg_host_wildcard :: string where
  "msg_host_wildcard = ''network_rule host must be a specific host; wildcards are not allowed''"
definition msg_host_space :: string where "msg_host_space = ''network_rule host cannot contain whitespace''"

definition is_port :: "string \<Rightarrow> bool" where
  "is_port port \<longleftrightarrow> port \<noteq> [] \<and> list_all is_ascii_digit port"

text \<open>The host without brackets and port.\<close>

definition strip_port :: "string \<Rightarrow> string \<Rightarrow> (policy_error, string) result" where
  "strip_port raw host =
     (case strip_prefix ''['' host of
        Some stripped \<Rightarrow>
          (case split_once (CHR '']'') stripped of
             None \<Rightarrow> Err (InvalidRule msg_host_bracket)
           | Some (inside, rest) \<Rightarrow>
               (let port_ok = (case strip_prefix '':'' rest of Some port \<Rightarrow> is_port port | None \<Rightarrow> False) in
                if rest \<noteq> [] \<and> \<not> port_ok then Err (InvalidRule (msg_host_suffix raw)) else Ok inside))
      | None \<Rightarrow>
          if length (filter (\<lambda>c. c = CHR '':'') host) = 1 then
            (case rsplit_once (CHR '':'') host of
               Some (candidate, port) \<Rightarrow> Ok (if candidate \<noteq> [] \<and> is_port port then candidate else host)
             | None \<Rightarrow> Ok host)
          else Ok host)"

definition normalize_network_rule_host :: "string \<Rightarrow> (policy_error, string) result" where
  "normalize_network_rule_host raw =
     (let host = trim raw in
      if host = [] then Err (InvalidRule msg_host_empty)
      else if str_contains host ''://'' \<or> CHR ''/'' \<in> set host \<or> CHR ''?'' \<in> set host \<or> CHR ''#'' \<in> set host
      then Err (InvalidRule msg_host_form)
      else
        (case strip_port raw host of
           Err e \<Rightarrow> Err e
         | Ok host \<Rightarrow>
             (let normalized = to_ascii_lowercase (trim (trim_end_matches (CHR ''.'') host)) in
              if normalized = [] then Err (InvalidRule msg_host_empty)
              else if CHR ''*'' \<in> set normalized then Err (InvalidRule msg_host_wildcard)
              else if contains_whitespace normalized then Err (InvalidRule msg_host_space)
              else Ok normalized)))"

section \<open>Policies\<close>

type_synonym multimap = "(string \<times> prefix_rule list) list"

fun mm_insert :: "string \<Rightarrow> prefix_rule \<Rightarrow> multimap \<Rightarrow> multimap" where
  "mm_insert k r [] = [(k, [r])]"
| "mm_insert k r ((k', rs) # m) = (if k = k' then (k', rs @ [r]) # m else (k', rs) # mm_insert k r m)"

record policy =
  rules_by_program :: multimap
  network_rules :: "network_rule list"
  host_executables_by_name :: "string \<Rightarrow> string list option"

definition empty_policy :: policy where
  "empty_policy = \<lparr>rules_by_program = [], network_rules = [], host_executables_by_name = (\<lambda>_. None)\<rparr>"

fun render_pattern_token :: "pattern_token \<Rightarrow> string" where
  "render_pattern_token (Single value) = value"
| "render_pattern_token (Alts alts) = ''['' @ join ''|'' alts @ '']''"

definition get_allowed_prefixes :: "policy \<Rightarrow> string list list" where
  "get_allowed_prefixes p =
     remdups_adj (sort
       [pat_first (rule_pattern r) # map render_pattern_token (pat_rest (rule_pattern r)).
          (k, rs) \<leftarrow> rules_by_program p, r \<leftarrow> rs, rule_decision r = Allow])"

definition add_prefix_rule :: "string list \<Rightarrow> decision \<Rightarrow> policy \<Rightarrow> (policy_error, policy) result" where
  "add_prefix_rule tokens d p =
     (case tokens of
        [] \<Rightarrow> Err (InvalidPattern ''prefix cannot be empty'')
      | first_token # rest \<Rightarrow>
          Ok (p\<lparr>rules_by_program := mm_insert first_token
                 \<lparr>rule_pattern = \<lparr>pat_first = first_token, pat_rest = map Single rest\<rparr>,
                  rule_decision = d, rule_justification = None\<rparr> (rules_by_program p)\<rparr>))"

definition add_network_rule :: "string \<Rightarrow> network_rule_protocol \<Rightarrow> decision \<Rightarrow> string option \<Rightarrow> policy \<Rightarrow>
    (policy_error, policy) result" where
  "add_network_rule host protocol d justification p =
     (case normalize_network_rule_host host of
        Err e \<Rightarrow> Err e
      | Ok host \<Rightarrow>
          if (case justification of Some raw \<Rightarrow> trim raw = [] | None \<Rightarrow> False)
          then Err (InvalidRule ''justification cannot be empty'')
          else Ok (p\<lparr>network_rules := network_rules p @
                 [\<lparr>net_host = host, net_protocol = protocol, net_decision = d, net_justification = justification\<rparr>]\<rparr>))"

definition set_host_executable_paths :: "string \<Rightarrow> string list \<Rightarrow> policy \<Rightarrow> policy" where
  "set_host_executable_paths name paths p =
     p\<lparr>host_executables_by_name := (host_executables_by_name p)(name \<mapsto> paths)\<rparr>"

definition mm_union :: "multimap \<Rightarrow> multimap \<Rightarrow> multimap" where
  "mm_union m n = fold (\<lambda>(program, rs) m. fold (mm_insert program) rs m) n m"

definition merge_overlay :: "policy \<Rightarrow> policy \<Rightarrow> policy" where
  "merge_overlay p overlay =
     \<lparr>rules_by_program = mm_union (rules_by_program p) (rules_by_program overlay),
      network_rules = network_rules p @ network_rules overlay,
      host_executables_by_name = host_executables_by_name p ++ host_executables_by_name overlay\<rparr>"

definition upsert_domain :: "string \<Rightarrow> string list \<Rightarrow> string list" where
  "upsert_domain host entries = filter (\<lambda>entry. entry \<noteq> host) entries @ [host]"

definition domain_step :: "network_rule \<Rightarrow> string list \<times> string list \<Rightarrow> string list \<times> string list" where
  "domain_step r ad =
     (case net_decision r of
        Allow \<Rightarrow> (upsert_domain (net_host r) (fst ad), filter (\<lambda>entry. entry \<noteq> net_host r) (snd ad))
      | Forbidden \<Rightarrow> (filter (\<lambda>entry. entry \<noteq> net_host r) (fst ad), upsert_domain (net_host r) (snd ad))
      | Prompt \<Rightarrow> ad)"

definition compiled_network_domains :: "policy \<Rightarrow> string list \<times> string list" where
  "compiled_network_domains p = fold domain_step (network_rules p) ([], [])"

section \<open>Checking a command\<close>

text \<open>On Unix the lookup key of an executable is its name.\<close>

definition executable_lookup_key :: "string \<Rightarrow> string" where
  "executable_lookup_key raw = raw"

definition executable_path_lookup_key :: "string \<Rightarrow> string option" where
  "executable_path_lookup_key path = map_option executable_lookup_key (file_name path)"

text \<open>What the process knows of its environment.\<close>

record environment =
  env_home :: "string option"
  env_cwd :: current_dir

definition match_exact_rules :: "policy \<Rightarrow> string list \<Rightarrow> rule_match list option" where
  "match_exact_rules p cmd =
     (case cmd of
        [] \<Rightarrow> None
      | first # _ \<Rightarrow>
          Some (case map_of (rules_by_program p) first of
                  Some rs \<Rightarrow> List.map_filter (\<lambda>r. rule_matches r cmd) rs
                | None \<Rightarrow> []))"

definition match_host_executable_rules :: "environment \<Rightarrow> policy \<Rightarrow> string list \<Rightarrow> rule_match list" where
  "match_host_executable_rules env p cmd =
     (case cmd of
        [] \<Rightarrow> []
      | first # args \<Rightarrow>
          (case from_absolute_path (env_home env) (env_cwd env) first of
             Err _ \<Rightarrow> []
           | Ok program \<Rightarrow>
               (case executable_path_lookup_key program of
                  None \<Rightarrow> []
                | Some basename \<Rightarrow>
                    (case map_of (rules_by_program p) basename of
                       None \<Rightarrow> []
                     | Some rs \<Rightarrow>
                         if (case host_executables_by_name p basename of
                               Some paths \<Rightarrow> program \<notin> set paths | None \<Rightarrow> False)
                         then []
                         else map (with_resolved_program program)
                                (List.map_filter (\<lambda>r. rule_matches r (basename # args)) rs)))))"

record match_options =
  resolve_host_executables :: bool

definition default_options :: match_options where
  "default_options = \<lparr>resolve_host_executables = False\<rparr>"

definition matches_for_command_with_options :: "environment \<Rightarrow> policy \<Rightarrow> string list \<Rightarrow>
    (string list \<Rightarrow> decision) option \<Rightarrow> match_options \<Rightarrow> rule_match list" where
  "matches_for_command_with_options env p cmd heuristics_fallback options =
     (let matched_rules =
        (case match_exact_rules p cmd of
           Some (m # ms) \<Rightarrow> m # ms
         | _ \<Rightarrow> if resolve_host_executables options then match_host_executable_rules env p cmd else []) in
      case heuristics_fallback of
        Some fallback \<Rightarrow> if matched_rules = [] then [HeuristicsRuleMatch cmd (fallback cmd)] else matched_rules
      | None \<Rightarrow> matched_rules)"

definition matches_for_command :: "environment \<Rightarrow> policy \<Rightarrow> string list \<Rightarrow> (string list \<Rightarrow> decision) option \<Rightarrow>
    rule_match list" where
  "matches_for_command env p cmd heuristics_fallback =
     matches_for_command_with_options env p cmd heuristics_fallback default_options"

record evaluation =
  eval_decision :: decision
  matched_rules :: "rule_match list"

definition is_match :: "evaluation \<Rightarrow> bool" where
  "is_match ev \<longleftrightarrow> list_ex (\<lambda>m. case m of HeuristicsRuleMatch _ _ \<Rightarrow> False | _ \<Rightarrow> True) (matched_rules ev)"

text \<open>The maximum of the decisions; the code panics when there is none.\<close>

definition from_matches :: "rule_match list \<Rightarrow> evaluation option" where
  "from_matches ms =
     (case ms of
        [] \<Rightarrow> None
      | m # rest \<Rightarrow> Some \<lparr>eval_decision = fold (\<lambda>m d. max d (match_decision m)) rest (match_decision m),
                         matched_rules = ms\<rparr>)"

definition check_with_options :: "environment \<Rightarrow> policy \<Rightarrow> string list \<Rightarrow> (string list \<Rightarrow> decision) \<Rightarrow> match_options \<Rightarrow>
    evaluation option" where
  "check_with_options env p cmd fallback options =
     from_matches (matches_for_command_with_options env p cmd (Some fallback) options)"

definition check :: "environment \<Rightarrow> policy \<Rightarrow> string list \<Rightarrow> (string list \<Rightarrow> decision) \<Rightarrow> evaluation option" where
  "check env p cmd fallback =
     from_matches (matches_for_command_with_options env p cmd (Some fallback) default_options)"

definition check_multiple_with_options :: "environment \<Rightarrow> policy \<Rightarrow> string list list \<Rightarrow> (string list \<Rightarrow> decision) \<Rightarrow>
    match_options \<Rightarrow> evaluation option" where
  "check_multiple_with_options env p commands fallback options =
     from_matches (concat (map (\<lambda>command. matches_for_command_with_options env p command (Some fallback) options) commands))"

definition check_multiple :: "environment \<Rightarrow> policy \<Rightarrow> string list list \<Rightarrow> (string list \<Rightarrow> decision) \<Rightarrow> evaluation option" where
  "check_multiple env p commands fallback = check_multiple_with_options env p commands fallback default_options"

section \<open>The multimap of rules\<close>

definition mm_get :: "multimap \<Rightarrow> string \<Rightarrow> prefix_rule list" where
  "mm_get m k = (case map_of m k of Some rs \<Rightarrow> rs | None \<Rightarrow> [])"

text \<open>What the policy relies on: an insertion appends to the values of its key.\<close>

locale multi_map =
  fixes ins :: "'k \<Rightarrow> 'v \<Rightarrow> 'm \<Rightarrow> 'm" and get :: "'m \<Rightarrow> 'k \<Rightarrow> 'v list"
  assumes get_ins: "get (ins k v m) k' = (if k' = k then get m k @ [v] else get m k')"
begin

lemma get_ins_all: "get (fold (ins k) vs m) k' = (if k' = k then get m k @ vs else get m k')"
  by (induction vs arbitrary: m) (simp_all add: get_ins)

lemma get_union:
  "get (fold (\<lambda>(k, vs) m. fold (ins k) vs m) es m) k' = get m k' @ concat (map snd (filter (\<lambda>e. fst e = k') es))"
proof (induction es arbitrary: m)
  case (Cons e es)
  obtain k vs where "e = (k, vs)" by (cases e)
  with Cons show ?case by (simp add: get_ins_all)
qed simp

end

interpretation mm: multi_map mm_insert mm_get
proof
  fix k :: string and v :: prefix_rule and m :: multimap and k' :: string
  show "mm_get (mm_insert k v m) k' = (if k' = k then mm_get m k @ [v] else mm_get m k')"
    by (induction k v m rule: mm_insert.induct) (auto simp: mm_get_def)
qed

definition wf_multimap :: "multimap \<Rightarrow> bool" where
  "wf_multimap m \<longleftrightarrow> distinct (map fst m)"

lemma mm_insert_keys: "fst ` set (mm_insert k r m) = insert k (fst ` set m)"
  by (induction k r m rule: mm_insert.induct) auto

lemma wf_mm_insert: "wf_multimap m \<Longrightarrow> wf_multimap (mm_insert k r m)"
proof (induction k r m rule: mm_insert.induct)
  case (2 k r k' rs m)
  then show ?case using mm_insert_keys [of k r m] by (auto simp: wf_multimap_def)
qed (simp add: wf_multimap_def)

lemma wf_mm_union: "wf_multimap m \<Longrightarrow> wf_multimap (mm_union m n)"
proof -
  have inner: "wf_multimap (fold (mm_insert k) rs m)" if "wf_multimap m" for k rs m
    using that by (induction rs arbitrary: m) (simp_all add: wf_mm_insert)
  show "wf_multimap m \<Longrightarrow> wf_multimap (mm_union m n)"
    unfolding mm_union_def by (induction n arbitrary: m) (auto simp: inner)
qed

lemma wf_multimap_get:
  "wf_multimap m \<Longrightarrow> concat (map snd (filter (\<lambda>e. fst e = k) m)) = mm_get m k"
proof (induction m)
  case (Cons e m)
  obtain k' rs where e: "e = (k', rs)" by (cases e)
  have "filter (\<lambda>e. fst e = k') m = []" if "k = k'"
    using Cons.prems e by (auto simp: wf_multimap_def filter_empty_conv)
  with Cons e show ?case by (auto simp: wf_multimap_def mm_get_def)
qed (simp add: mm_get_def)

lemma mm_get_union: "wf_multimap n \<Longrightarrow> mm_get (mm_union m n) k = mm_get m k @ mm_get n k"
  unfolding mm_union_def by (simp only: mm.get_union wf_multimap_get)

section \<open>The strictest matching rule decides\<close>

lemma from_matches_None: "from_matches ms = None \<longleftrightarrow> ms = []"
  by (simp add: from_matches_def split: list.split)

lemma fold_max: "fold (\<lambda>m d. max d (f m)) ms a = Max (insert a (f ` set ms))"
  for f :: "'a \<Rightarrow> 'b::linorder"
proof (induction ms arbitrary: a)
  case (Cons m ms)
  have "Max (insert (max a (f m)) (f ` set ms)) = Max (insert a (insert (f m) (f ` set ms)))"
    by (cases "ms = []") (simp_all add: max.assoc)
  then show ?case by (simp add: Cons.IH)
qed simp

lemma from_matches_Some:
  "ms \<noteq> [] \<Longrightarrow> from_matches ms = Some \<lparr>eval_decision = Max (match_decision ` set ms), matched_rules = ms\<rparr>"
  by (cases ms) (simp_all add: from_matches_def fold_max)

text \<open>The rules that apply to a command as it is written.\<close>

definition applicable :: "policy \<Rightarrow> string list \<Rightarrow> prefix_rule list" where
  "applicable p cmd = (if cmd = [] then [] else
     filter (\<lambda>r. matches_prefix (rule_pattern r) cmd \<noteq> None) (mm_get (rules_by_program p) (hd cmd)))"

lemma map_filter_rule_matches:
  "List.map_filter (\<lambda>r. rule_matches r cmd) rs =
     map (\<lambda>r. PrefixRuleMatch (the (matches_prefix (rule_pattern r) cmd)) (rule_decision r) None (rule_justification r))
       (filter (\<lambda>r. matches_prefix (rule_pattern r) cmd \<noteq> None) rs)"
  by (induction rs) (auto simp: rule_matches_def)

lemma match_exact_applicable:
  "match_exact_rules p cmd = (if cmd = [] then None else
     Some (map (\<lambda>r. PrefixRuleMatch (the (matches_prefix (rule_pattern r) cmd)) (rule_decision r) None (rule_justification r))
       (applicable p cmd)))"
  by (cases cmd) (simp_all add: match_exact_rules_def applicable_def mm_get_def map_filter_rule_matches split: option.split)

definition rule_match_of :: "string list \<Rightarrow> prefix_rule \<Rightarrow> rule_match" where
  "rule_match_of cmd r =
     PrefixRuleMatch (the (matches_prefix (rule_pattern r) cmd)) (rule_decision r) None (rule_justification r)"

lemma match_decision_rule_match_of [simp]: "match_decision (rule_match_of cmd r) = rule_decision r"
  by (simp add: rule_match_of_def)

lemma matches_default:
  "matches_for_command_with_options env p cmd (Some fallback) default_options =
     (if applicable p cmd = [] then [HeuristicsRuleMatch cmd (fallback cmd)] else map (rule_match_of cmd) (applicable p cmd))"
proof -
  have "match_exact_rules p cmd = (if cmd = [] then None else Some (map (rule_match_of cmd) (applicable p cmd)))"
    by (simp add: match_exact_applicable rule_match_of_def [abs_def])
  then show ?thesis
    by (cases "applicable p cmd") (auto simp: matches_for_command_with_options_def default_options_def applicable_def)
qed

lemma matches_not_Nil: "matches_for_command_with_options env p cmd (Some fallback) options \<noteq> []"
  by (simp add: matches_for_command_with_options_def Let_def)

text \<open>The decision as a function.\<close>

definition decide :: "policy \<Rightarrow> (string list \<Rightarrow> decision) \<Rightarrow> string list \<Rightarrow> decision" where
  "decide p fallback cmd =
     (if applicable p cmd = [] then fallback cmd else Max (rule_decision ` set (applicable p cmd)))"

lemma check_decide:
  "check env p cmd fallback = Some \<lparr>eval_decision = decide p fallback cmd,
     matched_rules = (if applicable p cmd = [] then [HeuristicsRuleMatch cmd (fallback cmd)]
                      else map (rule_match_of cmd) (applicable p cmd))\<rparr>"
  by (simp add: check_def matches_default from_matches_Some decide_def image_image)

lemma is_match_rules [simp]:
  "is_match \<lparr>eval_decision = d, matched_rules = map (rule_match_of cmd) rs\<rparr> \<longleftrightarrow> rs \<noteq> []"
  "\<not> is_match \<lparr>eval_decision = d, matched_rules = [HeuristicsRuleMatch cmd e]\<rparr>"
  by (cases rs; simp add: is_match_def rule_match_of_def) (simp add: is_match_def)

text \<open>
  C3 (check_strictest). Checking a command never panics, and the strictest rule that matches decides:
  the decision is the maximum over the rules of the command's program whose pattern is a prefix of
  the command; the heuristics are asked exactly when no rule matches, and then they decide.
\<close>

theorem check_strictest:
  "\<exists>ev. check env p cmd fallback = Some ev \<and>
     (is_match ev \<longleftrightarrow> applicable p cmd \<noteq> []) \<and>
     eval_decision ev = (if applicable p cmd = [] then fallback cmd
                         else Max (rule_decision ` set (applicable p cmd)))"
  by (auto simp: check_decide decide_def)

text \<open>Several commands at once get the strictest of their single decisions; no command at all is a panic.\<close>

lemma check_multiple_parts:
  "check_multiple_with_options env p commands fallback options =
     (if commands = [] then None else
        Some \<lparr>eval_decision = Max ((\<lambda>c. eval_decision (the (check_with_options env p c fallback options))) ` set commands),
              matched_rules = concat (map (\<lambda>c. matched_rules (the (check_with_options env p c fallback options))) commands)\<rparr>)"
proof -
  let ?ms = "\<lambda>c. matches_for_command_with_options env p c (Some fallback) options"
  have one: "check_with_options env p c fallback options = Some \<lparr>eval_decision = Max (match_decision ` set (?ms c)), matched_rules = ?ms c\<rparr>" for c
    by (simp add: check_with_options_def from_matches_Some matches_not_Nil)
  have "Max (match_decision ` (\<Union>c\<in>set commands. set (?ms c))) = Max ((\<lambda>c. Max (match_decision ` set (?ms c))) ` set commands)"
    if "commands \<noteq> []" using that
  proof (induction commands rule: list_nonempty_induct)
    case (cons c cs)
    then have "Max (match_decision ` (\<Union>c\<in>set (c # cs). set (?ms c))) =
        max (Max (match_decision ` set (?ms c))) (Max (match_decision ` (\<Union>c\<in>set cs. set (?ms c))))"
      by (simp add: image_Un Max_Un matches_not_Nil)
    with cons show ?case by simp
  qed simp
  moreover have "concat (map ?ms commands) \<noteq> []" if "commands \<noteq> []"
    using that matches_not_Nil by (cases commands) simp_all
  ultimately show ?thesis
    by (auto simp: check_multiple_with_options_def one from_matches_Some from_matches_None)
qed

section \<open>Adding rules and overlays\<close>

lemma applicable_merge:
  "wf_multimap (rules_by_program overlay) \<Longrightarrow>
     applicable (merge_overlay p overlay) cmd = applicable p cmd @ applicable overlay cmd"
  by (simp add: applicable_def merge_overlay_def mm_get_union)

text \<open>Policies are only built by insertion, so the keys of their rules are distinct.\<close>

lemma policy_wf:
  "wf_multimap (rules_by_program empty_policy)"
  "add_prefix_rule tokens d p = Ok p' \<Longrightarrow> wf_multimap (rules_by_program p) \<Longrightarrow> wf_multimap (rules_by_program p')"
  "add_network_rule host protocol d j p = Ok p' \<Longrightarrow> wf_multimap (rules_by_program p) \<Longrightarrow> wf_multimap (rules_by_program p')"
  "wf_multimap (rules_by_program p) \<Longrightarrow> wf_multimap (rules_by_program (set_host_executable_paths name paths p))"
  "wf_multimap (rules_by_program p) \<Longrightarrow> wf_multimap (rules_by_program (merge_overlay p overlay))"
  by (auto simp: wf_multimap_def [of "[]"] empty_policy_def add_prefix_rule_def add_network_rule_def
      set_host_executable_paths_def merge_overlay_def wf_mm_insert wf_mm_union
      split: list.splits sum.splits if_splits)

lemma Max_append_le:
  "xs \<noteq> [] \<Longrightarrow> Max (f ` set xs) \<le> Max (f ` set (xs @ ys))" for f :: "'a \<Rightarrow> 'b::linorder"
  by (rule Max_mono) auto

text \<open>
  An overlay never loosens a policy: a command that a rule of the base
  policy matches gets a decision at least as strict after merging; a command that no rule of the base
  matches is decided by the overlay's rules alone, and by the heuristics when there are none.
\<close>

lemma merge_overlay_restricts:
  assumes "wf_multimap (rules_by_program overlay)"
  shows "if applicable p cmd = [] then decide (merge_overlay p overlay) fallback cmd = decide overlay fallback cmd
    else decide p fallback cmd \<le> decide (merge_overlay p overlay) fallback cmd"
  using Max_append_le [of "applicable p cmd" rule_decision "applicable overlay cmd"]
  by (auto simp: decide_def applicable_merge [OF assms])

definition sample_rules :: "(string list \<times> decision) list \<Rightarrow> policy" where
  "sample_rules rs = fold (\<lambda>(tokens, d) p. case add_prefix_rule tokens d p of Ok q \<Rightarrow> q | Err _ \<Rightarrow> p) rs empty_policy"

lemma merge_overlay_restricts_witness:
  "decide (sample_rules [([''git''], Allow)]) (\<lambda>_. Prompt) [''git'', ''push''] \<le>
   decide (merge_overlay (sample_rules [([''git''], Allow)]) (sample_rules [([''git'', ''push''], Forbidden)]))
     (\<lambda>_. Prompt) [''git'', ''push'']"
proof -
  let ?base = "sample_rules [([''git''], Allow)]" and ?over = "sample_rules [([''git'', ''push''], Forbidden)]"
  have "wf_multimap (rules_by_program ?over)" "applicable ?base [''git'', ''push''] \<noteq> []"
    by code_simp+
  with merge_overlay_restricts [of ?over ?base "[''git'', ''push'']" "\<lambda>_. Prompt"] show ?thesis by simp
qed

lemma matches_prefix_singles:
  "matches_prefix \<lparr>pat_first = c, pat_rest = map Single rest\<rparr> (c # rest @ args) = Some (c # rest)"
proof -
  have "list_all (\<lambda>(t, c). token_matches t c) (zip (map Single rest) rest)"
    by (induction rest) simp_all
  then show ?thesis by (simp add: matches_prefix_def)
qed

text \<open>
  A prefix rule that is added applies: every command that starts with the
  prefix is then matched, its decision is the stricter of the new rule's decision and what the rules
  said before, and commands of other programs are decided as before.
\<close>

lemma add_prefix_rule_applies:
  assumes "add_prefix_rule tokens d p = Ok p'"
  shows "decide p' fallback (tokens @ args) =
      (if applicable p (tokens @ args) = [] then d else max (decide p fallback (tokens @ args)) d) \<and>
    (cmd = [] \<or> hd cmd \<noteq> hd tokens \<longrightarrow> decide p' fallback cmd = decide p fallback cmd)"
proof -
  from assms obtain c rest where tokens: "tokens = c # rest"
    and p': "p' = p\<lparr>rules_by_program := mm_insert c \<lparr>rule_pattern = \<lparr>pat_first = c, pat_rest = map Single rest\<rparr>,
                  rule_decision = d, rule_justification = None\<rparr> (rules_by_program p)\<rparr>"
    by (auto simp: add_prefix_rule_def split: list.splits)
  have "applicable p' (tokens @ args) = applicable p (tokens @ args) @
      [\<lparr>rule_pattern = \<lparr>pat_first = c, pat_rest = map Single rest\<rparr>, rule_decision = d, rule_justification = None\<rparr>]"
    by (simp add: applicable_def tokens p' mm.get_ins matches_prefix_singles)
  moreover have "applicable p' cmd = applicable p cmd" if "cmd = [] \<or> hd cmd \<noteq> hd tokens"
    using that by (auto simp: applicable_def tokens p' mm.get_ins)
  ultimately show ?thesis by (auto simp: decide_def image_Un Max_Un max.commute)
qed

lemma add_prefix_rule_applies_witness:
  "\<exists>p'. add_prefix_rule [''rm''] Forbidden empty_policy = Ok p' \<and> decide p' (\<lambda>_. Allow) [''rm'', ''x''] = Forbidden"
proof -
  obtain p' where p': "add_prefix_rule [''rm''] Forbidden empty_policy = Ok p'"
    by (simp add: add_prefix_rule_def)
  have "applicable empty_policy [''rm'', ''x''] = []" by code_simp
  with add_prefix_rule_applies [OF p', of "\<lambda>_. Allow" "[''x'']" "[]"] p' show ?thesis by auto
qed

section \<open>Network domains\<close>

text \<open>The last rule for a host that is not a prompt.\<close>

definition last_verdict :: "network_rule list \<Rightarrow> string \<Rightarrow> decision option" where
  "last_verdict rs h =
     (let qs = filter (\<lambda>r. net_host r = h \<and> net_decision r \<noteq> Prompt) rs in
      if qs = [] then None else Some (net_decision (last qs)))"

lemma last_verdict_snoc:
  "last_verdict (rs @ [r]) h =
     (if net_host r = h \<and> net_decision r \<noteq> Prompt then Some (net_decision r) else last_verdict rs h)"
  by (simp add: last_verdict_def)

lemma upsert_domain_set [simp]: "set (upsert_domain h xs) = insert h (set xs)"
  and upsert_domain_distinct: "distinct xs \<Longrightarrow> distinct (upsert_domain h xs)"
  by (auto simp: upsert_domain_def)

definition domains_spec :: "network_rule list \<Rightarrow> string list \<times> string list \<Rightarrow> bool" where
  "domains_spec rs ad \<longleftrightarrow> distinct (fst ad) \<and> distinct (snd ad) \<and>
     (\<forall>h. (h \<in> set (fst ad) \<longleftrightarrow> last_verdict rs h = Some Allow) \<and>
          (h \<in> set (snd ad) \<longleftrightarrow> last_verdict rs h = Some Forbidden))"

lemma domain_step_spec: "domains_spec rs ad \<Longrightarrow> domains_spec (rs @ [r]) (domain_step r ad)"
  unfolding domains_spec_def last_verdict_snoc
  by (cases "net_decision r") (auto simp: domain_step_def upsert_domain_distinct)

lemma domains_compiled: "domains_spec rs (fold domain_step rs ([], []))"
proof (induction rs rule: rev_induct)
  case (snoc r rs)
  then show ?case using domain_step_spec by simp
qed (simp add: domains_spec_def last_verdict_def)

text \<open>
  The compiled lists of network domains hold no host twice and no host in
  both; a host is allowed exactly when the last rule for it that is not a prompt allows it, and denied
  exactly when that rule forbids it.
\<close>

lemma domains_last_rule_wins:
  "case compiled_network_domains p of (allowed, denied) \<Rightarrow>
     distinct allowed \<and> distinct denied \<and> set allowed \<inter> set denied = {} \<and>
     (\<forall>h. (h \<in> set allowed \<longleftrightarrow> last_verdict (network_rules p) h = Some Allow) \<and>
          (h \<in> set denied \<longleftrightarrow> last_verdict (network_rules p) h = Some Forbidden))"
proof -
  obtain allowed denied where ad: "compiled_network_domains p = (allowed, denied)" by fastforce
  then have "domains_spec (network_rules p) (allowed, denied)"
    using domains_compiled [of "network_rules p"] by (simp add: compiled_network_domains_def)
  then show ?thesis by (auto simp: ad domains_spec_def)
qed

section \<open>Normalised hosts\<close>

lemma ascii_lower_special:
  "c \<in> {CHR ''/'', CHR ''?'', CHR ''#''} \<Longrightarrow> ascii_lower x = c \<Longrightarrow> x = c"
  by (auto simp: ascii_lower_def split: if_splits) (auto dest!: arg_cong [where f = "of_char :: char \<Rightarrow> nat"])

lemma set_trim: "set (trim s) \<subseteq> set s"
proof -
  have "set (trim_end s) \<subseteq> set s" using prefix_trim_end set_mono_prefix by blast
  moreover have "set (trim_start (trim_end s)) \<subseteq> set (trim_end s)"
    using suffix_trim_start set_mono_suffix by blast
  ultimately show ?thesis by (auto simp: trim_def)
qed

lemma set_trim_end_matches: "set (trim_end_matches c s) \<subseteq> set s"
  by (auto simp: trim_end_matches_def dest: set_dropWhileD)

lemma set_strip_port: "strip_port raw host = Ok h \<Longrightarrow> set h \<subseteq> set host"
  by (auto simp: strip_port_def Let_def strip_prefix_Some split_once_Some rsplit_once_Some
      split: option.splits if_splits prod.splits)

text \<open>
  A host that is accepted for a network rule is a plain lower-case host: not
  empty, with no upper-case letter, no wildcard, no white space and nothing of a URL (no slash,
  question mark or hash).
\<close>

lemma normalized_host_shape:
  assumes "normalize_network_rule_host raw = Ok h"
  shows "h \<noteq> [] \<and> to_ascii_lowercase h = h \<and> \<not> contains_whitespace h \<and>
    set h \<inter> {CHR ''*'', CHR ''/'', CHR ''?'', CHR ''#''} = {}"
proof -
  from assms obtain host where host: "strip_port raw (trim raw) = Ok host"
      "h = to_ascii_lowercase (trim (trim_end_matches (CHR ''.'') host))"
      "h \<noteq> []" "CHR ''*'' \<notin> set h" "\<not> contains_whitespace h"
      "CHR ''/'' \<notin> set (trim raw)" "CHR ''?'' \<notin> set (trim raw)" "CHR ''#'' \<notin> set (trim raw)"
    by (auto simp: normalize_network_rule_host_def Let_def split: if_splits sum.splits)
  have sub: "set (trim (trim_end_matches (CHR ''.'') host)) \<subseteq> set (trim raw)"
    using set_trim set_trim_end_matches set_strip_port [OF host(1)] by blast
  have "c \<notin> set h" if c: "c \<in> {CHR ''/'', CHR ''?'', CHR ''#''}" for c
  proof
    assume "c \<in> set h"
    then obtain x where x: "x \<in> set (trim (trim_end_matches (CHR ''.'') host))" "ascii_lower x = c"
      using host(2) by (auto simp: to_ascii_lowercase_def)
    from ascii_lower_special [OF c x(2)] x(1) sub have "c \<in> set (trim raw)" by blast
    with c host(6-8) show False by auto
  qed
  with host show ?thesis by auto
qed

text \<open>A host name of letters, digits, hyphens and inner dots.\<close>

definition host_char :: "char \<Rightarrow> bool" where
  "host_char c \<longleftrightarrow> is_ascii_digit c \<or> c = CHR ''-'' \<or> c = CHR ''.'' \<or>
     (let n = (of_char c :: nat) in 65 \<le> n \<and> n \<le> 90 \<or> 97 \<le> n \<and> n \<le> 122)"

definition host_name :: "string \<Rightarrow> bool" where
  "host_name h \<longleftrightarrow> h \<noteq> [] \<and> list_all host_char h \<and> last h \<noteq> CHR ''.''"

lemma host_char_not:
  "host_char c \<Longrightarrow> c \<notin> set ws_heads \<and> c \<notin> set ws_lasts \<and> \<not> is_cont c \<and> [c] \<notin> set white_space \<and>
     c \<notin> {CHR ''['', CHR '':'', CHR ''/'', CHR ''?'', CHR ''#'', CHR ''*''}"
  by (auto simp: host_char_def ws_heads_def ws_lasts_def white_space_def is_cont_def is_ascii_digit_def Let_def)

lemma host_char_lower: "host_char c \<Longrightarrow> host_char (ascii_lower c)"
  using of_char_ascii_lower [of c] by (auto simp: host_char_def ascii_lower_def is_ascii_digit_def Let_def)

lemma host_char_word:
  assumes "list_all host_char s"
  shows "s \<noteq> [] \<Longrightarrow> trim s = s" "\<not> contains_whitespace s"
proof -
  show "trim s = s" if "s \<noteq> []"
    using assms that host_char_not by (intro trim_stop) (auto simp: list_all_iff)
  have "chars s = map (\<lambda>c. [c]) s" using assms host_char_not by (intro chars_singletons) (auto simp: list_all_iff)
  then show "\<not> contains_whitespace s"
    using assms host_char_not by (auto simp: contains_whitespace_def list_ex_iff list_all_iff)
qed

lemma trim_end_matches_stop: "s = [] \<or> last s \<noteq> c \<Longrightarrow> trim_end_matches c s = s"
  by (cases s rule: rev_cases) (simp_all add: trim_end_matches_def)

lemma trim_end_matches_snoc: "trim_end_matches c (s @ [c]) = trim_end_matches c s"
  by (simp add: trim_end_matches_def)

lemma no_scheme: "CHR '':'' \<notin> set s \<or> CHR ''/'' \<notin> set s \<Longrightarrow> \<not> str_contains s ''://''"
  by (auto simp: str_contains_def str_find_Some prefix_def dest!: arg_cong [where f = set] in_set_dropD)

lemma host_name_parts:
  assumes "host_name h"
  shows "h \<noteq> []" "trim h = h" "\<not> contains_whitespace (to_ascii_lowercase h)" "CHR ''*'' \<notin> set (to_ascii_lowercase h)"
    "CHR '':'' \<notin> set h" "CHR ''/'' \<notin> set h" "CHR ''?'' \<notin> set h" "CHR ''#'' \<notin> set h" "hd h \<noteq> CHR ''[''"
    "last h \<noteq> CHR ''.''"
proof -
  have chars: "list_all host_char h" "h \<noteq> []" "last h \<noteq> CHR ''.''" using assms by (simp_all add: host_name_def)
  then have low: "list_all host_char (to_ascii_lowercase h)"
    by (auto simp: to_ascii_lowercase_def list_all_iff host_char_lower)
  show "h \<noteq> []" "last h \<noteq> CHR ''.''" using chars by simp_all
  show "trim h = h" using host_char_word chars by blast
  show "\<not> contains_whitespace (to_ascii_lowercase h)" using host_char_word [OF low] by simp
  show "CHR ''*'' \<notin> set (to_ascii_lowercase h)" using low host_char_not by (auto simp: list_all_iff)
  show "CHR '':'' \<notin> set h" "CHR ''/'' \<notin> set h" "CHR ''?'' \<notin> set h" "CHR ''#'' \<notin> set h" "hd h \<noteq> CHR ''[''"
    using chars host_char_not by (auto simp: list_all_iff)
qed

lemma filter_not_in: "c \<notin> set s \<Longrightarrow> filter (\<lambda>x. x = c) s = []"
  by (auto simp: filter_empty_conv)

lemma strip_port_plain: "hd host \<noteq> CHR ''['' \<Longrightarrow> CHR '':'' \<notin> set host \<Longrightarrow> strip_port raw host = Ok host"
  by (cases host) (auto simp: strip_port_def strip_prefix_def filter_not_in)

lemma strip_port_digits:
  assumes "hd h \<noteq> CHR ''[''" "CHR '':'' \<notin> set h" "h \<noteq> []" "is_port port"
  shows "strip_port raw (h @ CHR '':'' # port) = Ok h"
proof -
  have "CHR '':'' \<notin> set port" using assms(4) by (auto simp: is_port_def list_all_iff is_ascii_digit_def)
  then have "rsplit_once (CHR '':'') (h @ CHR '':'' # port) = Some (h, port)"
    "filter (\<lambda>c. c = CHR '':'') (h @ CHR '':'' # port) = [CHR '':'']"
    using assms(2) by (simp_all add: rsplit_once_Some filter_not_in)
  with assms show ?thesis by (cases h) (auto simp: strip_port_def strip_prefix_def)
qed

lemma normalize_host_by_parts:
  assumes "host_name h" "trim raw = host" "host \<noteq> []" "CHR ''/'' \<notin> set host" "CHR ''?'' \<notin> set host" "CHR ''#'' \<notin> set host"
    and "strip_port raw host = Ok h'" "trim_end_matches (CHR ''.'') h' = h"
  shows "normalize_network_rule_host raw = Ok (to_ascii_lowercase h)"
  using assms host_name_parts [OF assms(1)] no_scheme [of host]
  by (simp add: normalize_network_rule_host_def Let_def)

text \<open>
  Every spelling of a host name gives the same rule: the name itself, with a
  final dot, and with a port are all normalised to the name in lower case.
\<close>

lemma normalize_host_name:
  assumes "host_name h" "is_port port"
  shows "normalize_network_rule_host h = Ok (to_ascii_lowercase h) \<and>
    normalize_network_rule_host (h @ ''.'') = Ok (to_ascii_lowercase h) \<and>
    normalize_network_rule_host (h @ '':'' @ port) = Ok (to_ascii_lowercase h)"
proof (intro conjI)
  note parts = host_name_parts [OF assms(1)]
  have digits: "port \<noteq> []" "CHR ''/'' \<notin> set port" "CHR ''?'' \<notin> set port" "CHR ''#'' \<notin> set port"
    using assms(2) by (auto simp: is_port_def list_all_iff is_ascii_digit_def)
  have "host_char (last port)" using assms(2) by (auto simp: is_port_def list_all_iff host_char_def)
  then have trim_port: "trim (h @ CHR '':'' # port) = h @ CHR '':'' # port"
    using parts(1) assms(1) digits(1) host_char_not
    by (intro trim_stop) (auto simp: host_name_def list_all_iff)
  have trim_dot: "trim (h @ ''.'') = h @ ''.''"
    using assms(1) by (intro host_char_word) (auto simp: host_name_def host_char_def)
  show "normalize_network_rule_host h = Ok (to_ascii_lowercase h)"
    by (rule normalize_host_by_parts [OF assms(1) parts(2,1,6,7,8) strip_port_plain [OF parts(9,5)]])
      (simp add: parts trim_end_matches_stop)
  show "normalize_network_rule_host (h @ ''.'') = Ok (to_ascii_lowercase h)"
    by (rule normalize_host_by_parts [OF assms(1) trim_dot _ _ _ _ strip_port_plain])
      (use parts in \<open>simp_all add: trim_end_matches_snoc trim_end_matches_stop\<close>)
  show "normalize_network_rule_host (h @ '':'' @ port) = Ok (to_ascii_lowercase h)"
    using parts digits
    by (intro normalize_host_by_parts [OF assms(1), of _ "h @ CHR '':'' # port" h])
      (simp_all add: trim_port strip_port_digits assms(2) trim_end_matches_stop)
qed

text \<open>
  White space before a second final dot hides the first one: the result still ends in a dot, and
  normalising it again gives another host.
\<close>

lemma normalize_host_not_idempotent:
  "normalize_network_rule_host ''a. .'' = Ok ''a.'' \<and> normalize_network_rule_host ''a.'' = Ok ''a''"
  by code_simp

section \<open>Programs given by a path\<close>

text \<open>
  Host-executable resolution is not limited to absolute program paths: a
  program written relative to the current directory of the process, such as \<open>./git\<close>, is matched by the
  rules for its base name, and an allow rule for \<open>git\<close> allows it.
\<close>

lemma relative_program_resolves:
  "map_option eval_decision
     (check_with_options \<lparr>env_home = None, env_cwd = Ok ''/work''\<rparr> (sample_rules [([''git'', ''status''], Allow)])
       [''./git'', ''status''] (\<lambda>_. Prompt) \<lparr>resolve_host_executables = True\<rparr>) = Some Allow"
  by code_simp

end
