(* ===== verification/Proxy_Hosts.thy ===== *)
theory Proxy_Hosts
  imports Exec_Policy "HOL-Library.Word" "HOL-Library.Monad_Syntax"
begin

text \<open>
  Hosts and host patterns of the network proxy: \<open>network-proxy/src/policy.rs\<close>. Addresses are words of 32 and 128 bits, read from
  text as the standard library reads them. Globs (the \<open>globset\<close> package) and host names of URLs (the \<open>url\<close> package) are arguments.

  The theorems: the blocks of addresses that count as not public, in one table; and that comparing patterns decides
  inclusion of the hosts they stand for.
\<close>

unbundle bit_operations_syntax

section \<open>Addresses\<close>

datatype ip_addr = V4 "32 word" | V6 "128 word"

text \<open>\<open>Ipv4Addr::octets\<close> and \<open>Ipv6Addr::segments\<close>, one at a time, and the addresses made from them.\<close>

definition octet :: "nat \<Rightarrow> 32 word \<Rightarrow> int" where
  "octet i ip = uint ip div 256 ^ (3 - i) mod 256"

definition segment :: "nat \<Rightarrow> 128 word \<Rightarrow> int" where
  "segment i ip = uint ip div 65536 ^ (7 - i) mod 65536"

definition from_octets :: "int list \<Rightarrow> 32 word" where
  "from_octets octets = of_int (fold (\<lambda>b n. n * 256 + b) octets 0)"

definition from_segments :: "int list \<Rightarrow> 128 word" where
  "from_segments groups = of_int (fold (\<lambda>b n. n * 65536 + b) groups 0)"

text \<open>The classification of the standard library.\<close>

definition v4_is_loopback :: "32 word \<Rightarrow> bool" where
  "v4_is_loopback ip \<longleftrightarrow> octet 0 ip = 127"

definition v4_is_private :: "32 word \<Rightarrow> bool" where
  "v4_is_private ip \<longleftrightarrow>
     octet 0 ip = 10 \<or> octet 0 ip = 172 \<and> 16 \<le> octet 1 ip \<and> octet 1 ip \<le> 31 \<or> octet 0 ip = 192 \<and> octet 1 ip = 168"

definition v4_is_link_local :: "32 word \<Rightarrow> bool" where
  "v4_is_link_local ip \<longleftrightarrow> octet 0 ip = 169 \<and> octet 1 ip = 254"

definition v4_is_unspecified :: "32 word \<Rightarrow> bool" where
  "v4_is_unspecified ip \<longleftrightarrow> ip = 0"

definition v4_is_multicast :: "32 word \<Rightarrow> bool" where
  "v4_is_multicast ip \<longleftrightarrow> 224 \<le> octet 0 ip \<and> octet 0 ip \<le> 239"

definition v4_is_broadcast :: "32 word \<Rightarrow> bool" where
  "v4_is_broadcast ip \<longleftrightarrow> ip = from_octets [255, 255, 255, 255]"

definition v6_is_loopback :: "128 word \<Rightarrow> bool" where
  "v6_is_loopback ip \<longleftrightarrow> ip = 1"

definition v6_is_unspecified :: "128 word \<Rightarrow> bool" where
  "v6_is_unspecified ip \<longleftrightarrow> ip = 0"

definition v6_is_multicast :: "128 word \<Rightarrow> bool" where
  "v6_is_multicast ip \<longleftrightarrow> segment 0 ip div 256 = 255"

definition v6_is_unique_local :: "128 word \<Rightarrow> bool" where
  "v6_is_unique_local ip \<longleftrightarrow> segment 0 ip div 512 = 126"

definition v6_is_unicast_link_local :: "128 word \<Rightarrow> bool" where
  "v6_is_unicast_link_local ip \<longleftrightarrow> segment 0 ip div 64 = 1018"

definition v6_to_ipv4 :: "128 word \<Rightarrow> 32 word option" where
  "v6_to_ipv4 ip =
     (if list_all (\<lambda>i. segment i ip = 0) [0, 1, 2, 3, 4] \<and> (segment 5 ip = 0 \<or> segment 5 ip = 65535)
      then Some (of_int (segment 6 ip * 65536 + segment 7 ip)) else None)"

fun ip_is_loopback :: "ip_addr \<Rightarrow> bool" where
  "ip_is_loopback (V4 ip) = v4_is_loopback ip"
| "ip_is_loopback (V6 ip) = v6_is_loopback ip"

section \<open>Reading addresses\<close>

text \<open>The parser of \<open>core::net\<close>: every reader returns the value and the rest of the text.\<close>

definition to_digit :: "int \<Rightarrow> char \<Rightarrow> int option" where
  "to_digit radix c =
     (let n = of_char c;
        d = (if 48 \<le> n \<and> n \<le> 57 then n - 48 else if 97 \<le> n \<and> n \<le> 122 then n - 87
             else if 65 \<le> n \<and> n \<le> 90 then n - 55 else radix)
      in if d < radix then Some d else None)"

fun read_digits :: "int \<Rightarrow> nat \<Rightarrow> int \<Rightarrow> int \<Rightarrow> nat \<Rightarrow> string \<Rightarrow> (int \<times> nat \<times> string) option" where
  "read_digits radix max_digits bound result digit_count [] = Some (result, digit_count, [])"
| "read_digits radix max_digits bound result digit_count (c # cs) =
     (case to_digit radix c of
        None \<Rightarrow> Some (result, digit_count, c # cs)
      | Some d \<Rightarrow>
          if bound < result * radix + d \<or> max_digits < digit_count + 1 then None
          else read_digits radix max_digits bound (result * radix + d) (digit_count + 1) cs)"

definition read_number :: "int \<Rightarrow> nat \<Rightarrow> bool \<Rightarrow> int \<Rightarrow> string \<Rightarrow> (int \<times> string) option" where
  "read_number radix max_digits allow_zero_prefix bound s =
     (case read_digits radix max_digits bound 0 0 s of
        None \<Rightarrow> None
      | Some (result, digit_count, rest) \<Rightarrow>
          if digit_count = 0 then None
          else if \<not> allow_zero_prefix \<and> take 1 s = ''0'' \<and> 1 < digit_count then None
          else Some (result, rest))"

definition read_separator :: "char \<Rightarrow> nat \<Rightarrow> (string \<Rightarrow> ('a \<times> string) option) \<Rightarrow> string \<Rightarrow> ('a \<times> string) option" where
  "read_separator sep index inner s =
     (if index = 0 then inner s else case s of [] \<Rightarrow> None | c # cs \<Rightarrow> if c = sep then inner cs else None)"

definition read_ipv4_addr :: "string \<Rightarrow> (int list \<times> string) option" where
  "read_ipv4_addr s =
     do {
       (a, s1) \<leftarrow> read_separator (CHR ''.'') 0 (read_number 10 3 False 255) s;
       (b, s2) \<leftarrow> read_separator (CHR ''.'') 1 (read_number 10 3 False 255) s1;
       (c, s3) \<leftarrow> read_separator (CHR ''.'') 2 (read_number 10 3 False 255) s2;
       (d, s4) \<leftarrow> read_separator (CHR ''.'') 3 (read_number 10 3 False 255) s3;
       Some ([a, b, c, d], s4)
     }"

text \<open>The groups from index \<open>i\<close> on, with at most the given number left; whether they end with an embedded IPv4 address.\<close>

fun read_groups :: "nat \<Rightarrow> nat \<Rightarrow> string \<Rightarrow> int list \<times> bool \<times> string" where
  "read_groups 0 i s = ([], False, s)"
| "read_groups (Suc left) i s =
     (case (if 0 < left then read_separator (CHR '':'') i read_ipv4_addr s else None) of
        Some (octets, rest) \<Rightarrow>
          ([octets ! 0 * 256 + octets ! 1, octets ! 2 * 256 + octets ! 3], True, rest)
      | None \<Rightarrow>
          (case read_separator (CHR '':'') i (read_number 16 4 True 65535) s of
             None \<Rightarrow> ([], False, s)
           | Some (g, rest) \<Rightarrow> (case read_groups left (Suc i) rest of (gs, ipv4, rest') \<Rightarrow> (g # gs, ipv4, rest'))))"

definition read_ipv6_addr :: "string \<Rightarrow> (int list \<times> string) option" where
  "read_ipv6_addr s =
     (case read_groups 8 0 s of (head, head_ipv4, rest) \<Rightarrow>
        if length head = 8 then Some (head, rest)
        else if head_ipv4 then None
        else
          (case strip_prefix ''::'' rest of
             None \<Rightarrow> None
           | Some rest' \<Rightarrow>
               (case read_groups (8 - (length head + 1)) 0 rest' of (tail, _, rest'') \<Rightarrow>
                  Some (head @ replicate (8 - length head - length tail) 0 @ tail, rest''))))"

definition parse_ip :: "string \<Rightarrow> ip_addr option" where
  "parse_ip s =
     (case read_ipv4_addr s of
        Some (octets, rest) \<Rightarrow> if rest = [] then Some (V4 (from_octets octets)) else None
      | None \<Rightarrow>
          (case read_ipv6_addr s of
             Some (groups, rest) \<Rightarrow> if rest = [] then Some (V6 (from_segments groups)) else None
           | None \<Rightarrow> None))"

section \<open>Addresses that are not public\<close>

definition ipv4_in_cidr :: "32 word \<Rightarrow> int list \<Rightarrow> nat \<Rightarrow> bool" where
  "ipv4_in_cidr ip base prefix_len \<longleftrightarrow>
     (let m = (if prefix_len = 0 then 0 else push_bit (32 - prefix_len) (- 1)) in
      ip AND m = from_octets base AND m)"

definition is_non_public_ipv4 :: "32 word \<Rightarrow> bool" where
  "is_non_public_ipv4 ip \<longleftrightarrow>
     v4_is_loopback ip \<or> v4_is_private ip \<or> v4_is_link_local ip \<or> v4_is_unspecified ip \<or> v4_is_multicast ip \<or>
     v4_is_broadcast ip \<or> ipv4_in_cidr ip [0, 0, 0, 0] 8 \<or> ipv4_in_cidr ip [100, 64, 0, 0] 10 \<or>
     ipv4_in_cidr ip [192, 0, 0, 0] 24 \<or> ipv4_in_cidr ip [192, 0, 2, 0] 24 \<or> ipv4_in_cidr ip [198, 18, 0, 0] 15 \<or>
     ipv4_in_cidr ip [198, 51, 100, 0] 24 \<or> ipv4_in_cidr ip [203, 0, 113, 0] 24 \<or> ipv4_in_cidr ip [240, 0, 0, 0] 4"

definition is_non_public_ipv6 :: "128 word \<Rightarrow> bool" where
  "is_non_public_ipv6 ip =
     (case v6_to_ipv4 ip of
        Some v4 \<Rightarrow> is_non_public_ipv4 v4 \<or> v6_is_loopback ip
      | None \<Rightarrow>
          v6_is_loopback ip \<or> v6_is_unspecified ip \<or> v6_is_multicast ip \<or> v6_is_unique_local ip \<or> v6_is_unicast_link_local ip)"

fun is_non_public_ip :: "ip_addr \<Rightarrow> bool" where
  "is_non_public_ip (V4 ip) = is_non_public_ipv4 ip"
| "is_non_public_ip (V6 ip) = is_non_public_ipv6 ip"

section \<open>Hosts\<close>

definition normalize_dns_host :: "string \<Rightarrow> string" where
  "normalize_dns_host host = trim_end_matches (CHR ''.'') (to_ascii_lowercase host)"

definition normalize_host :: "string \<Rightarrow> string" where
  "normalize_host input =
     (let host = trim input in
      case (if take 1 host = ''['' then str_find host '']'' else None) of
        Some e \<Rightarrow> normalize_dns_host (take (e - 1) (drop 1 host))
      | None \<Rightarrow>
          if count_list host (CHR '':'') = 1 then normalize_dns_host (hd (split_on (CHR '':'') host))
          else normalize_dns_host host)"

text \<open>\<open>Host::parse\<close>: the host is its normalised text.\<close>

definition parse_host :: "string \<Rightarrow> string option" where
  "parse_host input = (let normalized = normalize_host input in if normalized = [] then None else Some normalized)"

definition without_scope :: "string \<Rightarrow> string" where
  "without_scope host = (case split_once (CHR ''%'') host of Some (ip, _) \<Rightarrow> ip | None \<Rightarrow> host)"

definition is_loopback_host :: "string \<Rightarrow> bool" where
  "is_loopback_host host =
     (let host = without_scope host in
      host = ''localhost'' \<or> (case parse_ip host of Some ip \<Rightarrow> ip_is_loopback ip | None \<Rightarrow> False))"

section \<open>Patterns\<close>

definition normalize_pattern :: "string \<Rightarrow> string" where
  "normalize_pattern input =
     (let pattern = trim input in
      if pattern = ''*'' then ''*''
      else case strip_prefix ''**.'' pattern of
        Some domain \<Rightarrow> ''**.'' @ normalize_host domain
      | None \<Rightarrow>
          (case strip_prefix ''*.'' pattern of
             Some domain \<Rightarrow> ''*.'' @ normalize_host domain
           | None \<Rightarrow> normalize_host pattern))"

datatype domain_pattern = ApexAndSubdomains string | SubdomainsOnly string | Exact string

definition parse_domain :: "string \<Rightarrow> (string \<Rightarrow> domain_pattern) \<Rightarrow> domain_pattern" where
  "parse_domain input build = (let domain = trim input in if domain = [] then Exact [] else build domain)"

definition parse_pattern :: "string \<Rightarrow> domain_pattern" where
  "parse_pattern raw =
     (let input = trim raw in
      if input = [] then Exact []
      else case strip_prefix ''**.'' input of
        Some domain \<Rightarrow> parse_domain domain ApexAndSubdomains
      | None \<Rightarrow>
          (case strip_prefix ''*.'' input of
             Some domain \<Rightarrow> parse_domain domain SubdomainsOnly
           | None \<Rightarrow> Exact input))"

text \<open>\<open>UrlHost::parse\<close> with the text of its result is an argument.\<close>

definition parse_domain_for_constraints :: "(string \<Rightarrow> string option) \<Rightarrow> string \<Rightarrow> string" where
  "parse_domain_for_constraints url_host raw =
     (let domain = trim_end_matches (CHR ''.'') (trim raw) in
      if domain = [] then []
      else
        (let host = (if take 1 domain = ''['' \<and> last domain = CHR '']''
             then take (length domain - 1 - 1) (drop 1 domain) else domain) in
         if CHR ''*'' \<in> set host \<or> CHR ''?'' \<in> set host \<or> CHR ''%'' \<in> set host then domain
         else case url_host host of Some h \<Rightarrow> h | None \<Rightarrow> []))"

definition parse_for_constraints :: "(string \<Rightarrow> string option) \<Rightarrow> string \<Rightarrow> domain_pattern" where
  "parse_for_constraints url_host raw =
     (let input = trim raw in
      if input = [] then Exact []
      else case strip_prefix ''**.'' input of
        Some domain \<Rightarrow> ApexAndSubdomains (parse_domain_for_constraints url_host domain)
      | None \<Rightarrow>
          (case strip_prefix ''*.'' input of
             Some domain \<Rightarrow> SubdomainsOnly (parse_domain_for_constraints url_host domain)
           | None \<Rightarrow> Exact (parse_domain_for_constraints url_host input)))"

definition normalize_domain :: "string \<Rightarrow> string" where
  "normalize_domain domain = to_ascii_lowercase (trim_end_matches (CHR ''.'') domain)"

definition domain_eq :: "string \<Rightarrow> string \<Rightarrow> bool" where
  "domain_eq left right \<longleftrightarrow> normalize_domain left = normalize_domain right"

definition is_subdomain_or_equal :: "string \<Rightarrow> string \<Rightarrow> bool" where
  "is_subdomain_or_equal child parent \<longleftrightarrow>
     (let child = normalize_domain child; parent = normalize_domain parent in
      child = parent \<or> suffix (''.'' @ parent) child)"

definition is_strict_subdomain :: "string \<Rightarrow> string \<Rightarrow> bool" where
  "is_strict_subdomain child parent \<longleftrightarrow>
     (let child = normalize_domain child; parent = normalize_domain parent in
      child \<noteq> parent \<and> suffix (''.'' @ parent) child)"

fun allows :: "domain_pattern \<Rightarrow> domain_pattern \<Rightarrow> bool" where
  "allows (Exact domain) (Exact candidate) \<longleftrightarrow> domain_eq candidate domain"
| "allows (Exact domain) _ \<longleftrightarrow> False"
| "allows (SubdomainsOnly domain) (Exact candidate) \<longleftrightarrow> is_strict_subdomain candidate domain"
| "allows (SubdomainsOnly domain) (SubdomainsOnly candidate) \<longleftrightarrow> is_subdomain_or_equal candidate domain"
| "allows (SubdomainsOnly domain) (ApexAndSubdomains candidate) \<longleftrightarrow> is_strict_subdomain candidate domain"
| "allows (ApexAndSubdomains domain) (Exact candidate) \<longleftrightarrow> is_subdomain_or_equal candidate domain"
| "allows (ApexAndSubdomains domain) (SubdomainsOnly candidate) \<longleftrightarrow> is_subdomain_or_equal candidate domain"
| "allows (ApexAndSubdomains domain) (ApexAndSubdomains candidate) \<longleftrightarrow> is_subdomain_or_equal candidate domain"

definition expand_domain_pattern :: "string \<Rightarrow> string list" where
  "expand_domain_pattern pattern =
     (case parse_pattern pattern of
        Exact domain \<Rightarrow> [domain]
      | SubdomainsOnly domain \<Rightarrow> [''?*.'' @ domain]
      | ApexAndSubdomains domain \<Rightarrow> [domain, ''?*.'' @ domain])"

definition is_global_wildcard_domain_pattern :: "string \<Rightarrow> bool" where
  "is_global_wildcard_domain_pattern pattern = list_ex (\<lambda>candidate. candidate = ''*'') (expand_domain_pattern (normalize_pattern pattern))"

text \<open>
  The globs that a list of patterns compiles to. Whether a glob is valid, whether a set of them can be built, and what a glob matches
  without regard to case are up to the package.
\<close>

record glob_engine =
  glob_valid :: "string \<Rightarrow> bool"
  glob_fits :: "string list \<Rightarrow> bool"
  glob_match :: "string \<Rightarrow> string \<Rightarrow> bool"

datatype glob_error = UnsupportedGlobalWildcard | InvalidGlob string | GlobSetFailed

text \<open>The set \<open>seen\<close> of the loop holds exactly the globs added so far.\<close>

fun add_candidates :: "glob_engine \<Rightarrow> string list \<Rightarrow> string list \<Rightarrow> (glob_error, string list) result" where
  "add_candidates ge [] globs = Ok globs"
| "add_candidates ge (candidate # rest) globs =
     (if candidate \<in> set globs then add_candidates ge rest globs
      else if \<not> glob_valid ge candidate then Err (InvalidGlob candidate)
      else add_candidates ge rest (globs @ [candidate]))"

fun compile_loop :: "glob_engine \<Rightarrow> bool \<Rightarrow> string list \<Rightarrow> string list \<Rightarrow> (glob_error, string list) result" where
  "compile_loop ge reject_global [] globs = Ok globs"
| "compile_loop ge reject_global (pattern # rest) globs =
     (if reject_global \<and> is_global_wildcard_domain_pattern pattern then Err UnsupportedGlobalWildcard
      else case add_candidates ge (expand_domain_pattern (normalize_pattern pattern)) globs of
        Err e \<Rightarrow> Err e
      | Ok globs' \<Rightarrow> compile_loop ge reject_global rest globs')"

definition compile_globset_with_policy :: "glob_engine \<Rightarrow> string list \<Rightarrow> bool \<Rightarrow> (glob_error, string list) result" where
  "compile_globset_with_policy ge patterns reject_global =
     (case compile_loop ge reject_global patterns [] of
        Err e \<Rightarrow> Err e
      | Ok globs \<Rightarrow> if glob_fits ge globs then Ok globs else Err GlobSetFailed)"

definition compile_allowlist_globset :: "glob_engine \<Rightarrow> string list \<Rightarrow> (glob_error, string list) result" where
  "compile_allowlist_globset ge patterns = compile_globset_with_policy ge patterns False"

definition compile_denylist_globset :: "glob_engine \<Rightarrow> string list \<Rightarrow> (glob_error, string list) result" where
  "compile_denylist_globset ge patterns = compile_globset_with_policy ge patterns True"

definition globs_match :: "glob_engine \<Rightarrow> string list \<Rightarrow> string \<Rightarrow> bool" where
  "globs_match ge globs host = list_ex (\<lambda>g. glob_match ge g host) globs"

section \<open>Blocks of addresses\<close>

definition in_block :: "32 word \<Rightarrow> int \<times> nat \<Rightarrow> bool" where
  "in_block ip block = (case block of (lead, prefix_len) \<Rightarrow> uint ip div 2 ^ (32 - prefix_len) = lead)"

text \<open>The leading bits and the length of every block that counts as not public.\<close>

definition non_public_blocks :: "(int \<times> nat) list" where
  "non_public_blocks =
     [(0, 8), (10, 8), (127, 8), (100 * 4 + 1, 10), (169 * 256 + 254, 16), (172 * 16 + 1, 12), (192 * 65536, 24), (192 * 65536 + 2, 24),
      (192 * 256 + 168, 16), (198 * 128 + 9, 15), (198 * 65536 + 51 * 256 + 100, 24), (203 * 65536 + 113, 24), (14, 4), (15, 4)]"

lemma masked_eq_iff:
  fixes a b :: "'a::len word"
  shows "a AND NOT (mask n) = b AND NOT (mask n) \<longleftrightarrow> drop_bit n a = drop_bit n b"
proof -
  have "a AND NOT (mask n) = b AND NOT (mask n) \<longleftrightarrow> (\<forall>i < LENGTH('a). n \<le> i \<longrightarrow> bit a i = bit b i)"
    by (auto simp: bit_eq_iff bit_simps)
  also have "\<dots> \<longleftrightarrow> (\<forall>j. bit a (n + j) = bit b (n + j))"
  proof (rule iffI; intro allI impI)
    fix j assume "\<forall>i < LENGTH('a). n \<le> i \<longrightarrow> bit a i = bit b i"
    then show "bit a (n + j) = bit b (n + j)" by (cases "n + j < LENGTH('a)") (auto dest: bit_imp_le_length)
  next
    fix i assume "\<forall>j. bit a (n + j) = bit b (n + j)" "i < LENGTH('a)" "n \<le> i"
    then show "bit a i = bit b i" by (metis le_add_diff_inverse)
  qed
  also have "\<dots> \<longleftrightarrow> drop_bit n a = drop_bit n b"
  proof
    assume eq: "\<forall>j. bit a (n + j) = bit b (n + j)"
    show "drop_bit n a = drop_bit n b" by (rule bit_word_eqI) (simp add: bit_drop_bit_eq eq)
  next
    assume "drop_bit n a = drop_bit n b"
    then have "bit (drop_bit n a) j = bit (drop_bit n b) j" for j by simp
    then show "\<forall>j. bit a (n + j) = bit b (n + j)" by (simp add: bit_drop_bit_eq)
  qed
  finally show ?thesis .
qed

lemma ipv4_in_cidr_block:
  assumes "0 < prefix_len"
  shows "ipv4_in_cidr ip base prefix_len \<longleftrightarrow> in_block ip (uint (from_octets base) div 2 ^ (32 - prefix_len), prefix_len)"
proof -
  have "ipv4_in_cidr ip base prefix_len \<longleftrightarrow> drop_bit (32 - prefix_len) ip = drop_bit (32 - prefix_len) (from_octets base)"
    using assms by (simp add: ipv4_in_cidr_def Let_def masked_eq_iff)
  also have "\<dots> \<longleftrightarrow> uint (drop_bit (32 - prefix_len) ip) = uint (drop_bit (32 - prefix_len) (from_octets base))"
    by (rule word_uint_eq_iff)
  also have "\<dots> \<longleftrightarrow> drop_bit (32 - prefix_len) (uint ip) = drop_bit (32 - prefix_len) (uint (from_octets base))"
    using uint_lt2p [of ip] uint_lt2p [of "from_octets base"] by (simp only: unsigned_drop_bit_eq) (simp add: take_bit_int_eq_self)
  finally show ?thesis by (simp only: in_block_def drop_bit_eq_div prod.case)
qed

lemma div_mod_value: "(x :: int) div d = q \<Longrightarrow> x mod d = r \<Longrightarrow> x = q * d + r"
  by (metis div_mult_mod_eq)

lemma non_public_ipv4_blocks: "is_non_public_ipv4 ip \<longleftrightarrow> list_ex (in_block ip) non_public_blocks"
proof -
  define n where "n = uint ip"
  have n: "0 \<le> n" "n < 2 ^ 32" using uint_lt2p [of ip] by (simp_all add: n_def)
  define a where "a = n div 2 ^ 16"
  have a: "0 \<le> a" "a < 65536" using n by (simp_all add: a_def div_less_iff_less_mult)
  have octets: "octet 0 ip = a div 256" "octet (Suc 0) ip = a mod 256"
    using a zdiv_zmult2_eq [of "2 ^ 8" n "2 ^ 16"] by (simp_all add: octet_def a_def n_def [symmetric])
  have block: "in_block ip (v, 8) \<longleftrightarrow> a div 256 = v" "in_block ip (v, 12) \<longleftrightarrow> a div 16 = v" "in_block ip (v, 16) \<longleftrightarrow> a = v"
      "in_block ip (v, 4) \<longleftrightarrow> a div 4096 = v" for v
    using zdiv_zmult2_eq [of "2 ^ 8" n "2 ^ 16"] zdiv_zmult2_eq [of "2 ^ 4" n "2 ^ 16"] zdiv_zmult2_eq [of "2 ^ 12" n "2 ^ 16"]
    by (simp_all add: in_block_def a_def n_def [symmetric])
  have "v4_is_loopback ip \<longleftrightarrow> in_block ip (127, 8)" by (simp add: v4_is_loopback_def octets block)
  moreover have "v4_is_private ip \<longleftrightarrow> in_block ip (10, 8) \<or> in_block ip (172 * 16 + 1, 12) \<or> in_block ip (192 * 256 + 168, 16)"
  proof -
    define b c where "b = a div 16" and "c = a mod 16"
    have parts: "a div 256 = b div 16" "a mod 256 = 16 * (b mod 16) + c" "0 \<le> c" "c < 16"
      using zdiv_zmult2_eq [of 16 a 16] zmod_zmult2_eq [of 16 a 16] by (simp_all add: b_def c_def)
    have "16 \<le> 16 * m + c \<and> 16 * m + c \<le> 31 \<longleftrightarrow> m = 1" for m using parts(3,4) by linarith
    moreover have "b div 16 = 172 \<and> b mod 16 = 1 \<longleftrightarrow> b = 2753" by (auto dest: div_mod_value)
    ultimately have "a div 256 = 172 \<and> 16 \<le> a mod 256 \<and> a mod 256 \<le> 31 \<longleftrightarrow> a div 16 = 2753"
      by (simp only: parts b_def [symmetric])
    moreover have "a div 256 = 192 \<and> a mod 256 = 168 \<longleftrightarrow> a = 49320" by (auto dest: div_mod_value)
    ultimately show ?thesis by (simp add: v4_is_private_def octets block)
  qed
  moreover have "v4_is_link_local ip \<longleftrightarrow> in_block ip (169 * 256 + 254, 16)"
    by (auto simp: v4_is_link_local_def octets block dest: div_mod_value)
  moreover have "v4_is_multicast ip \<longleftrightarrow> in_block ip (14, 4)"
  proof -
    define h where "h = a div 256"
    have "a div 4096 = h div 16" using zdiv_zmult2_eq [of 16 a 256] by (simp add: h_def)
    moreover have "224 \<le> h \<and> h \<le> 239 \<longleftrightarrow> h div 16 = 14" by presburger
    ultimately show ?thesis by (simp add: v4_is_multicast_def octets block h_def [symmetric])
  qed
  moreover have "in_block ip (0, 8)" if "v4_is_unspecified ip"
    using that by (simp add: v4_is_unspecified_def in_block_def)
  moreover have "in_block ip (15, 4)" if "v4_is_broadcast ip"
    using that by (simp add: v4_is_broadcast_def in_block_def from_octets_def)
  ultimately have std: "v4_is_loopback ip \<longleftrightarrow> in_block ip (127, 8)"
    "v4_is_private ip \<longleftrightarrow> in_block ip (10, 8) \<or> in_block ip (172 * 16 + 1, 12) \<or> in_block ip (192 * 256 + 168, 16)"
    "v4_is_link_local ip \<longleftrightarrow> in_block ip (169 * 256 + 254, 16)" "v4_is_multicast ip \<longleftrightarrow> in_block ip (14, 4)"
    "v4_is_unspecified ip \<Longrightarrow> in_block ip (0, 8)" "v4_is_broadcast ip \<Longrightarrow> in_block ip (15, 4)" by blast+
  show ?thesis
    using std by (auto simp: is_non_public_ipv4_def non_public_blocks_def ipv4_in_cidr_block from_octets_def)
qed

text \<open>An IPv4 address written as an IPv6 address is judged as the IPv4 address.\<close>

lemma mapped_ipv4:
  assumes "v6_to_ipv4 ip = Some v4"
  shows "is_non_public_ip (V6 ip) \<longleftrightarrow> is_non_public_ip (V4 v4) \<or> ip = 1"
  using assms by (simp add: is_non_public_ipv6_def v6_is_loopback_def)

section \<open>What a pattern stands for\<close>

text \<open>The hosts that a pattern covers, as normalised texts.\<close>

fun covers :: "domain_pattern \<Rightarrow> string \<Rightarrow> bool" where
  "covers (Exact domain) host \<longleftrightarrow> host = normalize_domain domain"
| "covers (SubdomainsOnly domain) host \<longleftrightarrow>
     suffix (''.'' @ normalize_domain domain) host \<and> host \<noteq> ''.'' @ normalize_domain domain"
| "covers (ApexAndSubdomains domain) host \<longleftrightarrow>
     host = normalize_domain domain \<or> suffix (''.'' @ normalize_domain domain) host \<and> host \<noteq> ''.'' @ normalize_domain domain"

fun pattern_domain :: "domain_pattern \<Rightarrow> string" where
  "pattern_domain (Exact domain) = domain"
| "pattern_domain (SubdomainsOnly domain) = domain"
| "pattern_domain (ApexAndSubdomains domain) = domain"

text \<open>A name that is not empty and has no empty first label.\<close>

definition proper_name :: "string \<Rightarrow> bool" where
  "proper_name domain \<longleftrightarrow> normalize_domain domain \<noteq> [] \<and> hd (normalize_domain domain) \<noteq> CHR ''.''"

lemma suffix_dot_trans: "suffix (''.'' @ p) c \<Longrightarrow> suffix (''.'' @ c) h \<Longrightarrow> suffix (''.'' @ p) h"
  by (meson suffix_ConsD suffix_order.trans suffix_appendD)

lemma suffix_dot_longer: "suffix (''.'' @ p) c \<Longrightarrow> c \<noteq> p"
  by (auto simp: suffix_def)

lemma one_label_more: "x \<noteq> CHR ''.'' \<Longrightarrow> suffix (''.'' @ p) (x # ''.'' @ c) \<longleftrightarrow> c = p \<or> suffix (''.'' @ p) c"
  by (auto simp: suffix_Cons)

text \<open>The names below a name, as \<open>?*.name\<close> matches them.\<close>

definition below :: "string \<Rightarrow> string \<Rightarrow> bool" where
  "below name host \<longleftrightarrow> suffix (''.'' @ name) host \<and> host \<noteq> ''.'' @ name"

lemma below_label: "x \<noteq> CHR ''.'' \<Longrightarrow> below p (x # ''.'' @ c) \<longleftrightarrow> c = p \<or> suffix (''.'' @ p) c"
  using one_label_more [of x p c] by (auto simp: below_def)

lemma below_trans: "c = p \<or> suffix (''.'' @ p) c \<Longrightarrow> below c host \<Longrightarrow> below p host"
  by (auto simp: below_def suffix_def)

lemma below_inclusion:
  "(\<forall>host. below c host \<longrightarrow> below p host) \<longleftrightarrow> c = p \<or> suffix (''.'' @ p) c"
  "(\<forall>host. below c host \<longrightarrow> host = p \<or> below p host) \<longleftrightarrow> c = p \<or> suffix (''.'' @ p) c"
  "\<not> (\<forall>host. below c host \<longrightarrow> host = p)"
proof -
  have a: "below c (x # ''.'' @ c)" if "x \<noteq> CHR ''.''" for x using below_label [OF that, of c c] by simp
  have one: "c = p \<or> suffix (''.'' @ p) c" if "\<forall>host. below c host \<longrightarrow> host = p \<or> below p host"
  proof (cases "CHR ''a'' # ''.'' @ c = p")
    case True
    then have "CHR ''b'' # ''.'' @ c \<noteq> p" by auto
    then show ?thesis using that a [of "CHR ''b''"] below_label [of "CHR ''b''" p c] by auto
  next
    case False
    then show ?thesis using that a [of "CHR ''a''"] below_label [of "CHR ''a''" p c] by auto
  qed
  then show "(\<forall>host. below c host \<longrightarrow> below p host) \<longleftrightarrow> c = p \<or> suffix (''.'' @ p) c"
    "(\<forall>host. below c host \<longrightarrow> host = p \<or> below p host) \<longleftrightarrow> c = p \<or> suffix (''.'' @ p) c"
    using below_trans by blast+
  show "\<not> (\<forall>host. below c host \<longrightarrow> host = p)" using a [of "CHR ''a''"] a [of "CHR ''b''"] by auto
qed

lemma proper_not_dotted: "proper_name c \<Longrightarrow> normalize_domain c \<noteq> ''.'' @ p"
  by (auto simp: proper_name_def)

lemma allows_inclusion:
  assumes "proper_name (pattern_domain managed)" "proper_name (pattern_domain candidate)"
  shows "allows managed candidate \<longleftrightarrow> (\<forall>host. covers candidate host \<longrightarrow> covers managed host)"
proof -
  let ?p = "normalize_domain (pattern_domain managed)" and ?c = "normalize_domain (pattern_domain candidate)"
  have dotted: "?c \<noteq> ''.'' @ ?p" using assms(2) by (rule proper_not_dotted)
  have self: "suffix (''.'' @ ?p) ?c \<longleftrightarrow> below ?p ?c" using dotted by (simp add: below_def)
  have not_equal: "?c \<noteq> ?p" if "below ?p ?c" using that suffix_dot_longer by (auto simp: below_def)
  show ?thesis
  proof (cases managed)
    case (Exact p)
    then show ?thesis using below_inclusion(3) [of ?c ?p] by (cases candidate) (auto simp: domain_eq_def below_def)
  next
    case managed: (SubdomainsOnly p)
    show ?thesis
    proof (cases candidate)
      case (SubdomainsOnly c)
      then show ?thesis using managed below_inclusion(1) [of ?c ?p] by (simp add: is_subdomain_or_equal_def Let_def below_def)
    next
      case (ApexAndSubdomains c)
      then show ?thesis using managed below_inclusion(1) [of ?c ?p] self not_equal
        by (auto simp: is_strict_subdomain_def Let_def below_def)
    qed (use managed dotted suffix_dot_longer in \<open>auto simp: is_strict_subdomain_def Let_def\<close>)
  next
    case managed: (ApexAndSubdomains p)
    show ?thesis
    proof (cases candidate)
      case (SubdomainsOnly c)
      then show ?thesis using managed below_inclusion(2) [of ?c ?p] by (simp add: is_subdomain_or_equal_def Let_def below_def)
    next
      case (ApexAndSubdomains c)
      then show ?thesis using managed below_inclusion(2) [of ?c ?p] self
        by (auto simp: is_subdomain_or_equal_def Let_def below_def)
    qed (use managed dotted in \<open>auto simp: is_subdomain_or_equal_def Let_def\<close>)
  qed
qed

text \<open>
  For patterns with proper names, comparing two patterns decides inclusion: a managed pattern allows a
  candidate exactly when it covers every host that the candidate covers.
\<close>

lemma allows_decides_inclusion:
  assumes "proper_name (pattern_domain managed)" "proper_name (pattern_domain candidate)"
  shows "allows managed candidate \<longleftrightarrow> (\<forall>host. covers candidate host \<longrightarrow> covers managed host)"
  using assms by (rule allows_inclusion)

lemma allows_decides_inclusion_witness:
  "proper_name ''example.com'' \<and> proper_name ''api.Example.com'' \<and>
   (\<forall>host. covers (SubdomainsOnly ''api.Example.com'') host \<longrightarrow> covers (ApexAndSubdomains ''example.com'') host) \<and>
   \<not> (\<forall>host. covers (ApexAndSubdomains ''example.com'') host \<longrightarrow> covers (SubdomainsOnly ''example.com'') host)"
proof -
  have names: "proper_name (pattern_domain (ApexAndSubdomains ''example.com''))" "proper_name (pattern_domain (SubdomainsOnly ''api.Example.com''))"
      "proper_name (pattern_domain (SubdomainsOnly ''example.com''))" by code_simp+
  have "allows (ApexAndSubdomains ''example.com'') (SubdomainsOnly ''api.Example.com'')"
    "\<not> allows (SubdomainsOnly ''example.com'') (ApexAndSubdomains ''example.com'')" by code_simp+
  then show ?thesis
    using names allows_decides_inclusion [OF names(1,2)] allows_decides_inclusion [OF names(3,1)] by simp
qed

section \<open>Written patterns\<close>

lemma host_char_specials:
  assumes "host_char c"
  shows "c \<notin> {CHR ''*'', CHR ''?'', CHR ''%'', CHR ''[''}" "c \<notin> set ''*?[]{}!,''" "c \<noteq> CHR 0x5C"
  using assms by (auto simp: host_char_def is_ascii_digit_def Let_def)

text \<open>How a pattern is written, and the patterns with a host name.\<close>

fun entry_text :: "domain_pattern \<Rightarrow> string" where
  "entry_text (Exact domain) = domain"
| "entry_text (SubdomainsOnly domain) = ''*.'' @ domain"
| "entry_text (ApexAndSubdomains domain) = ''**.'' @ domain"

definition named_pattern :: "domain_pattern \<Rightarrow> bool" where
  "named_pattern p \<longleftrightarrow> host_name (pattern_domain p) \<and> hd (pattern_domain p) \<noteq> CHR ''.''"

fun lower_pattern :: "domain_pattern \<Rightarrow> domain_pattern" where
  "lower_pattern (Exact domain) = Exact (to_ascii_lowercase domain)"
| "lower_pattern (SubdomainsOnly domain) = SubdomainsOnly (to_ascii_lowercase domain)"
| "lower_pattern (ApexAndSubdomains domain) = ApexAndSubdomains (to_ascii_lowercase domain)"

lemma pattern_domain_lower [simp]: "pattern_domain (lower_pattern p) = to_ascii_lowercase (pattern_domain p)"
  by (cases p) simp_all

lemma lower_pattern_idem [simp]: "lower_pattern (lower_pattern p) = lower_pattern p"
  by (cases p) simp_all

lemma entry_text_lower: "to_ascii_lowercase (entry_text p) = entry_text (lower_pattern p)"
proof -
  have "to_ascii_lowercase (''*.'' @ d) = ''*.'' @ to_ascii_lowercase d" "to_ascii_lowercase (''**.'' @ d) = ''**.'' @ to_ascii_lowercase d" for d
    by (simp_all add: to_ascii_lowercase_def ascii_lower_def)
  then show ?thesis by (cases p) simp_all
qed

lemma host_name_lower:
  assumes "host_name d"
  shows "host_name (to_ascii_lowercase d)" "hd (to_ascii_lowercase d) = CHR ''.'' \<longleftrightarrow> hd d = CHR ''.''"
proof -
  have dot: "ascii_lower c = CHR ''.'' \<longleftrightarrow> c = CHR ''.''" for c
    by (auto simp: ascii_lower_def split: if_splits) (auto dest!: arg_cong [where f = "of_char :: char \<Rightarrow> nat"])
  show "host_name (to_ascii_lowercase d)" "hd (to_ascii_lowercase d) = CHR ''.'' \<longleftrightarrow> hd d = CHR ''.''"
    using assms dot host_char_lower by (auto simp: host_name_def to_ascii_lowercase_def list_all_iff last_map hd_map)
qed

lemma named_lower: "named_pattern p \<Longrightarrow> named_pattern (lower_pattern p)"
  using host_name_lower by (simp add: named_pattern_def)

lemma host_name_normal:
  assumes "host_name d"
  shows "normalize_host d = to_ascii_lowercase d" "normalize_domain d = to_ascii_lowercase d"
    "trim d = d" "trim (''*.'' @ d) = ''*.'' @ d" "trim (''**.'' @ d) = ''**.'' @ d"
    "strip_prefix ''*.'' d = None" "strip_prefix ''**.'' d = None" "d \<noteq> ''*''" "d \<noteq> []"
proof -
  have d: "d \<noteq> []" "list_all host_char d" "last d \<noteq> CHR ''.''" using assms by (simp_all add: host_name_def)
  show "d \<noteq> []" by (rule d)
  have hd: "host_char (hd d)" using d by (cases d) simp_all
  then have no_star: "hd d \<noteq> CHR ''*''" "hd d \<noteq> CHR ''[''" using host_char_not by blast+
  then show "strip_prefix ''*.'' d = None" "strip_prefix ''**.'' d = None" "d \<noteq> ''*''"
    using d(1) by (auto simp: strip_prefix_def prefix_def)
  have t: "trim d = d" using host_char_word(1) [OF d(2) d(1)] .
  then show "trim d = d" .
  have stop: "last d \<notin> set ws_lasts" using d host_char_not by (simp add: list_all_iff)
  have star: "CHR ''*'' \<notin> set ws_heads" by (simp add: ws_heads_def)
  show "trim (''*.'' @ d) = ''*.'' @ d" "trim (''**.'' @ d) = ''**.'' @ d"
    using stop star d(1) by (intro trim_stop; simp)+
  have low: "to_ascii_lowercase d = [] \<or> last (to_ascii_lowercase d) \<noteq> CHR ''.''"
    using host_name_lower(1) [OF assms] by (simp add: host_name_def)
  have colon: "CHR '':'' \<notin> set d" using d(2) host_char_not by (auto simp: list_all_iff)
  then have "count_list d (CHR '':'') = 0" by (simp add: count_list_0_iff)
  moreover have "take 1 d \<noteq> ''[''" using no_star(2) d(1) by (cases d) simp_all
  ultimately show "normalize_host d = to_ascii_lowercase d"
    using t trim_end_matches_stop [OF low] by (simp add: normalize_host_def normalize_dns_host_def)
  show "normalize_domain d = to_ascii_lowercase d"
    using trim_end_matches_stop [of d "CHR ''.''"] d(3) by (simp add: normalize_domain_def)
qed

lemma parse_entry:
  assumes "named_pattern p"
  shows "normalize_pattern (entry_text p) = entry_text (lower_pattern p)" "parse_pattern (entry_text p) = p"
proof -
  have name: "host_name (pattern_domain p)" using assms by (simp add: named_pattern_def)
  have no_double: "strip_prefix ''**.'' (''*.'' @ d) = None" for d by (simp add: strip_prefix_def prefix_def)
  have found: "strip_prefix ''*.'' (''*.'' @ d) = Some d" "strip_prefix ''**.'' (''**.'' @ d) = Some d" for d
    by (simp_all only: strip_prefix_append)
  show "normalize_pattern (entry_text p) = entry_text (lower_pattern p)"
    using host_name_normal [OF name] by (cases p) (simp_all add: normalize_pattern_def no_double [simplified] found [simplified])
  show "parse_pattern (entry_text p) = p"
    using host_name_normal [OF name]
    by (cases p) (simp_all add: parse_pattern_def parse_domain_def no_double [simplified] found [simplified])
qed

lemma parse_entry_for_constraints:
  assumes "named_pattern p" "url_host (pattern_domain p) = Some (to_ascii_lowercase (pattern_domain p))"
  shows "parse_for_constraints url_host (entry_text p) = lower_pattern p"
proof -
  have name: "host_name (pattern_domain p)" using assms by (simp add: named_pattern_def)
  have no_double: "strip_prefix ''**.'' (''*.'' @ d) = None" for d by (simp add: strip_prefix_def prefix_def)
  have found: "strip_prefix ''*.'' (''*.'' @ d) = Some d" "strip_prefix ''**.'' (''**.'' @ d) = Some d" for d
    by (simp_all only: strip_prefix_append)
  have chars: "\<forall>c \<in> set (pattern_domain p). host_char c" using name by (simp add: host_name_def list_all_iff)
  have "\<forall>c \<in> set (pattern_domain p). c \<notin> {CHR ''*'', CHR ''?'', CHR ''%'', CHR ''[''}"
    by (rule ballI, rule host_char_specials(1), rule chars [rule_format])
  then have none: "CHR ''*'' \<notin> set (pattern_domain p)" "CHR ''?'' \<notin> set (pattern_domain p)" "CHR ''%'' \<notin> set (pattern_domain p)"
      "CHR ''['' \<notin> set (pattern_domain p)" by blast+
  have open_bracket: "take 1 (pattern_domain p) \<noteq> ''[''" using none(4) by (cases "pattern_domain p") auto
  have ends: "trim_end_matches (CHR ''.'') (pattern_domain p) = pattern_domain p"
    using name by (intro trim_end_matches_stop) (simp add: host_name_def)
  have domain: "parse_domain_for_constraints url_host (pattern_domain p) = to_ascii_lowercase (pattern_domain p)"
    unfolding parse_domain_for_constraints_def Let_def host_name_normal(3) [OF name] ends
    using none(1,2,3) open_bracket host_name_normal(9) [OF name] by (simp add: assms(2))
  then show ?thesis
    using host_name_normal [OF name]
    by (cases p) (simp_all add: parse_for_constraints_def no_double [simplified] found [simplified])
qed

section \<open>Compiled patterns\<close>

definition plain_text :: "string \<Rightarrow> bool" where
  "plain_text p \<longleftrightarrow> list_all (\<lambda>c. c \<notin> set ''*?[]{}!,'' \<and> c \<noteq> CHR 0x5C) p"

text \<open>
  What is relied on of globs: a text without special characters matches itself without regard to case, and with \<open>?*.\<close> before it
  the names below it.
\<close>

definition glob_laws :: "glob_engine \<Rightarrow> bool" where
  "glob_laws ge \<longleftrightarrow>
     (\<forall>p host. plain_text p \<longrightarrow> (glob_match ge p host \<longleftrightarrow> to_ascii_lowercase host = to_ascii_lowercase p) \<and>
       (glob_match ge (''?*.'' @ p) host \<longleftrightarrow> below (to_ascii_lowercase p) (to_ascii_lowercase host)))"

lemma add_candidates_set: "add_candidates ge cs globs = Ok globs' \<Longrightarrow> set globs' = set globs \<union> set cs"
  by (induction cs arbitrary: globs) (auto split: if_splits)

lemma compile_loop_set:
  "compile_loop ge reject ps globs = Ok globs' \<Longrightarrow> set globs' = set globs \<union> (\<Union>p \<in> set ps. set (expand_domain_pattern (normalize_pattern p)))"
  by (induction ps arbitrary: globs) (auto split: if_splits sum.splits dest: add_candidates_set)

lemma compiled_set:
  "compile_globset_with_policy ge ps reject = Ok globs \<Longrightarrow> set globs = (\<Union>p \<in> set ps. set (expand_domain_pattern (normalize_pattern p)))"
  by (auto simp: compile_globset_with_policy_def split: sum.splits if_splits dest: compile_loop_set)

lemma expanded_match:
  assumes "glob_laws ge" "named_pattern p"
  shows "globs_match ge (expand_domain_pattern (normalize_pattern (entry_text p))) host \<longleftrightarrow> covers p (to_ascii_lowercase host)"
proof -
  have name: "host_name (pattern_domain p)" using assms by (simp add: named_pattern_def)
  have "plain_text (to_ascii_lowercase (pattern_domain p))"
    unfolding plain_text_def
  proof (rule list.pred_mono_strong [where P = host_char])
    show "list_all host_char (to_ascii_lowercase (pattern_domain p))" using host_name_lower(1) [OF name] by (simp only: host_name_def)
    show "c \<notin> set ''*?[]{}!,'' \<and> c \<noteq> CHR 0x5C" if "host_char c" for c
      by (rule conjI; rule host_char_specials; rule that)
  qed
  then have laws: "glob_match ge (to_ascii_lowercase (pattern_domain p)) host \<longleftrightarrow> to_ascii_lowercase host = to_ascii_lowercase (pattern_domain p)"
    "glob_match ge (''?*.'' @ to_ascii_lowercase (pattern_domain p)) host \<longleftrightarrow> below (to_ascii_lowercase (pattern_domain p)) (to_ascii_lowercase host)"
    using assms(1) by (simp_all add: glob_laws_def)
  have domain: "normalize_domain (pattern_domain p) = to_ascii_lowercase (pattern_domain p)" by (rule host_name_normal) (rule name)
  have "parse_pattern (normalize_pattern (entry_text p)) = lower_pattern p"
    using parse_entry(1) [OF assms(2)] parse_entry(2) [OF named_lower [OF assms(2)]] by simp
  then show ?thesis
    using laws domain by (cases p) (auto simp: expand_domain_pattern_def globs_match_def below_def)
qed

lemma compiled_covers:
  assumes "glob_laws ge" "compile_globset_with_policy ge ps reject = Ok globs"
    "\<forall>e \<in> set ps. \<exists>p. e = entry_text p \<and> named_pattern p"
  shows "globs_match ge globs host \<longleftrightarrow> (\<exists>p. entry_text p \<in> set ps \<and> named_pattern p \<and> covers p (to_ascii_lowercase host))"
proof -
  have "globs_match ge globs host \<longleftrightarrow> (\<exists>e \<in> set ps. globs_match ge (expand_domain_pattern (normalize_pattern e)) host)"
    by (auto simp: globs_match_def list_ex_iff compiled_set [OF assms(2)])
  then show ?thesis using assms(3) expanded_match [OF assms(1)] by (metis (no_types))
qed

lemma covers_lower [simp]: "named_pattern p \<Longrightarrow> covers (lower_pattern p) host \<longleftrightarrow> covers p host"
  using host_name_normal(2) [of "pattern_domain p"] host_name_normal(2) [OF host_name_lower(1), of "pattern_domain p"]
  by (cases p) (simp_all add: named_pattern_def)

lemma named_proper: "named_pattern p \<Longrightarrow> proper_name (pattern_domain p)"
  using host_name_normal(2) [of "pattern_domain p"] host_name_lower [of "pattern_domain p"]
  by (auto simp: named_pattern_def proper_name_def host_name_def)

end
