(* ===== verification/Proxy_Settings.thy ===== *)
theory Proxy_Settings
  imports Proxy_Hosts
begin

text \<open>
  The settings of the network proxy with the lists of hosts, the addresses it listens on (\<open>network-proxy/src/config.rs\<close>), and the check of the
  settings against the managed constraints (\<open>state.rs\<close>). The URL parser and the environment of paths are arguments.
\<close>

section \<open>Settings\<close>

datatype domain_permission = PermNone | PermAllow | PermDeny

fun permission_rank :: "domain_permission \<Rightarrow> nat" where
  "permission_rank PermNone = 0"
| "permission_rank PermAllow = 1"
| "permission_rank PermDeny = 2"

instantiation domain_permission :: linorder
begin

definition less_eq_domain_permission :: "domain_permission \<Rightarrow> domain_permission \<Rightarrow> bool" where
  "less_eq_domain_permission a b \<longleftrightarrow> permission_rank a \<le> permission_rank b"

definition less_domain_permission :: "domain_permission \<Rightarrow> domain_permission \<Rightarrow> bool" where
  "less_domain_permission a b \<longleftrightarrow> permission_rank a < permission_rank b"

instance
proof
  fix a b :: domain_permission
  show "a \<le> b \<Longrightarrow> b \<le> a \<Longrightarrow> a = b"
    by (cases a; cases b) (simp_all add: less_eq_domain_permission_def)
qed (auto simp: less_eq_domain_permission_def less_domain_permission_def)

end

record domain_entry =
  de_pattern :: string
  de_permission :: domain_permission

datatype unix_socket_permission = SocketAllow | SocketNone

datatype network_mode = Limited | Full

record proxy_settings =
  np_enabled :: bool
  np_proxy_url :: string
  np_enable_socks5 :: bool
  np_socks_url :: string
  np_enable_socks5_udp :: bool
  np_allow_upstream_proxy :: bool
  np_dangerously_allow_non_loopback_proxy :: bool
  np_dangerously_allow_all_unix_sockets :: bool
  np_mode :: network_mode
  np_domains :: "domain_entry list option"
  np_unix_sockets :: "(string \<times> unix_socket_permission) list option"
  np_allow_local_binding :: bool
  np_mitm :: bool

definition default_settings :: proxy_settings where
  "default_settings =
     \<lparr>np_enabled = False, np_proxy_url = ''http://127.0.0.1:3128'', np_enable_socks5 = True, np_socks_url = ''http://127.0.0.1:8081'',
      np_enable_socks5_udp = True, np_allow_upstream_proxy = True, np_dangerously_allow_non_loopback_proxy = False,
      np_dangerously_allow_all_unix_sockets = False, np_mode = Full, np_domains = None, np_unix_sockets = None,
      np_allow_local_binding = False, np_mitm = False\<rparr>"

text \<open>The loop over the entries: the order of first occurrence and the strongest permission of each pattern.\<close>

fun effective_loop :: "domain_entry list \<Rightarrow> string list \<Rightarrow> (string \<rightharpoonup> domain_permission) \<Rightarrow> string list \<times> (string \<rightharpoonup> domain_permission)" where
  "effective_loop [] order m = (order, m)"
| "effective_loop (e # rest) order m =
     (case m (de_pattern e) of
        None \<Rightarrow> effective_loop rest (order @ [de_pattern e]) (m(de_pattern e \<mapsto> de_permission e))
      | Some p \<Rightarrow> effective_loop rest order (if p < de_permission e then m(de_pattern e \<mapsto> de_permission e) else m))"

definition effective_entries :: "domain_entry list \<Rightarrow> domain_entry list" where
  "effective_entries entries =
     (case effective_loop entries [] (\<lambda>_. None) of
        (order, m) \<Rightarrow> List.map_filter (\<lambda>p. map_option (\<lambda>perm. \<lparr>de_pattern = p, de_permission = perm\<rparr>) (m p)) order)"

definition domain_entries :: "proxy_settings \<Rightarrow> domain_permission \<Rightarrow> string list option" where
  "domain_entries cfg permission =
     (case np_domains cfg of
        None \<Rightarrow> None
      | Some entries \<Rightarrow>
          (let found = map de_pattern (filter (\<lambda>e. de_permission e = permission) (effective_entries entries)) in
           if found = [] then None else Some found))"

definition allowed_domains :: "proxy_settings \<Rightarrow> string list option" where
  "allowed_domains cfg = domain_entries cfg PermAllow"

definition denied_domains :: "proxy_settings \<Rightarrow> string list option" where
  "denied_domains cfg = domain_entries cfg PermDeny"

definition or_default :: "'a list option \<Rightarrow> 'a list" where
  "or_default entries = (case entries of None \<Rightarrow> [] | Some es \<Rightarrow> es)"

lemma or_default_simps [simp]: "or_default None = []" "or_default (Some es) = es"
  by (simp_all add: or_default_def)

definition allow_unix_sockets :: "proxy_settings \<Rightarrow> string list" where
  "allow_unix_sockets cfg = map fst (filter (\<lambda>(_, p). p = SocketAllow) (or_default (np_unix_sockets cfg)))"

definition upsert_domain_permission :: "(string \<Rightarrow> string) \<Rightarrow> string \<Rightarrow> domain_permission \<Rightarrow> proxy_settings \<Rightarrow> proxy_settings" where
  "upsert_domain_permission norm host permission cfg =
     (let entries = filter (\<lambda>e. norm (de_pattern e) \<noteq> norm host) (or_default (np_domains cfg)) @ [\<lparr>de_pattern = host, de_permission = permission\<rparr>]
      in cfg\<lparr>np_domains := (if entries \<noteq> [] then Some entries else None)\<rparr>)"

definition set_domain_entries :: "string list \<Rightarrow> domain_permission \<Rightarrow> proxy_settings \<Rightarrow> proxy_settings" where
  "set_domain_entries patterns permission cfg =
     (let kept = filter (\<lambda>e. de_permission e \<noteq> permission) (or_default (np_domains cfg));
        entries = fold (\<lambda>p es. if list_ex (\<lambda>e. de_pattern e = p \<and> de_permission e = permission) es then es
            else es @ [\<lparr>de_pattern = p, de_permission = permission\<rparr>]) patterns kept
      in cfg\<lparr>np_domains := (if entries \<noteq> [] then Some entries else None)\<rparr>)"

definition set_allowed_domains :: "string list \<Rightarrow> proxy_settings \<Rightarrow> proxy_settings" where
  "set_allowed_domains patterns = set_domain_entries patterns PermAllow"

definition set_denied_domains :: "string list \<Rightarrow> proxy_settings \<Rightarrow> proxy_settings" where
  "set_denied_domains patterns = set_domain_entries patterns PermDeny"

text \<open>\<open>BTreeMap::insert\<close> on the list of the entries in the order of their keys.\<close>

fun text_less :: "string \<Rightarrow> string \<Rightarrow> bool" where
  "text_less s [] = False"
| "text_less [] (d # t) = True"
| "text_less (c # s) (d # t) = ((of_char c :: nat) < of_char d \<or> c = d \<and> text_less s t)"

fun btree_insert :: "string \<Rightarrow> 'v \<Rightarrow> (string \<times> 'v) list \<Rightarrow> (string \<times> 'v) list" where
  "btree_insert k v [] = [(k, v)]"
| "btree_insert k v ((k', v') # m) =
     (if k = k' then (k', v) # m else if text_less k k' then (k, v) # (k', v') # m else (k', v') # btree_insert k v m)"

definition set_unix_socket_entries :: "string list \<Rightarrow> unix_socket_permission \<Rightarrow> proxy_settings \<Rightarrow> proxy_settings" where
  "set_unix_socket_entries entries permission cfg =
     (let kept = filter (\<lambda>(_, existing). existing \<noteq> permission) (or_default (np_unix_sockets cfg));
        new_entries = fold (\<lambda>entry. btree_insert entry permission) entries kept
      in cfg\<lparr>np_unix_sockets := (if new_entries \<noteq> [] then Some new_entries else None)\<rparr>)"

definition set_allow_unix_sockets :: "string list \<Rightarrow> proxy_settings \<Rightarrow> proxy_settings" where
  "set_allow_unix_sockets entries = set_unix_socket_entries entries SocketAllow"

fun allows_method :: "network_mode \<Rightarrow> string \<Rightarrow> bool" where
  "allows_method Full meth = True"
| "allows_method Limited meth = (meth \<in> {''GET'', ''HEAD'', ''OPTIONS''})"

section \<open>Listening addresses\<close>

record socket_addr =
  sa_ip :: ip_addr
  sa_port :: nat

definition loopback_at :: "nat \<Rightarrow> socket_addr" where
  "loopback_at port = \<lparr>sa_ip = V4 (from_octets [127, 0, 0, 1]), sa_port = port\<rparr>"

definition clamp_non_loopback :: "socket_addr \<Rightarrow> bool \<Rightarrow> socket_addr" where
  "clamp_non_loopback addr allow_non_loopback =
     (if ip_is_loopback (sa_ip addr) then addr else if allow_non_loopback then addr else loopback_at (sa_port addr))"

definition clamp_bind_addrs :: "socket_addr \<Rightarrow> socket_addr \<Rightarrow> proxy_settings \<Rightarrow> socket_addr \<times> socket_addr" where
  "clamp_bind_addrs http socks cfg =
     (let http = clamp_non_loopback http (np_dangerously_allow_non_loopback_proxy cfg);
        socks = clamp_non_loopback socks (np_dangerously_allow_non_loopback_proxy cfg) in
      if allow_unix_sockets cfg = [] \<and> \<not> np_dangerously_allow_all_unix_sockets cfg then (http, socks)
      else (loopback_at (sa_port http), loopback_at (sa_port socks)))"

record socket_address_parts =
  sp_host :: string
  sp_port :: nat

text \<open>\<open>str::parse::<u16>\<close>.\<close>

definition parse_u16 :: "string \<Rightarrow> nat option" where
  "parse_u16 s =
     (let digits = (if take 1 s = ''+'' then drop 1 s else s) in
      if digits = [] \<or> \<not> list_all is_ascii_digit digits then None
      else
        (let n = fold (\<lambda>c n. n * 10 + (of_char c - 48)) digits (0 :: int) in
         if n \<le> 65535 then Some (nat n) else None))"

definition parse_host_port_fallback :: "string \<Rightarrow> nat \<Rightarrow> (string, socket_address_parts) result" where
  "parse_host_port_fallback input default_port =
     (let missing = Err (''missing host in network proxy address: '' @ input);
        without_scheme = (case str_find input ''://'' of Some i \<Rightarrow> drop (i + 3) input | None \<Rightarrow> input);
        host_port0 = hd (split_on (CHR ''/'') without_scheme);
        host_port = (case rsplit_once (CHR ''@'') host_port0 of Some (_, rest) \<Rightarrow> rest | None \<Rightarrow> host_port0) in
      case (if take 1 host_port = ''['' then str_find host_port '']'' else None) of
        Some e \<Rightarrow>
          (let host = take (e - 1) (drop 1 host_port);
             port = (case strip_prefix '':'' (drop (e + 1) host_port) of
                 Some p \<Rightarrow> case_option default_port id (parse_u16 p)
               | None \<Rightarrow> default_port) in
           if host = [] then missing else Ok \<lparr>sp_host = host, sp_port = port\<rparr>)
      | None \<Rightarrow>
          (case (if count_list host_port (CHR '':'') = 1 then rsplit_once (CHR '':'') host_port else None) of
             Some (host, port) \<Rightarrow>
               if host = [] then missing
               else Ok \<lparr>sp_host = host, sp_port = case_option default_port id (parse_u16 port)\<rparr>
           | None \<Rightarrow> if host_port = [] then missing else Ok \<lparr>sp_host = host_port, sp_port = default_port\<rparr>))"

text \<open>\<open>trim_matches\<close> for the brackets; \<open>Url::parse\<close> gives the text of the host and the port, if the URL has them.\<close>

definition trim_brackets :: "string \<Rightarrow> string" where
  "trim_brackets s =
     (let bracket = (\<lambda>c. c = CHR ''['' \<or> c = CHR '']'') in rev (dropWhile bracket (rev (dropWhile bracket s))))"

type_synonym url_parser = "string \<Rightarrow> (string option \<times> nat option) option"

definition parse_host_port :: "url_parser \<Rightarrow> string \<Rightarrow> nat \<Rightarrow> (string, socket_address_parts) result" where
  "parse_host_port url_parse url default_port =
     (let trimmed = trim url; missing = Err (''missing host in network proxy address: '' @ url) in
      if trimmed = [] then missing
      else if (case parse_ip trimmed of Some (V6 _) \<Rightarrow> True | _ \<Rightarrow> False) \<and> take 1 trimmed \<noteq> ''['' then
        Ok \<lparr>sp_host = trimmed, sp_port = default_port\<rparr>
      else
        (case url_parse (if str_contains trimmed ''://'' then trimmed else ''http://'' @ trimmed) of
           Some (Some host0, port) \<Rightarrow>
             (let host = trim_brackets host0 in
              if host = [] then missing else Ok \<lparr>sp_host = host, sp_port = case_option default_port id port\<rparr>)
         | _ \<Rightarrow> parse_host_port_fallback trimmed default_port))"

definition format_host_and_port :: "string \<Rightarrow> nat \<Rightarrow> string" where
  "format_host_and_port host port =
     (if CHR '':'' \<in> set host then ''['' @ host @ '']:'' @ show_nat port else host @ '':'' @ show_nat port)"

definition host_and_port_from_network_addr :: "url_parser \<Rightarrow> string \<Rightarrow> nat \<Rightarrow> string" where
  "host_and_port_from_network_addr url_parse addr default_port =
     (let trimmed = trim addr in
      if trimmed = [] then ''<missing>''
      else case parse_host_port url_parse trimmed default_port of
        Ok parts \<Rightarrow> format_host_and_port (sp_host parts) (sp_port parts)
      | Err _ \<Rightarrow> format_host_and_port trimmed default_port)"

definition resolve_addr :: "url_parser \<Rightarrow> string \<Rightarrow> nat \<Rightarrow> (string, socket_addr) result" where
  "resolve_addr url_parse url default_port =
     map_sum id (\<lambda>parts.
         (let host = (if to_ascii_lowercase (sp_host parts) = ''localhost'' then ''127.0.0.1'' else sp_host parts) in
          case parse_ip host of
            Some ip \<Rightarrow> \<lparr>sa_ip = ip, sa_port = sp_port parts\<rparr>
          | None \<Rightarrow> loopback_at (sp_port parts)))
       (parse_host_port url_parse url default_port)"

text \<open>The path of a socket: absolute paths are normalised, as the absolute-path crate does it.\<close>

record path_env =
  pe_home :: "string option"
  pe_cwd :: "(string, string) result"

datatype socket_path = NativeSocket string | UnixStyleSocket string

definition parse_socket_path :: "path_env \<Rightarrow> string \<Rightarrow> (string, socket_path) result" where
  "parse_socket_path pe path =
     (if is_absolute path then map_sum id NativeSocket (from_absolute_path (pe_home pe) (pe_cwd pe) path)
      else if take 1 path = ''/'' then Ok (UnixStyleSocket path)
      else Err (''expected an absolute path, got '' @ quoted path))"

datatype constraint_text = Words string | EntryList "string list" | EntrySet "string set"

datatype proxy_error =
    InvalidValue string constraint_text constraint_text
  | GlobFailure glob_error
  | InvalidSocket nat string
  | AddressError string
  | MitmFailure string
  | ReloadFailure string
  | EmptyHost
  | WithContext string proxy_error

fun validate_sockets :: "path_env \<Rightarrow> nat \<Rightarrow> string list \<Rightarrow> (proxy_error, unit) result" where
  "validate_sockets pe index [] = Ok ()"
| "validate_sockets pe index (path # rest) =
     (case parse_socket_path pe path of Err e \<Rightarrow> Err (InvalidSocket index e) | Ok _ \<Rightarrow> validate_sockets pe (index + 1) rest)"

definition validate_unix_socket_allowlist_paths :: "path_env \<Rightarrow> proxy_settings \<Rightarrow> (proxy_error, unit) result" where
  "validate_unix_socket_allowlist_paths pe cfg = validate_sockets pe 0 (allow_unix_sockets cfg)"

definition resolve_runtime :: "path_env \<Rightarrow> url_parser \<Rightarrow> proxy_settings \<Rightarrow> (proxy_error, socket_addr \<times> socket_addr) result" where
  "resolve_runtime pe url_parse cfg =
     (case validate_unix_socket_allowlist_paths pe cfg of
        Err e \<Rightarrow> Err e
      | Ok _ \<Rightarrow>
          (case resolve_addr url_parse (np_proxy_url cfg) 3128 of
             Err e \<Rightarrow> Err (WithContext (''invalid network.proxy_url: '' @ np_proxy_url cfg) (AddressError e))
           | Ok http \<Rightarrow>
               (case resolve_addr url_parse (np_socks_url cfg) 8081 of
                  Err e \<Rightarrow> Err (WithContext (''invalid network.socks_url: '' @ np_socks_url cfg) (AddressError e))
                | Ok socks \<Rightarrow> Ok (clamp_bind_addrs http socks cfg))))"

section \<open>Managed constraints\<close>

record proxy_constraints =
  nc_enabled :: "bool option"
  nc_mode :: "network_mode option"
  nc_allow_upstream_proxy :: "bool option"
  nc_dangerously_allow_non_loopback_proxy :: "bool option"
  nc_dangerously_allow_all_unix_sockets :: "bool option"
  nc_allowed_domains :: "string list option"
  nc_allowlist_expansion_enabled :: "bool option"
  nc_denied_domains :: "string list option"
  nc_denylist_expansion_enabled :: "bool option"
  nc_allow_unix_sockets :: "string list option"
  nc_allow_local_binding :: "bool option"

fun network_mode_rank :: "network_mode \<Rightarrow> nat" where
  "network_mode_rank Limited = 0"
| "network_mode_rank Full = 1"

fun mode_text :: "network_mode \<Rightarrow> string" where
  "mode_text Limited = ''Limited''"
| "mode_text Full = ''Full''"

definition validate_non_global_wildcard_domain_patterns :: "string \<Rightarrow> string list \<Rightarrow> (proxy_error, unit) result" where
  "validate_non_global_wildcard_domain_patterns field patterns =
     (case find is_global_wildcard_domain_pattern patterns of
        None \<Rightarrow> Ok ()
      | Some pattern \<Rightarrow> Err (InvalidValue field (Words (trim pattern))
          (Words ''exact hosts or scoped wildcards like *.example.com or **.example.com'')))"

definition ensure :: "bool \<Rightarrow> proxy_error \<Rightarrow> (proxy_error, unit) result" where
  "ensure ok e = (if ok then Ok () else Err e)"

definition and_then :: "(proxy_error, unit) result \<Rightarrow> (proxy_error, unit) result \<Rightarrow> (proxy_error, unit) result" where
  "and_then r next = (case r of Err e \<Rightarrow> Err e | Ok _ \<Rightarrow> next)"

definition disabled_by_managed :: "string \<Rightarrow> proxy_error" where
  "disabled_by_managed field = InvalidValue field (Words ''true'') (Words ''false (disabled by managed config)'')"

definition lower_set :: "string list \<Rightarrow> string set" where
  "lower_set entries = to_ascii_lowercase ` set entries"

definition validate_allowed :: "(string \<Rightarrow> string option) \<Rightarrow> proxy_constraints \<Rightarrow> string list \<Rightarrow> string list \<Rightarrow> string list \<Rightarrow> (proxy_error, unit) result" where
  "validate_allowed url_host constraints managed allowed denied =
     and_then (validate_non_global_wildcard_domain_patterns ''network.allowed_domains'' managed)
       (case nc_allowlist_expansion_enabled constraints of
          Some True \<Rightarrow>
            (let missing = lower_set managed - lower_set allowed - lower_set denied in
             ensure (missing = {}) (InvalidValue ''network.allowed_domains'' (Words ''missing managed allowed_domains entries'') (EntrySet missing)))
        | Some False \<Rightarrow>
            ensure (lower_set allowed = lower_set managed - lower_set denied)
              (InvalidValue ''network.allowed_domains'' (EntryList allowed) (Words ''must match managed allowed_domains''))
        | None \<Rightarrow>
            (let managed_patterns = map (parse_for_constraints url_host) managed;
               invalid = filter (\<lambda>entry. \<not> list_ex (\<lambda>m. allows m (parse_for_constraints url_host entry)) managed_patterns) allowed in
             ensure (invalid = []) (InvalidValue ''network.allowed_domains'' (EntryList invalid) (Words ''subset of managed allowed_domains''))))"

definition validate_denied :: "proxy_constraints \<Rightarrow> string list \<Rightarrow> string list \<Rightarrow> (proxy_error, unit) result" where
  "validate_denied constraints managed denied =
     and_then (validate_non_global_wildcard_domain_patterns ''network.denied_domains'' managed)
       (if nc_denylist_expansion_enabled constraints = Some False then
          ensure (lower_set denied = lower_set managed)
            (InvalidValue ''network.denied_domains'' (EntryList denied) (Words ''must match managed denied_domains''))
        else
          (let missing = lower_set managed - lower_set denied in
           ensure (missing = {}) (InvalidValue ''network.denied_domains'' (Words ''missing managed denied_domains entries'') (EntrySet missing))))"

definition validate_policy_against_constraints ::
  "(string \<Rightarrow> string option) \<Rightarrow> proxy_settings \<Rightarrow> proxy_constraints \<Rightarrow> (proxy_error, unit) result" where
  "validate_policy_against_constraints url_host cfg constraints =
     (let allowed = or_default (allowed_domains cfg); denied = or_default (denied_domains cfg) in
      and_then (validate_non_global_wildcard_domain_patterns ''network.denied_domains'' denied)
      (and_then (case nc_enabled constraints of
           None \<Rightarrow> Ok ()
         | Some max_enabled \<Rightarrow> ensure (\<not> (np_enabled cfg \<and> \<not> max_enabled)) (disabled_by_managed ''network.enabled''))
      (and_then (case nc_mode constraints of
           None \<Rightarrow> Ok ()
         | Some max_mode \<Rightarrow> ensure (network_mode_rank (np_mode cfg) \<le> network_mode_rank max_mode)
             (InvalidValue ''network.mode'' (Words (mode_text (np_mode cfg))) (Words (mode_text max_mode @ '' or more restrictive''))))
      (and_then (ensure (\<not> (nc_allow_upstream_proxy constraints = Some False \<and> np_allow_upstream_proxy cfg))
         (disabled_by_managed ''network.allow_upstream_proxy''))
      (and_then (ensure (\<not> (nc_dangerously_allow_non_loopback_proxy constraints = Some False \<and> np_dangerously_allow_non_loopback_proxy cfg))
         (disabled_by_managed ''network.dangerously_allow_non_loopback_proxy''))
      (and_then (let allow_all = case_option (nc_allow_unix_sockets constraints = None) id (nc_dangerously_allow_all_unix_sockets constraints)
         in ensure (\<not> (np_dangerously_allow_all_unix_sockets cfg \<and> \<not> allow_all))
              (disabled_by_managed ''network.dangerously_allow_all_unix_sockets''))
      (and_then (case nc_allow_local_binding constraints of
           None \<Rightarrow> Ok ()
         | Some allow \<Rightarrow> ensure (\<not> (np_allow_local_binding cfg \<and> \<not> allow)) (disabled_by_managed ''network.allow_local_binding''))
      (and_then (case nc_allowed_domains constraints of
           None \<Rightarrow> Ok () | Some managed \<Rightarrow> validate_allowed url_host constraints managed allowed denied)
      (and_then (case nc_denied_domains constraints of
           None \<Rightarrow> Ok () | Some managed \<Rightarrow> validate_denied constraints managed denied)
      (case nc_allow_unix_sockets constraints of
           None \<Rightarrow> Ok ()
         | Some managed \<Rightarrow>
             (let invalid = filter (\<lambda>entry. to_ascii_lowercase entry \<notin> lower_set managed) (allow_unix_sockets cfg) in
              ensure (invalid = []) (InvalidValue ''network.allow_unix_sockets'' (EntryList invalid)
                (Words ''subset of managed allow_unix_sockets'')))))))))))))"

section \<open>Which hosts are denied\<close>

lemma effective_loop_deny:
  "effective_loop es order m = (order', m') \<Longrightarrow>
     m' p = Some PermDeny \<longleftrightarrow> m p = Some PermDeny \<or> (\<exists>e \<in> set es. de_pattern e = p \<and> de_permission e = PermDeny)"
proof (induction es order m rule: effective_loop.induct)
  case (2 e rest order m)
  have strongest: "q = PermDeny \<or> q < PermDeny" "\<not> PermDeny < q" for q
    by (cases q; simp add: less_domain_permission_def)+
  show ?case
  proof (cases "m (de_pattern e)")
    case None
    then have "effective_loop rest (order @ [de_pattern e]) (m(de_pattern e \<mapsto> de_permission e)) = (order', m')" using 2(3) by simp
    from 2(1) [OF None this] show ?thesis using None by auto
  next
    case (Some q)
    then have "effective_loop rest order (if q < de_permission e then m(de_pattern e \<mapsto> de_permission e) else m) = (order', m')" using 2(3) by simp
    from 2(2) [OF Some this] show ?thesis using Some strongest(1) [of q] strongest(2) by (auto split: if_splits)
  qed
qed auto

lemma effective_loop_order: "effective_loop es order m = (order', m') \<Longrightarrow> set order = dom m \<Longrightarrow> set order' = dom m'"
  by (induction es order m rule: effective_loop.induct) (auto simp del: fun_upd_apply split: option.splits if_splits)

text \<open>Whatever else is said of a pattern, it is denied as soon as one entry denies it.\<close>

lemma denied_entries:
  "p \<in> set (or_default (denied_domains cfg)) \<longleftrightarrow> (\<exists>e \<in> set (or_default (np_domains cfg)). de_pattern e = p \<and> de_permission e = PermDeny)"
proof -
  have "p \<in> de_pattern ` {e \<in> set (effective_entries es). de_permission e = PermDeny} \<longleftrightarrow> (\<exists>e \<in> set es. de_pattern e = p \<and> de_permission e = PermDeny)" for es
  proof -
    obtain order m where loop: "effective_loop es [] (\<lambda>_. None) = (order, m)" by fastforce
    have "set order = dom m" using effective_loop_order [OF loop] by simp
    then have "p \<in> de_pattern ` {e \<in> set (effective_entries es). de_permission e = PermDeny} \<longleftrightarrow> m p = Some PermDeny"
      by (force simp: effective_entries_def loop List.map_filter_def image_iff)
    then show ?thesis using effective_loop_deny [OF loop, of p] by simp
  qed
  then show ?thesis
    by (auto simp: denied_domains_def domain_entries_def or_default_def Let_def filter_empty_conv split: option.splits)
qed

lemma upserted_denied: "host \<in> set (or_default (denied_domains (upsert_domain_permission norm host PermDeny cfg)))"
  by (simp add: denied_entries upsert_domain_permission_def Let_def)

lemma allowed_keeps_denied: "set (or_default (denied_domains (set_allowed_domains patterns cfg))) = set (or_default (denied_domains cfg))"
proof -
  let ?add = "\<lambda>p es. if list_ex (\<lambda>e. de_pattern e = p \<and> de_permission e = PermAllow) es then es else es @ [\<lparr>de_pattern = p, de_permission = PermAllow\<rparr>]"
  let ?kept = "filter (\<lambda>e. de_permission e \<noteq> PermAllow) (or_default (np_domains cfg))"
  have "{e \<in> set (fold ?add patterns es). de_permission e = PermDeny} = {e \<in> set es. de_permission e = PermDeny}" for es
    by (induction patterns arbitrary: es) auto
  then have "{e \<in> set (fold ?add patterns ?kept). de_permission e = PermDeny} = {e \<in> set (or_default (np_domains cfg)). de_permission e = PermDeny}"
    by auto
  then show ?thesis
    by (auto simp: set_eq_iff denied_entries set_allowed_domains_def set_domain_entries_def Let_def)
qed

lemma btree_insert_keys: "{k. (k, v) \<in> set (btree_insert entry v m)} = insert entry {k. (k, v) \<in> set m}"
  by (induction entry v m rule: btree_insert.induct) auto

lemma set_allow_unix_sockets: "set (allow_unix_sockets (set_allow_unix_sockets entries cfg)) = set entries"
proof -
  have folded: "{k. (k, v) \<in> set (fold (\<lambda>entry. btree_insert entry v) es m)} = set es \<union> {k. (k, v) \<in> set m}" for es v and m :: "(string \<times> unix_socket_permission) list"
    by (induction es arbitrary: m) (simp_all add: btree_insert_keys)
  have allowed: "set (allow_unix_sockets c) = {k. (k, SocketAllow) \<in> set (or_default (np_unix_sockets c))}" for c
    by (force simp: allow_unix_sockets_def)
  show ?thesis
    unfolding allowed using folded [of SocketAllow entries "filter (\<lambda>(_, existing). existing \<noteq> SocketAllow) (or_default (np_unix_sockets cfg))"]
    by (auto simp: set_allow_unix_sockets_def set_unix_socket_entries_def Let_def split: if_splits)
qed

end
