(* ===== verification/Proxy_Policy.thy ===== *)
theory Proxy_Policy
  imports Proxy_Settings
begin

text \<open>
  The policy of the network proxy at run time: the state with its checks and updates (\<open>network-proxy/src/runtime.rs\<close>, \<open>state.rs\<close>) and the
  decision on a request (\<open>network_policy.rs\<close>). The name lookup, the URL parser, the reloader of the configuration and the
  certificates for interception are arguments.

  The theorems: which requests are let through, that managed lists bind, and what adding a denied host guarantees.
\<close>

section \<open>The state of the proxy\<close>

record blocked_request =
  br_host :: string
  br_reason :: string
  br_client :: "string option"
  br_method :: "string option"
  br_mode :: "network_mode option"
  br_protocol :: string
  br_decision :: "string option"
  br_source :: "string option"
  br_port :: "nat option"
  br_timestamp :: int

record 'm config_state =
  cs_config :: proxy_settings
  cs_allow_set :: "string list"
  cs_deny_set :: "string list"
  cs_mitm :: "'m option"
  cs_constraints :: proxy_constraints
  cs_blocked :: "blocked_request list"
  cs_blocked_total :: nat

text \<open>What the state relies on: globs, names of URLs, socket paths, and certificates for interception.\<close>

record 'm proxy_host =
  ph_globs :: glob_engine
  ph_url_host :: "string \<Rightarrow> string option"
  ph_paths :: path_env
  ph_mitm :: "bool \<Rightarrow> (string, 'm) result"

definition build_config_state :: "'m proxy_host \<Rightarrow> proxy_settings \<Rightarrow> proxy_constraints \<Rightarrow> (proxy_error, 'm config_state) result" where
  "build_config_state ph cfg constraints =
     (case validate_unix_socket_allowlist_paths (ph_paths ph) cfg of
        Err e \<Rightarrow> Err e
      | Ok _ \<Rightarrow>
          (let allowed = or_default (allowed_domains cfg); denied = or_default (denied_domains cfg) in
           case validate_non_global_wildcard_domain_patterns ''network.denied_domains'' denied of
             Err e \<Rightarrow> Err e
           | Ok _ \<Rightarrow>
               (case compile_denylist_globset (ph_globs ph) denied of
                  Err e \<Rightarrow> Err (GlobFailure e)
                | Ok deny_set \<Rightarrow>
                    (case compile_allowlist_globset (ph_globs ph) allowed of
                       Err e \<Rightarrow> Err (GlobFailure e)
                     | Ok allow_set \<Rightarrow>
                         (case (if np_mitm cfg then map_sum id Some (ph_mitm ph (np_allow_upstream_proxy cfg)) else Ok None) of
                            Err e \<Rightarrow> Err (MitmFailure e)
                          | Ok mitm \<Rightarrow>
                              Ok \<lparr>cs_config = cfg, cs_allow_set = allow_set, cs_deny_set = deny_set, cs_mitm = mitm,
                                  cs_constraints = constraints, cs_blocked = [], cs_blocked_total = 0\<rparr>)))))"

text \<open>
  The reloader answers before every operation: an error, nothing, or a new state. The operations take the answer as an argument.
\<close>

type_synonym 'm reload = "(string, 'm config_state option) result"

definition reload_if_needed :: "'m reload \<Rightarrow> 'm config_state \<Rightarrow> 'm config_state \<times> (proxy_error, unit) result" where
  "reload_if_needed reload st =
     (case reload of
        Err e \<Rightarrow> (st, Err (ReloadFailure e))
      | Ok None \<Rightarrow> (st, Ok ())
      | Ok (Some new_state) \<Rightarrow> (new_state\<lparr>cs_blocked := cs_blocked st, cs_blocked_total := cs_blocked_total st\<rparr>, Ok ()))"

definition reading :: "'m reload \<Rightarrow> ('m config_state \<Rightarrow> 'a) \<Rightarrow> 'm config_state \<Rightarrow> 'm config_state \<times> (proxy_error, 'a) result" where
  "reading reload f st = (case reload_if_needed reload st of (st', r) \<Rightarrow> (st', map_sum id (\<lambda>_. f st') r))"

definition current_cfg :: "'m reload \<Rightarrow> 'm config_state \<Rightarrow> 'm config_state \<times> (proxy_error, proxy_settings) result" where
  "current_cfg reload = reading reload cs_config"

definition current_patterns :: "'m reload \<Rightarrow> 'm config_state \<Rightarrow> 'm config_state \<times> (proxy_error, string list \<times> string list) result" where
  "current_patterns reload =
     reading reload (\<lambda>st. (or_default (allowed_domains (cs_config st)), or_default (denied_domains (cs_config st))))"

definition proxy_enabled :: "'m reload \<Rightarrow> 'm config_state \<Rightarrow> 'm config_state \<times> (proxy_error, bool) result" where
  "proxy_enabled reload = reading reload (\<lambda>st. np_enabled (cs_config st))"

definition method_allowed :: "'m reload \<Rightarrow> string \<Rightarrow> 'm config_state \<Rightarrow> 'm config_state \<times> (proxy_error, bool) result" where
  "method_allowed reload meth = reading reload (\<lambda>st. allows_method (np_mode (cs_config st)) meth)"

definition allow_upstream_proxy :: "'m reload \<Rightarrow> 'm config_state \<Rightarrow> 'm config_state \<times> (proxy_error, bool) result" where
  "allow_upstream_proxy reload = reading reload (\<lambda>st. np_allow_upstream_proxy (cs_config st))"

definition current_network_mode :: "'m reload \<Rightarrow> 'm config_state \<Rightarrow> 'm config_state \<times> (proxy_error, network_mode) result" where
  "current_network_mode reload = reading reload (\<lambda>st. np_mode (cs_config st))"

definition mitm_state :: "'m reload \<Rightarrow> 'm config_state \<Rightarrow> 'm config_state \<times> (proxy_error, 'm option) result" where
  "mitm_state reload = reading reload cs_mitm"

definition blocked_snapshot :: "'m reload \<Rightarrow> 'm config_state \<Rightarrow> 'm config_state \<times> (proxy_error, blocked_request list) result" where
  "blocked_snapshot reload = reading reload cs_blocked"

definition force_reload :: "(string, 'm config_state) result \<Rightarrow> 'm config_state \<Rightarrow> 'm config_state \<times> (proxy_error, unit) result" where
  "force_reload reloaded st =
     (case reloaded of
        Ok new_state \<Rightarrow> (new_state\<lparr>cs_blocked := cs_blocked st\<rparr>, Ok ())
      | Err e \<Rightarrow> (st, Err (ReloadFailure e)))"

definition replace_config_state :: "'m reload \<Rightarrow> 'm config_state \<Rightarrow> 'm config_state \<Rightarrow> 'm config_state \<times> (proxy_error, unit) result" where
  "replace_config_state reload new_state st =
     (case reload_if_needed reload st of
        (st', Err e) \<Rightarrow> (st', Err e)
      | (st', Ok _) \<Rightarrow> (new_state\<lparr>cs_blocked := cs_blocked st', cs_blocked_total := cs_blocked_total st'\<rparr>, Ok ()))"

definition MAX_BLOCKED_EVENTS :: nat where
  "MAX_BLOCKED_EVENTS = 200"

definition record_blocked :: "'m reload \<Rightarrow> blocked_request \<Rightarrow> 'm config_state \<Rightarrow> 'm config_state \<times> (proxy_error, unit) result" where
  "record_blocked reload entry st =
     (case reload_if_needed reload st of
        (st', Err e) \<Rightarrow> (st', Err e)
      | (st', Ok _) \<Rightarrow>
          (let queue = cs_blocked st' @ [entry] in
           (st'\<lparr>cs_blocked := drop (length queue - MAX_BLOCKED_EVENTS) queue,
                cs_blocked_total := saturating_add (cs_blocked_total st') 1\<rparr>, Ok ())))"

definition drain_blocked :: "'m reload \<Rightarrow> 'm config_state \<Rightarrow> 'm config_state \<times> (proxy_error, blocked_request list) result" where
  "drain_blocked reload st =
     (case reload_if_needed reload st of
        (st', Err e) \<Rightarrow> (st', Err e)
      | (st', Ok _) \<Rightarrow> (st'\<lparr>cs_blocked := []\<rparr>, Ok (cs_blocked st')))"

section \<open>Whether a host is blocked\<close>

datatype block_reason = HostDenied | HostNotAllowed | HostNotAllowedLocal

fun reason_text :: "block_reason \<Rightarrow> string" where
  "reason_text HostDenied = ''denied''"
| "reason_text HostNotAllowed = ''not_allowed''"
| "reason_text HostNotAllowedLocal = ''not_allowed_local''"

datatype block_decision = HostAllowed | HostBlocked block_reason

text \<open>The lookup of a name gives addresses, or nothing when it fails or takes too long.\<close>

type_synonym dns = "string \<Rightarrow> nat \<Rightarrow> ip_addr list option"

definition host_resolves_to_non_public_ip :: "dns \<Rightarrow> string \<Rightarrow> nat \<Rightarrow> bool" where
  "host_resolves_to_non_public_ip lookup_host host port =
     (case parse_ip host of
        Some ip \<Rightarrow> is_non_public_ip ip
      | None \<Rightarrow> (case lookup_host host port of None \<Rightarrow> True | Some addrs \<Rightarrow> list_ex is_non_public_ip addrs))"

definition is_explicit_local_allowlisted :: "string list \<Rightarrow> string \<Rightarrow> bool" where
  "is_explicit_local_allowlisted allowed host =
     list_ex (\<lambda>raw.
       (let pattern = trim raw in
        if pattern = ''*'' \<or> prefix ''*.'' pattern \<or> prefix ''**.'' pattern then False
        else if CHR ''*'' \<in> set pattern \<or> CHR ''?'' \<in> set pattern then False
        else normalize_host pattern = host)) allowed"

definition local_literal :: "string \<Rightarrow> bool" where
  "local_literal host \<longleftrightarrow>
     is_loopback_host host \<or> (case parse_ip (without_scope host) of Some ip \<Rightarrow> is_non_public_ip ip | None \<Rightarrow> False)"

definition judge_host :: "glob_engine \<Rightarrow> dns \<Rightarrow> 'm config_state \<Rightarrow> string \<Rightarrow> nat \<Rightarrow> block_decision" where
  "judge_host ge lookup_host st host port =
     (if globs_match ge (cs_deny_set st) host then HostBlocked HostDenied
      else if \<not> np_allow_local_binding (cs_config st) \<and>
          (if local_literal host then \<not> is_explicit_local_allowlisted (or_default (allowed_domains (cs_config st))) host
           else host_resolves_to_non_public_ip lookup_host host port) then HostBlocked HostNotAllowedLocal
      else if allowed_domains (cs_config st) = None \<or> \<not> globs_match ge (cs_allow_set st) host then HostBlocked HostNotAllowed
      else HostAllowed)"

definition host_blocked :: "glob_engine \<Rightarrow> dns \<Rightarrow> 'm reload \<Rightarrow> string \<Rightarrow> nat \<Rightarrow> 'm config_state \<Rightarrow> 'm config_state \<times> (proxy_error, block_decision) result" where
  "host_blocked ge lookup_host reload input port =
     reading reload (\<lambda>st. case parse_host input of None \<Rightarrow> HostBlocked HostNotAllowed | Some host \<Rightarrow> judge_host ge lookup_host st host port)"

text \<open>Sockets are supported on macOS only.\<close>

definition is_unix_socket_allowed ::
  "path_env \<Rightarrow> bool \<Rightarrow> (string \<Rightarrow> string option) \<Rightarrow> 'm reload \<Rightarrow> string \<Rightarrow> 'm config_state \<Rightarrow> 'm config_state \<times> (proxy_error, bool) result" where
  "is_unix_socket_allowed pe macos canonicalize reload path =
     reading reload (\<lambda>st.
       if \<not> macos then False
       else if \<not> is_absolute path then False
       else if np_dangerously_allow_all_unix_sockets (cs_config st) then True
       else case from_absolute_path (pe_home pe) (pe_cwd pe) path of
         Err _ \<Rightarrow> False
       | Ok requested \<Rightarrow>
           list_ex (\<lambda>allowed.
             case parse_socket_path pe allowed of
               Ok (NativeSocket p) \<Rightarrow>
                 p = requested \<or> (canonicalize requested \<noteq> None \<and> canonicalize p = canonicalize requested)
             | _ \<Rightarrow> False) (allow_unix_sockets (cs_config st)))"

section \<open>The decision on a request\<close>

datatype network_protocol = Http | HttpsConnect | Socks5Tcp | Socks5Udp

datatype policy_decision = PolicyDeny | PolicyAsk

datatype decision_source = BaselinePolicy | ModeGuard | ProxyState | Decider

record policy_request =
  pr_protocol :: network_protocol
  pr_host :: string
  pr_port :: nat
  pr_client_addr :: "string option"
  pr_method :: "string option"
  pr_command :: "string option"
  pr_exec_policy_hint :: "string option"

datatype network_decision = AllowRequest | DenyRequest string decision_source policy_decision

definition deny_with_source :: "string \<Rightarrow> decision_source \<Rightarrow> network_decision" where
  "deny_with_source reason source = DenyRequest (if reason = [] then ''policy_denied'' else reason) source PolicyDeny"

fun map_decider_decision :: "network_decision \<Rightarrow> network_decision" where
  "map_decider_decision AllowRequest = AllowRequest"
| "map_decider_decision (DenyRequest reason source decision) = DenyRequest reason Decider decision"

text \<open>The event written for the audit: what was decided, by whom, why, and whether the decider overrode the policy.\<close>

record audit_event =
  ae_decision :: string
  ae_source :: decision_source
  ae_reason :: string
  ae_override :: bool

fun decision_text :: "policy_decision \<Rightarrow> string" where
  "decision_text PolicyDeny = ''deny''"
| "decision_text PolicyAsk = ''ask''"

fun audit_of :: "network_decision \<Rightarrow> bool \<Rightarrow> audit_event" where
  "audit_of AllowRequest policy_override =
     \<lparr>ae_decision = ''allow'', ae_source = (if policy_override then Decider else BaselinePolicy),
      ae_reason = (if policy_override then reason_text HostNotAllowed else ''allow''), ae_override = policy_override\<rparr>"
| "audit_of (DenyRequest reason source decision) policy_override =
     \<lparr>ae_decision = decision_text decision, ae_source = source, ae_reason = reason, ae_override = policy_override\<rparr>"

fun decide_blocked :: "(policy_request \<Rightarrow> network_decision) option \<Rightarrow> policy_request \<Rightarrow> block_decision \<Rightarrow> network_decision \<times> bool" where
  "decide_blocked decider request HostAllowed = (AllowRequest, False)"
| "decide_blocked decider request (HostBlocked HostNotAllowed) =
     (case decider of
        Some ask \<Rightarrow> (let d = map_decider_decision (ask request) in (d, d = AllowRequest))
      | None \<Rightarrow> (deny_with_source (reason_text HostNotAllowed) BaselinePolicy, False))"
| "decide_blocked decider request (HostBlocked reason) = (deny_with_source (reason_text reason) BaselinePolicy, False)"

definition evaluate_host_policy ::
  "glob_engine \<Rightarrow> dns \<Rightarrow> 'm reload \<Rightarrow> (policy_request \<Rightarrow> network_decision) option \<Rightarrow> policy_request \<Rightarrow> 'm config_state \<Rightarrow>
   'm config_state \<times> (proxy_error, network_decision \<times> audit_event) result" where
  "evaluate_host_policy ge lookup_host reload decider request st =
     (case host_blocked ge lookup_host reload (pr_host request) (pr_port request) st of
        (st', Err e) \<Rightarrow> (st', Err e)
      | (st', Ok host_decision) \<Rightarrow>
          (case decide_blocked decider request host_decision of
             (decision, policy_override) \<Rightarrow> (st', Ok (decision, audit_of decision policy_override))))"

section \<open>Updates at run time\<close>

text \<open>
  An update reads the state, checks the new one, and writes it if nothing has changed in between; otherwise it starts again. A round is
  given by the answer of the reloader and by what others do to the state between reading and writing. The result is \<open>None\<close>
  if the rounds are used up.
\<close>

type_synonym 'm round = "'m reload \<times> ('m config_state \<Rightarrow> 'm config_state)"

fun set_network_mode ::
  "'m proxy_host \<Rightarrow> network_mode \<Rightarrow> 'm round list \<Rightarrow> 'm config_state \<Rightarrow> 'm config_state \<times> (proxy_error, unit) result option" where
  "set_network_mode ph mode [] st = (st, None)"
| "set_network_mode ph mode ((reload, others) # rounds) st =
     (case reload_if_needed reload st of
        (st', Err e) \<Rightarrow> (st', Some (Err e))
      | (st', Ok _) \<Rightarrow>
          (case validate_policy_against_constraints (ph_url_host ph) ((cs_config st')\<lparr>np_mode := mode\<rparr>) (cs_constraints st') of
             Err e \<Rightarrow> (st', Some (Err (WithContext ''network.mode constrained by managed config'' e)))
           | Ok _ \<Rightarrow>
               (let now = others st' in
                if cs_constraints now \<noteq> cs_constraints st' then set_network_mode ph mode rounds now
                else (now\<lparr>cs_config := (cs_config now)\<lparr>np_mode := mode\<rparr>\<rparr>, Some (Ok ())))))"

datatype domain_list_kind = AllowList | DenyList

fun list_name :: "domain_list_kind \<Rightarrow> string" where
  "list_name AllowList = ''allowlist''"
| "list_name DenyList = ''denylist''"

fun constraint_field :: "domain_list_kind \<Rightarrow> string" where
  "constraint_field AllowList = ''network.allowed_domains''"
| "constraint_field DenyList = ''network.denied_domains''"

fun list_permission :: "domain_list_kind \<Rightarrow> domain_permission" where
  "list_permission AllowList = PermAllow"
| "list_permission DenyList = PermDeny"

fun list_entries :: "domain_list_kind \<Rightarrow> proxy_settings \<Rightarrow> string list" where
  "list_entries AllowList cfg = or_default (allowed_domains cfg)"
| "list_entries DenyList cfg = or_default (denied_domains cfg)"

fun opposite_entries :: "domain_list_kind \<Rightarrow> proxy_settings \<Rightarrow> string list" where
  "opposite_entries AllowList cfg = or_default (denied_domains cfg)"
| "opposite_entries DenyList cfg = or_default (allowed_domains cfg)"

fun update_rounds ::
  "'m proxy_host \<Rightarrow> string \<Rightarrow> domain_list_kind \<Rightarrow> 'm round list \<Rightarrow> 'm config_state \<Rightarrow> 'm config_state \<times> (proxy_error, unit) result option" where
  "update_rounds ph host target [] st = (st, None)"
| "update_rounds ph host target ((reload, others) # rounds) st =
     (case reload_if_needed reload st of
        (st', Err e) \<Rightarrow> (st', Some (Err e))
      | (st', Ok _) \<Rightarrow>
          (let previous = cs_config st' in
           if list_ex (\<lambda>entry. normalize_host entry = host) (list_entries target previous) \<and>
              \<not> list_ex (\<lambda>entry. normalize_host entry = host) (opposite_entries target previous) then (st', Some (Ok ()))
           else
             (let candidate = upsert_domain_permission normalize_host host (list_permission target) previous in
              case validate_policy_against_constraints (ph_url_host ph) candidate (cs_constraints st') of
                Err e \<Rightarrow> (st', Some (Err (WithContext (constraint_field target @ '' constrained by managed config'') e)))
              | Ok _ \<Rightarrow>
                  (case build_config_state ph candidate (cs_constraints st') of
                     Err e \<Rightarrow> (st', Some (Err (WithContext (''failed to compile updated network '' @ list_name target) e)))
                   | Ok new_state \<Rightarrow>
                       (let now = others st' in
                        if cs_constraints now \<noteq> cs_constraints st' \<or> cs_config now \<noteq> previous then update_rounds ph host target rounds now
                        else (new_state\<lparr>cs_blocked := cs_blocked st', cs_blocked_total := cs_blocked_total st'\<rparr>, Some (Ok ())))))))"

definition update_domain_list ::
  "'m proxy_host \<Rightarrow> string \<Rightarrow> domain_list_kind \<Rightarrow> 'm round list \<Rightarrow> 'm config_state \<Rightarrow> 'm config_state \<times> (proxy_error, unit) result option" where
  "update_domain_list ph input target rounds st =
     (case parse_host input of
        None \<Rightarrow> (st, Some (Err (WithContext ''invalid network host'' EmptyHost)))
      | Some host \<Rightarrow> update_rounds ph host target rounds st)"

definition add_allowed_domain :: "'m proxy_host \<Rightarrow> string \<Rightarrow> 'm round list \<Rightarrow> 'm config_state \<Rightarrow> 'm config_state \<times> (proxy_error, unit) result option" where
  "add_allowed_domain ph input = update_domain_list ph input AllowList"

definition add_denied_domain :: "'m proxy_host \<Rightarrow> string \<Rightarrow> 'm round list \<Rightarrow> 'm config_state \<Rightarrow> 'm config_state \<times> (proxy_error, unit) result option" where
  "add_denied_domain ph input = update_domain_list ph input DenyList"

section \<open>What is let through\<close>


section \<open>Managed lists\<close>

lemma and_then_Ok: "and_then r r' = Ok u \<longleftrightarrow> r = Ok () \<and> r' = Ok u"
  by (auto simp: and_then_def split: sum.splits)

lemma ensure_Ok [simp]: "ensure ok e = Ok u \<longleftrightarrow> ok"
  by (simp add: ensure_def)

lemma validated_lists:
  assumes "validate_policy_against_constraints url_host cfg constraints = Ok ()"
  shows "nc_allowed_domains constraints = Some managed \<Longrightarrow>
      validate_allowed url_host constraints managed (or_default (allowed_domains cfg)) (or_default (denied_domains cfg)) = Ok ()"
    "nc_denied_domains constraints = Some managed \<Longrightarrow> validate_denied constraints managed (or_default (denied_domains cfg)) = Ok ()"
  using assms unfolding validate_policy_against_constraints_def Let_def and_then_Ok by simp_all

lemma built_sets:
  assumes "build_config_state ph cfg constraints = Ok st"
  shows "compile_denylist_globset (ph_globs ph) (or_default (denied_domains cfg)) = Ok (cs_deny_set st)"
    "compile_allowlist_globset (ph_globs ph) (or_default (allowed_domains cfg)) = Ok (cs_allow_set st)"
    "cs_config st = cfg" "cs_constraints st = constraints" "cs_blocked_total st = 0"
  using assms by (auto simp: build_config_state_def Let_def split: sum.splits)

section \<open>States of the proxy\<close>

text \<open>
  What holds of the state at any time: the settings are within the managed constraints, and the compiled sets are those of the settings.
  A fresh state is one that the loader builds.
\<close>

definition governed :: "'m proxy_host \<Rightarrow> 'm config_state \<Rightarrow> bool" where
  "governed ph st \<longleftrightarrow>
     validate_policy_against_constraints (ph_url_host ph) (cs_config st) (cs_constraints st) = Ok () \<and>
     compile_denylist_globset (ph_globs ph) (or_default (denied_domains (cs_config st))) = Ok (cs_deny_set st) \<and>
     compile_allowlist_globset (ph_globs ph) (or_default (allowed_domains (cs_config st))) = Ok (cs_allow_set st)"

definition fresh :: "'m proxy_host \<Rightarrow> 'm config_state \<Rightarrow> bool" where
  "fresh ph st \<longleftrightarrow>
     validate_policy_against_constraints (ph_url_host ph) (cs_config st) (cs_constraints st) = Ok () \<and>
     build_config_state ph (cs_config st) (cs_constraints st) = Ok st"

definition answers :: "'m proxy_host \<Rightarrow> 'm reload \<Rightarrow> bool" where
  "answers ph reload \<longleftrightarrow> (case reload of Ok (Some st) \<Rightarrow> fresh ph st | _ \<Rightarrow> True)"

text \<open>In a round of an update, others may do anything that keeps the state governed.\<close>

definition safe_rounds :: "'m proxy_host \<Rightarrow> 'm round list \<Rightarrow> bool" where
  "safe_rounds ph rounds \<longleftrightarrow> (\<forall>(reload, others) \<in> set rounds. answers ph reload \<and> (\<forall>st. governed ph st \<longrightarrow> governed ph (others st)))"

text \<open>The states that the operations lead to. Reading operations change the state by reloading only.\<close>

inductive proxy_reachable :: "'m proxy_host \<Rightarrow> 'm config_state \<Rightarrow> bool" for ph where
  started: "fresh ph st \<Longrightarrow> proxy_reachable ph st"
| read: "proxy_reachable ph st \<Longrightarrow> answers ph reload \<Longrightarrow> proxy_reachable ph (fst (reload_if_needed reload st))"
| forced: "proxy_reachable ph st \<Longrightarrow> answers ph (map_sum id Some reloaded) \<Longrightarrow> proxy_reachable ph (fst (force_reload reloaded st))"
| replaced: "proxy_reachable ph st \<Longrightarrow> answers ph reload \<Longrightarrow> fresh ph new_state \<Longrightarrow>
    proxy_reachable ph (fst (replace_config_state reload new_state st))"
| recorded: "proxy_reachable ph st \<Longrightarrow> answers ph reload \<Longrightarrow> proxy_reachable ph (fst (record_blocked reload entry st))"
| drained: "proxy_reachable ph st \<Longrightarrow> answers ph reload \<Longrightarrow> proxy_reachable ph (fst (drain_blocked reload st))"
| mode_set: "proxy_reachable ph st \<Longrightarrow> safe_rounds ph rounds \<Longrightarrow> proxy_reachable ph (fst (set_network_mode ph mode rounds st))"
| listed: "proxy_reachable ph st \<Longrightarrow> safe_rounds ph rounds \<Longrightarrow> proxy_reachable ph (fst (update_domain_list ph input target rounds st))"

lemma governed_blocked [simp]:
  "governed ph (st\<lparr>cs_blocked := b\<rparr>) = governed ph st" "governed ph (st\<lparr>cs_blocked_total := n\<rparr>) = governed ph st"
  by (simp_all add: governed_def)

lemma built_governed:
  assumes "build_config_state ph cfg constraints = Ok st" "validate_policy_against_constraints (ph_url_host ph) cfg constraints = Ok ()"
  shows "governed ph st"
  using built_sets [OF assms(1)] assms(2) by (simp add: governed_def)

lemma fresh_governed: "fresh ph st \<Longrightarrow> governed ph st"
  by (auto simp: fresh_def intro: built_governed)

lemma reload_governed: "governed ph st \<Longrightarrow> answers ph reload \<Longrightarrow> reload_if_needed reload st = (st', r) \<Longrightarrow> governed ph st'"
  by (auto simp: reload_if_needed_def answers_def fresh_governed split: sum.splits option.splits)

text \<open>The mode is checked by itself: what the other settings are does not matter.\<close>

lemma domains_mode [simp]: "allowed_domains (cfg\<lparr>np_mode := mode\<rparr>) = allowed_domains cfg" "denied_domains (cfg\<lparr>np_mode := mode\<rparr>) = denied_domains cfg"
    "allow_unix_sockets (cfg\<lparr>np_mode := mode\<rparr>) = allow_unix_sockets cfg"
  by (simp_all add: allowed_domains_def denied_domains_def domain_entries_def allow_unix_sockets_def)

lemma mode_checked_alone:
  assumes "validate_policy_against_constraints url_host (other\<lparr>np_mode := mode\<rparr>) constraints = Ok ()"
    "validate_policy_against_constraints url_host cfg constraints = Ok ()"
  shows "validate_policy_against_constraints url_host (cfg\<lparr>np_mode := mode\<rparr>) constraints = Ok ()"
  using assms unfolding validate_policy_against_constraints_def Let_def and_then_Ok by (simp cong: option.case_cong)

lemma mode_governed: "governed ph st \<Longrightarrow> safe_rounds ph rounds \<Longrightarrow> governed ph (fst (set_network_mode ph mode rounds st))"
proof (induction ph mode rounds st rule: set_network_mode.induct)
  case (2 ph mode reload others rounds st)
  obtain st' r where r: "reload_if_needed reload st = (st', r)" by fastforce
  have st': "governed ph st'" "governed ph (others st')"
    using reload_governed [OF 2(2) _ r] 2(3) by (auto simp: safe_rounds_def)
  show ?case
  proof (cases "r = Ok () \<and> validate_policy_against_constraints (ph_url_host ph) ((cs_config st')\<lparr>np_mode := mode\<rparr>) (cs_constraints st') = Ok ()")
    case False
    then show ?thesis using r st'(1) by (auto split: sum.splits)
  next
    case ok: True
    show ?thesis
    proof (cases "cs_constraints (others st') = cs_constraints st'")
      case True
      then have "validate_policy_against_constraints (ph_url_host ph) ((cs_config (others st'))\<lparr>np_mode := mode\<rparr>) (cs_constraints (others st')) = Ok ()"
        using mode_checked_alone [OF conjunct2 [OF ok]] st'(2) by (simp add: governed_def)
      then show ?thesis using True r ok st'(2) by (simp add: Let_def governed_def)
    next
      case False
      then show ?thesis using 2(1) [OF r [symmetric] _ _ refl] r ok st'(2) 2(3) by (auto simp: Let_def safe_rounds_def)
    qed
  qed
qed simp

lemma update_governed: "governed ph st \<Longrightarrow> safe_rounds ph rounds \<Longrightarrow> governed ph (fst (update_rounds ph host target rounds st))"
proof (induction ph host target rounds st rule: update_rounds.induct)
  case (2 ph host target reload others rounds st)
  obtain st' r where r: "reload_if_needed reload st = (st', r)" by fastforce
  have st': "governed ph st'" "governed ph (others st')"
    using reload_governed [OF 2(2) _ r] 2(3) by (auto simp: safe_rounds_def)
  have rest: "safe_rounds ph rounds" using 2(3) by (simp add: safe_rounds_def)
  show ?case
    using r st' rest built_governed 2(1) by (auto simp: Let_def split: sum.splits if_splits)
qed simp

lemma reachable_governed: "proxy_reachable ph st \<Longrightarrow> governed ph st"
proof (induction rule: proxy_reachable.induct)
  case (read st reload)
  then show ?case using reload_governed [OF _ _ prod.collapse [symmetric]] by blast
next
  case (forced st reloaded)
  then show ?case by (auto simp: force_reload_def answers_def fresh_governed split: sum.splits)
next
  case (listed st rounds input target)
  then show ?case by (auto simp: update_domain_list_def update_governed split: option.splits)
qed (auto simp: fresh_governed replace_config_state_def record_blocked_def drain_blocked_def Let_def mode_governed
    split: prod.splits sum.splits intro: reload_governed)

section \<open>Managed lists\<close>

text \<open>Entries that are host names with or without a wildcard, read by the URL parser as they are.\<close>

definition named_entries :: "(string \<Rightarrow> string option) \<Rightarrow> string list \<Rightarrow> bool" where
  "named_entries url_host entries \<longleftrightarrow>
     (\<forall>e \<in> set entries. \<exists>p. e = entry_text p \<and> named_pattern p \<and> url_host (pattern_domain p) = Some (to_ascii_lowercase (pattern_domain p)))"

lemma entry_text_inject:
  assumes "named_pattern p" "named_pattern q" "to_ascii_lowercase (entry_text p) = to_ascii_lowercase (entry_text q)"
  shows "lower_pattern p = lower_pattern q"
  using parse_entry(2) [OF named_lower [OF assms(1)]] parse_entry(2) [OF named_lower [OF assms(2)]] assms(3)
  unfolding entry_text_lower by metis

lemma listed_covers:
  assumes "named_entries url_host es" "to_ascii_lowercase (entry_text p) \<in> lower_set es" "named_pattern p" "covers p host"
  shows "\<exists>q. entry_text q \<in> set es \<and> named_pattern q \<and> covers q host"
proof -
  obtain q where q: "entry_text q \<in> set es" "named_pattern q" "to_ascii_lowercase (entry_text q) = to_ascii_lowercase (entry_text p)"
    using assms(1,2) unfolding lower_set_def named_entries_def by (metis imageE)
  then have "lower_pattern q = lower_pattern p" using entry_text_inject assms(3) by blast
  then show ?thesis using q assms(3,4) covers_lower by metis
qed

lemma allowed_within:
  assumes "validate_allowed url_host constraints managed allowed denied = Ok ()" "nc_allowlist_expansion_enabled constraints \<noteq> Some True"
    "named_entries url_host managed" "named_entries url_host allowed" "entry_text p \<in> set allowed" "named_pattern p" "covers p host"
  shows "\<exists>q. entry_text q \<in> set managed \<and> named_pattern q \<and> covers q host"
proof (cases "nc_allowlist_expansion_enabled constraints")
  case None
  have parsed: "parse_for_constraints url_host (entry_text q) = lower_pattern q"
    if entries: "named_entries url_host es" "entry_text q \<in> set es" and q: "named_pattern q" for q es
  proof -
    obtain r where r: "entry_text q = entry_text r" "named_pattern r" "url_host (pattern_domain r) = Some (to_ascii_lowercase (pattern_domain r))"
      using entries unfolding named_entries_def by blast
    then have "q = r" using parse_entry(2) q by metis
    then show ?thesis using parse_entry_for_constraints r by simp
  qed
  obtain m where m: "m \<in> set managed" "allows (parse_for_constraints url_host m) (parse_for_constraints url_host (entry_text p))"
    using assms(1,5) None by (auto simp: validate_allowed_def and_then_Ok Let_def filter_empty_conv list_ex_iff)
  then obtain q where q: "m = entry_text q" "named_pattern q" using assms(3) by (auto simp: named_entries_def)
  then have "allows (lower_pattern q) (lower_pattern p)" using m parsed assms(3-6) by metis
  then have "covers (lower_pattern q) host"
    using allows_inclusion named_proper named_lower q(2) assms(6,7) covers_lower by metis
  then show ?thesis using q m(1) by auto
next
  case (Some b)
  then have "to_ascii_lowercase (entry_text p) \<in> lower_set managed"
    using assms(1,2,5) by (auto simp: validate_allowed_def and_then_Ok lower_set_def)
  then show ?thesis by (rule listed_covers [OF assms(3) _ assms(6,7)])
qed

text \<open>
  C19 (managed_lists_bind). The managed lists of hosts bind the proxy. Suppose that the managed configuration sets both lists and does not enable
  adding to the list of allowed hosts, and that the entries of these lists and of the lists in force are host names with or without
  a wildcard. Then in every state that the proxy can be in, whatever was configured, reloaded or added at run time, a host that a pattern
  of the managed list of denied hosts covers is refused as denied, and every host that the allow list matches is covered by a pattern of the managed list
  of allowed hosts.
\<close>

theorem managed_lists_bind:
  assumes "glob_laws (ph_globs ph)" "proxy_reachable ph st"
    "nc_allowed_domains (cs_constraints st) = Some allow" "nc_denied_domains (cs_constraints st) = Some deny"
    "nc_allowlist_expansion_enabled (cs_constraints st) \<noteq> Some True"
    "named_entries (ph_url_host ph) (allow @ deny @ or_default (allowed_domains (cs_config st)) @ or_default (denied_domains (cs_config st)))"
  shows "(globs_match (ph_globs ph) (cs_allow_set st) host \<longrightarrow>
      (\<exists>p. entry_text p \<in> set allow \<and> covers p (to_ascii_lowercase host))) \<and>
    (\<forall>p. entry_text p \<in> set deny \<and> named_pattern p \<and> covers p (to_ascii_lowercase host) \<longrightarrow>
      judge_host (ph_globs ph) lookup_host st host port = HostBlocked HostDenied)"
proof -
  note governed = reachable_governed [OF assms(2), unfolded governed_def compile_denylist_globset_def compile_allowlist_globset_def]
  then have valid: "validate_policy_against_constraints (ph_url_host ph) (cs_config st) (cs_constraints st) = Ok ()"
    and compiled: "compile_globset_with_policy (ph_globs ph) (or_default (denied_domains (cs_config st))) True = Ok (cs_deny_set st)"
      "compile_globset_with_policy (ph_globs ph) (or_default (allowed_domains (cs_config st))) False = Ok (cs_allow_set st)" by blast+
  have named: "named_entries (ph_url_host ph) allow" "named_entries (ph_url_host ph) deny"
      "named_entries (ph_url_host ph) (or_default (allowed_domains (cs_config st)))" "named_entries (ph_url_host ph) (or_default (denied_domains (cs_config st)))"
    using assms(6) by (auto simp: named_entries_def)
  have shaped: "\<forall>e \<in> set es. \<exists>p. e = entry_text p \<and> named_pattern p" if "named_entries (ph_url_host ph) es" for es
    using that by (auto simp: named_entries_def)
  have allow: "\<exists>p. entry_text p \<in> set allow \<and> covers p (to_ascii_lowercase host)" if "globs_match (ph_globs ph) (cs_allow_set st) host"
    using that compiled_covers [OF assms(1) compiled(2) shaped [OF named(3)]]
      allowed_within [OF validated_lists(1) [OF valid assms(3)] assms(5) named(1,3)] by blast
  have deny: "globs_match (ph_globs ph) (cs_deny_set st) host"
    if "entry_text p \<in> set deny" "named_pattern p" "covers p (to_ascii_lowercase host)" for p
  proof -
    have "to_ascii_lowercase (entry_text p) \<in> lower_set (or_default (denied_domains (cs_config st)))"
      using validated_lists(2) [OF valid assms(4)] that(1) by (auto simp: validate_denied_def and_then_Ok lower_set_def Let_def split: if_splits)
    then show ?thesis
      using listed_covers [OF named(4) _ that(2,3)] compiled_covers [OF assms(1) compiled(1) shaped [OF named(4)]] by blast
  qed
  show ?thesis using allow deny by (auto simp: judge_host_def)
qed

section \<open>Denied hosts\<close>

lemma normalize_star:
  assumes "trim t = t" "t = CHR ''*'' # s"
  shows "hd (normalize_host t) = CHR ''*''"
proof -
  have star: "hd (normalize_dns_host (CHR ''*'' # r)) = CHR ''*''" for r
    by (simp add: normalize_dns_host_def to_ascii_lowercase_def ascii_lower_def trim_end_matches_Cons)
  obtain r where "hd (split_on (CHR '':'') t) = CHR ''*'' # r" using assms(2) by (cases "split_on (CHR '':'') s") auto
  then show ?thesis using assms star by (simp add: normalize_host_def Let_def)
qed

text \<open>An entry that is read as a host is a pattern for that host.\<close>

lemma normal_entry_pattern:
  assumes "normalize_host entry = host" "host_name host"
  shows "normalize_pattern entry = host"
proof -
  have same: "normalize_host (trim entry) = host" using assms(1) by (simp add: normalize_host_def trim_idem)
  have "host_char (hd host)" using assms(2) by (cases host) (simp_all add: host_name_def)
  then have "hd host \<noteq> CHR ''*''" using host_char_not by blast
  then have "\<not> (\<exists>s. trim entry = CHR ''*'' # s)" using normalize_star [OF trim_idem] same by metis
  then have "strip_prefix ''**.'' (trim entry) = None" "strip_prefix ''*.'' (trim entry) = None" "trim entry \<noteq> ''*''"
    by (auto simp: strip_prefix_def prefix_def)
  then show ?thesis using same by (simp add: normalize_pattern_def)
qed

lemma listed_denied:
  assumes "glob_laws ge" "compile_denylist_globset ge entries = Ok globs" "entry \<in> set entries" "normalize_host entry = host" "host_name host"
  shows "globs_match ge globs host"
proof -
  have "expand_domain_pattern host = [host]"
    using host_name_normal [OF assms(5)] by (simp add: expand_domain_pattern_def parse_pattern_def)
  then have "host \<in> set globs"
    using compiled_set [OF assms(2) [unfolded compile_denylist_globset_def]] assms(3) normal_entry_pattern [OF assms(4,5)] by force
  moreover have "plain_text host"
    using assms(5) host_char_specials unfolding plain_text_def host_name_def by (auto simp: list_all_iff)
  ultimately show ?thesis using assms(1) by (auto simp: globs_match_def list_ex_iff glob_laws_def)
qed

lemma normal_host:
  assumes "parse_host input = Some host" "host_name host"
  shows "normalize_host host = host"
proof -
  have lower: "ascii_lower c = c" if "c \<in> set (normalize_dns_host s)" for c s
    using that by (auto simp: normalize_dns_host_def trim_end_matches_def to_ascii_lowercase_def dest!: set_dropWhileD)
  obtain s where "host = normalize_dns_host s"
    using assms(1) by (auto simp: parse_host_def normalize_host_def Let_def split: if_splits option.splits)
  then have "map ascii_lower host = host" using lower by (simp add: map_idI)
  then show ?thesis using host_name_normal(1) [OF assms(2)] by (simp add: to_ascii_lowercase_def)
qed

text \<open>How a round ends well: the entry was there, or the state changed and the next rounds decide, or the new state is written.\<close>

lemma update_round_Ok:
  assumes "update_rounds ph host target ((reload, others) # rounds) st = (st', Some (Ok ()))" "reload_if_needed reload st = (now, r)"
  shows "list_ex (\<lambda>entry. normalize_host entry = host) (list_entries target (cs_config now)) \<and> st' = now \<or>
    update_rounds ph host target rounds (others now) = (st', Some (Ok ())) \<or>
    (\<exists>new_state. build_config_state ph (upsert_domain_permission normalize_host host (list_permission target) (cs_config now)) (cs_constraints now)
        = Ok new_state \<and> st' = new_state\<lparr>cs_blocked := cs_blocked now, cs_blocked_total := cs_blocked_total now\<rparr>)"
proof -
  let ?candidate = "upsert_domain_permission normalize_host host (list_permission target) (cs_config now)"
  show ?thesis
    using assms
    by (cases r; cases "validate_policy_against_constraints (ph_url_host ph) ?candidate (cs_constraints now)";
        cases "build_config_state ph ?candidate (cs_constraints now)") (simp_all add: Let_def split: if_splits)
qed

lemma denied_rounds:
  assumes "glob_laws (ph_globs ph)" "host_name host" "normalize_host host = host"
  shows "governed ph st \<Longrightarrow> safe_rounds ph rounds \<Longrightarrow> update_rounds ph host DenyList rounds st = (st', Some (Ok ())) \<Longrightarrow>
    globs_match (ph_globs ph) (cs_deny_set st') host"
proof (induction rounds arbitrary: st)
  case (Cons round rounds)
  obtain reload others where round: "round = (reload, others)" by fastforce
  obtain now r where r: "reload_if_needed reload st = (now, r)" by fastforce
  have now: "governed ph now" "governed ph (others now)" "safe_rounds ph rounds"
    using reload_governed [OF Cons(2) _ r] Cons(3) round by (auto simp: safe_rounds_def)
  let ?candidate = "upsert_domain_permission normalize_host host PermDeny (cs_config now)"
  from update_round_Ok [OF Cons(4) [unfolded round] r]
  consider (known) "list_ex (\<lambda>entry. normalize_host entry = host) (or_default (denied_domains (cs_config now)))" "st' = now"
    | (again) "update_rounds ph host DenyList rounds (others now) = (st', Some (Ok ()))"
    | (new) new_state where "build_config_state ph ?candidate (cs_constraints now) = Ok new_state" "cs_deny_set st' = cs_deny_set new_state"
    by fastforce
  then show ?case
  proof cases
    case known
    then show ?thesis using listed_denied [OF assms(1) _ _ _ assms(2)] now(1) by (auto simp: governed_def list_ex_iff)
  next
    case again
    then show ?thesis using Cons(1) now(2,3) by blast
  next
    case new
    then show ?thesis
      using listed_denied [OF assms(1) built_sets(1) [OF new(1)] upserted_denied assms(3,2)] by simp
  qed
qed simp

text \<open>
  When a host has been added to the denied hosts, a request for it is refused until the configuration is loaded again, whatever the other entries, the
  mode, the name lookup or the decider say, and whatever others did to the state while the update was tried again. The new
  state is one of the states of the proxy, so the managed limits hold of it too.
\<close>

lemma denied_host_stays_denied:
  assumes "glob_laws (ph_globs ph)" "proxy_reachable ph st" "safe_rounds ph rounds" "parse_host (pr_host request) = Some host" "host_name host"
    "add_denied_domain ph (pr_host request) rounds st = (st', Some (Ok ()))"
  shows "proxy_reachable ph st' \<and>
    evaluate_host_policy (ph_globs ph) lookup_host (Ok None) decider request st' =
      (st', Ok (DenyRequest ''denied'' BaselinePolicy PolicyDeny,
        \<lparr>ae_decision = ''deny'', ae_source = BaselinePolicy, ae_reason = ''denied'', ae_override = False\<rparr>))"
proof
  have update: "update_domain_list ph (pr_host request) DenyList rounds st = (st', Some (Ok ()))"
    using assms(6) by (simp add: add_denied_domain_def)
  then show "proxy_reachable ph st'" using proxy_reachable.listed [OF assms(2,3), of "pr_host request" DenyList] by simp
  have "update_rounds ph host DenyList rounds st = (st', Some (Ok ()))" using update assms(4) by (simp add: update_domain_list_def)
  then have "globs_match (ph_globs ph) (cs_deny_set st') host"
    using denied_rounds [OF assms(1,5) normal_host [OF assms(4,5)] reachable_governed [OF assms(2)] assms(3)] by blast
  then show "evaluate_host_policy (ph_globs ph) lookup_host (Ok None) decider request st' =
      (st', Ok (DenyRequest ''denied'' BaselinePolicy PolicyDeny,
        \<lparr>ae_decision = ''deny'', ae_source = BaselinePolicy, ae_reason = ''denied'', ae_override = False\<rparr>))"
    using assms(4) by (simp add: evaluate_host_policy_def host_blocked_def reading_def reload_if_needed_def judge_host_def deny_with_source_def)
qed

section \<open>Instances\<close>

text \<open>A matcher for globs with \<open>?\<close> and \<open>*\<close> that has the laws.\<close>

fun glob_text :: "string \<Rightarrow> string \<Rightarrow> bool" where
  "glob_text [] h = (h = [])"
| "glob_text (p # ps) [] = (p = CHR ''*'' \<and> glob_text ps [])"
| "glob_text (p # ps) (c # h) =
     (if p = CHR ''*'' then glob_text ps (c # h) \<or> glob_text (p # ps) h
      else if p = CHR ''?'' then glob_text ps h
      else ascii_lower p = ascii_lower c \<and> glob_text ps h)"

definition simple_globs :: glob_engine where
  "simple_globs = \<lparr>glob_valid = (\<lambda>_. True), glob_fits = (\<lambda>_. True), glob_match = glob_text\<rparr>"

lemma glob_text_plain: "CHR ''*'' \<notin> set p \<Longrightarrow> CHR ''?'' \<notin> set p \<Longrightarrow> glob_text p h \<longleftrightarrow> map ascii_lower h = map ascii_lower p"
  by (induction p h rule: glob_text.induct) auto

lemma glob_text_star: "glob_text (CHR ''*'' # p) h \<longleftrightarrow> (\<exists>u v. h = u @ v \<and> glob_text p v)"
proof (induction h)
  case (Cons c h)
  have "(\<exists>u v. c # h = u @ v \<and> glob_text p v) \<longleftrightarrow> glob_text p (c # h) \<or> (\<exists>u v. h = u @ v \<and> glob_text p v)"
    by (metis append_eq_Cons_conv)
  then show ?case using Cons by simp
qed simp

lemma glob_text_below:
  assumes "CHR ''*'' \<notin> set p" "CHR ''?'' \<notin> set p"
  shows "glob_text (''?*.'' @ p) h \<longleftrightarrow> below (map ascii_lower p) (map ascii_lower h)"
proof -
  have dot: "map ascii_lower (CHR ''.'' # p) = CHR ''.'' # map ascii_lower p" by (simp add: ascii_lower_def)
  have "glob_text (''?*.'' @ p) h \<longleftrightarrow> (\<exists>c u v. h = c # u @ v \<and> map ascii_lower v = CHR ''.'' # map ascii_lower p)"
    using glob_text_plain [of "CHR ''.'' # p"] glob_text_star assms dot by (cases h) auto
  also have "\<dots> \<longleftrightarrow> below (map ascii_lower p) (map ascii_lower h)"
  proof
    assume "below (map ascii_lower p) (map ascii_lower h)"
    then obtain w where w: "map ascii_lower h = w @ CHR ''.'' # map ascii_lower p" "w \<noteq> []" by (auto simp: below_def suffix_def)
    obtain u v where uv: "h = u @ v" "w = map ascii_lower u" "CHR ''.'' # map ascii_lower p = map ascii_lower v"
      using map_eq_append_conv [THEN iffD1, OF w(1)] by (elim exE conjE)
    obtain c u' where "u = c # u'" using uv(2) w(2) by (cases u) auto
    then show "\<exists>c u v. h = c # u @ v \<and> map ascii_lower v = CHR ''.'' # map ascii_lower p" using uv(1) uv(3) [symmetric] by (intro exI [of _ c] exI [of _ u'] exI [of _ v]) simp
  qed (auto simp: below_def suffix_def)
  finally show ?thesis .
qed

lemma simple_globs_laws: "glob_laws simple_globs"
  unfolding glob_laws_def
proof (intro allI impI)
  fix p host assume "plain_text p"
  then have "CHR ''*'' \<notin> set p" "CHR ''?'' \<notin> set p" by (auto simp: plain_text_def list_all_iff)
  then show "(glob_match simple_globs p host \<longleftrightarrow> to_ascii_lowercase host = to_ascii_lowercase p) \<and>
      (glob_match simple_globs (''?*.'' @ p) host \<longleftrightarrow> below (to_ascii_lowercase p) (to_ascii_lowercase host))"
    using glob_text_plain glob_text_below [of p host] by (simp add: simple_globs_def to_ascii_lowercase_def del: glob_text.simps)
qed

text \<open>
  A proxy for \<open>**.example.com\<close> without \<open>bad.example.com\<close>, by the managed lists; a URL parser that takes any text without a colon.
\<close>

definition example_host :: "unit proxy_host" where
  "example_host =
     \<lparr>ph_globs = simple_globs, ph_url_host = (\<lambda>h. if CHR '':'' \<in> set h then None else Some (to_ascii_lowercase h)),
      ph_paths = \<lparr>pe_home = None, pe_cwd = Ok ''/''\<rparr>, ph_mitm = (\<lambda>_. Ok ())\<rparr>"

definition example_settings :: proxy_settings where
  "example_settings = default_settings\<lparr>np_enabled := True,
     np_domains := Some [\<lparr>de_pattern = ''*.example.com'', de_permission = PermAllow\<rparr>, \<lparr>de_pattern = ''bad.example.com'', de_permission = PermDeny\<rparr>]\<rparr>"

definition example_constraints :: proxy_constraints where
  "example_constraints =
     \<lparr>nc_enabled = None, nc_mode = None, nc_allow_upstream_proxy = None, nc_dangerously_allow_non_loopback_proxy = None,
      nc_dangerously_allow_all_unix_sockets = None, nc_allowed_domains = Some [''**.example.com''],
      nc_allowlist_expansion_enabled = None, nc_denied_domains = Some [''bad.example.com''], nc_denylist_expansion_enabled = None,
      nc_allow_unix_sockets = None, nc_allow_local_binding = None\<rparr>"

definition example_state :: "unit config_state" where
  "example_state =
     \<lparr>cs_config = example_settings, cs_allow_set = [''?*.example.com''], cs_deny_set = [''bad.example.com''], cs_mitm = None,
      cs_constraints = example_constraints, cs_blocked = [], cs_blocked_total = 0\<rparr>"

definition example_request :: policy_request where
  "example_request =
     \<lparr>pr_protocol = Http, pr_host = ''API.example.com:443'', pr_port = 443, pr_client_addr = None, pr_method = None, pr_command = None,
      pr_exec_policy_hint = None\<rparr>"

lemma example_lists: "or_default (allowed_domains example_settings) = [''*.example.com'']" "or_default (denied_domains example_settings) = [''bad.example.com'']"
  by code_simp+

lemma example_valid: "validate_policy_against_constraints (ph_url_host example_host) example_settings example_constraints = Ok ()"
  by code_simp

lemma example_built: "build_config_state example_host example_settings example_constraints = Ok example_state"
  by code_simp

lemma example_reachable: "proxy_reachable example_host example_state"
  using example_valid example_built by (intro started) (simp add: fresh_def example_state_def)

lemma example_named:
  "named_entries (ph_url_host example_host) ([''**.example.com''] @ [''bad.example.com''] @
     or_default (allowed_domains (cs_config example_state)) @ or_default (denied_domains (cs_config example_state)))"
proof -
  let ?read = "\<lambda>p. named_pattern p \<and> ph_url_host example_host (pattern_domain p) = Some (to_ascii_lowercase (pattern_domain p))"
  have read: "?read (ApexAndSubdomains ''example.com'')" "?read (SubdomainsOnly ''example.com'')" "?read (Exact ''bad.example.com'')"
    by code_simp+
  have entry: "\<exists>p. ''**.example.com'' = entry_text p \<and> ?read p" "\<exists>p. ''*.example.com'' = entry_text p \<and> ?read p"
    "\<exists>p. ''bad.example.com'' = entry_text p \<and> ?read p"
    by (rule exI, rule conjI [OF _ read(1)], simp) (rule exI, rule conjI [OF _ read(2)], simp, rule exI, rule conjI [OF _ read(3)], simp)
  have lists: "or_default (allowed_domains (cs_config example_state)) = [''*.example.com'']" "or_default (denied_domains (cs_config example_state)) = [''bad.example.com'']"
    using example_lists by (simp_all add: example_state_def)
  show ?thesis unfolding named_entries_def lists by (simp only: append.simps set_simps ball_simps insert_iff) (use entry in blast)
qed

theorem managed_lists_bind_witness:
  "glob_laws simple_globs \<and> proxy_reachable example_host example_state \<and> covers (Exact ''bad.example.com'') ''bad.example.com'' \<and>
   judge_host simple_globs (\<lambda>_ _. None) example_state ''bad.example.com'' 443 = HostBlocked HostDenied"
proof (intro conjI)
  have p: "entry_text (Exact ''bad.example.com'') \<in> set [''bad.example.com'']" "named_pattern (Exact ''bad.example.com'')"
      "covers (Exact ''bad.example.com'') (to_ascii_lowercase ''bad.example.com'')" by code_simp+
  have globs: "ph_globs example_host = simple_globs" by (simp add: example_host_def)
  have lists: "nc_allowed_domains (cs_constraints example_state) = Some [''**.example.com'']"
      "nc_denied_domains (cs_constraints example_state) = Some [''bad.example.com'']"
      "nc_allowlist_expansion_enabled (cs_constraints example_state) \<noteq> Some True"
    by (simp_all add: example_state_def example_constraints_def)
  show "judge_host simple_globs (\<lambda>_ _. None) example_state ''bad.example.com'' 443 = HostBlocked HostDenied"
    by (rule managed_lists_bind [of example_host, unfolded globs, OF simple_globs_laws example_reachable lists example_named,
          THEN conjunct2, rule_format, OF conjI [OF p(1) conjI [OF p(2,3)]]])
  show "covers (Exact ''bad.example.com'') ''bad.example.com''" by code_simp
qed (rule simple_globs_laws, rule example_reachable)


lemma example_parsed: "parse_host (pr_host example_request) = Some ''api.example.com''"
  by code_simp


definition denied_example :: "unit config_state" where
  "denied_example = fst (add_denied_domain example_host (pr_host example_request) [(Ok None, \<lambda>st. st)] example_state)"

lemma example_denied: "add_denied_domain example_host (pr_host example_request) [(Ok None, \<lambda>st. st)] example_state = (denied_example, Some (Ok ()))"
proof -
  have "snd (add_denied_domain example_host (pr_host example_request) [(Ok None, \<lambda>st. st)] example_state) = Some (Ok ())" by code_simp
  then show ?thesis by (simp add: denied_example_def prod_eq_iff)
qed

lemma denied_host_stays_denied_witness:
  "fst (evaluate_host_policy simple_globs (\<lambda>_ _. None) (Ok None) (Some (\<lambda>_. AllowRequest)) example_request denied_example) = denied_example \<and>
   map_sum id fst (snd (evaluate_host_policy simple_globs (\<lambda>_ _. None) (Ok None) (Some (\<lambda>_. AllowRequest)) example_request denied_example)) =
     Ok (DenyRequest ''denied'' BaselinePolicy PolicyDeny)"
proof -
  have rounds: "safe_rounds example_host [(Ok None, \<lambda>st. st)]" by (simp add: safe_rounds_def answers_def)
  have globs: "ph_globs example_host = simple_globs" by (simp add: example_host_def)
  have name: "host_name ''api.example.com''" by code_simp
  show ?thesis
    using denied_host_stays_denied [of example_host, unfolded globs, OF simple_globs_laws example_reachable rounds example_parsed name example_denied]
    by simp
qed

section \<open>Weak spots\<close>

text \<open>
  An entry that the URL parser refuses is read as the empty name. With one such entry in the managed list, any other such entry is within
  the list; its glob is made from the text without the port and matches the host.
\<close>

lemma unparsable_entries_widen:
  "validate_policy_against_constraints (ph_url_host example_host)
     (example_settings\<lparr>np_domains := Some [\<lparr>de_pattern = ''evil.com:443'', de_permission = PermAllow\<rparr>]\<rparr>)
     (example_constraints\<lparr>nc_allowed_domains := Some [''example.com:443''], nc_denied_domains := None\<rparr>) = Ok ()"
  "map_sum id (\<lambda>st. globs_match simple_globs (cs_allow_set st) ''evil.com'') (build_config_state example_host
     (example_settings\<lparr>np_domains := Some [\<lparr>de_pattern = ''evil.com:443'', de_permission = PermAllow\<rparr>]\<rparr>)
     (example_constraints\<lparr>nc_allowed_domains := Some [''example.com:443''], nc_denied_domains := None\<rparr>)) = Ok True"
  by code_simp+

text \<open>A forced reload keeps the list of blocked requests but not their number, unlike every other operation.\<close>

lemma forced_reload_total: "fresh ph new_state \<Longrightarrow> cs_blocked_total (fst (force_reload (Ok new_state) st)) = 0"
  using built_sets(5) by (auto simp: fresh_def force_reload_def)

text \<open>A request recorded while the lists are updated is lost: the update compares the settings only, and writes back the queue it has read.\<close>

lemma update_loses_blocked:
  assumes "update_rounds ph host target [(Ok None, \<lambda>s. s)] st = (st', Some (Ok ()))" "st' \<noteq> st"
  shows "update_rounds ph host target [(Ok None, \<lambda>s. fst (record_blocked (Ok None) entry s))] st = (st', Some (Ok ()))"
  using assms by (auto simp: Let_def reload_if_needed_def record_blocked_def split: if_splits sum.splits)

text \<open>The proxies listen on a loopback address, unless that is allowed and no socket is reachable through them.\<close>

lemma listeners_local:
  assumes "resolve_runtime pe url_parse cfg = Ok (http, socks)"
    "\<not> np_dangerously_allow_non_loopback_proxy cfg \<or> allow_unix_sockets cfg \<noteq> [] \<or> np_dangerously_allow_all_unix_sockets cfg"
  shows "ip_is_loopback (sa_ip http)" "ip_is_loopback (sa_ip socks)"
proof -
  have "v4_is_loopback (from_octets [127, 0, 0, 1])" by code_simp
  then have loop: "ip_is_loopback (sa_ip (loopback_at port))" for port by (simp add: loopback_at_def)
  show "ip_is_loopback (sa_ip http)" "ip_is_loopback (sa_ip socks)"
    using assms loop
    by (auto simp: resolve_runtime_def clamp_bind_addrs_def clamp_non_loopback_def Let_def split: sum.splits if_splits)
qed

end
