(* ===== verification/Truncation.thy ===== *)
theory Truncation
  imports Rust_Prelude
begin

text \<open>
  Truncating the output of tools (\<open>utils/string/src/truncate.rs\<close>, \<open>utils/output-truncation/src/lib.rs\<close> and
  \<open>TruncationPolicy\<close> of \<open>protocol/src/protocol.rs\<close>): the middle of a text is replaced by a marker, at
  character boundaries, and a list of output items is cut to a budget. A slice of a text panics unless
  both ends are character boundaries; \<open>None\<close> is the panic. Sizes are \<open>usize\<close> and \<open>u64\<close> of 64 bits, with
  the saturating operations of the source.

  The theorems say that no slice panics and compare the one-pass routine with a reference: the longest
  run of whole characters that fits from the left and from the right.
\<close>

section \<open>Truncating a text\<close>

definition APPROX_BYTES_PER_TOKEN :: nat where
  "APPROX_BYTES_PER_TOKEN = 4"

definition approx_token_count :: "string \<Rightarrow> nat" where
  "approx_token_count text = saturating_add (length text) (APPROX_BYTES_PER_TOKEN - 1) div APPROX_BYTES_PER_TOKEN"

definition approx_bytes_for_tokens :: "nat \<Rightarrow> nat" where
  "approx_bytes_for_tokens tokens = saturating_mul tokens APPROX_BYTES_PER_TOKEN"

definition approx_tokens_from_byte_count :: "nat \<Rightarrow> nat" where
  "approx_tokens_from_byte_count bytes = saturating_add bytes (APPROX_BYTES_PER_TOKEN - 1) div APPROX_BYTES_PER_TOKEN"

definition approx_tokens_from_byte_count_i64 :: "int \<Rightarrow> int" where
  "approx_tokens_from_byte_count_i64 bytes =
     (if bytes \<le> 0 then 0 else min (2 ^ 63 - 1) (int (approx_tokens_from_byte_count (nat bytes))))"

definition str_slice_to :: "string \<Rightarrow> nat \<Rightarrow> string option" where
  "str_slice_to s k = (if is_char_boundary s k then Some (take k s) else None)"

definition str_slice_from :: "string \<Rightarrow> nat \<Rightarrow> string option" where
  "str_slice_from s k = (if is_char_boundary s k then Some (drop k s) else None)"

text \<open>
  The loop of \<open>split_string\<close> over \<open>char_indices\<close>: the index of the next character and the remaining ones;
  then \<open>prefix_end\<close>, \<open>suffix_start\<close>, \<open>removed_chars\<close> and \<open>suffix_started\<close>.
\<close>

fun split_loop :: "nat \<Rightarrow> nat \<Rightarrow> nat \<Rightarrow> string list \<Rightarrow> nat \<Rightarrow> nat \<Rightarrow> nat \<Rightarrow> bool \<Rightarrow> nat \<times> nat \<times> nat" where
  "split_loop beginning_bytes tail_start_target idx [] prefix_end suffix_start removed_chars suffix_started =
     (prefix_end, suffix_start, removed_chars)"
| "split_loop beginning_bytes tail_start_target idx (ch # chs) prefix_end suffix_start removed_chars suffix_started =
     (let char_end = idx + length ch in
      if char_end \<le> beginning_bytes then
        split_loop beginning_bytes tail_start_target char_end chs char_end suffix_start removed_chars suffix_started
      else if tail_start_target \<le> idx then
        split_loop beginning_bytes tail_start_target char_end chs prefix_end
          (if \<not> suffix_started then idx else suffix_start) removed_chars True
      else
        split_loop beginning_bytes tail_start_target char_end chs prefix_end suffix_start
          (saturating_add removed_chars 1) suffix_started)"

definition split_string :: "string \<Rightarrow> nat \<Rightarrow> nat \<Rightarrow> (nat \<times> string \<times> string) option" where
  "split_string s beginning_bytes end_bytes =
     (if s = [] then Some (0, [], [])
      else
        (case split_loop beginning_bytes (length s - end_bytes) 0 (chars s) 0 (length s) 0 False of
           (prefix_end, suffix_start, removed_chars) \<Rightarrow>
             (let suffix_start = (if suffix_start < prefix_end then prefix_end else suffix_start) in
              case str_slice_to s prefix_end of
                None \<Rightarrow> None
              | Some before \<Rightarrow>
                  (case str_slice_from s suffix_start of
                     None \<Rightarrow> None
                   | Some after \<Rightarrow> Some (removed_chars, before, after)))))"

definition split_budget :: "nat \<Rightarrow> nat \<times> nat" where
  "split_budget budget = (let left = budget div 2 in (left, budget - left))"

definition ellipsis :: string where
  "ellipsis = [CHR 0xE2, CHR 0x80, CHR 0xA6]"

definition format_truncation_marker :: "bool \<Rightarrow> nat \<Rightarrow> string" where
  "format_truncation_marker use_tokens removed_count =
     ellipsis @ show_nat removed_count @ (if use_tokens then '' tokens truncated'' else '' chars truncated'') @ ellipsis"

definition removed_units :: "bool \<Rightarrow> nat \<Rightarrow> nat \<Rightarrow> nat" where
  "removed_units use_tokens removed_bytes removed_chars =
     (if use_tokens then approx_tokens_from_byte_count removed_bytes else removed_chars)"

definition assemble_truncated_output :: "string \<Rightarrow> string \<Rightarrow> string \<Rightarrow> string" where
  "assemble_truncated_output before after marker = before @ marker @ after"

definition truncate_with_byte_estimate :: "string \<Rightarrow> nat \<Rightarrow> bool \<Rightarrow> string option" where
  "truncate_with_byte_estimate s max_bytes use_tokens =
     (if s = [] then Some []
      else
        (let total_chars = length (chars s) in
         if max_bytes = 0 then
           Some (format_truncation_marker use_tokens (removed_units use_tokens (length s) total_chars))
         else if length s \<le> max_bytes then Some s
         else
           (case split_budget max_bytes of
              (left_budget, right_budget) \<Rightarrow>
                map_option (\<lambda>(removed_chars, left, right).
                    assemble_truncated_output left right
                      (format_truncation_marker use_tokens
                        (removed_units use_tokens (length s - max_bytes) removed_chars)))
                  (split_string s left_budget right_budget))))"

definition truncate_middle_chars :: "string \<Rightarrow> nat \<Rightarrow> string option" where
  "truncate_middle_chars s max_bytes = truncate_with_byte_estimate s max_bytes False"

definition truncate_middle_with_token_budget :: "string \<Rightarrow> nat \<Rightarrow> (string \<times> nat option) option" where
  "truncate_middle_with_token_budget s max_tokens =
     (if s = [] then Some ([], None)
      else if 0 < max_tokens \<and> length s \<le> approx_bytes_for_tokens max_tokens then Some (s, None)
      else
        map_option (\<lambda>truncated. if truncated = s then (truncated, None) else (truncated, Some (approx_token_count s)))
          (truncate_with_byte_estimate s (approx_bytes_for_tokens max_tokens) True))"

section \<open>Policies and output items\<close>

datatype truncation_policy = Bytes nat | Tokens nat

fun token_budget :: "truncation_policy \<Rightarrow> nat" where
  "token_budget (Bytes bytes) = approx_tokens_from_byte_count bytes"
| "token_budget (Tokens tokens) = tokens"

fun byte_budget :: "truncation_policy \<Rightarrow> nat" where
  "byte_budget (Bytes bytes) = bytes"
| "byte_budget (Tokens tokens) = approx_bytes_for_tokens tokens"

fun truncate_text :: "string \<Rightarrow> truncation_policy \<Rightarrow> string option" where
  "truncate_text content (Bytes bytes) = truncate_middle_chars content bytes"
| "truncate_text content (Tokens tokens) = map_option fst (truncate_middle_with_token_budget content tokens)"

definition formatted_truncate_text :: "string \<Rightarrow> truncation_policy \<Rightarrow> string option" where
  "formatted_truncate_text content policy =
     (if length content \<le> byte_budget policy then Some content
      else
        (let total_lines = length (str_lines content) in
         map_option (\<lambda>result. ''Total output lines: '' @ show_nat total_lines @ [nl, nl] @ result)
           (truncate_text content policy)))"

datatype image_detail = Auto | Low | High | Original

datatype content_item = InputText string | InputImage string "image_detail option"

fun text_of :: "content_item \<Rightarrow> string option" where
  "text_of (InputText text) = Some text"
| "text_of (InputImage image_url detail) = None"

definition texts :: "content_item list \<Rightarrow> string list" where
  "texts items = List.map_filter text_of items"

definition images :: "content_item list \<Rightarrow> content_item list" where
  "images items = filter (\<lambda>item. text_of item = None) items"

definition combine_texts :: "string list \<Rightarrow> string" where
  "combine_texts segments = fold (\<lambda>text combined. (if combined \<noteq> [] then combined @ [nl] else combined) @ text) segments []"

definition formatted_truncate_text_content_items_with_policy ::
    "content_item list \<Rightarrow> truncation_policy \<Rightarrow> (content_item list \<times> nat option) option" where
  "formatted_truncate_text_content_items_with_policy items policy =
     (let text_segments = texts items in
      if text_segments = [] then Some (items, None)
      else
        (let combined = combine_texts text_segments in
         if length combined \<le> byte_budget policy then Some (items, None)
         else
           map_option (\<lambda>text. (InputText text # images items, Some (approx_token_count combined)))
             (formatted_truncate_text combined policy)))"

fun budget_of :: "truncation_policy \<Rightarrow> nat" where
  "budget_of (Bytes bytes) = byte_budget (Bytes bytes)"
| "budget_of (Tokens tokens) = token_budget (Tokens tokens)"

fun cost_of :: "truncation_policy \<Rightarrow> string \<Rightarrow> nat" where
  "cost_of (Bytes _) text = length text"
| "cost_of (Tokens _) text = approx_token_count text"

fun with_budget :: "truncation_policy \<Rightarrow> nat \<Rightarrow> truncation_policy" where
  "with_budget (Bytes _) remaining = Bytes remaining"
| "with_budget (Tokens _) remaining = Tokens remaining"

fun truncate_items_loop :: "truncation_policy \<Rightarrow> content_item list \<Rightarrow> nat \<Rightarrow> nat \<Rightarrow> content_item list \<Rightarrow>
    (content_item list \<times> nat) option" where
  "truncate_items_loop policy [] remaining omitted out = Some (out, omitted)"
| "truncate_items_loop policy (InputText text # items) remaining omitted out =
     (if remaining = 0 then truncate_items_loop policy items remaining (omitted + 1) out
      else if cost_of policy text \<le> remaining then
        truncate_items_loop policy items (remaining - cost_of policy text) omitted (out @ [InputText text])
      else
        (case truncate_text text (with_budget policy remaining) of
           None \<Rightarrow> None
         | Some snippet \<Rightarrow>
             if snippet = [] then truncate_items_loop policy items 0 (omitted + 1) out
             else truncate_items_loop policy items 0 omitted (out @ [InputText snippet])))"
| "truncate_items_loop policy (InputImage image_url detail # items) remaining omitted out =
     truncate_items_loop policy items remaining omitted (out @ [InputImage image_url detail])"

definition omitted_note :: "nat \<Rightarrow> string" where
  "omitted_note n = ''[omitted '' @ show_nat n @ '' text items ...]''"

definition truncate_function_output_items_with_policy ::
    "content_item list \<Rightarrow> truncation_policy \<Rightarrow> content_item list option" where
  "truncate_function_output_items_with_policy items policy =
     map_option (\<lambda>(out, omitted). if 0 < omitted then out @ [InputText (omitted_note omitted)] else out)
       (truncate_items_loop policy items (budget_of policy) 0 [])"


section \<open>The reference\<close>

text \<open>The longest run of whole characters from the left that fits into \<open>n\<close> bytes.\<close>

fun fit :: "nat \<Rightarrow> string list \<Rightarrow> string list" where
  "fit n [] = []"
| "fit n (c # cs) = (if length c \<le> n then c # fit (n - length c) cs else [])"

definition fit_end :: "nat \<Rightarrow> string list \<Rightarrow> string list" where
  "fit_end n cs = rev (fit n (rev cs))"

lemma fit_unique:
  "length (concat xs) \<le> n \<Longrightarrow> ys = [] \<or> n < length (concat xs) + length (hd ys) \<Longrightarrow> fit n (xs @ ys) = xs"
proof (induction xs arbitrary: n)
  case Nil
  then show ?case by (cases ys) auto
next
  case (Cons x xs)
  have "fit (n - length x) (xs @ ys) = xs" using Cons.prems by (intro Cons.IH) auto
  with Cons.prems show ?case by simp
qed

lemma fit_split: "\<exists>ys. cs = fit n cs @ ys \<and> length (concat (fit n cs)) \<le> n \<and>
    (ys = [] \<or> n < length (concat (fit n cs)) + length (hd ys))"
proof (induction n cs rule: fit.induct)
  case (2 n c cs)
  show ?case
  proof (cases "length c \<le> n")
    case True
    with 2 obtain ys where "cs = fit (n - length c) cs @ ys" "length (concat (fit (n - length c) cs)) \<le> n - length c"
      "ys = [] \<or> n - length c < length (concat (fit (n - length c) cs)) + length (hd ys)" by blast
    with True show ?thesis by (intro exI [of _ ys]) auto
  qed simp
qed simp

lemma fit_end_unique:
  assumes "length (concat ys) \<le> n" "xs = [] \<or> n < length (last xs) + length (concat ys)"
  shows "fit_end n (xs @ ys) = ys"
proof -
  have "length (concat (rev ys)) = length (concat ys)" by (simp add: length_concat rev_map [symmetric] sum_list_rev)
  then show ?thesis using assms fit_unique [of "rev ys" n "rev xs"] by (auto simp: fit_end_def hd_rev)
qed

lemma chars_not_Nil: "c \<in> set (chars s) \<Longrightarrow> c \<noteq> []"
  by (induction s rule: chars.induct) auto

lemma length_chars: "length (chars s) \<le> length s"
proof (induction s rule: chars.induct)
  case (2 c cs)
  then show ?case using length_dropWhile_le [of is_cont cs] by simp
qed simp

lemma chars_boundary: "chars s = xs @ ys \<Longrightarrow> is_char_boundary s (length (concat xs))"
proof (induction s arbitrary: xs rule: chars.induct)
  case (2 c cs)
  show ?case
  proof (cases xs)
    case (Cons x xs')
    let ?tw = "takeWhile is_cont cs" and ?dw = "dropWhile is_cont cs"
    from 2 Cons have x: "x = c # ?tw" "is_char_boundary ?dw (length (concat xs'))" by auto
    have split: "c # cs = x @ ?dw" using x by simp
    have hd: "\<not> is_cont (?dw ! 0)" if "?dw \<noteq> []" using that hd_dropWhile [of is_cont cs] by (simp add: hd_conv_nth)
    show ?thesis
    proof (cases "concat xs' = []")
      case True
      then have "length (concat xs) = length x" using Cons by simp
      with hd show ?thesis unfolding split by (cases ?dw) (simp_all add: is_char_boundary_def nth_append)
    next
      case False
      then have "length (concat xs') \<noteq> 0" by (simp only: length_0_conv) simp
      with x(2) have "length (concat xs') = length ?dw \<or>
          length (concat xs') < length ?dw \<and> \<not> is_cont (?dw ! length (concat xs'))"
        by (simp only: is_char_boundary_def simp_thms)
      with Cons show ?thesis unfolding split by (auto simp: is_char_boundary_def nth_append)
    qed
  qed (simp add: is_char_boundary_def)
qed (simp add: is_char_boundary_def)

section \<open>The loop\<close>

text \<open>The characters that start before byte \<open>d\<close>.\<close>

fun until :: "nat \<Rightarrow> string list \<Rightarrow> string list" where
  "until d [] = []"
| "until d (c # cs) = (if d = 0 then [] else c # until (d - length c) cs)"

lemma until_0 [simp]: "until 0 cs = []"
  by (cases cs) simp_all

lemma until_split:
  "\<exists>ys. cs = until d cs @ ys \<and> (ys = [] \<or> d \<le> length (concat (until d cs))) \<and>
     (until d cs = [] \<or> length (concat (until d cs)) < d + length (last (until d cs)))"
proof (induction d cs rule: until.induct)
  case (2 d c cs)
  show ?case
  proof (cases "d = 0")
    case False
    with 2 obtain ys where "cs = until (d - length c) cs @ ys"
      "ys = [] \<or> d - length c \<le> length (concat (until (d - length c) cs))"
      "until (d - length c) cs = [] \<or> length (concat (until (d - length c) cs)) < d - length c + length (last (until (d - length c) cs))"
      by blast
    with False show ?thesis by (intro exI [of _ ys]) (cases "d \<le> length c"; auto)
  qed simp
qed simp

lemma split_loop_suffix:
  "t \<le> idx \<Longrightarrow> b < idx \<Longrightarrow> split_loop b t idx cs pe ss rc True = (pe, ss, rc)"
  by (induction cs arbitrary: idx) (simp_all add: Let_def)

lemma split_loop_middle:
  assumes "b < t" "cs = [] \<or> b < idx + length (hd cs)" "rc + length cs \<le> usize_max" "[] \<notin> set cs"
    and "until (t - idx) cs = mid" "cs = mid @ post"
  shows "split_loop b t idx cs pe (idx + length (concat cs)) rc False =
    (pe, idx + length (concat mid), rc + length mid)"
  using assms
proof (induction cs arbitrary: idx rc mid)
  case (Cons c cs)
  show ?case
  proof (cases "t \<le> idx")
    case True
    with Cons.prems(5) have "mid = []" by simp
    have "split_loop b t (idx + length c) cs pe idx rc True = (pe, idx, rc)"
      using True Cons.prems(1) by (intro split_loop_suffix) auto
    moreover have "\<not> idx + length c \<le> b" using True Cons.prems(1) by simp
    ultimately show ?thesis using True \<open>mid = []\<close> by (simp add: Let_def)
  next
    case False
    define mid' where "mid' = until (t - (idx + length c)) cs"
    then have mid: "mid = c # mid'" "until (t - (idx + length c)) cs = mid'" using False Cons.prems(5) by simp_all
    have "cs = [] \<or> b < idx + length c + length (hd cs)" using Cons.prems(2) by auto
    from Cons.IH [OF \<open>b < t\<close> this, of "rc + 1" mid'] mid Cons.prems False show ?thesis
      by (auto simp: Let_def saturating_add_exact add.assoc)
  qed
qed simp

lemma split_loop_prefix:
  assumes "cs = xs @ ys" "idx + length (concat xs) \<le> b"
  shows "split_loop b t idx cs idx L rc False =
    split_loop b t (idx + length (concat xs)) ys (idx + length (concat xs)) L rc False"
  using assms
proof (induction xs arbitrary: idx cs)
  case (Cons x xs)
  then show ?case using Cons.IH [of "xs @ ys" "idx + length x"] by (simp add: Let_def add.assoc)
qed simp

text \<open>A text that is longer than both budgets is split at the reference's places.\<close>

lemma split_string_reference:
  assumes "b + e < length s" "length s \<le> usize_max"
  shows "\<exists>mid. chars s = fit b (chars s) @ mid @ fit_end e (chars s) \<and>
    split_string s b e = Some (length mid, concat (fit b (chars s)), concat (fit_end e (chars s)))"
proof -
  let ?cs = "chars s" and ?t = "length s - e"
  define front where "front = fit b ?cs"
  obtain ys where ys: "?cs = front @ ys" "length (concat front) \<le> b" "ys = [] \<or> b < length (concat front) + length (hd ys)"
    unfolding front_def using fit_split by blast
  have total: "length (concat front) + length (concat ys) = length s"
    using arg_cong [OF ys(1), of "\<lambda>z. length (concat z)"] by simp
  define mid where "mid = until (?t - length (concat front)) ys"
  obtain post where post: "ys = mid @ post" "post = [] \<or> ?t - length (concat front) \<le> length (concat mid)"
    "mid = [] \<or> length (concat mid) < ?t - length (concat front) + length (last mid)"
    using until_split [of ys "?t - length (concat front)"] by (auto simp: mid_def)
  have tail: "length (concat mid) + length (concat post) = length (concat ys)" using post(1) by simp
  have "ys \<noteq> []" using assms ys total by auto
  then have "mid \<noteq> []" using assms ys by (cases ys) (auto simp: mid_def)
  have "length (concat post) \<le> e" using post(2) total tail assms ys(2) by auto
  moreover have "e < length (last mid) + length (concat post)"
    using post(3) \<open>mid \<noteq> []\<close> total tail assms ys(2) by linarith
  ultimately have fit_back: "fit_end e ?cs = post"
    using fit_end_unique [of post e "front @ mid"] \<open>mid \<noteq> []\<close> ys(1) post(1) by simp
  have "length ys \<le> length ?cs" "[] \<in> set ys \<Longrightarrow> [] \<in> set ?cs"
    using ys(1) by (metis le_add2 length_append, metis Un_iff set_append)
  then have small: "0 + length ys \<le> usize_max" "[] \<notin> set ys"
    using assms(2) length_chars [of s] chars_not_Nil [of "[]" s] by (linarith, blast)
  have "b < ?t" using assms(1) by linarith
  note bounds = this ys(3) small
  have middle: "split_loop b ?t (length (concat front)) ys (length (concat front)) (length s) 0 False =
      (length (concat front), length (concat front) + length (concat mid), 0 + length mid)"
    using split_loop_middle [OF bounds mid_def [symmetric] post(1), of "length (concat front)"] by (simp only: total)
  have "split_loop b ?t 0 ?cs 0 (length s) 0 False =
      split_loop b ?t (length (concat front)) ys (length (concat front)) (length s) 0 False"
    using split_loop_prefix [OF ys(1), of 0 b] ys(2) by simp
  also note middle
  finally have loop: "split_loop b ?t 0 ?cs 0 (length s) 0 False =
      (length (concat front), length (concat front) + length (concat mid), length mid)" by simp
  have s: "s = concat front @ concat mid @ concat post" using ys(1) post(1) by (metis concat_append concat_chars)
  have "is_char_boundary s (length (concat front))" "is_char_boundary s (length (concat front) + length (concat mid))"
    using chars_boundary [of s front ys] chars_boundary [of s "front @ mid" post] ys(1) post(1) by simp_all
  moreover have "take (length (concat front)) s = concat front"
    "drop (length (concat front) + length (concat mid)) s = concat post"
    using s by (metis append_eq_conv_conj, metis append.assoc append_eq_conv_conj length_append)
  ultimately have "split_string s b e = Some (length mid, concat front, concat post)"
    using assms(1) loop by (auto simp: split_string_def str_slice_to_def str_slice_from_def Let_def)
  with ys(1) post(1) fit_back show ?thesis unfolding front_def [symmetric] by (intro exI [of _ mid]) simp
qed


section \<open>What is kept\<close>

lemma truncate_short: "length s \<le> m \<Longrightarrow> truncate_with_byte_estimate s m use_tokens = Some s"
  by (auto simp: truncate_with_byte_estimate_def Let_def)

lemma fit_0: "[] \<notin> set cs \<Longrightarrow> fit 0 cs = []"
  by (cases cs) auto

lemma truncate_long:
  assumes "length s \<le> usize_max" "m < length s"
  shows "\<exists>mid. chars s = fit (m div 2) (chars s) @ mid @ fit_end (m - m div 2) (chars s) \<and>
      truncate_with_byte_estimate s m use_tokens =
        Some (concat (fit (m div 2) (chars s)) @
              format_truncation_marker use_tokens
                (if use_tokens then approx_tokens_from_byte_count (length s - m) else length mid) @
              concat (fit_end (m - m div 2) (chars s)))"
proof (cases "m = 0")
  case True
  have "[] \<notin> set (chars s)" using chars_not_Nil by blast
  then have "fit 0 (chars s) = []" "fit 0 (rev (chars s)) = []" using fit_0 [of "chars s"] fit_0 [of "rev (chars s)"] by simp_all
  with True assms show ?thesis
    by (auto simp: truncate_with_byte_estimate_def Let_def fit_end_def removed_units_def)
next
  case False
  have "m div 2 + (m - m div 2) < length s" using assms(2) by simp
  from split_string_reference [OF this assms(1)] obtain mid where
    "chars s = fit (m div 2) (chars s) @ mid @ fit_end (m - m div 2) (chars s)"
    and split: "split_string s (m div 2) (m - m div 2) =
      Some (length mid, concat (fit (m div 2) (chars s)), concat (fit_end (m - m div 2) (chars s)))"
    by blast
  moreover have "s \<noteq> []" using assms(2) by auto
  ultimately show ?thesis using assms(2) False
    by (intro exI [of _ mid] conjI)
      (simp_all add: truncate_with_byte_estimate_def Let_def split_budget_def removed_units_def assemble_truncated_output_def)
qed

text \<open>
  C37 (truncate_middle_reference). Truncating never panics. A text within the limit is returned as it is; of
  a longer one exactly the longest run of whole characters that fits into half of the limit is kept
  at the front and the longest that fits into the rest of it at the end; between them stands a marker
  with the number of removed characters, or of the tokens beyond the limit.
\<close>

theorem truncate_middle_reference:
  assumes "length s \<le> usize_max"
  shows "if length s \<le> m then truncate_with_byte_estimate s m use_tokens = Some s
    else (\<exists>mid. chars s = fit (m div 2) (chars s) @ mid @ fit_end (m - m div 2) (chars s) \<and>
      truncate_with_byte_estimate s m use_tokens =
        Some (concat (fit (m div 2) (chars s)) @
              format_truncation_marker use_tokens
                (if use_tokens then approx_tokens_from_byte_count (length s - m) else length mid) @
              concat (fit_end (m - m div 2) (chars s))))"
proof (cases "length s \<le> m")
  case True
  then show ?thesis by (simp only: truncate_short if_True)
next
  case False
  then have "m < length s" by simp
  from truncate_long [OF assms this, of use_tokens] show ?thesis by (simp only: False if_False)
qed

theorem truncate_middle_reference_witness:
  "truncate_with_byte_estimate ''abcdef'' 4 False = Some (''ab'' @ ellipsis @ ''2 chars truncated'' @ ellipsis @ ''ef'')"
proof -
  have plain: "chars ''abcdef'' = [''a'', ''b'', ''c'', ''d'', ''e'', ''f'']" by code_simp
  have marker: "format_truncation_marker False 2 = ellipsis @ ''2 chars truncated'' @ ellipsis" by code_simp
  have "length ''abcdef'' \<le> usize_max" by (simp add: usize_max_def)
  from truncate_middle_reference [OF this, of 4 False] obtain mid where
    "chars ''abcdef'' = fit 2 (chars ''abcdef'') @ mid @ fit_end 2 (chars ''abcdef'')"
    "truncate_with_byte_estimate ''abcdef'' 4 False = Some (concat (fit 2 (chars ''abcdef'')) @
       format_truncation_marker False (length mid) @ concat (fit_end 2 (chars ''abcdef'')))"
    by auto
  moreover have "fit 2 (chars ''abcdef'') = [''a'', ''b'']" "fit_end 2 (chars ''abcdef'') = [''e'', ''f'']" by code_simp+
  ultimately have "[''a'', ''b''] @ [''c'', ''d''] @ [''e'', ''f''] = [''a'', ''b''] @ mid @ [''e'', ''f'']"
    and "truncate_with_byte_estimate ''abcdef'' 4 False = Some (''ab'' @ format_truncation_marker False (length mid) @ ''ef'')"
    using plain by (simp_all only: concat.simps append.simps)
  moreover from this(1) have "mid = [''c'', ''d'']" by (simp only: same_append_eq append_same_eq)
  ultimately have "truncate_with_byte_estimate ''abcdef'' 4 False = Some (''ab'' @ format_truncation_marker False 2 @ ''ef'')"
    by (simp add: numeral_2_eq_2)
  then show ?thesis using marker by simp
qed

text \<open>A text that costs more than what remains is really cut, and its snippet is not empty.\<close>

lemma marker_not_Nil: "xs @ format_truncation_marker u n @ ys \<noteq> []"
  by (simp add: format_truncation_marker_def ellipsis_def)

lemma truncate_with_estimate_total:
  assumes "length s \<le> usize_max"
  shows "\<exists>out. truncate_with_byte_estimate s m u = Some out \<and> (s \<noteq> [] \<longrightarrow> out \<noteq> [])"
proof (cases "length s \<le> m")
  case True
  then show ?thesis by (simp add: truncate_short)
next
  case False
  then show ?thesis using truncate_long [OF assms, of m u] marker_not_Nil by fastforce
qed

lemma truncate_text_total:
  assumes "length text \<le> usize_max"
  shows "\<exists>out. truncate_text text policy = Some out \<and> (text \<noteq> [] \<longrightarrow> out \<noteq> [])"
proof (cases policy)
  case (Bytes m)
  then show ?thesis using truncate_with_estimate_total [OF assms] by (simp add: truncate_middle_chars_def)
next
  case (Tokens n)
  obtain out where "truncate_with_byte_estimate text (approx_bytes_for_tokens n) True = Some out" "text \<noteq> [] \<longrightarrow> out \<noteq> []"
    using truncate_with_estimate_total [OF assms] by blast
  with Tokens show ?thesis by (simp add: truncate_middle_with_token_budget_def)
qed

section \<open>Output items\<close>

lemma cost_pos: "n < cost_of policy text \<Longrightarrow> text \<noteq> []"
  by (cases policy) (auto simp: approx_token_count_def saturating_add_def APPROX_BYTES_PER_TOKEN_def usize_max_def)

lemma texts_simps [simp]:
  "texts [] = []" "texts (InputText t # items) = t # texts items" "texts (InputImage u d # items) = texts items"
  "texts (items @ items') = texts items @ texts items'"
  by (simp_all add: texts_def List.map_filter_def)

lemma images_simps [simp]:
  "images [] = []" "images (InputText t # items) = images items" "images (InputImage u d # items) = InputImage u d # images items"
  "images (items @ items') = images items @ images items'"
  by (simp_all add: images_def)

text \<open>What becomes of the texts \<open>ts\<close> when \<open>n\<close> is left of the budget, and how many are omitted.\<close>

fun keep_texts :: "truncation_policy \<Rightarrow> nat \<Rightarrow> string list \<Rightarrow> string list \<times> nat" where
  "keep_texts policy n [] = ([], 0)"
| "keep_texts policy n (t # ts) =
     (if n = 0 then ([], length (t # ts))
      else if cost_of policy t \<le> n then (case keep_texts policy (n - cost_of policy t) ts of (ks, k) \<Rightarrow> (t # ks, k))
      else ([the (truncate_text t (with_budget policy n))], length ts))"

lemma keep_texts_0 [simp]: "keep_texts policy 0 ts = ([], length ts)"
  by (cases ts) simp_all

lemma truncate_items_loop_keeps:
  assumes "\<forall>t \<in> set (texts items). length t \<le> usize_max"
  shows "\<exists>out'. truncate_items_loop policy items n omitted out =
      Some (out @ out', omitted + snd (keep_texts policy n (texts items))) \<and>
    images out' = images items \<and> texts out' = fst (keep_texts policy n (texts items))"
  using assms
proof (induction policy items n omitted out rule: truncate_items_loop.induct)
  case (2 policy t items remaining omitted out)
  then have rest: "\<forall>x \<in> set (texts items). length x \<le> usize_max" and size: "length t \<le> usize_max" by simp_all
  consider (none) "remaining = 0" | (fits) "remaining \<noteq> 0" "cost_of policy t \<le> remaining"
    | (cut) "remaining \<noteq> 0" "\<not> cost_of policy t \<le> remaining" by blast
  then show ?case
  proof cases
    case none
    with "2.IH"(1) [OF none rest] show ?thesis by simp
  next
    case fits
    from "2.IH"(2) [OF fits rest] obtain out' where out':
      "truncate_items_loop policy items (remaining - cost_of policy t) omitted (out @ [InputText t]) =
         Some ((out @ [InputText t]) @ out', omitted + snd (keep_texts policy (remaining - cost_of policy t) (texts items)))"
      "images out' = images items" "texts out' = fst (keep_texts policy (remaining - cost_of policy t) (texts items))"
      by blast
    with fits show ?thesis by (intro exI [of _ "InputText t # out'"]) (simp split: prod.split)
  next
    case cut
    then have "t \<noteq> []" using cost_pos [of remaining policy t] by simp
    then obtain snippet where snippet: "truncate_text t (with_budget policy remaining) = Some snippet" "snippet \<noteq> []"
      using truncate_text_total [OF size] by blast
    from "2.IH"(4) [OF cut snippet rest] obtain out' where
      "truncate_items_loop policy items 0 omitted (out @ [InputText snippet]) =
         Some ((out @ [InputText snippet]) @ out', omitted + length (texts items))"
      "images out' = images items" "texts out' = []" by auto
    with cut snippet show ?thesis by (intro exI [of _ "InputText snippet # out'"]) simp
  qed
next
  case (3 policy u d items remaining omitted out)
  then obtain out' where "truncate_items_loop policy items remaining omitted (out @ [InputImage u d]) =
      Some ((out @ [InputImage u d]) @ out', omitted + snd (keep_texts policy remaining (texts items)))"
    "images out' = images items" "texts out' = fst (keep_texts policy remaining (texts items))" by auto
  then show ?case by (intro exI [of _ "InputImage u d # out'"]) simp
qed simp

lemma keep_texts_prefix:
  "\<exists>kept rest. ts = kept @ rest \<and> sum_list (map (cost_of policy) kept) \<le> n \<and>
     (case rest of
        [] \<Rightarrow> keep_texts policy n ts = (kept, 0)
      | t # rest' \<Rightarrow>
          if sum_list (map (cost_of policy) kept) = n then keep_texts policy n ts = (kept, length rest)
          else n < sum_list (map (cost_of policy) kept) + cost_of policy t \<and>
            keep_texts policy n ts =
              (kept @ [the (truncate_text t (with_budget policy (n - sum_list (map (cost_of policy) kept))))], length rest'))"
proof (induction policy n ts rule: keep_texts.induct)
  case (2 policy n t ts)
  consider (none) "n = 0" | (fits) "n \<noteq> 0" "cost_of policy t \<le> n" | (cut) "n \<noteq> 0" "\<not> cost_of policy t \<le> n" by blast
  then show ?case
  proof cases
    case fits
    with 2 obtain kept rest where kr: "ts = kept @ rest" "sum_list (map (cost_of policy) kept) \<le> n - cost_of policy t"
      "case rest of
        [] \<Rightarrow> keep_texts policy (n - cost_of policy t) ts = (kept, 0)
      | t' # rest' \<Rightarrow>
          if sum_list (map (cost_of policy) kept) = n - cost_of policy t
          then keep_texts policy (n - cost_of policy t) ts = (kept, length rest)
          else n - cost_of policy t < sum_list (map (cost_of policy) kept) + cost_of policy t' \<and>
            keep_texts policy (n - cost_of policy t) ts =
              (kept @ [the (truncate_text t' (with_budget policy (n - cost_of policy t - sum_list (map (cost_of policy) kept))))],
               length rest')" by blast
    with fits show ?thesis
      by (intro exI [of _ "t # kept"] exI [of _ rest]) (auto split: list.splits if_splits)
  next
    case none
    then show ?thesis by (intro exI [of _ "[]"] exI [of _ "t # ts"]) simp
  next
    case cut
    then show ?thesis by (intro exI [of _ "[]"] exI [of _ "t # ts"]) simp
  qed
qed simp

text \<open>
  C38 (truncate_items_budget). Cutting a list of output items to a budget never panics, keeps every image in
  order, and keeps the longest run of leading texts whose cost fits; the first text that does not fit
  is truncated to what is left of the budget, and a final note counts the texts that are left out.
\<close>

theorem truncate_items_budget:
  assumes "\<forall>t \<in> set (texts items). length t \<le> usize_max"
  shows "\<exists>out kept rest. truncate_function_output_items_with_policy items policy = Some out \<and>
    images out = images items \<and> texts items = kept @ rest \<and>
    (let used = sum_list (map (cost_of policy) kept); left = budget_of policy - used in
     used \<le> budget_of policy \<and>
     texts out = kept @
       (case rest of
          [] \<Rightarrow> []
        | t # ts \<Rightarrow>
            if left = 0 then [omitted_note (length rest)]
            else the (truncate_text t (with_budget policy left)) # (if ts = [] then [] else [omitted_note (length ts)])) \<and>
     (case rest of [] \<Rightarrow> True | t # ts \<Rightarrow> left = 0 \<or> left < cost_of policy t))"
proof -
  let ?n = "budget_of policy"
  obtain out' where loop: "truncate_items_loop policy items ?n 0 [] = Some (out', snd (keep_texts policy ?n (texts items)))"
    "images out' = images items" "texts out' = fst (keep_texts policy ?n (texts items))"
    using truncate_items_loop_keeps [OF assms, of policy ?n 0 "[]"] by auto
  define out where "out = (if 0 < snd (keep_texts policy ?n (texts items))
    then out' @ [InputText (omitted_note (snd (keep_texts policy ?n (texts items))))] else out')"
  have run: "truncate_function_output_items_with_policy items policy = Some out" "images out = images items"
    "texts out = fst (keep_texts policy ?n (texts items)) @ (if 0 < snd (keep_texts policy ?n (texts items))
       then [omitted_note (snd (keep_texts policy ?n (texts items)))] else [])"
    using loop by (simp_all add: truncate_function_output_items_with_policy_def out_def)
  obtain kept rest where kr: "texts items = kept @ rest" "sum_list (map (cost_of policy) kept) \<le> ?n"
     "case rest of
        [] \<Rightarrow> keep_texts policy ?n (texts items) = (kept, 0)
      | t # rest' \<Rightarrow>
          if sum_list (map (cost_of policy) kept) = ?n then keep_texts policy ?n (texts items) = (kept, length rest)
          else ?n < sum_list (map (cost_of policy) kept) + cost_of policy t \<and>
            keep_texts policy ?n (texts items) =
              (kept @ [the (truncate_text t (with_budget policy (?n - sum_list (map (cost_of policy) kept))))], length rest')"
    using keep_texts_prefix [of "texts items" policy ?n] by blast
  show ?thesis
  proof (intro exI conjI)
    show "truncate_function_output_items_with_policy items policy = Some out" by (rule run(1))
    show "images out = images items" by (rule run(2))
    show "texts items = kept @ rest" by (rule kr(1))
    show "let used = sum_list (map (cost_of policy) kept); left = ?n - used in
     used \<le> ?n \<and>
     texts out = kept @
       (case rest of
          [] \<Rightarrow> []
        | t # ts \<Rightarrow>
            if left = 0 then [omitted_note (length rest)]
            else the (truncate_text t (with_budget policy left)) # (if ts = [] then [] else [omitted_note (length ts)])) \<and>
     (case rest of [] \<Rightarrow> True | t # ts \<Rightarrow> left = 0 \<or> left < cost_of policy t)"
      using kr(2,3) unfolding run(3) by (cases rest) (auto simp: Let_def)
  qed
qed

theorem truncate_items_budget_witness:
  "\<exists>out. truncate_function_output_items_with_policy
       [InputText ''abc'', InputImage ''u'' None, InputText ''de'', InputText ''f''] (Bytes 3) = Some out \<and>
     images out = [InputImage ''u'' None]"
proof -
  let ?items = "[InputText ''abc'', InputImage ''u'' None, InputText ''de'', InputText ''f'']"
  have "\<forall>t \<in> set (texts ?items). length t \<le> usize_max" by (simp add: usize_max_def)
  from truncate_items_budget [OF this, of "Bytes 3"] show ?thesis by (auto simp: Let_def)
qed

end
