(* ===== verification/Patch_Parser.thy ===== *)
theory Patch_Parser
  imports Rust_Prelude
begin

text \<open>
  \<open>codex-rs/apply-patch/src/parser.rs\<close>: the text of a patch becomes a list of hunks. Slices that
  could panic in the source are \<open>option\<close>-valued here, so that \<open>None\<close> is a panic; a parse error is
  a value of \<open>parse_error\<close>.
\<close>

section \<open>Markers, hunks and errors\<close>

definition BEGIN_PATCH_MARKER :: string where "BEGIN_PATCH_MARKER = ''*** Begin Patch''"
definition END_PATCH_MARKER :: string where "END_PATCH_MARKER = ''*** End Patch''"
definition ADD_FILE_MARKER :: string where "ADD_FILE_MARKER = ''*** Add File: ''"
definition DELETE_FILE_MARKER :: string where "DELETE_FILE_MARKER = ''*** Delete File: ''"
definition UPDATE_FILE_MARKER :: string where "UPDATE_FILE_MARKER = ''*** Update File: ''"
definition MOVE_TO_MARKER :: string where "MOVE_TO_MARKER = ''*** Move to: ''"
definition EOF_MARKER :: string where "EOF_MARKER = ''*** End of File''"
definition CHANGE_CONTEXT_MARKER :: string where "CHANGE_CONTEXT_MARKER = ''@@ ''"
definition EMPTY_CHANGE_CONTEXT_MARKER :: string where "EMPTY_CHANGE_CONTEXT_MARKER = ''@@''"

definition PARSE_IN_STRICT_MODE :: bool where "PARSE_IN_STRICT_MODE = False"

lemmas marker_defs = BEGIN_PATCH_MARKER_def END_PATCH_MARKER_def ADD_FILE_MARKER_def
  DELETE_FILE_MARKER_def UPDATE_FILE_MARKER_def MOVE_TO_MARKER_def EOF_MARKER_def
  CHANGE_CONTEXT_MARKER_def EMPTY_CHANGE_CONTEXT_MARKER_def

datatype parse_error =
    InvalidPatchError string
  | InvalidHunkError string nat

record update_file_chunk =
  change_context :: "string option"
  old_lines :: "string list"
  new_lines :: "string list"
  is_end_of_file :: bool

datatype hunk =
    AddFile string string
  | DeleteFile string
  | UpdateFile string "string option" "update_file_chunk list"

record apply_patch_args =
  patch :: string
  hunks :: "hunk list"
  workdir :: "string option"

datatype parse_mode = Strict | Lenient | Streaming

text \<open>\<open>Hunk::path\<close>: the path a hunk affects, the destination for a rename.\<close>

fun hunk_path :: "hunk \<Rightarrow> string" where
  "hunk_path (AddFile path contents) = path"
| "hunk_path (DeleteFile path) = path"
| "hunk_path (UpdateFile path (Some dest) chunks) = dest"
| "hunk_path (UpdateFile path None chunks) = path"

text \<open>\<open>Hunk::resolve_path\<close> resolves the path the hunk reads; resolution itself is a parameter here.\<close>

definition resolve_path :: "(string \<Rightarrow> string) \<Rightarrow> hunk \<Rightarrow> string" where
  "resolve_path resolve h =
     resolve (case h of UpdateFile path _ _ \<Rightarrow> path | AddFile _ _ \<Rightarrow> hunk_path h | DeleteFile _ \<Rightarrow> hunk_path h)"

section \<open>The boundary markers\<close>

definition msg_first_line :: string where
  "msg_first_line = ''The first line of the patch must be '' @ quoted ''*** Begin Patch''"

definition msg_last_line :: string where
  "msg_last_line = ''The last line of the patch must be '' @ quoted ''*** End Patch''"

definition check_start_and_end_lines_strict ::
  "string option \<Rightarrow> string option \<Rightarrow> (parse_error, unit) result" where
  "check_start_and_end_lines_strict first_line last_line =
     (let first_line = map_option trim first_line; last_line = map_option trim last_line in
      if first_line = Some BEGIN_PATCH_MARKER \<and> last_line = Some END_PATCH_MARKER then Ok ()
      else if first_line \<noteq> None \<and> first_line \<noteq> Some BEGIN_PATCH_MARKER
        then Err (InvalidPatchError msg_first_line)
      else Err (InvalidPatchError msg_last_line))"

text \<open>A parser step that may panic.\<close>

type_synonym 'a parsed = "(parse_error, 'a) result option"

definition check_patch_boundaries_strict :: "string list \<Rightarrow> (string list \<times> string list) parsed" where
  "check_patch_boundaries_strict lines =
     (let (first_line, last_line) =
        (case lines of [] \<Rightarrow> (None, None) | [first] \<Rightarrow> (Some first, Some first)
         | first # rest \<Rightarrow> (Some first, Some (last rest))) in
      case check_start_and_end_lines_strict first_line last_line of
        Err e \<Rightarrow> Some (Err e)
      | Ok _ \<Rightarrow> (case slice lines 1 (length lines - 1) of
          None \<Rightarrow> None
        | Some inner \<Rightarrow> Some (Ok (lines, inner))))"

definition check_patch_boundaries_streaming :: "string list \<Rightarrow> (string list \<times> string list) parsed" where
  "check_patch_boundaries_streaming original_lines =
     (if original_lines \<noteq> [] \<and> trim (hd original_lines) = BEGIN_PATCH_MARKER then
        (case (if trim (last original_lines) = END_PATCH_MARKER
               then slice original_lines 1 (length original_lines - 1)
               else slice_from original_lines 1) of
           None \<Rightarrow> None
         | Some body_lines \<Rightarrow> Some (Ok (original_lines, body_lines)))
      else check_patch_boundaries_strict original_lines)"

definition heredoc_openers :: "string list" where
  "heredoc_openers = [''<<EOF'', ''<<'' @ quoted ''EOF'', ''<<'' @ [CHR 0x22] @ ''EOF'' @ [CHR 0x22]]"

definition check_patch_boundaries_lenient :: "string list \<Rightarrow> (string list \<times> string list) parsed" where
  "check_patch_boundaries_lenient original_lines =
     (case check_patch_boundaries_strict original_lines of
        None \<Rightarrow> None
      | Some (Ok lines) \<Rightarrow> Some (Ok lines)
      | Some (Err original_parse_error) \<Rightarrow>
          (if 2 \<le> length original_lines then
             (if hd original_lines \<in> set heredoc_openers
                 \<and> suffix ''EOF'' (last original_lines)
                 \<and> 4 \<le> length original_lines
              then (case slice original_lines 1 (length original_lines - 1) of
                      None \<Rightarrow> None
                    | Some inner_lines \<Rightarrow> check_patch_boundaries_strict inner_lines)
              else Some (Err original_parse_error))
           else Some (Err original_parse_error)))"

section \<open>Hunks\<close>

definition empty_chunk :: "string option \<Rightarrow> update_file_chunk" where
  "empty_chunk ctx = \<lparr>change_context = ctx, old_lines = [], new_lines = [], is_end_of_file = False\<rparr>"

definition msg_no_lines :: string where "msg_no_lines = ''Update hunk does not contain any lines''"

definition msg_unexpected :: "string \<Rightarrow> string" where
  "msg_unexpected l = ''Unexpected line found in update hunk: '' @ quoted l @
     ''. Every line should start with '' @ quoted '' '' @ '' (context line), '' @ quoted ''+'' @
     '' (added line), or '' @ quoted ''-'' @ '' (removed line)''"

text \<open>The loop over the lines of one chunk, with the chunk and the number of lines read so far.\<close>

fun chunk_loop :: "nat \<Rightarrow> string list \<Rightarrow> update_file_chunk \<Rightarrow> nat \<Rightarrow>
    (parse_error, update_file_chunk \<times> nat) result" where
  "chunk_loop line_number [] chunk parsed_lines = Ok (chunk, parsed_lines)"
| "chunk_loop line_number (line # rest) chunk parsed_lines =
     (if line = EOF_MARKER then
        (if parsed_lines = 0 then Err (InvalidHunkError msg_no_lines (line_number + 1))
         else Ok (chunk\<lparr>is_end_of_file := True\<rparr>, parsed_lines + 1))
      else (case line of
          [] \<Rightarrow> chunk_loop line_number rest
                 (chunk\<lparr>old_lines := old_lines chunk @ [[]], new_lines := new_lines chunk @ [[]]\<rparr>)
                 (parsed_lines + 1)
        | c # text \<Rightarrow>
            if c = CHR '' '' then
              chunk_loop line_number rest
                (chunk\<lparr>old_lines := old_lines chunk @ [text], new_lines := new_lines chunk @ [text]\<rparr>)
                (parsed_lines + 1)
            else if c = CHR ''+'' then
              chunk_loop line_number rest
                (chunk\<lparr>new_lines := new_lines chunk @ [text]\<rparr>) (parsed_lines + 1)
            else if c = CHR ''-'' then
              chunk_loop line_number rest
                (chunk\<lparr>old_lines := old_lines chunk @ [text]\<rparr>) (parsed_lines + 1)
            else if parsed_lines = 0 then
              Err (InvalidHunkError (msg_unexpected line) (line_number + 1))
            else Ok (chunk, parsed_lines)))"

definition msg_expected_context :: "string \<Rightarrow> string" where
  "msg_expected_context l =
     ''Expected update hunk to start with a @@ context marker, got: '' @ quoted l"

definition parse_update_file_chunk :: "string list \<Rightarrow> nat \<Rightarrow> bool \<Rightarrow>
    (parse_error, update_file_chunk \<times> nat) result" where
  "parse_update_file_chunk lines line_number allow_missing_context =
     (case lines of
        [] \<Rightarrow> Err (InvalidHunkError msg_no_lines line_number)
      | first # _ \<Rightarrow>
         (case (if first = EMPTY_CHANGE_CONTEXT_MARKER then Ok (None, 1)
                else (case strip_prefix CHANGE_CONTEXT_MARKER first of
                        Some ctx \<Rightarrow> Ok (Some ctx, 1)
                      | None \<Rightarrow>
                          if \<not> allow_missing_context
                          then Err (InvalidHunkError (msg_expected_context first) line_number)
                          else Ok (None, 0))) of
            Err e \<Rightarrow> Err e
          | Ok (ctx, start_index) \<Rightarrow>
              if length lines \<le> start_index then Err (InvalidHunkError msg_no_lines (line_number + 1))
              else (case chunk_loop line_number (drop start_index lines) (empty_chunk ctx) 0 of
                      Err e \<Rightarrow> Err e
                    | Ok (chunk, parsed_lines) \<Rightarrow> Ok (chunk, parsed_lines + start_index))))"

text \<open>A chunk takes at least one line and never more than there are.\<close>

lemma chunk_loop_bounds:
  "chunk_loop ln lines ch p = Ok (ch', q) \<Longrightarrow> p \<le> q \<and> q \<le> p + length lines \<and> (0 < p \<or> lines \<noteq> [] \<longrightarrow> 0 < q)"
proof (induction lines arbitrary: ch p)
  case (Cons l ls)
  show ?case
    using Cons.prems by (auto split: if_splits list.splits dest!: Cons.IH)
qed simp

lemma parse_update_file_chunk_bounds:
  "parse_update_file_chunk lines ln am = Ok (ch, n) \<Longrightarrow> 0 < n \<and> n \<le> length lines"
  by (auto simp: parse_update_file_chunk_def split: list.splits if_splits option.splits sum.splits
      dest!: chunk_loop_bounds)

text \<open>The loop of an update hunk over its chunks: remaining lines, lines read, chunks so far.\<close>

function update_loop :: "nat \<Rightarrow> bool \<Rightarrow> string list \<Rightarrow> nat \<Rightarrow> update_file_chunk list \<Rightarrow>
    (update_file_chunk list \<times> nat) parsed" where
  "update_loop line_number allow_incomplete [] parsed_lines chunks = Some (Ok (chunks, parsed_lines))"
| "update_loop line_number allow_incomplete (line # rest) parsed_lines chunks =
     (if trim line = [] then
        update_loop line_number allow_incomplete rest (parsed_lines + 1) chunks
      else if prefix ''*'' line then Some (Ok (chunks, parsed_lines))
      else if allow_incomplete \<and> line = ''@'' then Some (Ok (chunks, parsed_lines))
      else
        (case parse_update_file_chunk (line # rest) (line_number + parsed_lines) (chunks = []) of
           Ok (chunk, chunk_lines) \<Rightarrow>
             (case slice_from (line # rest) chunk_lines of
                None \<Rightarrow> None
              | Some remaining \<Rightarrow>
                  update_loop line_number allow_incomplete remaining (parsed_lines + chunk_lines) (chunks @ [chunk]))
         | Err (InvalidHunkError m n) \<Rightarrow>
             if allow_incomplete \<and> chunks \<noteq> [] then Some (Ok (chunks, parsed_lines))
             else Some (Err (InvalidHunkError m n))
         | Err (InvalidPatchError m) \<Rightarrow> Some (Err (InvalidPatchError m))))"
  by pat_completeness auto
termination
  by (relation "measure (\<lambda>(_, _, rem, _, _). length rem)")
    (auto simp: slice_from_def split: if_splits dest!: parse_update_file_chunk_bounds)

declare update_loop.simps(2) [simp del]

text \<open>The added lines of an add hunk: how far they go and the contents they make.\<close>

fun add_loop :: "string list \<Rightarrow> string \<Rightarrow> nat \<Rightarrow> string \<times> nat" where
  "add_loop [] contents parsed_lines = (contents, parsed_lines)"
| "add_loop (add_line # rest) contents parsed_lines =
     (case strip_prefix ''+'' add_line of
        Some line_to_add \<Rightarrow> add_loop rest (contents @ line_to_add @ [nl]) (parsed_lines + 1)
      | None \<Rightarrow> (contents, parsed_lines))"

definition msg_empty_update :: "string \<Rightarrow> string" where
  "msg_empty_update path = ''Update file hunk for path '' @ quoted path @ '' is empty''"

definition msg_bad_header :: "string \<Rightarrow> string" where
  "msg_bad_header l = quoted l @ '' is not a valid hunk header. Valid hunk headers: '' @
     quoted ''*** Add File: {path}'' @ '', '' @ quoted ''*** Delete File: {path}'' @ '', '' @
     quoted ''*** Update File: {path}''"

definition parse_one_hunk :: "string list \<Rightarrow> nat \<Rightarrow> bool \<Rightarrow> (hunk \<times> nat) parsed" where
  "parse_one_hunk lines line_number allow_incomplete =
     (case lines of
        [] \<Rightarrow> None
      | line0 # rest \<Rightarrow>
         (let first_line = trim line0 in
          case strip_prefix ADD_FILE_MARKER first_line of
            Some path \<Rightarrow> (let (contents, parsed_lines) = add_loop rest [] 1
                          in Some (Ok (AddFile path contents, parsed_lines)))
          | None \<Rightarrow>
         (case strip_prefix DELETE_FILE_MARKER first_line of
            Some path \<Rightarrow> Some (Ok (DeleteFile path, 1))
          | None \<Rightarrow>
         (case strip_prefix UPDATE_FILE_MARKER first_line of
            Some path \<Rightarrow>
              (let move_path = (case rest of [] \<Rightarrow> None | x # _ \<Rightarrow> strip_prefix MOVE_TO_MARKER x);
                   (remaining, parsed_lines) = (if move_path = None then (rest, 1) else (tl rest, 2)) in
               case update_loop line_number allow_incomplete remaining parsed_lines [] of
                 None \<Rightarrow> None
               | Some (Err e) \<Rightarrow> Some (Err e)
               | Some (Ok (chunks, parsed_lines)) \<Rightarrow>
                   if chunks = [] then Some (Err (InvalidHunkError (msg_empty_update path) line_number))
                   else Some (Ok (UpdateFile path move_path chunks, parsed_lines)))
          | None \<Rightarrow> Some (Err (InvalidHunkError (msg_bad_header first_line) line_number))))))"

text \<open>Every loop consumes at least its header line and stays within the input.\<close>

lemma update_loop_total: "update_loop ln ai rem p cs \<noteq> None"
proof (induction ln ai rem p cs rule: update_loop.induct)
  case (2 ln ai line rest p cs)
  show ?case
    using 2 by (subst update_loop.simps)
      (auto simp: slice_from_def split: sum.splits parse_error.splits prod.splits
        dest!: parse_update_file_chunk_bounds)
qed simp

lemma update_loop_bounds:
  "update_loop ln ai rem p cs = Some (Ok (cs', q)) \<Longrightarrow> p \<le> q \<and> q \<le> p + length rem"
proof (induction ln ai rem p cs rule: update_loop.induct)
  case (2 ln ai line rest p cs)
  note eq = update_loop.simps(2) [of ln ai line rest p cs]
  consider (blank) "trim line = []"
    | (stop) "trim line \<noteq> []" "prefix ''*'' line \<or> ai \<and> line = ''@''"
    | (chunk) "trim line \<noteq> []" "\<not> prefix ''*'' line" "\<not> (ai \<and> line = ''@'')" by blast
  then show ?case
  proof cases
    case blank
    with 2(1) 2(3) eq show ?thesis by fastforce
  next
    case stop
    with 2(3) eq show ?thesis by (auto split: if_splits)
  next
    case chunk
    show ?thesis
    proof (cases "parse_update_file_chunk (line # rest) (ln + p) (cs = [])")
      case (Inl e)
      with chunk 2(3) eq show ?thesis by (auto split: parse_error.splits if_splits)
    next
      case (Inr r)
      obtain c n where r: "r = (c, n)" by (cases r)
      then have n: "0 < n" "n \<le> Suc (length rest)"
        using Inr parse_update_file_chunk_bounds by fastforce+
      then have "update_loop ln ai (drop n (line # rest)) (p + n) (cs @ [c]) = Some (Ok (cs', q))"
        using chunk 2(3) eq Inr r by (auto split: if_splits)
      from 2(2) [OF chunk Inr r [symmetric] _ this] n show ?thesis by simp
    qed
  qed
qed simp

lemma add_loop_bounds: "add_loop ls c p = (c', q) \<Longrightarrow> p \<le> q \<and> q \<le> p + length ls"
  by (induction ls arbitrary: c p) (fastforce split: option.splits)+

lemma parse_one_hunk_total: "lines \<noteq> [] \<Longrightarrow> parse_one_hunk lines ln ai \<noteq> None"
  by (auto simp: parse_one_hunk_def Let_def update_loop_total [THEN not_None_eq [THEN iffD1]]
      split: list.splits option.splits prod.splits sum.splits dest: update_loop_total [THEN notE])

lemma parse_one_hunk_bounds:
  assumes "parse_one_hunk lines ln ai = Some (Ok (h, n))"
  shows "0 < n \<and> n \<le> length lines"
  using assms
  by (auto simp: parse_one_hunk_def Let_def strip_prefix_None strip_prefix_Some
      split: list.splits option.splits prod.splits sum.splits if_splits
      dest!: add_loop_bounds update_loop_bounds)

section \<open>The whole patch\<close>

function hunks_loop :: "bool \<Rightarrow> string list \<Rightarrow> nat \<Rightarrow> hunk list \<Rightarrow> hunk list parsed" where
  "hunks_loop allow_incomplete remaining_lines line_number hs =
     (if remaining_lines = [] then Some (Ok hs)
      else (case parse_one_hunk remaining_lines line_number allow_incomplete of
          None \<Rightarrow> None
        | Some (Err e) \<Rightarrow> Some (Err e)
        | Some (Ok (h, hunk_lines)) \<Rightarrow>
            (case slice_from remaining_lines hunk_lines of
               None \<Rightarrow> None
             | Some rest \<Rightarrow> hunks_loop allow_incomplete rest (line_number + hunk_lines) (hs @ [h]))))"
  by pat_completeness auto
termination
  by (relation "measure (\<lambda>(_, rem, _, _). length rem)")
    (auto simp: slice_from_def split: if_splits dest!: parse_one_hunk_bounds)

declare hunks_loop.simps [simp del]

definition parse_patch_text :: "string \<Rightarrow> parse_mode \<Rightarrow> apply_patch_args parsed" where
  "parse_patch_text text mode =
     (let lines = str_lines (trim text) in
      case (case mode of
              Strict \<Rightarrow> check_patch_boundaries_strict lines
            | Lenient \<Rightarrow> check_patch_boundaries_lenient lines
            | Streaming \<Rightarrow> check_patch_boundaries_streaming lines) of
        None \<Rightarrow> None
      | Some (Err e) \<Rightarrow> Some (Err e)
      | Some (Ok (patch_lines, hunk_lines)) \<Rightarrow>
          (case hunks_loop (mode = Streaming) hunk_lines 2 [] of
             None \<Rightarrow> None
           | Some (Err e) \<Rightarrow> Some (Err e)
           | Some (Ok hs) \<Rightarrow> Some (Ok \<lparr>patch = join [nl] patch_lines, hunks = hs, workdir = None\<rparr>)))"

definition parse_patch :: "string \<Rightarrow> apply_patch_args parsed" where
  "parse_patch text = parse_patch_text text (if PARSE_IN_STRICT_MODE then Strict else Lenient)"

definition parse_patch_streaming :: "string \<Rightarrow> apply_patch_args parsed" where
  "parse_patch_streaming text = parse_patch_text text Streaming"

end
