(* ===== verification/Seek_Sequence.thy ===== *)
theory Seek_Sequence
  imports Rust_Prelude
begin

text \<open>
  \<open>codex-rs/apply-patch/src/seek_sequence.rs\<close>: where a block of lines occurs in a file. Four passes
  of decreasing strictness scan the same range of start positions; they differ only in the function
  applied to both lines before they are compared, which is the interface \<open>scan_pass\<close> below.
\<close>

section \<open>The passes\<close>

text \<open>\<open>normalise\<close>: trim, then map typographic dashes, quotes and spaces to ASCII.\<close>

definition normalise_char :: "string \<Rightarrow> string" where
  "normalise_char ch =
    (if ch \<in> {[CHR 0xE2, CHR 0x80, CHR 0x90], [CHR 0xE2, CHR 0x80, CHR 0x91], [CHR 0xE2, CHR 0x80, CHR 0x92],
              [CHR 0xE2, CHR 0x80, CHR 0x93], [CHR 0xE2, CHR 0x80, CHR 0x94], [CHR 0xE2, CHR 0x80, CHR 0x95],
              [CHR 0xE2, CHR 0x88, CHR 0x92]} then ''-''
     else if ch \<in> {[CHR 0xE2, CHR 0x80, CHR 0x98], [CHR 0xE2, CHR 0x80, CHR 0x99],
                   [CHR 0xE2, CHR 0x80, CHR 0x9A], [CHR 0xE2, CHR 0x80, CHR 0x9B]} then [CHR 0x27]
     else if ch \<in> {[CHR 0xE2, CHR 0x80, CHR 0x9C], [CHR 0xE2, CHR 0x80, CHR 0x9D],
                   [CHR 0xE2, CHR 0x80, CHR 0x9E], [CHR 0xE2, CHR 0x80, CHR 0x9F]} then [CHR 0x22]
     else if ch \<in> {[CHR 0xC2, CHR 0xA0], [CHR 0xE2, CHR 0x80, CHR 0x82], [CHR 0xE2, CHR 0x80, CHR 0x83],
                   [CHR 0xE2, CHR 0x80, CHR 0x84], [CHR 0xE2, CHR 0x80, CHR 0x85], [CHR 0xE2, CHR 0x80, CHR 0x86],
                   [CHR 0xE2, CHR 0x80, CHR 0x87], [CHR 0xE2, CHR 0x80, CHR 0x88], [CHR 0xE2, CHR 0x80, CHR 0x89],
                   [CHR 0xE2, CHR 0x80, CHR 0x8A], [CHR 0xE2, CHR 0x80, CHR 0xAF], [CHR 0xE2, CHR 0x81, CHR 0x9F],
                   [CHR 0xE3, CHR 0x80, CHR 0x80]} then '' ''
     else ch)"

definition normalise :: "string \<Rightarrow> string" where
  "normalise s = concat (map normalise_char (chars (trim s)))"

text \<open>The inner loop of a pass: every pattern line agrees with the file line at its offset.\<close>

definition window_matches :: "(string \<Rightarrow> string) \<Rightarrow> string list \<Rightarrow> string list \<Rightarrow> nat \<Rightarrow> bool" where
  "window_matches f lines pattern i \<longleftrightarrow>
     list_all2 (\<lambda>l p. f l = f p) (take (length pattern) (drop i lines)) pattern"

text \<open>The outer loop \<open>for i in search_start..=lines.len().saturating_sub(pattern.len())\<close>.\<close>

definition seek_pass :: "(string \<Rightarrow> string) \<Rightarrow> string list \<Rightarrow> string list \<Rightarrow> nat \<Rightarrow> nat option" where
  "seek_pass f lines pattern search_start =
     find (window_matches f lines pattern) [search_start..<Suc (length lines - length pattern)]"

definition seek_sequence :: "string list \<Rightarrow> string list \<Rightarrow> nat \<Rightarrow> bool \<Rightarrow> nat option" where
  "seek_sequence lines pattern start eof =
     (if pattern = [] then Some start
      else if length pattern > length lines then None
      else
        (let search_start = (if eof \<and> length lines \<ge> length pattern
                             then length lines - length pattern else start) in
         case seek_pass id lines pattern search_start of Some i \<Rightarrow> Some i | None \<Rightarrow>
         (case seek_pass trim_end lines pattern search_start of Some i \<Rightarrow> Some i | None \<Rightarrow>
         (case seek_pass trim lines pattern search_start of Some i \<Rightarrow> Some i | None \<Rightarrow>
          seek_pass normalise lines pattern search_start))))"

section \<open>One pass, whatever the comparison\<close>

locale scan_pass =
  fixes f :: "string \<Rightarrow> string" and pass :: "string list \<Rightarrow> string list \<Rightarrow> nat \<Rightarrow> nat option"
  assumes pass_Some: "pass lines pattern s = Some i \<longleftrightarrow>
      s \<le> i \<and> i \<le> length lines - length pattern \<and> window_matches f lines pattern i \<and>
      (\<forall>j. s \<le> j \<and> j < i \<longrightarrow> \<not> window_matches f lines pattern j)"
    and pass_None: "pass lines pattern s = None \<longleftrightarrow>
      (\<forall>j. s \<le> j \<and> j \<le> length lines - length pattern \<longrightarrow> \<not> window_matches f lines pattern j)"
begin

lemma pass_in_range:
  "pass lines pattern s = Some i \<Longrightarrow> length pattern \<le> length lines \<Longrightarrow>
     s \<le> i \<and> i + length pattern \<le> length lines"
  by (auto simp: pass_Some)

lemma pass_finds:
  "window_matches f lines pattern i \<Longrightarrow> s \<le> i \<Longrightarrow> i \<le> length lines - length pattern \<Longrightarrow>
     \<exists>j \<le> i. pass lines pattern s = Some j"
  by (cases "pass lines pattern s") (auto simp: pass_None pass_Some intro: leI)

end

text \<open>Every pass of the code is such a pass, with its own comparison.\<close>

interpretation pass: scan_pass f "seek_pass f" for f
  by unfold_locales (simp_all add: seek_pass_def find_upt_Some find_upt_None less_Suc_eq_le del: upt_Suc)

section \<open>What the search returns\<close>

text \<open>The comparisons in the order the code tries them.\<close>

definition strictness :: "(string \<Rightarrow> string) list" where
  "strictness = [id, trim_end, trim, normalise]"

text \<open>The positions a search may start at.\<close>

definition candidates :: "string list \<Rightarrow> string list \<Rightarrow> nat \<Rightarrow> bool \<Rightarrow> nat set" where
  "candidates lines pattern start eof =
     {i. (if eof then i = length lines - length pattern else start \<le> i) \<and> i + length pattern \<le> length lines}"

text \<open>
  What the search promises: the first candidate that matches under the strictest comparison that
  matches anywhere.
\<close>

definition best_match :: "string list \<Rightarrow> string list \<Rightarrow> nat \<Rightarrow> bool \<Rightarrow> nat \<Rightarrow> bool" where
  "best_match lines pattern start eof i \<longleftrightarrow>
     (\<exists>k < length strictness.
        i \<in> candidates lines pattern start eof \<and> window_matches (strictness ! k) lines pattern i \<and>
        (\<forall>j \<in> candidates lines pattern start eof. j < i \<longrightarrow> \<not> window_matches (strictness ! k) lines pattern j) \<and>
        (\<forall>k' < k. \<forall>j \<in> candidates lines pattern start eof.
            \<not> window_matches (strictness ! k') lines pattern j))"

lemma window_matches_weaken:
  assumes "window_matches f lines pattern i" "\<And>x y. f x = f y \<Longrightarrow> g x = g y"
  shows "window_matches g lines pattern i"
  using assms(1) unfolding window_matches_def by (rule list_all2_mono) (rule assms(2))

lemma normalise_in_strictness: "normalise \<in> set strictness"
  by (simp add: strictness_def)

lemma window_matches_normalise:
  "f \<in> set strictness \<Longrightarrow> window_matches f lines pattern i \<Longrightarrow> window_matches normalise lines pattern i"
  by (erule window_matches_weaken) (auto simp: strictness_def normalise_def trim_def)

lemma seek_pass_candidates:
  assumes "length pattern \<le> length lines"
    and "s = (if eof \<and> length lines \<ge> length pattern then length lines - length pattern else start)"
  shows "seek_pass f lines pattern s = Some i \<longleftrightarrow>
           i \<in> candidates lines pattern start eof \<and> window_matches f lines pattern i \<and>
           (\<forall>j \<in> candidates lines pattern start eof. j < i \<longrightarrow> \<not> window_matches f lines pattern j)"
    and "seek_pass f lines pattern s = None \<longleftrightarrow>
           (\<forall>j \<in> candidates lines pattern start eof. \<not> window_matches f lines pattern j)"
  using assms by (auto simp: pass.pass_Some pass.pass_None candidates_def)

lemma strictness_less:
  "(\<exists>k < length strictness. P k) \<longleftrightarrow> P 0 \<or> P 1 \<or> P 2 \<or> P (3 :: nat)"
  by (auto simp: strictness_def eval_nat_numeral less_Suc_eq)

lemma seek_sequence_best_match:
  assumes "pattern \<noteq> []"
  shows "seek_sequence lines pattern start eof = Some i \<longleftrightarrow> best_match lines pattern start eof i"
proof (cases "length pattern \<le> length lines")
  case False
  then show ?thesis using assms by (auto simp: seek_sequence_def best_match_def candidates_def)
next
  case True
  let ?s = "if eof \<and> length lines \<ge> length pattern then length lines - length pattern else start"
  note cand = seek_pass_candidates [OF True refl, of _ eof start]
  have "seek_sequence lines pattern start eof = Some i \<longleftrightarrow>
      seek_pass id lines pattern ?s = Some i \<or>
      seek_pass id lines pattern ?s = None \<and> (seek_pass trim_end lines pattern ?s = Some i \<or>
      seek_pass trim_end lines pattern ?s = None \<and> (seek_pass trim lines pattern ?s = Some i \<or>
      seek_pass trim lines pattern ?s = None \<and> seek_pass normalise lines pattern ?s = Some i))"
    using True assms by (simp add: seek_sequence_def Let_def split: option.splits)
  also have "\<dots> \<longleftrightarrow> best_match lines pattern start eof i"
    unfolding cand best_match_def strictness_less
    by (simp add: strictness_def eval_nat_numeral less_Suc_eq) blast
  finally show ?thesis .
qed

lemma seek_sequence_none:
  assumes "pattern \<noteq> []"
  shows "seek_sequence lines pattern start eof = None \<longleftrightarrow>
    (\<forall>i \<in> candidates lines pattern start eof. \<not> window_matches normalise lines pattern i)"
proof (cases "length pattern \<le> length lines")
  case False
  then show ?thesis using assms by (auto simp: seek_sequence_def candidates_def)
next
  case True
  let ?s = "if eof \<and> length lines \<ge> length pattern then length lines - length pattern else start"
  note cand = seek_pass_candidates(2) [OF True refl, of _ eof start]
  have "seek_sequence lines pattern start eof = None \<longleftrightarrow>
      (\<forall>f \<in> set strictness. seek_pass f lines pattern ?s = None)"
    using True assms by (simp add: seek_sequence_def Let_def strictness_def split: option.splits)
  also have "\<dots> \<longleftrightarrow> (\<forall>i \<in> candidates lines pattern start eof. \<not> window_matches normalise lines pattern i)"
    unfolding cand using window_matches_normalise normalise_in_strictness by blast
  finally show ?thesis .
qed

lemma best_match_candidate: "best_match lines pattern start eof i \<Longrightarrow> i \<in> candidates lines pattern start eof"
  by (auto simp: best_match_def)

lemma seek_sequence_bounds:
  assumes "seek_sequence lines pattern start eof = Some i" "start \<le> length lines"
  shows "i + length pattern \<le> length lines \<and> (\<not> eof \<longrightarrow> start \<le> i)"
proof (cases "pattern = []")
  case True
  with assms show ?thesis by (simp add: seek_sequence_def)
next
  case False
  with assms have "i \<in> candidates lines pattern start eof"
    by (simp add: seek_sequence_best_match best_match_candidate)
  then show ?thesis by (simp add: candidates_def)
qed

lemma seek_sequence_matches:
  assumes "seek_sequence lines pattern start eof = Some i"
  shows "window_matches normalise lines pattern i"
proof (cases "pattern = []")
  case False
  with assms obtain k where "k < length strictness" "window_matches (strictness ! k) lines pattern i"
    by (auto simp: seek_sequence_best_match best_match_def)
  then show ?thesis by (auto intro: window_matches_normalise nth_mem)
qed (simp add: window_matches_def)

lemma seek_sequence_exact:
  assumes "pattern \<noteq> []" "i \<in> candidates lines pattern start eof" "window_matches id lines pattern i"
    and "\<forall>j \<in> candidates lines pattern start eof. j < i \<longrightarrow> \<not> window_matches id lines pattern j"
  shows "seek_sequence lines pattern start eof = Some i"
  using assms unfolding seek_sequence_best_match [OF assms(1)] best_match_def strictness_less
  by (simp add: strictness_def)

lemma window_matches_id:
  "i + length pattern \<le> length lines \<Longrightarrow>
     window_matches id lines pattern i \<longleftrightarrow> take (length pattern) (drop i lines) = pattern"
  by (auto simp: window_matches_def list_all2_eq [symmetric])

text \<open>
  A search succeeds exactly when some admissible position matches under
  the loosest of the four comparisons (verbatim, trailing white space, white space on both sides,
  typographic variants); it then returns the first position that matches under the strictest
  comparison that matches anywhere.
\<close>

lemma seek_sequence_correct:
  assumes "pattern \<noteq> []"
  shows "case seek_sequence lines pattern start eof of
      None \<Rightarrow> (\<forall>i \<in> candidates lines pattern start eof. \<not> window_matches normalise lines pattern i)
    | Some i \<Rightarrow> best_match lines pattern start eof i"
  using seek_sequence_best_match [OF assms] seek_sequence_none [OF assms]
  by (simp split: option.split)

lemma seek_sequence_correct_witness:
  "seek_sequence [''x'', ''a '', '' a''] [''a''] 0 False = Some 1 \<and>
   best_match [''x'', ''a '', '' a''] [''a''] 0 False 1"
proof -
  have "seek_sequence [''x'', ''a '', '' a''] [''a''] 0 False = Some 1" by code_simp
  with seek_sequence_correct [of "[''a'']" "[''x'', ''a '', '' a'']" 0 False] show ?thesis by simp
qed

text \<open>
  A search with the end-of-file flag looks at the last lines of the file and
  nowhere else: a match elsewhere, even at \<open>start\<close>, is not returned.
\<close>

lemma seek_sequence_eof:
  assumes "pattern \<noteq> []"
  shows "seek_sequence lines pattern start True =
     (if length pattern \<le> length lines \<and> window_matches normalise lines pattern (length lines - length pattern)
      then Some (length lines - length pattern) else None)"
proof (cases "seek_sequence lines pattern start True")
  case None
  then show ?thesis using seek_sequence_none [OF assms, of lines start True] by (auto simp: candidates_def)
next
  case (Some i)
  then have "i \<in> candidates lines pattern start True"
    using seek_sequence_best_match [OF assms] best_match_candidate by blast
  with Some seek_sequence_matches [OF Some] show ?thesis by (auto simp: candidates_def)
qed

end
