(* ===== verification/Patch_Apply.thy ===== *)
theory Patch_Apply
  imports Patch_Parser Seek_Sequence "HOL-Library.Multiset"
begin

text \<open>
  \<open>codex-rs/apply-patch/src/lib.rs\<close>, the pure half: from the lines of a file and the chunks of an
  update hunk to the new contents. \<open>compute_replacements\<close> locates every chunk, \<open>apply_replacements\<close>
  edits the lines from the back; an insertion past the end would panic and is \<open>None\<close>.
\<close>

section \<open>Errors\<close>

datatype io_error_kind = NotFound | AlreadyExists | InvalidInput | InvalidData | OtherKind

record io_error =
  err_kind :: io_error_kind
  err_message :: string

record io_error_context =
  err_context :: string
  err_source :: io_error

datatype apply_patch_error =
    ParseError parse_error
  | IoError io_error_context
  | ComputeReplacements string
  | ImplicitInvocation

section \<open>Locating the chunks\<close>

type_synonym replacement = "nat \<times> nat \<times> string list"

definition msg_no_context :: "string \<Rightarrow> string \<Rightarrow> string" where
  "msg_no_context ctx path = ''Failed to find context '' @ quoted ctx @ '' in '' @ path"

definition msg_no_lines_found :: "string \<Rightarrow> string list \<Rightarrow> string" where
  "msg_no_lines_found path old = ''Failed to find expected lines in '' @ path @ '':'' @ [nl] @ join [nl] old"

text \<open>Where lines are added when a chunk names no old lines.\<close>

definition insertion_index :: "string list \<Rightarrow> nat" where
  "insertion_index original_lines =
     (if last_is_empty original_lines then length original_lines - 1 else length original_lines)"

text \<open>
  The search for the old lines of a chunk: as they are, and without a trailing empty line when that
  fails. The result is the position, the pattern found and the new lines to put there.
\<close>

definition locate_chunk :: "string list \<Rightarrow> update_file_chunk \<Rightarrow> nat \<Rightarrow>
    (nat \<times> string list \<times> string list) option" where
  "locate_chunk original_lines chunk line_index =
     (let pattern = old_lines chunk; new_slice = new_lines chunk in
      case seek_sequence original_lines pattern line_index (is_end_of_file chunk) of
        Some i \<Rightarrow> Some (i, pattern, new_slice)
      | None \<Rightarrow>
          if last_is_empty pattern then
            (let pattern = butlast pattern;
                 new_slice = (if last_is_empty new_slice then butlast new_slice else new_slice) in
             map_option (\<lambda>i. (i, pattern, new_slice))
               (seek_sequence original_lines pattern line_index (is_end_of_file chunk)))
          else None)"

fun compute_loop :: "string list \<Rightarrow> string \<Rightarrow> update_file_chunk list \<Rightarrow> nat \<Rightarrow>
    (apply_patch_error, replacement list) result" where
  "compute_loop original_lines path [] line_index = Ok []"
| "compute_loop original_lines path (chunk # chunks) line_index =
     (case (case change_context chunk of
              None \<Rightarrow> Ok line_index
            | Some ctx_line \<Rightarrow>
                (case seek_sequence original_lines [ctx_line] line_index False of
                   Some idx \<Rightarrow> Ok (idx + 1)
                 | None \<Rightarrow> Err (ComputeReplacements (msg_no_context ctx_line path)))) of
        Err e \<Rightarrow> Err e
      | Ok line_index \<Rightarrow>
          if old_lines chunk = [] then
            map_sum id ((#) (insertion_index original_lines, 0, new_lines chunk))
              (compute_loop original_lines path chunks line_index)
          else
            (case locate_chunk original_lines chunk line_index of
               None \<Rightarrow> Err (ComputeReplacements (msg_no_lines_found path (old_lines chunk)))
             | Some (start_idx, pattern, new_slice) \<Rightarrow>
                 map_sum id ((#) (start_idx, length pattern, new_slice))
                   (compute_loop original_lines path chunks (start_idx + length pattern))))"

definition compute_replacements :: "string list \<Rightarrow> string \<Rightarrow> update_file_chunk list \<Rightarrow>
    (apply_patch_error, replacement list) result" where
  "compute_replacements original_lines path chunks =
     map_sum id (sort_key fst) (compute_loop original_lines path chunks 0)"

section \<open>Editing the lines\<close>

text \<open>\<open>for _ in 0..old_len\<close>: remove at the same index while there is something to remove.\<close>

fun remove_loop :: "nat \<Rightarrow> nat \<Rightarrow> string list \<Rightarrow> string list" where
  "remove_loop start_idx 0 lines = lines"
| "remove_loop start_idx (Suc n) lines =
     remove_loop start_idx n
       (if start_idx < length lines then take start_idx lines @ drop (Suc start_idx) lines else lines)"

fun insert_loop :: "nat \<Rightarrow> string list \<Rightarrow> string list \<Rightarrow> string list option" where
  "insert_loop idx [] lines = Some lines"
| "insert_loop idx (new_line # rest) lines =
     (case vec_insert lines idx new_line of None \<Rightarrow> None | Some lines' \<Rightarrow> insert_loop (idx + 1) rest lines')"

fun apply_loop :: "replacement list \<Rightarrow> string list \<Rightarrow> string list option" where
  "apply_loop [] lines = Some lines"
| "apply_loop ((start_idx, old_len, new_segment) # rs) lines =
     (case insert_loop start_idx new_segment (remove_loop start_idx old_len lines) of
        None \<Rightarrow> None
      | Some lines' \<Rightarrow> apply_loop rs lines')"

definition apply_replacements :: "string list \<Rightarrow> replacement list \<Rightarrow> string list option" where
  "apply_replacements lines replacements = apply_loop (rev replacements) lines"

section \<open>New contents\<close>

text \<open>The lines of a file, without the empty one after a final newline.\<close>

definition file_lines :: "string \<Rightarrow> string list" where
  "file_lines contents =
     (let ls = split_on nl contents in if last_is_empty ls then butlast ls else ls)"

definition end_with_newline :: "string list \<Rightarrow> string list" where
  "end_with_newline ls = (if last_is_empty ls then ls else ls @ [[]])"

record applied_patch =
  original_contents :: string
  new_contents :: string

text \<open>\<open>derive_new_contents_from_chunks\<close> after the file was read.\<close>

definition derive_from_contents :: "string \<Rightarrow> string \<Rightarrow> update_file_chunk list \<Rightarrow>
    (apply_patch_error, applied_patch) result option" where
  "derive_from_contents path contents chunks =
     (let ls = file_lines contents in
      case compute_replacements ls path chunks of
        Err e \<Rightarrow> Some (Err e)
      | Ok replacements \<Rightarrow>
          (case apply_replacements ls replacements of
             None \<Rightarrow> None
           | Some ls' \<Rightarrow> Some (Ok \<lparr>original_contents = contents, new_contents = join [nl] (end_with_newline ls')\<rparr>)))"

section \<open>The edit as a splice\<close>

text \<open>
  What a list of replacements means: the segments in order, with the untouched lines between them.
  \<open>pos\<close> is the number of lines already behind us.
\<close>

fun splice :: "nat \<Rightarrow> replacement list \<Rightarrow> string list \<Rightarrow> string list" where
  "splice pos [] rest = rest"
| "splice pos ((s, n, seg) # rs) rest =
     take (s - pos) rest @ seg @ splice (s + n) rs (drop (s + n - pos) rest)"

fun disjoint_from :: "nat \<Rightarrow> nat \<Rightarrow> replacement list \<Rightarrow> bool" where
  "disjoint_from len pos [] \<longleftrightarrow> pos \<le> len"
| "disjoint_from len pos ((s, n, seg) # rs) \<longleftrightarrow> pos \<le> s \<and> disjoint_from len (s + n) rs"

lemma remove_loop_eq: "remove_loop s n ls = take s ls @ drop (s + n) ls"
proof (induction n arbitrary: ls)
  case (Suc n)
  show ?case
  proof (cases "s < length ls")
    case True
    then have "remove_loop s (Suc n) ls = take s (take s ls @ drop (Suc s) ls) @ drop (s + n) (take s ls @ drop (Suc s) ls)"
      by (simp add: Suc.IH)
    with True show ?thesis by (simp add: add.commute)
  qed (simp add: Suc.IH)
qed simp

lemma insert_loop_eq: "idx \<le> length ls \<Longrightarrow> insert_loop idx seg ls = Some (take idx ls @ seg @ drop idx ls)"
proof (induction seg arbitrary: idx ls)
  case (Cons x seg)
  then show ?case by (simp add: vec_insert_def)
qed simp

lemma apply_loop_snoc:
  "apply_loop (rs @ [r]) ls = (case apply_loop rs ls of None \<Rightarrow> None | Some ls' \<Rightarrow> apply_loop [r] ls')"
proof (induction rs arbitrary: ls)
  case Nil
  show ?case by simp
next
  case (Cons r' rs)
  obtain s n seg where "r' = (s, n, seg)" by (cases r')
  then show ?case by (simp add: Cons.IH split: option.splits)
qed

lemma apply_one_eq:
  "s \<le> length ls \<Longrightarrow> apply_loop [(s, n, seg)] ls = Some (take s ls @ seg @ drop (s + n) ls)"
  by (simp add: remove_loop_eq insert_loop_eq)

lemma disjoint_from_le: "disjoint_from len pos rs \<Longrightarrow> pos \<le> len"
  by (induction rs arbitrary: pos) fastforce+

lemma apply_replacements_Cons:
  "apply_replacements ls (r # rs) =
     (case apply_replacements ls rs of None \<Rightarrow> None | Some ls' \<Rightarrow> apply_loop [r] ls')"
  by (simp only: apply_replacements_def rev.simps apply_loop_snoc)

text \<open>The edit from the back leaves everything before the first replacement in place.\<close>

lemma apply_replacements_splice:
  "disjoint_from (length ls) pos rs \<Longrightarrow>
     apply_replacements ls rs = Some (take pos ls @ splice pos rs (drop pos ls))"
proof (induction rs arbitrary: pos)
  case Nil
  then show ?case by (simp add: apply_replacements_def)
next
  case (Cons r rs)
  obtain s n seg where r: "r = (s, n, seg)" by (cases r)
  let ?rest = "splice (s + n) rs (drop (s + n) ls)"
  from Cons.prems r have pos: "pos \<le> s" and dis: "disjoint_from (length ls) (s + n) rs" by auto
  have len: "s + n \<le> length ls" using disjoint_from_le [OF dis] .
  have "apply_replacements ls (r # rs) = apply_loop [r] (take (s + n) ls @ ?rest)"
    by (simp add: apply_replacements_Cons Cons.IH [OF dis] del: apply_loop.simps)
  also have "\<dots> = Some (take s ls @ seg @ ?rest)"
    using len apply_one_eq [of s "take (s + n) ls @ ?rest" n seg]
    by (simp add: r min_def del: apply_loop.simps)
  also have "take s ls = take pos ls @ take (s - pos) (drop pos ls)"
    using pos by (metis le_add_diff_inverse take_add)
  finally show ?case using pos by (simp add: r)
qed

lemma map_sum_OkE: "map_sum id f x = Ok y \<Longrightarrow> (\<And>z. x = Ok z \<Longrightarrow> y = f z \<Longrightarrow> thesis) \<Longrightarrow> thesis"
  by (cases x) auto

section \<open>No panic, whatever the chunks\<close>

lemma sorted_apply_no_panic:
  assumes "sorted (map fst rs)" "\<forall>r \<in> set rs. fst r \<le> length ls"
  shows "\<exists>ls'. apply_replacements ls rs = Some ls' \<and> (rs = [] \<longrightarrow> ls' = ls) \<and> (rs \<noteq> [] \<longrightarrow> fst (hd rs) \<le> length ls')"
  using assms
proof (induction rs)
  case Nil
  then show ?case by (simp add: apply_replacements_def)
next
  case (Cons r rs)
  obtain s n seg where r: "r = (s, n, seg)" by (cases r)
  from Cons obtain ls' where ls': "apply_replacements ls rs = Some ls'" "rs = [] \<longrightarrow> ls' = ls"
      "rs \<noteq> [] \<longrightarrow> fst (hd rs) \<le> length ls'"
    by auto
  have "s \<le> length ls'"
    using ls'(2,3) Cons.prems r by (cases rs) auto
  then have "apply_loop [r] ls' = Some (take s ls' @ seg @ drop (s + n) ls')"
    unfolding r by (rule apply_one_eq)
  with ls'(1) r \<open>s \<le> length ls'\<close> show ?case
    by (auto simp: apply_replacements_Cons simp del: apply_loop.simps)
qed

lemma insertion_index_le: "insertion_index ls \<le> length ls"
  by (simp add: insertion_index_def)

text \<open>The old lines and new lines a chunk may stand for once it is located.\<close>

definition reading :: "update_file_chunk \<Rightarrow> string list \<Rightarrow> string list \<Rightarrow> bool" where
  "reading chunk pattern seg \<longleftrightarrow>
     pattern = old_lines chunk \<and> seg = new_lines chunk \<or>
     old_lines chunk = pattern @ [[]] \<and>
       seg = (if last_is_empty (new_lines chunk) then butlast (new_lines chunk) else new_lines chunk)"

lemma last_is_empty_butlast: "last_is_empty xs \<Longrightarrow> xs = butlast xs @ [[]]"
  by (metis append_butlast_last_id last_is_empty_def)

lemma locate_chunk_seek:
  assumes "locate_chunk ls chunk k = Some (i, pattern, seg)"
  shows "seek_sequence ls pattern k (is_end_of_file chunk) = Some i \<and> reading chunk pattern seg"
proof (cases "seek_sequence ls (old_lines chunk) k (is_end_of_file chunk)")
  case None
  with assms have "last_is_empty (old_lines chunk)" "pattern = butlast (old_lines chunk)"
    "seek_sequence ls (butlast (old_lines chunk)) k (is_end_of_file chunk) = Some i"
    "seg = (if last_is_empty (new_lines chunk) then butlast (new_lines chunk) else new_lines chunk)"
    by (auto simp: locate_chunk_def Let_def split: if_splits)
  then show ?thesis using last_is_empty_butlast [of "old_lines chunk"] by (simp add: reading_def)
next
  case (Some j)
  with assms show ?thesis by (simp add: locate_chunk_def Let_def reading_def)
qed

lemma locate_chunk_bounds:
  assumes "locate_chunk ls chunk k = Some (i, pattern, seg)" "k \<le> length ls"
  shows "i + length pattern \<le> length ls" "\<not> is_end_of_file chunk \<Longrightarrow> k \<le> i"
    "window_matches normalise ls pattern i" "reading chunk pattern seg"
proof -
  have seek: "seek_sequence ls pattern k (is_end_of_file chunk) = Some i" "reading chunk pattern seg"
    using locate_chunk_seek [OF assms(1)] by simp_all
  from seek_sequence_bounds [OF seek(1) assms(2)] seek_sequence_matches [OF seek(1)] seek(2)
  show "i + length pattern \<le> length ls" "\<not> is_end_of_file chunk \<Longrightarrow> k \<le> i"
    "window_matches normalise ls pattern i" "reading chunk pattern seg"
    by simp_all
qed

lemma context_index_le:
  assumes "seek_sequence ls [c] k False = Some i" "k \<le> length ls"
  shows "k \<le> i \<and> i + 1 \<le> length ls"
  using seek_sequence_bounds [OF assms] by simp

text \<open>The three ways a chunk of a successful run goes: where the search starts and what it schedules.\<close>

definition context_start :: "string list \<Rightarrow> update_file_chunk \<Rightarrow> nat \<Rightarrow> nat \<Rightarrow> bool" where
  "context_start ls chunk k k' \<longleftrightarrow>
     (case change_context chunk of
        None \<Rightarrow> k' = k
      | Some c \<Rightarrow> \<exists>i. seek_sequence ls [c] k False = Some i \<and> k' = Suc i)"

lemma context_start_bounds:
  "context_start ls chunk k k' \<Longrightarrow> k \<le> length ls \<Longrightarrow> k \<le> k' \<and> k' \<le> length ls"
  by (auto simp: context_start_def split: option.splits dest: context_index_le)

lemma compute_loop_ConsE:
  assumes "compute_loop ls path (chunk # chunks) k = Ok rs"
  obtains (add) k' rs' where "context_start ls chunk k k'" "old_lines chunk = []"
      "compute_loop ls path chunks k' = Ok rs'" "rs = (insertion_index ls, 0, new_lines chunk) # rs'"
  | (replace) k' i pattern seg rs' where "context_start ls chunk k k'" "old_lines chunk \<noteq> []"
      "locate_chunk ls chunk k' = Some (i, pattern, seg)"
      "compute_loop ls path chunks (i + length pattern) = Ok rs'" "rs = (i, length pattern, seg) # rs'"
proof -
  obtain k' where k': "context_start ls chunk k k'"
    using assms by (fastforce simp: context_start_def split: option.splits sum.splits)
  show thesis
  proof (cases "old_lines chunk = []")
    case True
    with assms k' add [OF k'] show ?thesis
      by (auto simp: context_start_def split: option.splits elim!: map_sum_OkE)
  next
    case False
    with assms k' replace [OF k'] show ?thesis
      by (auto simp: context_start_def split: option.splits elim!: map_sum_OkE)
  qed
qed

lemma compute_loop_bounds:
  assumes "compute_loop ls path chunks k = Ok rs" "k \<le> length ls" "r \<in> set rs"
  shows "fst r + fst (snd r) \<le> length ls"
  using assms
proof (induction chunks arbitrary: k rs)
  case (Cons chunk chunks)
  from Cons.prems(1) show ?case
  proof (cases rule: compute_loop_ConsE)
    case (add k' rs')
    with Cons context_start_bounds [OF add(1)] show ?thesis by (auto simp: insertion_index_le)
  next
    case (replace k' i pattern seg rs')
    have "i + length pattern \<le> length ls"
      using locate_chunk_bounds(1) [OF replace(3)] context_start_bounds [OF replace(1)] Cons.prems(2) by simp
    with Cons replace show ?thesis by auto
  qed
qed simp

lemma compute_replacements_bounds:
  assumes "compute_replacements ls path chunks = Ok rs"
  shows "sorted (map fst rs)" "\<forall>r \<in> set rs. fst r \<le> length ls"
proof -
  from assms obtain us where us: "compute_loop ls path chunks 0 = Ok us" "rs = sort_key fst us"
    by (auto simp: compute_replacements_def elim!: map_sum_OkE)
  then show "sorted (map fst rs)" by simp
  show "\<forall>r \<in> set rs. fst r \<le> length ls"
    using compute_loop_bounds [OF us(1)] us(2) by fastforce
qed

text \<open>
  Deriving the new contents of a file never panics, whatever the file and the
  chunks: no removal or insertion is out of range, even for chunks whose places overlap.
\<close>

lemma derive_total: "\<exists>r. derive_from_contents path contents chunks = Some r"
proof (cases "compute_replacements (file_lines contents) path chunks")
  case (Inr rs)
  from sorted_apply_no_panic [OF compute_replacements_bounds [OF Inr]] Inr show ?thesis
    by (auto simp: derive_from_contents_def Let_def)
qed (simp add: derive_from_contents_def Let_def)

section \<open>What a successful edit is\<close>

text \<open>
  The edit the chunks describe, as a relation between the lines still ahead, the chunks still to do
  and the result, which is a body followed by the lines added at the end. Each chunk goes past some
  lines (its context line among them, when it has one), then replaces a window equal to its old
  lines up to white space and typographic variants, or adds its lines at the end.
\<close>

definition passes_context :: "update_file_chunk \<Rightarrow> string list \<Rightarrow> bool" where
  "passes_context chunk pre \<longleftrightarrow>
     (case change_context chunk of None \<Rightarrow> True | Some c \<Rightarrow> \<exists>l \<in> set pre. normalise l = normalise c)"

inductive edit_script :: "string list \<Rightarrow> update_file_chunk list \<Rightarrow> string list \<Rightarrow> string list \<Rightarrow> bool" where
  finish: "edit_script rest [] rest []"
| replace: "passes_context chunk pre \<Longrightarrow> reading chunk pattern seg \<Longrightarrow>
    list_all2 (\<lambda>l p. normalise l = normalise p) win pattern \<Longrightarrow>
    edit_script post chunks body adds \<Longrightarrow>
    edit_script (pre @ win @ post) (chunk # chunks) (pre @ seg @ body) adds"
| append: "passes_context chunk pre \<Longrightarrow> reading chunk [] seg \<Longrightarrow>
    edit_script post chunks body adds \<Longrightarrow>
    edit_script (pre @ post) (chunk # chunks) (pre @ body) (seg @ adds)"

inductive_cases edit_script_NilE: "edit_script ls [] body adds"
inductive_cases edit_script_ConsE: "edit_script ls (chunk # chunks) body adds"

text \<open>Splitting the lines ahead at a later position.\<close>

lemma drop_split: "k \<le> i \<Longrightarrow> drop k xs = take (i - k) (drop k xs) @ drop i xs"
  by (metis add.commute append_take_drop_id drop_drop le_add_diff_inverse2)

lemma drop_split_window:
  "k \<le> i \<Longrightarrow> drop k xs = take (i - k) (drop k xs) @ take n (drop i xs) @ drop (i + n) xs"
  by (metis add.commute append_take_drop_id drop_drop drop_split)

lemma context_start_passes:
  assumes "context_start ls chunk k k'" "k \<le> length ls" "k' \<le> i" "i \<le> length ls"
  shows "passes_context chunk (take (i - k) (drop k ls))"
proof (cases "change_context chunk")
  case None
  then show ?thesis by (simp add: passes_context_def)
next
  case (Some c)
  with assms obtain j where j: "seek_sequence ls [c] k False = Some j" "k' = Suc j"
    by (auto simp: context_start_def)
  have "k \<le> j" "j < length ls" using context_index_le [OF j(1) assms(2)] by simp_all
  moreover have "normalise (ls ! j) = normalise c"
    using seek_sequence_matches [OF j(1)] \<open>j < length ls\<close>
    by (auto simp: window_matches_def take_Suc hd_drop_conv_nth)
  moreover have "ls ! j \<in> set (take (i - k) (drop k ls))"
  proof -
    have "take (i - k) (drop k ls) ! (j - k) = ls ! j"
      using \<open>k \<le> j\<close> \<open>j < length ls\<close> j(2) assms(3) by simp
    moreover have "j - k < length (take (i - k) (drop k ls))"
      using \<open>k \<le> j\<close> \<open>j < length ls\<close> j(2) assms(3,4) by simp
    ultimately show ?thesis by (metis nth_mem)
  qed
  ultimately show ?thesis using Some by (auto simp: passes_context_def)
qed

text \<open>Replacements before the end, and additions at the end, of the lines.\<close>

definition inner :: "nat \<Rightarrow> replacement list \<Rightarrow> replacement list" where
  "inner len rs = filter (\<lambda>r. fst r < len) rs"

definition added :: "nat \<Rightarrow> replacement list \<Rightarrow> replacement list" where
  "added len rs = filter (\<lambda>r. fst r = len) rs"

definition segments :: "replacement list \<Rightarrow> string list" where
  "segments rs = concat (map (snd \<circ> snd) rs)"

lemma inner_added_simps [simp]:
  "inner len [] = []" "added len [] = []" "segments [] = []"
  "inner len (r # rs) = (if fst r < len then r # inner len rs else inner len rs)"
  "added len (r # rs) = (if fst r = len then r # added len rs else added len rs)"
  "segments (r # rs) = snd (snd r) @ segments rs"
  by (simp_all add: inner_def added_def segments_def)

lemma splice_skip:
  assumes "disjoint_from (length ls) k' rs" "k \<le> k'" "k' \<le> length ls"
  shows "splice k rs (drop k ls) = take (k' - k) (drop k ls) @ splice k' rs (drop k' ls)"
proof (cases rs)
  case Nil
  then show ?thesis using drop_split [OF assms(2), of ls] by simp
next
  case (Cons r rs')
  obtain s n seg where r: "r = (s, n, seg)" by (cases r)
  with Cons assms have le: "k' \<le> s" by simp
  then have "take (s - k) (drop k ls) = take (k' - k) (drop k ls) @ take (s - k') (drop k' ls)"
    using take_add [of "k' - k" "s - k'" "drop k ls"] assms(2) by simp
  then show ?thesis using Cons r le assms(2) by simp
qed

lemma disjoint_from_weaken: "disjoint_from len k' rs \<Longrightarrow> k \<le> k' \<Longrightarrow> disjoint_from len k rs"
  by (cases rs) auto

lemma compute_loop_edits:
  assumes "compute_loop ls path chunks k = Ok rs" "k \<le> length ls"
    and "\<forall>chunk \<in> set chunks. \<not> is_end_of_file chunk"
    and "last_is_empty ls \<longrightarrow> (\<forall>chunk \<in> set chunks. old_lines chunk \<noteq> [])"
  shows "disjoint_from (length ls) k (inner (length ls) rs) \<and>
    edit_script (drop k ls) chunks (splice k (inner (length ls) rs) (drop k ls)) (segments (added (length ls) rs))"
  using assms
proof (induction chunks arbitrary: k rs)
  case Nil
  then show ?case by (simp add: finish)
next
  case (Cons chunk chunks)
  from Cons.prems(1) show ?case
  proof (cases rule: compute_loop_ConsE)
    case (add k' rs')
    have k': "k \<le> k'" "k' \<le> length ls" using context_start_bounds [OF add(1) Cons.prems(2)] by simp_all
    have idx: "insertion_index ls = length ls" using Cons.prems(4) add(2) by (auto simp: insertion_index_def)
    have IH: "disjoint_from (length ls) k' (inner (length ls) rs')"
        "edit_script (drop k' ls) chunks (splice k' (inner (length ls) rs') (drop k' ls)) (segments (added (length ls) rs'))"
      using Cons.IH [OF add(3) k'(2)] Cons.prems(3,4) by auto
    have "reading chunk [] (new_lines chunk)" using add(2) by (simp add: reading_def)
    from edit_script.append [OF context_start_passes [OF add(1) Cons.prems(2) order_refl k'(2)] this IH(2)]
    show ?thesis
      using disjoint_from_weaken [OF IH(1) k'(1)]
      by (simp add: add(4) idx splice_skip [OF IH(1) k'] drop_split [OF k'(1), of ls, symmetric])
  next
    case (replace k' i pattern seg rs')
    have k': "k \<le> k'" "k' \<le> length ls" using context_start_bounds [OF replace(1) Cons.prems(2)] by simp_all
    have loc: "i + length pattern \<le> length ls" "k' \<le> i" "window_matches normalise ls pattern i"
        "reading chunk pattern seg"
      using locate_chunk_bounds [OF replace(3) k'(2)] Cons.prems(3) by simp_all
    have ki: "k \<le> i" using k' loc by simp
    have IH: "disjoint_from (length ls) (i + length pattern) (inner (length ls) rs')"
        "edit_script (drop (i + length pattern) ls) chunks
           (splice (i + length pattern) (inner (length ls) rs') (drop (i + length pattern) ls))
           (segments (added (length ls) rs'))"
      using Cons.IH [OF replace(4) loc(1)] Cons.prems(3,4) by auto
    have pre: "passes_context chunk (take (i - k) (drop k ls))"
      using context_start_passes [OF replace(1) Cons.prems(2) loc(2)] loc(1) by simp
    show ?thesis
    proof (cases "i < length ls")
      case True
      from edit_script.replace [OF pre loc(4) loc(3) [unfolded window_matches_def] IH(2)] IH(1) ki True
      show ?thesis by (simp add: replace(5) drop_split_window [OF ki, symmetric])
    next
      case False
      with loc(1) have i: "i = length ls" "pattern = []" by (simp, cases pattern, simp_all)
      from edit_script.append [OF pre loc(4) [unfolded i(2)] IH(2) [unfolded i(2) list.size add_0_right]]
      show ?thesis using IH(1) ki i
        by (simp add: replace(5) disjoint_from_weaken [OF IH(1)] splice_skip [OF IH(1) [unfolded i(2) list.size add_0_right]] )
    qed
  qed
qed

text \<open>The stable sort puts the additions at the end, in the order of the chunks.\<close>

lemma disjoint_from_sorted: "disjoint_from len k rs \<Longrightarrow> sorted (map fst rs) \<and> (\<forall>r \<in> set rs. k \<le> fst r)"
proof (induction rs arbitrary: k)
  case (Cons r rs)
  obtain s n seg where "r = (s, n, seg)" by (cases r)
  with Cons show ?case by fastforce
qed simp

lemma sort_replacements:
  assumes "disjoint_from len k (inner len rs)" "\<forall>r \<in> set rs. fst r \<le> len"
  shows "sort_key fst rs = inner len rs @ added len rs"
proof (rule properties_for_sort_key)
  show "mset (inner len rs @ added len rs) = mset rs"
    using assms(2) by (induction rs) auto
  show "filter (\<lambda>x. fst r = fst x) (inner len rs @ added len rs) = filter (\<lambda>x. fst r = fst x) rs"
    if "r \<in> set (inner len rs @ added len rs)" for r
  proof (cases "fst r = len")
    case True
    then have "filter (\<lambda>x. fst r = fst x) (inner len rs) = []"
      "filter (\<lambda>x. fst r = fst x) (added len rs) = filter (\<lambda>x. fst r = fst x) rs"
      by (auto simp: inner_def added_def filter_empty_conv intro: filter_cong)
    then show ?thesis by simp
  next
    case False
    with that have "fst r < len" by (auto simp: inner_def added_def)
    then have "filter (\<lambda>x. fst r = fst x) (inner len rs) = filter (\<lambda>x. fst r = fst x) rs"
      "filter (\<lambda>x. fst r = fst x) (added len rs) = []"
      by (auto simp: inner_def added_def filter_empty_conv intro: filter_cong)
    then show ?thesis by simp
  qed
  have "map fst (added len rs) = replicate (length (added len rs)) len"
    by (induction rs) auto
  then show "sorted (map fst (inner len rs @ added len rs))"
    using disjoint_from_sorted [OF assms(1)] by (auto simp: sorted_append inner_def added_def)
qed

lemma splice_additions:
  assumes "disjoint_from len k rs" "\<forall>r \<in> set us. fst r = len \<and> fst (snd r) = 0" "length rest = len - k" "k \<le> len"
  shows "disjoint_from len k (rs @ us) \<and> splice k (rs @ us) rest = splice k rs rest @ segments us"
  using assms
proof (induction rs arbitrary: k rest)
  case Nil
  then show ?case
  proof (induction us arbitrary: k rest)
    case (Cons u us)
    obtain s n seg where u: "u = (s, n, seg)" by (cases u)
    with Cons.prems have "s = len" "n = 0" by simp_all
    with Cons.prems u Cons.IH [of len "[]"] show ?case by simp
  qed simp
next
  case (Cons r rs)
  obtain s n seg where r: "r = (s, n, seg)" by (cases r)
  with Cons.prems disjoint_from_le [of len "s + n" rs] have le: "k \<le> s" "s + n \<le> len" by simp_all
  with r Cons.prems Cons.IH [of "s + n" "drop (s + n - k) rest"] show ?case by simp
qed

lemma apply_replacements_edits:
  assumes "compute_replacements ls path chunks = Ok rs"
    and "\<forall>chunk \<in> set chunks. \<not> is_end_of_file chunk"
    and "last_is_empty ls \<longrightarrow> (\<forall>chunk \<in> set chunks. old_lines chunk \<noteq> [])"
  shows "\<exists>body adds. edit_script ls chunks body adds \<and> apply_replacements ls rs = Some (body @ adds)"
proof -
  let ?len = "length ls"
  obtain us where us: "compute_loop ls path chunks 0 = Ok us" "rs = sort_key fst us"
    using assms(1) by (auto simp: compute_replacements_def elim!: map_sum_OkE)
  have edits: "disjoint_from ?len 0 (inner ?len us)"
      "edit_script ls chunks (splice 0 (inner ?len us) ls) (segments (added ?len us))"
    using compute_loop_edits [OF us(1) _ assms(2,3)] by simp_all
  have "fst r + fst (snd r) \<le> ?len" if "r \<in> set us" for r
    using compute_loop_bounds [OF us(1) _ that] by simp
  then have bounds: "\<forall>r \<in> set us. fst r \<le> ?len"
      "\<forall>r \<in> set (added ?len us). fst r = ?len \<and> fst (snd r) = 0"
    by (force simp: added_def)+
  have rs: "rs = inner ?len us @ added ?len us"
    using sort_replacements [OF edits(1) bounds(1)] us(2) by simp
  have "disjoint_from ?len 0 rs" "splice 0 rs ls = splice 0 (inner ?len us) ls @ segments (added ?len us)"
    using splice_additions [OF edits(1) bounds(2), of ls] rs by simp_all
  with apply_replacements_splice [of ls 0 rs] edits(2) show ?thesis by auto
qed

text \<open>
  C1 (derive_edits). The new contents of a successfully updated file are the edit its chunks describe, for the updates without a chunk
  marked as end of file (such a chunk may match above an earlier one) and, where the file ends in a blank line, without a chunk that only
  adds (it may be lost, see \<open>addition_lost\<close>): the new lines are the old ones in which, chunk after chunk and from top to bottom,
  a window equal to the chunk's old lines up to white space and typographic variants is replaced by
  its new lines after the chunk's context line was passed, every other line is kept, and pure
  additions are appended in order; the text ends with a newline.
\<close>

theorem derive_edits:
  assumes "derive_from_contents path contents chunks = Some (Ok applied)"
    and "\<forall>chunk \<in> set chunks. \<not> is_end_of_file chunk"
    and "last_is_empty (file_lines contents) \<longrightarrow> (\<forall>chunk \<in> set chunks. old_lines chunk \<noteq> [])"
  shows "original_contents applied = contents \<and>
    (\<exists>body adds. edit_script (file_lines contents) chunks body adds \<and>
       new_contents applied = join [nl] (end_with_newline (body @ adds)))"
proof -
  obtain rs where rs: "compute_replacements (file_lines contents) path chunks = Ok rs"
    using assms(1) by (auto simp: derive_from_contents_def Let_def split: sum.splits)
  from apply_replacements_edits [OF this assms(2,3)] obtain body adds where
    "edit_script (file_lines contents) chunks body adds"
    "apply_replacements (file_lines contents) rs = Some (body @ adds)" by blast
  with assms(1) rs show ?thesis
    by (intro conjI exI [of _ body] exI [of _ adds]) (auto simp: derive_from_contents_def Let_def)
qed

definition sample_chunks :: "update_file_chunk list" where
  "sample_chunks =
     [\<lparr>change_context = Some ''fn f'', old_lines = [''b''], new_lines = [''B'', ''C''], is_end_of_file = False\<rparr>,
      \<lparr>change_context = None, old_lines = [], new_lines = [''z''], is_end_of_file = False\<rparr>]"

definition sample_contents :: string where
  "sample_contents = ''b'' @ [nl] @ ''fn f'' @ [nl] @ ''  b'' @ [nl] @ ''d'' @ [nl]"

definition sample_result :: string where
  "sample_result = ''b'' @ [nl] @ ''fn f'' @ [nl] @ ''B'' @ [nl] @ ''C'' @ [nl] @ ''d'' @ [nl] @ ''z'' @ [nl]"

lemma sample_derive:
  "derive_from_contents ''f'' sample_contents sample_chunks =
     Some (Ok \<lparr>original_contents = sample_contents, new_contents = sample_result\<rparr>)"
  by code_simp

theorem derive_edits_witness:
  "\<exists>body adds. edit_script (file_lines sample_contents) sample_chunks body adds \<and>
       sample_result = join [nl] (end_with_newline (body @ adds))"
proof -
  have "\<forall>chunk \<in> set sample_chunks. \<not> is_end_of_file chunk" "\<not> last_is_empty (file_lines sample_contents)"
    by code_simp+
  with derive_edits [OF sample_derive] show ?thesis by simp
qed

section \<open>A chunk that is found\<close>

lemma join_newline: "ls \<noteq> [] \<Longrightarrow> join [nl] ls @ [nl] = join [nl] (ls @ [[]])"
  by (induction ls rule: induct_list012) simp_all

lemma file_lines_join:
  assumes "ls \<noteq> []" "\<forall>l \<in> set ls. nl \<notin> set l"
  shows "file_lines (join [nl] ls @ [nl]) = ls"
  using assms split_on_join [of "ls @ [[]]" nl] by (simp add: file_lines_def join_newline)

lemma seek_first_occurrence:
  assumes "old \<noteq> []" "\<forall>j < length pre. take (length old) (drop j (pre @ old @ post)) \<noteq> old"
  shows "seek_sequence (pre @ old @ post) old 0 False = Some (length pre)"
proof (rule seek_sequence_exact [OF assms(1)])
  show "length pre \<in> candidates (pre @ old @ post) old 0 False" by (simp add: candidates_def)
  show "window_matches id (pre @ old @ post) old (length pre)" by (simp add: window_matches_id)
  show "\<forall>j \<in> candidates (pre @ old @ post) old 0 False. j < length pre \<longrightarrow>
      \<not> window_matches id (pre @ old @ post) old j"
    using assms(2) by (auto simp: candidates_def window_matches_id)
qed

text \<open>
  A chunk whose old lines occur verbatim in the file succeeds and replaces
  the first occurrence, and nothing else: the lines before and after it are kept as they are.
\<close>

lemma derive_exact_chunk:
  assumes "old_lines chunk \<noteq> []" "change_context chunk = None" "\<not> is_end_of_file chunk"
    and "ls = pre @ old_lines chunk @ post" "\<forall>l \<in> set ls. nl \<notin> set l"
    and "\<forall>j < length pre. take (length (old_lines chunk)) (drop j ls) \<noteq> old_lines chunk"
  shows "derive_from_contents path (join [nl] ls @ [nl]) [chunk] =
    Some (Ok \<lparr>original_contents = join [nl] ls @ [nl],
              new_contents = join [nl] (end_with_newline (pre @ new_lines chunk @ post))\<rparr>)"
proof -
  have lines: "file_lines (join [nl] ls @ [nl]) = ls" using assms by (intro file_lines_join) auto
  have "seek_sequence ls (old_lines chunk) 0 False = Some (length pre)"
    using seek_first_occurrence assms by simp
  then have "compute_replacements ls path [chunk] =
      Ok [(length pre, length (old_lines chunk), new_lines chunk)]"
    using assms by (simp add: compute_replacements_def locate_chunk_def Let_def)
  moreover have "apply_replacements ls [(length pre, length (old_lines chunk), new_lines chunk)] =
      Some (pre @ new_lines chunk @ post)"
    using assms(4) apply_replacements_splice [of ls 0 "[(length pre, length (old_lines chunk), new_lines chunk)]"]
    by simp
  ultimately show ?thesis by (simp add: derive_from_contents_def lines)
qed

lemma derive_exact_chunk_witness:
  "derive_from_contents ''f'' (join [nl] [''a'', ''b'', ''c'', ''b''] @ [nl])
     [\<lparr>change_context = None, old_lines = [''b''], new_lines = [''x'', ''y''], is_end_of_file = False\<rparr>] =
   Some (Ok \<lparr>original_contents = join [nl] [''a'', ''b'', ''c'', ''b''] @ [nl],
             new_contents = join [nl] [''a'', ''x'', ''y'', ''c'', ''b'', []]\<rparr>)"
  using derive_exact_chunk [where pre = "[''a'']" and post = "[''c'', ''b'']" and path = "''f''"
      and ls = "[''a'', ''b'', ''c'', ''b'']"
      and chunk = "\<lparr>change_context = None, old_lines = [''b''], new_lines = [''x'', ''y''], is_end_of_file = False\<rparr>"]
  by (simp add: end_with_newline_def last_is_empty_def)

section \<open>Overlapping places\<close>

text \<open>
  The order of the edits is not safe when a file ends in a blank line: a pure
  addition is placed before that line, inside the window of a chunk that replaces it, and the window
  is then removed together with the added line. The line added here is nowhere in the result.
\<close>

lemma addition_lost:
  "derive_from_contents ''f'' (''a'' @ [nl, nl])
     [\<lparr>change_context = None, old_lines = [''a'', []], new_lines = [''b''], is_end_of_file = False\<rparr>,
      \<lparr>change_context = None, old_lines = [], new_lines = [''x''], is_end_of_file = False\<rparr>] =
   Some (Ok \<lparr>original_contents = ''a'' @ [nl, nl], new_contents = ''b'' @ [nl]\<rparr>)"
  by code_simp

end
