(* ===== verification/Patch_Roundtrip.thy ===== *)
theory Patch_Roundtrip
  imports Patch_Parser
begin

text \<open>
  What the patch parser guarantees: it never panics, a successful parse is bounded by its markers,
  the streaming parser agrees with the final one on complete patches, and printing a patch and
  parsing it gives back its hunks.
\<close>

section \<open>The parser always answers\<close>

lemma check_strict_cases:
  "check_patch_boundaries_strict lines =
     (if 2 \<le> length lines \<and> trim (hd lines) = BEGIN_PATCH_MARKER \<and> trim (last lines) = END_PATCH_MARKER
      then Some (Ok (lines, butlast (tl lines)))
      else if lines \<noteq> [] \<and> trim (hd lines) \<noteq> BEGIN_PATCH_MARKER
      then Some (Err (InvalidPatchError msg_first_line))
      else Some (Err (InvalidPatchError msg_last_line)))"
proof (cases lines rule: remdups_adj.cases)
  case (3 x y zs)
  then show ?thesis
    using slice_inner [of lines]
    by (auto simp: check_patch_boundaries_strict_def check_start_and_end_lines_strict_def Let_def)
qed (auto simp: check_patch_boundaries_strict_def check_start_and_end_lines_strict_def Let_def marker_defs)

lemma check_strict_total: "\<exists>r. check_patch_boundaries_strict lines = Some r"
  by (simp add: check_strict_cases)

lemma check_lenient_total: "\<exists>r. check_patch_boundaries_lenient lines = Some r"
  by (auto simp: check_patch_boundaries_lenient_def check_strict_cases slice_inner split: option.splits sum.splits)

lemma check_streaming_total: "\<exists>r. check_patch_boundaries_streaming lines = Some r"
proof (cases "lines \<noteq> [] \<and> trim (hd lines) = BEGIN_PATCH_MARKER")
  case True
  then have "trim (last lines) = END_PATCH_MARKER \<Longrightarrow> 2 \<le> length lines"
    by (cases lines rule: remdups_adj.cases) (auto simp: marker_defs)
  with True show ?thesis
    by (cases lines) (auto simp: check_patch_boundaries_streaming_def slice_inner_Cons split: option.splits)
qed (auto simp: check_patch_boundaries_streaming_def check_strict_total)

lemma hunks_loop_total: "\<exists>r. hunks_loop ai rem ln hs = Some r"
proof (induction ai rem ln hs rule: hunks_loop.induct)
  case (1 ai rem ln hs)
  show ?case
  proof (cases "rem = []")
    case False
    then obtain r where r: "parse_one_hunk rem ln ai = Some r" using parse_one_hunk_total by blast
    show ?thesis
    proof (cases r)
      case (Inr p)
      obtain h n where p: "p = (h, n)" by (cases p)
      with r Inr have "n \<le> length rem" using parse_one_hunk_bounds by blast
      with 1 [OF False r Inr p [symmetric]] False r Inr p show ?thesis by (simp add: hunks_loop.simps [of ai rem ln hs])
    qed (use False r in \<open>simp add: hunks_loop.simps [of ai rem ln hs]\<close>)
  qed (simp add: hunks_loop.simps)
qed

definition check_boundaries :: "parse_mode \<Rightarrow> string list \<Rightarrow> (string list \<times> string list) parsed" where
  "check_boundaries mode lines = (case mode of
     Strict \<Rightarrow> check_patch_boundaries_strict lines
   | Lenient \<Rightarrow> check_patch_boundaries_lenient lines
   | Streaming \<Rightarrow> check_patch_boundaries_streaming lines)"

lemma parse_patch_text_alt:
  "parse_patch_text text mode =
     (case check_boundaries mode (str_lines (trim text)) of
        None \<Rightarrow> None
      | Some (Err e) \<Rightarrow> Some (Err e)
      | Some (Ok (patch_lines, hunk_lines)) \<Rightarrow>
          map_option (map_sum id (\<lambda>hs. \<lparr>patch = join [nl] patch_lines, hunks = hs, workdir = None\<rparr>))
            (hunks_loop (mode = Streaming) hunk_lines 2 []))"
  by (auto simp: parse_patch_text_def check_boundaries_def Let_def split: option.splits sum.splits)

lemma check_boundaries_total: "\<exists>r. check_boundaries mode lines = Some r"
  by (cases mode) (simp_all add: check_boundaries_def check_strict_total check_lenient_total check_streaming_total)

lemma parse_patch_text_answers: "\<exists>r. parse_patch_text text mode = Some r"
proof -
  obtain r where r: "check_boundaries mode (str_lines (trim text)) = Some r"
    using check_boundaries_total by blast
  then show ?thesis
  proof (cases r)
    case (Inr p)
    moreover obtain pl hl where "p = (pl, hl)" by (cases p)
    moreover obtain s where "hunks_loop (mode = Streaming) hl 2 [] = Some s"
      using hunks_loop_total by blast
    ultimately show ?thesis using r by (simp add: parse_patch_text_alt)
  qed (simp add: parse_patch_text_alt)
qed

lemma map_sum_id_Ok: "map_sum id f r = Ok a \<longleftrightarrow> (\<exists>b. r = Ok b \<and> a = f b)"
  by (cases r) auto

lemma parse_patch_text_Ok:
  "parse_patch_text text mode = Some (Ok a) \<longleftrightarrow>
     (\<exists>pl hl hs. check_boundaries mode (str_lines (trim text)) = Some (Ok (pl, hl)) \<and>
        hunks_loop (mode = Streaming) hl 2 [] = Some (Ok hs) \<and>
        a = \<lparr>patch = join [nl] pl, hunks = hs, workdir = None\<rparr>)"
  by (auto simp: parse_patch_text_alt map_sum_id_Ok split: option.splits sum.splits)

section \<open>Success means both markers were there\<close>

lemma check_strict_Ok:
  "check_patch_boundaries_strict lines = Some (Ok (pl, hl)) \<longleftrightarrow>
     2 \<le> length lines \<and> trim (hd lines) = BEGIN_PATCH_MARKER \<and> trim (last lines) = END_PATCH_MARKER \<and>
     pl = lines \<and> hl = butlast (tl lines)"
  by (auto simp: check_strict_cases split: if_splits)

lemma check_lenient_Ok:
  "check_patch_boundaries_lenient lines = Some (Ok (pl, hl)) \<Longrightarrow>
     check_patch_boundaries_strict pl = Some (Ok (pl, hl)) \<and> (pl = lines \<or> pl = butlast (tl lines))"
  by (auto simp: check_patch_boundaries_lenient_def slice_inner check_strict_Ok
      split: option.splits sum.splits if_splits)

section \<open>The streaming parser on a complete patch\<close>

lemma update_loop_incomplete:
  "update_loop ln False rem p cs = Some (Ok r) \<Longrightarrow> update_loop ln True rem p cs = Some (Ok r)"
proof (induction ln "False" rem p cs rule: update_loop.induct)
  case (2 ln line rest p cs)
  note eqF = update_loop.simps(2) [of ln False line rest p cs]
    and eqT = update_loop.simps(2) [of ln True line rest p cs]
  show ?case
  proof (cases "trim line = [] \<or> prefix ''*'' line")
    case True
    with 2 eqF eqT show ?thesis by (auto split: if_splits)
  next
    case False
    with 2(3) eqF obtain c n rem' where c: "parse_update_file_chunk (line # rest) (ln + p) (cs = []) = Ok (c, n)"
        "slice_from (line # rest) n = Some rem'" "update_loop ln False rem' (p + n) (cs @ [c]) = Some (Ok r)"
      by (auto split: sum.splits parse_error.splits option.splits)
    have "line \<noteq> ''@''"
    proof
      assume "line = ''@''"
      then show False using c(1)
        by (auto simp: parse_update_file_chunk_def marker_defs strip_prefix_def split: if_splits)
    qed
    with False 2(2) c eqT show ?thesis by simp
  qed
qed simp

lemma parse_one_hunk_incomplete:
  "parse_one_hunk lines ln False = Some (Ok r) \<Longrightarrow> parse_one_hunk lines ln True = Some (Ok r)"
  by (auto simp: parse_one_hunk_def Let_def split: list.splits option.splits sum.splits prod.splits if_splits
      dest: update_loop_incomplete)

lemma hunks_loop_incomplete:
  "hunks_loop False rem ln hs = Some (Ok r) \<Longrightarrow> hunks_loop True rem ln hs = Some (Ok r)"
proof (induction "False" rem ln hs rule: hunks_loop.induct)
  case (1 rem ln hs)
  note eqF = hunks_loop.simps [of False rem ln hs] and eqT = hunks_loop.simps [of True rem ln hs]
  show ?case
  proof (cases "rem = []")
    case False
    with 1(2) eqF obtain h n rest where h: "parse_one_hunk rem ln False = Some (Ok (h, n))"
        "slice_from rem n = Some rest" "hunks_loop False rest (ln + n) (hs @ [h]) = Some (Ok r)"
      by (auto split: option.splits sum.splits)
    with 1(1) [OF False h(1) refl refl h(2) h(3)] False eqT parse_one_hunk_incomplete [OF h(1)]
    show ?thesis by simp
  qed (use 1 eqF eqT in simp)
qed

section \<open>Printing patches\<close>

text \<open>
  The concrete syntax of the patch format: the lines of a chunk in the order a diff writes them, the
  chunks and hunks they make up, and the lines they are written as.
\<close>

datatype diff_line = Context string | Added string | Removed string

type_synonym chunk_text = "string option \<times> diff_line list \<times> bool"

datatype hunk_text =
    AddText string "string list"
  | DeleteText string
  | UpdateText string "string option" "chunk_text list"

fun print_diff_line :: "diff_line \<Rightarrow> string" where
  "print_diff_line (Context t) = CHR '' '' # t"
| "print_diff_line (Added t) = CHR ''+'' # t"
| "print_diff_line (Removed t) = CHR ''-'' # t"

fun diff_line_text :: "diff_line \<Rightarrow> string" where
  "diff_line_text (Context t) = t" | "diff_line_text (Added t) = t" | "diff_line_text (Removed t) = t"

fun old_part :: "diff_line \<Rightarrow> string list" where
  "old_part (Context t) = [t]" | "old_part (Added t) = []" | "old_part (Removed t) = [t]"

fun new_part :: "diff_line \<Rightarrow> string list" where
  "new_part (Context t) = [t]" | "new_part (Added t) = [t]" | "new_part (Removed t) = []"

definition context_line :: "string option \<Rightarrow> string" where
  "context_line ctx = (case ctx of None \<Rightarrow> EMPTY_CHANGE_CONTEXT_MARKER | Some c \<Rightarrow> CHANGE_CONTEXT_MARKER @ c)"

fun print_chunk :: "chunk_text \<Rightarrow> string list" where
  "print_chunk (ctx, ds, eof) =
     context_line ctx # map print_diff_line ds @ (if eof then [EOF_MARKER] else [])"

fun chunk_of :: "chunk_text \<Rightarrow> update_file_chunk" where
  "chunk_of (ctx, ds, eof) =
     \<lparr>change_context = ctx, old_lines = concat (map old_part ds), new_lines = concat (map new_part ds),
      is_end_of_file = eof\<rparr>"

fun print_hunk :: "hunk_text \<Rightarrow> string list" where
  "print_hunk (AddText path ls) = (ADD_FILE_MARKER @ path) # map (\<lambda>l. CHR ''+'' # l) ls"
| "print_hunk (DeleteText path) = [DELETE_FILE_MARKER @ path]"
| "print_hunk (UpdateText path dest cs) =
     (UPDATE_FILE_MARKER @ path) # (case dest of None \<Rightarrow> [] | Some d \<Rightarrow> [MOVE_TO_MARKER @ d]) @
     concat (map print_chunk cs)"

fun hunk_of :: "hunk_text \<Rightarrow> hunk" where
  "hunk_of (AddText path ls) = AddFile path (concat (map (\<lambda>l. l @ [nl]) ls))"
| "hunk_of (DeleteText path) = DeleteFile path"
| "hunk_of (UpdateText path dest cs) = UpdateFile path dest (map chunk_of cs)"

definition patch_lines_of :: "hunk_text list \<Rightarrow> string list" where
  "patch_lines_of hs = BEGIN_PATCH_MARKER # concat (map print_hunk hs) @ [END_PATCH_MARKER]"

definition print_patch :: "hunk_text list \<Rightarrow> string" where
  "print_patch hs = join [nl] (patch_lines_of hs)"

text \<open>
  What can be written: paths that start with a character and do not end in white space, lines
  without line breaks, chunks and update hunks that are not empty.
\<close>

definition wf_path :: "string \<Rightarrow> bool" where
  "wf_path p \<longleftrightarrow> p \<noteq> [] \<and> plain_line p \<and> trim_end p = p \<and> \<not> is_cont (hd p)"

fun wf_chunk :: "chunk_text \<Rightarrow> bool" where
  "wf_chunk (ctx, ds, eof) \<longleftrightarrow>
     pred_option plain_line ctx \<and> ds \<noteq> [] \<and> list_all (plain_line \<circ> diff_line_text) ds"

fun wf_hunk :: "hunk_text \<Rightarrow> bool" where
  "wf_hunk (AddText path ls) \<longleftrightarrow> wf_path path \<and> list_all plain_line ls"
| "wf_hunk (DeleteText path) \<longleftrightarrow> wf_path path"
| "wf_hunk (UpdateText path dest cs) \<longleftrightarrow>
     wf_path path \<and> pred_option plain_line dest \<and> cs \<noteq> [] \<and> list_all wf_chunk cs"

section \<open>Parsing what was printed\<close>

text \<open>The lines at which a chunk stops, and those at which an update hunk stops.\<close>

definition ends_chunk :: "string list \<Rightarrow> bool" where
  "ends_chunk ls \<longleftrightarrow> (case ls of [] \<Rightarrow> True
     | l # _ \<Rightarrow> l \<noteq> EOF_MARKER \<and> l \<noteq> [] \<and> hd l \<notin> {CHR '' '', CHR ''+'', CHR ''-''})"

definition ends_hunk :: "string list \<Rightarrow> bool" where
  "ends_hunk ls \<longleftrightarrow> (case ls of [] \<Rightarrow> True | l # _ \<Rightarrow> l \<noteq> EOF_MARKER \<and> prefix ''*'' l)"

lemma ends_hunk_chunk: "ends_hunk ls \<Longrightarrow> ends_chunk ls"
  by (auto simp: ends_hunk_def ends_chunk_def prefix_def split: list.splits)

lemma chunk_loop_print:
  assumes "ends_chunk tail" "ds \<noteq> [] \<or> 0 < p"
  shows "chunk_loop ln (map print_diff_line ds @ (if eof then [EOF_MARKER] else []) @ tail) ch p =
     Ok (ch\<lparr>old_lines := old_lines ch @ concat (map old_part ds),
            new_lines := new_lines ch @ concat (map new_part ds),
            is_end_of_file := is_end_of_file ch \<or> eof\<rparr>,
         p + length ds + (if eof then 1 else 0))"
  using assms(2)
proof (induction ds arbitrary: ch p)
  case Nil
  then show ?case using assms(1) by (auto simp: ends_chunk_def split: list.splits)
next
  case (Cons d ds)
  show ?case by (cases d) (simp_all add: EOF_MARKER_def Cons.IH)
qed

lemma parse_chunk_print:
  assumes "wf_chunk c" "ends_chunk tail"
  shows "parse_update_file_chunk (print_chunk c @ tail) ln am = Ok (chunk_of c, length (print_chunk c))"
proof -
  obtain ctx ds eof where c: "c = (ctx, ds, eof)" by (cases c)
  with assms have "ds \<noteq> []" by simp
  then show ?thesis
    using chunk_loop_print [OF assms(2), of ds 0 ln eof "empty_chunk ctx"]
    by (cases ctx) (auto simp: c parse_update_file_chunk_def context_line_def marker_defs empty_chunk_def
        strip_prefix_def)
qed

lemma ends_chunk_print: "ends_chunk (print_chunk c @ tail)"
  by (cases c; cases "fst c") (auto simp: ends_chunk_def context_line_def marker_defs)

lemma ends_chunk_chunks: "ends_hunk tail \<Longrightarrow> ends_chunk (concat (map print_chunk cs) @ tail)"
  by (cases cs) (simp_all add: ends_hunk_chunk ends_chunk_print)

lemma ws_heads_markers [simp]: "CHR ''*'' \<notin> set ws_heads" "CHR ''@'' \<notin> set ws_heads"
  by (simp_all add: ws_heads_def)

lemma print_chunk_head:
  obtains l rest where "print_chunk c @ tail = l # rest" "trim l \<noteq> []" "\<not> prefix ''*'' l" "l \<noteq> ''@''"
    "strip_prefix MOVE_TO_MARKER l = None"
proof -
  obtain ctx ds eof where c: "c = (ctx, ds, eof)" by (cases c)
  have "context_line ctx \<noteq> []" "hd (context_line ctx) = CHR ''@''" "context_line ctx \<noteq> ''@''"
    "\<not> prefix ''*'' (context_line ctx)" "strip_prefix MOVE_TO_MARKER (context_line ctx) = None"
    by (auto simp: context_line_def marker_defs strip_prefix_def split: option.splits)
  then show ?thesis using that c trim_not_Nil [of "context_line ctx"] by simp
qed

lemma update_loop_print:
  assumes "list_all wf_chunk cs" "ends_hunk tail"
  shows "update_loop ln ai (concat (map print_chunk cs) @ tail) p acc =
     Some (Ok (acc @ map chunk_of cs, p + length (concat (map print_chunk cs))))"
  using assms(1)
proof (induction cs arbitrary: p acc)
  case Nil
  show ?case
  proof (cases tail)
    case (Cons l ls)
    with assms(2) have "l \<noteq> []" "hd l = CHR ''*''" by (auto simp: ends_hunk_def prefix_def)
    then have "trim l \<noteq> []" using trim_not_Nil by simp
    with Cons assms(2) show ?thesis by (simp add: ends_hunk_def update_loop.simps(2))
  qed simp
next
  case (Cons c cs)
  let ?tail = "concat (map print_chunk cs) @ tail"
  obtain l rest where l: "print_chunk c @ ?tail = l # rest" "trim l \<noteq> []" "\<not> prefix ''*'' l" "l \<noteq> ''@''"
    by (rule print_chunk_head)
  have "parse_update_file_chunk (l # rest) (ln + p) (acc = []) = Ok (chunk_of c, length (print_chunk c))"
    unfolding l(1) [symmetric] using Cons.prems ends_chunk_chunks [OF assms(2)]
    by (intro parse_chunk_print) auto
  moreover have "slice_from (l # rest) (length (print_chunk c)) = Some ?tail"
    unfolding l(1) [symmetric] by simp
  ultimately have "update_loop ln ai (l # rest) p acc =
      update_loop ln ai ?tail (p + length (print_chunk c)) (acc @ [chunk_of c])"
    using l by (simp add: update_loop.simps(2))
  with Cons l(1) [symmetric] show ?case by simp
qed

lemma add_loop_print:
  "ends_hunk tail \<Longrightarrow> add_loop (map (\<lambda>l. CHR ''+'' # l) ls @ tail) c p =
     (c @ concat (map (\<lambda>l. l @ [nl]) ls), p + length ls)"
proof (induction ls arbitrary: c p)
  case Nil
  then show ?case by (cases tail) (auto simp: ends_hunk_def strip_prefix_def prefix_def)
qed (simp add: strip_prefix_def)

lemma trim_header:
  assumes "wf_path p" "m \<noteq> []" "hd m \<notin> set ws_heads"
  shows "trim (m @ p) = m @ p"
  using assms by (simp add: wf_path_def trim_def trim_end_append_stop trim_start_stop)

lemma trim_headers:
  assumes "wf_path p"
  shows "trim (ADD_FILE_MARKER @ p) = ADD_FILE_MARKER @ p"
    and "trim (DELETE_FILE_MARKER @ p) = DELETE_FILE_MARKER @ p"
    and "trim (UPDATE_FILE_MARKER @ p) = UPDATE_FILE_MARKER @ p"
  by (rule trim_header [OF assms]; simp add: marker_defs)+

lemma header_distinct:
  "strip_prefix ADD_FILE_MARKER (DELETE_FILE_MARKER @ p) = None"
  "strip_prefix ADD_FILE_MARKER (UPDATE_FILE_MARKER @ p) = None"
  "strip_prefix DELETE_FILE_MARKER (UPDATE_FILE_MARKER @ p) = None"
  by (simp_all add: marker_defs strip_prefix_def)

lemma parse_hunk_print:
  assumes "wf_hunk h" "ends_hunk tail"
  shows "parse_one_hunk (print_hunk h @ tail) ln ai = Some (Ok (hunk_of h, length (print_hunk h)))"
proof (cases h)
  case (AddText path ls)
  with assms show ?thesis
    by (simp add: parse_one_hunk_def add_loop_print trim_headers Let_def)
next
  case (DeleteText path)
  with assms show ?thesis
    by (simp add: parse_one_hunk_def trim_headers header_distinct Let_def)
next
  case (UpdateText path dest cs)
  show ?thesis
  proof (cases dest)
    case None
    obtain c cs' where cs: "cs = c # cs'" using UpdateText assms by (cases cs) auto
    then obtain l rest where l: "concat (map print_chunk cs) @ tail = l # rest" "strip_prefix MOVE_TO_MARKER l = None"
      by (auto intro: print_chunk_head [of c "concat (map print_chunk cs') @ tail"])
    then show ?thesis
      using UpdateText assms None cs update_loop_print [OF _ assms(2), of cs ln ai 1 "[]"]
      by (simp add: parse_one_hunk_def trim_headers header_distinct Let_def)
  next
    case (Some d)
    then show ?thesis
      using UpdateText assms update_loop_print [OF _ assms(2), of cs ln ai 2 "[]"]
      by (simp add: parse_one_hunk_def trim_headers header_distinct Let_def)
  qed
qed

lemma ends_hunk_print: "ends_hunk (print_hunk h @ tail)"
  by (cases h) (simp_all add: ends_hunk_def marker_defs)

lemma hunks_loop_print:
  "list_all wf_hunk hs \<Longrightarrow>
     hunks_loop ai (concat (map print_hunk hs)) ln acc = Some (Ok (acc @ map hunk_of hs))"
proof (induction hs arbitrary: ln acc)
  case Nil
  then show ?case by (simp add: hunks_loop.simps)
next
  case (Cons h hs)
  have tail: "ends_hunk (concat (map print_hunk hs))"
    using ends_hunk_print by (cases hs) (simp_all add: ends_hunk_def)
  have "print_hunk h \<noteq> []" by (cases h) simp_all
  with Cons tail parse_hunk_print [of h "concat (map print_hunk hs)" ln ai] show ?case
    by (subst hunks_loop.simps) simp
qed

lemma trim_marker_lines [simp]:
  "trim BEGIN_PATCH_MARKER = BEGIN_PATCH_MARKER" "trim END_PATCH_MARKER = END_PATCH_MARKER"
  by (rule trim_stop; simp add: marker_defs ws_heads_def ws_lasts_def white_space_def)+

lemma plain_markers [simp]:
  "plain_line BEGIN_PATCH_MARKER" "plain_line END_PATCH_MARKER" "plain_line ADD_FILE_MARKER"
  "plain_line DELETE_FILE_MARKER" "plain_line UPDATE_FILE_MARKER" "plain_line MOVE_TO_MARKER"
  "plain_line EOF_MARKER" "plain_line CHANGE_CONTEXT_MARKER" "plain_line EMPTY_CHANGE_CONTEXT_MARKER"
  by (simp_all add: marker_defs plain_line_def)

lemma plain_print_diff_line: "plain_line (diff_line_text d) \<Longrightarrow> plain_line (print_diff_line d)"
  by (cases d) (simp_all add: plain_line_Cons)

lemma plain_print_chunk: "wf_chunk c \<Longrightarrow> list_all plain_line (print_chunk c)"
  by (cases c; cases "fst c")
    (auto simp: list_all_iff plain_print_diff_line context_line_def plain_line_append)

lemma plain_print_hunk: "wf_hunk h \<Longrightarrow> list_all plain_line (print_hunk h)"
proof (cases h)
  case (UpdateText p dest cs)
  moreover assume "wf_hunk h"
  ultimately have "\<forall>c \<in> set cs. list_all plain_line (print_chunk c)"
    using plain_print_chunk by (auto simp: list_all_iff)
  with UpdateText \<open>wf_hunk h\<close> show ?thesis
    by (cases dest) (auto simp: wf_path_def plain_line_append list_all_iff simp del: print_chunk.simps)
qed (auto simp: list_all_iff wf_path_def plain_line_append plain_line_Cons)

lemma patch_lines_plain: "list_all wf_hunk hs \<Longrightarrow> list_all plain_line (patch_lines_of hs)"
  using plain_print_hunk by (fastforce simp: patch_lines_of_def list_all_iff)

lemma trim_join_lines:
  assumes "xs \<noteq> []" "hd xs \<noteq> []" "last xs \<noteq> []" "hd (hd xs) \<notin> set ws_heads" "last (last xs) \<notin> set ws_lasts"
  shows "trim (join sep xs) = join sep xs"
  using assms by (intro trim_stop) (simp_all add: join_not_Nil hd_join last_join)

lemma patch_lines_ends:
  "hd (patch_lines_of hs) = BEGIN_PATCH_MARKER" "last (patch_lines_of hs) = END_PATCH_MARKER"
  "butlast (tl (patch_lines_of hs)) = concat (map print_hunk hs)" "2 \<le> length (patch_lines_of hs)"
  by (simp_all add: patch_lines_of_def butlast_append)

lemma str_lines_print:
  assumes "list_all wf_hunk hs"
  shows "str_lines (trim (print_patch hs)) = patch_lines_of hs"
proof -
  have "trim (print_patch hs) = print_patch hs"
    unfolding print_patch_def
    by (rule trim_join_lines)
      (auto simp: patch_lines_ends patch_lines_of_def marker_defs ws_lasts_def white_space_def)
  then show ?thesis
    using patch_lines_plain [OF assms]
    by (simp add: print_patch_def str_lines_join patch_lines_ends(2) marker_defs patch_lines_of_def)
qed

lemma parse_text_print:
  assumes "list_all wf_hunk hs"
  shows "parse_patch_text (print_patch hs) mode =
    Some (Ok \<lparr>patch = print_patch hs, hunks = map hunk_of hs, workdir = None\<rparr>)"
proof -
  let ?ls = "patch_lines_of hs"
  have "check_boundaries mode ?ls = Some (Ok (?ls, concat (map print_hunk hs)))"
    using patch_lines_ends [of hs] slice_inner [of ?ls]
    by (cases mode) (auto simp: check_boundaries_def check_strict_cases check_patch_boundaries_lenient_def
        check_patch_boundaries_streaming_def)
  with hunks_loop_print [OF assms, of "mode = Streaming" 2 "[]"] show ?thesis
    by (simp add: parse_patch_text_Ok str_lines_print [OF assms]) (auto simp: print_patch_def)
qed

text \<open>The same lines inside a heredoc.\<close>

definition heredoc :: "string \<Rightarrow> string list \<Rightarrow> string \<Rightarrow> string" where
  "heredoc opener ls terminator = join [nl] (opener # ls @ [terminator @ ''EOF''])"

lemma heredoc_openers_plain:
  assumes "opener \<in> set heredoc_openers"
  shows "opener \<noteq> []" "hd opener = CHR ''<''" "plain_line opener"
    "trim opener \<noteq> BEGIN_PATCH_MARKER"
proof -
  show "opener \<noteq> []" "hd opener = CHR ''<''" "plain_line opener"
    using assms by (auto simp: heredoc_openers_def quoted_def plain_line_def)
  then have "trim opener = opener"
    using assms by (intro trim_stop) (auto simp: heredoc_openers_def quoted_def ws_heads_def ws_lasts_def white_space_def)
  then show "trim opener \<noteq> BEGIN_PATCH_MARKER" using \<open>hd opener = _\<close> by (auto simp: marker_defs)
qed

lemma str_lines_heredoc:
  assumes "opener \<in> set heredoc_openers" "list_all plain_line ls" "nl \<notin> set terminator"
  shows "str_lines (trim (heredoc opener ls terminator)) = opener # ls @ [terminator @ ''EOF'']"
proof -
  note opener = heredoc_openers_plain [OF assms(1)]
  have "trim (heredoc opener ls terminator) = heredoc opener ls terminator"
    unfolding heredoc_def
    by (rule trim_join_lines) (use opener in \<open>auto simp: ws_heads_def ws_lasts_def white_space_def\<close>)
  moreover have "plain_line (terminator @ ''EOF'')" using assms(3) by (auto simp: plain_line_def)
  ultimately show ?thesis
    using assms opener by (simp add: heredoc_def str_lines_join)
qed

section \<open>The properties of the parser\<close>

text \<open>
  C27 (parse_patch_print). Round trip for the patches the parser is written for: file sections whose paths are not empty, do not end in
  white space and do not begin inside a character, whose lines hold no line break, and whose updates have at least one chunk, every
  chunk at least one line of context or change under a single context line. Such a patch, printed, parses to exactly the
  hunks it was written from, and the recorded patch text is the text itself; the same holds when a shell
  heredoc opener and a terminator line surround it, in which case they are stripped.
\<close>

theorem parse_patch_print:
  assumes "list_all wf_hunk hs" "opener \<in> set heredoc_openers" "nl \<notin> set terminator"
  shows "parse_patch (print_patch hs) =
       Some (Ok \<lparr>patch = print_patch hs, hunks = map hunk_of hs, workdir = None\<rparr>) \<and>
     parse_patch (heredoc opener (patch_lines_of hs) terminator) =
       Some (Ok \<lparr>patch = print_patch hs, hunks = map hunk_of hs, workdir = None\<rparr>)"
proof
  show "parse_patch (print_patch hs) = Some (Ok \<lparr>patch = print_patch hs, hunks = map hunk_of hs, workdir = None\<rparr>)"
    unfolding parse_patch_def by (rule parse_text_print [OF assms(1)])
  let ?outer = "opener # patch_lines_of hs @ [terminator @ ''EOF'']"
  have "check_patch_boundaries_strict ?outer = Some (Err (InvalidPatchError msg_first_line))"
    using heredoc_openers_plain [OF assms(2)] by (simp add: check_strict_cases)
  then have "check_patch_boundaries_lenient ?outer = Some (Ok (patch_lines_of hs, concat (map print_hunk hs)))"
    using assms(2) patch_lines_ends [of hs] slice_inner [of ?outer]
    by (auto simp: check_patch_boundaries_lenient_def check_strict_Ok suffix_def)
  with hunks_loop_print [OF assms(1), of False 2 "[]"]
    str_lines_heredoc [OF assms(2) patch_lines_plain [OF assms(1)] assms(3)]
  show "parse_patch (heredoc opener (patch_lines_of hs) terminator) =
      Some (Ok \<lparr>patch = print_patch hs, hunks = map hunk_of hs, workdir = None\<rparr>)"
    by (simp add: parse_patch_def PARSE_IN_STRICT_MODE_def parse_patch_text_Ok check_boundaries_def print_patch_def)
qed

text \<open>A patch to evaluate the properties on.\<close>

definition sample_patch :: "hunk_text list" where
  "sample_patch = [UpdateText ''a.txt'' (Some ''b.txt'')
     [(Some ''f'', [Context ''x'', Removed ''y'', Added ''z''], True)], DeleteText ''c'']"

lemma sample_patch_wf: "list_all wf_hunk sample_patch"
proof -
  have "wf_path ''a.txt''" "wf_path ''c''"
    by (simp_all add: wf_path_def plain_line_def is_cont_def trim_end_stop ws_lasts_def white_space_def)
  then show ?thesis by (simp add: sample_patch_def plain_line_def)
qed

theorem parse_patch_print_witness:
  "parse_patch (heredoc ''<<EOF'' (patch_lines_of sample_patch) []) =
    Some (Ok \<lparr>patch = print_patch sample_patch,
     hunks = [UpdateFile ''a.txt'' (Some ''b.txt'')
       [\<lparr>change_context = Some ''f'', old_lines = [''x'', ''y''], new_lines = [''x'', ''z''], is_end_of_file = True\<rparr>],
       DeleteFile ''c''], workdir = None\<rparr>)"
  using parse_patch_print [OF sample_patch_wf, of "''<<EOF''" "[]"]
  by (simp add: heredoc_openers_def sample_patch_def)

text \<open>
  The instructions given to the model and the grammar of the tool go further than the parser: they allow several context lines in a row,
  a chunk that is a context line alone, and an update that only moves the file. The parser refuses the three.
\<close>

lemma documented_forms_refused:
  "parse_patch (join [nl] [''*** Begin Patch'', ''*** Update File: a'', ''@@ class C'', ''@@ def m'', ''-x'', ''+y'', ''*** End Patch'']) =
     Some (Err (InvalidHunkError (msg_unexpected ''@@ def m'') 4))"
  "parse_patch (join [nl] [''*** Begin Patch'', ''*** Update File: a'', ''@@ class C'', ''*** End Patch'']) =
     Some (Err (InvalidHunkError msg_no_lines 4))"
  "parse_patch (join [nl] [''*** Begin Patch'', ''*** Update File: a'', ''*** Move to: b'', ''*** End Patch'']) =
     Some (Err (InvalidHunkError (msg_empty_update ''a'') 2))"
  by code_simp+

text \<open>
  A patch is accepted only between its markers: after a successful parse the
  recorded patch text is a block of at least two lines of the (trimmed) input whose first line is the
  begin marker and whose last is the end marker, either the whole input or the input without its first
  and last line (the heredoc wrapper).
\<close>

lemma parse_patch_markers:
  assumes "parse_patch text = Some (Ok a)"
  shows "\<exists>pl. patch a = join [nl] pl \<and> 2 \<le> length pl \<and>
     trim (hd pl) = BEGIN_PATCH_MARKER \<and> trim (last pl) = END_PATCH_MARKER \<and>
     (pl = str_lines (trim text) \<or> pl = butlast (tl (str_lines (trim text))))"
  using assms
  by (auto simp: parse_patch_def PARSE_IN_STRICT_MODE_def parse_patch_text_Ok check_boundaries_def
      check_strict_Ok dest!: check_lenient_Ok)

text \<open>
  The streaming parser used for progress reports never disagrees with the
  final parser: whatever the strict parser accepts, the streaming parser reads as the same hunks.
\<close>

lemma parse_patch_streaming_agrees:
  assumes "parse_patch_text text Strict = Some (Ok a)"
  shows "parse_patch_streaming text = Some (Ok a)"
proof -
  from assms obtain pl hl hs where
    strict: "check_patch_boundaries_strict (str_lines (trim text)) = Some (Ok (pl, hl))"
      "hunks_loop False hl 2 [] = Some (Ok hs)" "a = \<lparr>patch = join [nl] pl, hunks = hs, workdir = None\<rparr>"
    by (auto simp: parse_patch_text_Ok check_boundaries_def)
  from strict(1) have "check_patch_boundaries_streaming (str_lines (trim text)) = Some (Ok (pl, hl))"
    by (cases "str_lines (trim text)")
      (auto simp: check_strict_Ok check_patch_boundaries_streaming_def slice_inner_Cons split: if_splits)
  with hunks_loop_incomplete [OF strict(2)] strict(3) show ?thesis
    by (simp add: parse_patch_streaming_def parse_patch_text_Ok check_boundaries_def)
qed

lemma parse_patch_streaming_agrees_witness:
  "parse_patch_streaming (print_patch sample_patch) =
     Some (Ok \<lparr>patch = print_patch sample_patch, hunks = map hunk_of sample_patch, workdir = None\<rparr>)"
  by (rule parse_patch_streaming_agrees [OF parse_text_print [OF sample_patch_wf]])

end
