(* ===== verification/Patch_Fs.thy ===== *)
theory Patch_Fs
  imports Patch_Apply Patch_Roundtrip Absolute_Path
begin

text \<open>
  \<open>codex-rs/apply-patch/src/lib.rs\<close>, the half with effects: hunks applied one after the other to a
  file system, and the report on stdout and stderr.

  The file system is the trait \<open>ExecutorFileSystem\<close>, a record of operations on a state of any type;
  the sandbox context, passed through unchanged, is part of the record. A writer is the operation
  that appends one formatted line to it. \<open>home\<close> is the user's home directory.
  An outcome \<open>None\<close> is a panic.
\<close>

section \<open>File systems, writers and errors\<close>

record 'fs file_system =
  read_file_text :: "'fs \<Rightarrow> string \<Rightarrow> (io_error, string) result"
  write_file :: "'fs \<Rightarrow> string \<Rightarrow> string \<Rightarrow> 'fs \<times> (io_error, unit) result"
  create_directory :: "'fs \<Rightarrow> string \<Rightarrow> bool \<Rightarrow> 'fs \<times> (io_error, unit) result"
  is_directory_at :: "'fs \<Rightarrow> string \<Rightarrow> (io_error, bool) result"
  remove_path :: "'fs \<Rightarrow> string \<Rightarrow> bool \<Rightarrow> bool \<Rightarrow> 'fs \<times> (io_error, unit) result"

type_synonym 'w writer = "'w \<Rightarrow> string \<Rightarrow> 'w \<times> (io_error, unit) result"

text \<open>An \<open>anyhow::Error\<close> of this crate: a message, an I/O error in a context, or one of its own errors.\<close>

datatype anyhow_error =
    Message string
  | InContext string io_error
  | Applying apply_patch_error

fun show_parse_error :: "parse_error \<Rightarrow> string" where
  "show_parse_error (InvalidPatchError m) = ''invalid patch: '' @ m"
| "show_parse_error (InvalidHunkError m n) = ''invalid hunk at line '' @ show_nat n @ '', '' @ m"

fun show_apply_patch_error :: "apply_patch_error \<Rightarrow> string" where
  "show_apply_patch_error (ParseError e) = show_parse_error e"
| "show_apply_patch_error (IoError c) = err_context c @ '': '' @ err_message (err_source c)"
| "show_apply_patch_error (ComputeReplacements m) = m"
| "show_apply_patch_error ImplicitInvocation =
     ''patch detected without explicit call to apply_patch. Rerun as ['' @ [CHR 0x22] @ ''apply_patch'' @ [CHR 0x22] @ '', '' @
     [CHR 0x22] @ ''<patch>'' @ [CHR 0x22] @ '']''"

fun show_anyhow :: "anyhow_error \<Rightarrow> string" where
  "show_anyhow (Message m) = m"
| "show_anyhow (InContext c e) = c"
| "show_anyhow (Applying e) = show_apply_patch_error e"

text \<open>\<open>From<std::io::Error>\<close>.\<close>

definition from_io_error :: "io_error \<Rightarrow> apply_patch_error" where
  "from_io_error e = IoError \<lparr>err_context = ''I/O error'', err_source = e\<rparr>"

section \<open>One hunk\<close>

definition derive_new_contents_from_chunks ::
    "'fs file_system \<Rightarrow> 'fs \<Rightarrow> string \<Rightarrow> update_file_chunk list \<Rightarrow> (apply_patch_error, applied_patch) result option" where
  "derive_new_contents_from_chunks fs st path_abs chunks =
     (case read_file_text fs st path_abs of
        Err e \<Rightarrow> Some (Err (IoError \<lparr>err_context = ''Failed to read file to update '' @ path_abs, err_source = e\<rparr>))
      | Ok contents \<Rightarrow> derive_from_contents path_abs contents chunks)"

definition with_context :: "string \<Rightarrow> 'fs \<times> (io_error, unit) result \<Rightarrow> 'fs \<times> (anyhow_error, unit) result" where
  "with_context msg r = (fst r, map_sum (InContext msg) id (snd r))"

definition write_file_with_missing_parent_retry ::
    "'fs file_system \<Rightarrow> 'fs \<Rightarrow> string \<Rightarrow> string \<Rightarrow> 'fs \<times> (anyhow_error, unit) result" where
  "write_file_with_missing_parent_retry fs st path_abs contents =
     (case write_file fs st path_abs contents of
        (st, Ok _) \<Rightarrow> (st, Ok ())
      | (st, Err e) \<Rightarrow>
          if err_kind e = NotFound then
            (case (case abs_parent path_abs of
                     None \<Rightarrow> (st, Ok ())
                   | Some parent_abs \<Rightarrow>
                       with_context (''Failed to create parent directories for '' @ path_abs)
                         (create_directory fs st parent_abs True)) of
               (st, Err e) \<Rightarrow> (st, Err e)
             | (st, Ok _) \<Rightarrow>
                 with_context (''Failed to write file '' @ path_abs) (write_file fs st path_abs contents))
          else (st, Err (InContext (''Failed to write file '' @ path_abs) e)))"

text \<open>The block that removes a file, for a deletion and for the source of a move.\<close>

definition remove_regular_file :: "'fs file_system \<Rightarrow> 'fs \<Rightarrow> string \<Rightarrow> 'fs \<times> (io_error, unit) result" where
  "remove_regular_file fs st path_abs =
     (case is_directory_at fs st path_abs of
        Err e \<Rightarrow> (st, Err e)
      | Ok is_directory \<Rightarrow>
          if is_directory then (st, Err \<lparr>err_kind = InvalidInput, err_message = ''path is a directory''\<rparr>)
          else remove_path fs st path_abs False False)"

record affected_paths =
  added_paths :: "string list"
  modified_paths :: "string list"
  deleted_paths :: "string list"

definition resolved :: "string option \<Rightarrow> string \<Rightarrow> hunk \<Rightarrow> string" where
  "resolved home cwd h = resolve_path (\<lambda>p. resolve_path_against_base home p cwd) h"

text \<open>One turn of the loop of \<open>apply_hunks_to_files\<close>.\<close>

fun apply_hunk :: "'fs file_system \<Rightarrow> string option \<Rightarrow> string \<Rightarrow> hunk \<Rightarrow> 'fs \<Rightarrow> affected_paths \<Rightarrow>
    'fs \<times> (anyhow_error, affected_paths) result option" where
  "apply_hunk fs home cwd (AddFile path contents) st aff =
     (let h = AddFile path contents in
      case write_file_with_missing_parent_retry fs st (resolved home cwd h) contents of
        (st, Err e) \<Rightarrow> (st, Some (Err e))
      | (st, Ok _) \<Rightarrow> (st, Some (Ok (aff\<lparr>added_paths := added_paths aff @ [hunk_path h]\<rparr>))))"
| "apply_hunk fs home cwd (DeleteFile path) st aff =
     (let h = DeleteFile path; path_abs = resolved home cwd h in
      case with_context (''Failed to delete file '' @ path_abs) (remove_regular_file fs st path_abs) of
        (st, Err e) \<Rightarrow> (st, Some (Err e))
      | (st, Ok _) \<Rightarrow> (st, Some (Ok (aff\<lparr>deleted_paths := deleted_paths aff @ [hunk_path h]\<rparr>))))"
| "apply_hunk fs home cwd (UpdateFile path move_path chunks) st aff =
     (let h = UpdateFile path move_path chunks; path_abs = resolved home cwd h;
          aff' = aff\<lparr>modified_paths := modified_paths aff @ [hunk_path h]\<rparr> in
      case derive_new_contents_from_chunks fs st path_abs chunks of
        None \<Rightarrow> (st, None)
      | Some (Err e) \<Rightarrow> (st, Some (Err (Applying e)))
      | Some (Ok applied) \<Rightarrow>
          (case move_path of
             Some dest \<Rightarrow>
               (case write_file_with_missing_parent_retry fs st (resolve_path_against_base home dest cwd)
                       (new_contents applied) of
                  (st, Err e) \<Rightarrow> (st, Some (Err e))
                | (st, Ok _) \<Rightarrow>
                    (case with_context (''Failed to remove original '' @ path_abs) (remove_regular_file fs st path_abs) of
                       (st, Err e) \<Rightarrow> (st, Some (Err e))
                     | (st, Ok _) \<Rightarrow> (st, Some (Ok aff'))))
           | None \<Rightarrow>
               (case with_context (''Failed to write file '' @ path_abs)
                       (write_file fs st path_abs (new_contents applied)) of
                  (st, Err e) \<Rightarrow> (st, Some (Err e))
                | (st, Ok _) \<Rightarrow> (st, Some (Ok aff')))))"

fun apply_hunks_loop :: "'fs file_system \<Rightarrow> string option \<Rightarrow> string \<Rightarrow> hunk list \<Rightarrow> 'fs \<Rightarrow> affected_paths \<Rightarrow>
    'fs \<times> (anyhow_error, affected_paths) result option" where
  "apply_hunks_loop fs home cwd [] st aff = (st, Some (Ok aff))"
| "apply_hunks_loop fs home cwd (h # hs) st aff =
     (case apply_hunk fs home cwd h st aff of
        (st, Some (Ok aff)) \<Rightarrow> apply_hunks_loop fs home cwd hs st aff
      | (st, r) \<Rightarrow> (st, r))"

definition no_paths :: affected_paths where
  "no_paths = \<lparr>added_paths = [], modified_paths = [], deleted_paths = []\<rparr>"

definition apply_hunks_to_files :: "'fs file_system \<Rightarrow> string option \<Rightarrow> string \<Rightarrow> hunk list \<Rightarrow> 'fs \<Rightarrow>
    'fs \<times> (anyhow_error, affected_paths) result option" where
  "apply_hunks_to_files fs home cwd hs st =
     (if hs = [] then (st, Some (Err (Message ''No files were modified.'')))
      else apply_hunks_loop fs home cwd hs st no_paths)"

section \<open>The report\<close>

text \<open>\<open>writeln!\<close>; a failed line ends the report.\<close>

definition write_line :: "'w writer \<Rightarrow> 'w \<Rightarrow> string \<Rightarrow> 'w \<times> (io_error, unit) result" where
  "write_line wr w s = wr w (s @ [nl])"

fun write_lines :: "'w writer \<Rightarrow> 'w \<Rightarrow> string list \<Rightarrow> 'w \<times> (io_error, unit) result" where
  "write_lines wr w [] = (w, Ok ())"
| "write_lines wr w (s # ss) =
     (case write_line wr w s of
        (w, Err e) \<Rightarrow> (w, Err e)
      | (w, Ok _) \<Rightarrow> write_lines wr w ss)"

definition print_summary :: "'w writer \<Rightarrow> affected_paths \<Rightarrow> 'w \<Rightarrow> 'w \<times> (io_error, unit) result" where
  "print_summary wr aff w =
     write_lines wr w (''Success. Updated the following files:'' #
       map ((@) ''A '') (added_paths aff) @ map ((@) ''M '') (modified_paths aff) @
       map ((@) ''D '') (deleted_paths aff))"

text \<open>The error an \<open>anyhow::Error\<close> is reported as; an I/O error shows through its context.\<close>

definition report_error :: "anyhow_error \<Rightarrow> apply_patch_error" where
  "report_error e = (case e of
      InContext _ io \<Rightarrow> from_io_error io
    | _ \<Rightarrow> IoError \<lparr>err_context = show_anyhow e,
                     err_source = \<lparr>err_kind = OtherKind, err_message = show_anyhow e\<rparr>\<rparr>)"

record ('fs, 'w) world =
  files :: 'fs
  stdout :: 'w
  stderr :: 'w

definition apply_hunks :: "'fs file_system \<Rightarrow> 'w writer \<Rightarrow> string option \<Rightarrow> string \<Rightarrow> hunk list \<Rightarrow>
    ('fs, 'w) world \<Rightarrow> ('fs, 'w) world \<times> (apply_patch_error, unit) result option" where
  "apply_hunks fs wr home cwd hs w =
     (case apply_hunks_to_files fs home cwd hs (files w) of
        (st, None) \<Rightarrow> (w\<lparr>files := st\<rparr>, None)
      | (st, Some (Ok affected)) \<Rightarrow>
          (case print_summary wr affected (stdout w) of
             (o', r) \<Rightarrow> (w\<lparr>files := st, stdout := o'\<rparr>, Some (map_sum from_io_error id r)))
      | (st, Some (Err e)) \<Rightarrow>
          (case write_line wr (stderr w) (show_anyhow e) of
             (e', Err io) \<Rightarrow> (w\<lparr>files := st, stderr := e'\<rparr>, Some (Err (from_io_error io)))
           | (e', Ok _) \<Rightarrow> (w\<lparr>files := st, stderr := e'\<rparr>, Some (Err (report_error e)))))"

fun parse_error_line :: "parse_error \<Rightarrow> string" where
  "parse_error_line (InvalidPatchError message) = ''Invalid patch: '' @ message"
| "parse_error_line (InvalidHunkError message line_number) =
     ''Invalid patch hunk on line '' @ show_nat line_number @ '': '' @ message"

definition apply_patch :: "'fs file_system \<Rightarrow> 'w writer \<Rightarrow> string option \<Rightarrow> string \<Rightarrow> string \<Rightarrow>
    ('fs, 'w) world \<Rightarrow> ('fs, 'w) world \<times> (apply_patch_error, unit) result option" where
  "apply_patch fs wr home text cwd w =
     (case parse_patch text of
        None \<Rightarrow> (w, None)
      | Some (Ok source) \<Rightarrow> apply_hunks fs wr home cwd (hunks source) w
      | Some (Err e) \<Rightarrow>
          (case write_line wr (stderr w) (parse_error_line e) of
             (e', Err io) \<Rightarrow> (w\<lparr>stderr := e'\<rparr>, Some (Err (from_io_error io)))
           | (e', Ok _) \<Rightarrow> (w\<lparr>stderr := e'\<rparr>, Some (Err (ParseError e)))))"

section \<open>What a file system promises\<close>

text \<open>The text of the file at a path, where there is one.\<close>

definition text_at :: "'fs file_system \<Rightarrow> 'fs \<Rightarrow> string \<Rightarrow> string option" where
  "text_at fs st p = (case read_file_text fs st p of Ok t \<Rightarrow> Some t | Err _ \<Rightarrow> None)"

text \<open>
  What the proofs use of a file system without aliases: a write that succeeds can be read back, a
  removal that succeeds leaves no file, directories can be created without touching files, and no
  operation, successful or not, changes the file at another path.
\<close>

definition fs_laws :: "'fs file_system \<Rightarrow> bool" where
  "fs_laws fs \<longleftrightarrow>
     (\<forall>st p c st'. write_file fs st p c = (st', Ok ()) \<longrightarrow> text_at fs st' p = Some c) \<and>
     (\<forall>st p c q. q \<noteq> p \<longrightarrow> text_at fs (fst (write_file fs st p c)) q = text_at fs st q) \<and>
     (\<forall>st p q. text_at fs (fst (create_directory fs st p True)) q = text_at fs st q) \<and>
     (\<forall>st p st'. remove_path fs st p False False = (st', Ok ()) \<longrightarrow> text_at fs st' p = None) \<and>
     (\<forall>st p q. q \<noteq> p \<longrightarrow> text_at fs (fst (remove_path fs st p False False)) q = text_at fs st q)"

lemma write_law: "fs_laws fs \<Longrightarrow> write_file fs st p c = (st', Ok ()) \<Longrightarrow> text_at fs st' p = Some c"
  and write_frame: "fs_laws fs \<Longrightarrow> q \<noteq> p \<Longrightarrow> text_at fs (fst (write_file fs st p c)) q = text_at fs st q"
  and mkdir_frame: "fs_laws fs \<Longrightarrow> text_at fs (fst (create_directory fs st p True)) q = text_at fs st q"
  and remove_law: "fs_laws fs \<Longrightarrow> remove_path fs st p False False = (st', Ok ()) \<Longrightarrow> text_at fs st' p = None"
  and remove_frame: "fs_laws fs \<Longrightarrow> q \<noteq> p \<Longrightarrow> text_at fs (fst (remove_path fs st p False False)) q = text_at fs st q"
  by (simp_all add: fs_laws_def)

lemma with_context_Ok: "with_context m r = (st, Ok u) \<longleftrightarrow> r = (st, Ok u)"
  by (cases r; cases "snd r"; auto simp: with_context_def)

lemma with_contextE: "with_context m r = (st, x) \<Longrightarrow> (\<And>y. r = (st, y) \<Longrightarrow> thesis) \<Longrightarrow> thesis"
  by (cases r) (auto simp: with_context_def)

text \<open>The frame laws for the state that comes out of an operation.\<close>

lemma frames:
  assumes "fs_laws fs"
  shows "write_file fs s p c = (s', r) \<Longrightarrow> q \<noteq> p \<Longrightarrow> text_at fs s' q = text_at fs s q"
    and "create_directory fs s p True = (s', r) \<Longrightarrow> text_at fs s' q = text_at fs s q"
    and "remove_path fs s p False False = (s', r) \<Longrightarrow> q \<noteq> p \<Longrightarrow> text_at fs s' q = text_at fs s q"
  using write_frame [OF assms, of q p s c] mkdir_frame [OF assms, of s p q] remove_frame [OF assms, of q p s]
  by simp_all

lemma retry_write_frame:
  assumes "fs_laws fs" "q \<noteq> p" "write_file_with_missing_parent_retry fs st p c = (st', r)"
  shows "text_at fs st' q = text_at fs st q"
  using assms(2,3)
  by (auto simp: write_file_with_missing_parent_retry_def split: sum.splits option.splits prod.splits if_splits
      elim!: with_contextE dest!: frames [OF assms(1), where q = q])

lemma remove_regular_frame:
  assumes "fs_laws fs" "q \<noteq> p" "remove_regular_file fs st p = (st', r)"
  shows "text_at fs st' q = text_at fs st q"
  using assms(2,3)
  by (auto simp: remove_regular_file_def split: sum.splits if_splits dest!: frames [OF assms(1), where q = q])

lemma retry_write_law:
  assumes "fs_laws fs" "write_file_with_missing_parent_retry fs st p c = (st', Ok ())"
  shows "text_at fs st' p = Some c"
  using assms write_law [OF assms(1)]
  by (auto simp: write_file_with_missing_parent_retry_def with_context_Ok split: prod.splits sum.splits option.splits if_splits)

lemma remove_regular_law:
  "fs_laws fs \<Longrightarrow> remove_regular_file fs st p = (st', Ok ()) \<Longrightarrow> text_at fs st' p = None"
  by (auto simp: remove_regular_file_def remove_law split: sum.splits if_splits)

section \<open>Which files a patch touches, and what becomes of them\<close>

fun touched :: "string option \<Rightarrow> string \<Rightarrow> hunk \<Rightarrow> string list" where
  "touched home cwd (UpdateFile path (Some dest) chunks) =
     [resolved home cwd (UpdateFile path (Some dest) chunks), resolve_path_against_base home dest cwd]"
| "touched home cwd h = [resolved home cwd h]"

lemma apply_hunk_frame:
  assumes "fs_laws fs" "q \<notin> set (touched home cwd h)" "apply_hunk fs home cwd h st aff = (st', r)"
  shows "text_at fs st' q = text_at fs st q"
proof (cases h)
  case (UpdateFile path move_path chunks)
  with assms(2,3) show ?thesis
    by (cases move_path)
      (auto simp: Let_def split: option.splits sum.splits prod.splits elim!: with_contextE
        dest!: retry_write_frame [OF assms(1), where q = q, rotated] remove_regular_frame [OF assms(1), where q = q, rotated]
          frames [OF assms(1), where q = q])
qed (use assms(2,3) in \<open>auto simp: Let_def split: sum.splits prod.splits elim!: with_contextE
        dest!: retry_write_frame [OF assms(1), where q = q, rotated] remove_regular_frame [OF assms(1), where q = q, rotated]\<close>)

lemma apply_hunks_loop_frame:
  assumes "fs_laws fs" "\<forall>h \<in> set hs. q \<notin> set (touched home cwd h)"
    and "apply_hunks_loop fs home cwd hs st aff = (st', r)"
  shows "text_at fs st' q = text_at fs st q"
  using assms(2,3)
proof (induction hs arbitrary: st aff)
  case (Cons h hs)
  obtain s1 r1 where h: "apply_hunk fs home cwd h st aff = (s1, r1)" by fastforce
  with apply_hunk_frame [OF assms(1) _ h] Cons.prems have "text_at fs s1 q = text_at fs st q" by simp
  with h Cons show ?case by (auto split: option.splits sum.splits)
qed simp

text \<open>What a successful hunk has done, between the state before and the state after.\<close>

definition derived :: "'fs file_system \<Rightarrow> 'fs \<Rightarrow> string \<Rightarrow> update_file_chunk list \<Rightarrow> string \<Rightarrow> bool" where
  "derived fs st path chunks new \<longleftrightarrow>
     (\<exists>contents. text_at fs st path = Some contents \<and>
        derive_from_contents path contents chunks =
          Some (Ok \<lparr>original_contents = contents, new_contents = new\<rparr>))"

fun hunk_done :: "'fs file_system \<Rightarrow> string option \<Rightarrow> string \<Rightarrow> 'fs \<Rightarrow> 'fs \<Rightarrow> hunk \<Rightarrow> bool" where
  "hunk_done fs home cwd st st' (AddFile path contents) \<longleftrightarrow>
     text_at fs st' (resolved home cwd (AddFile path contents)) = Some contents"
| "hunk_done fs home cwd st st' (DeleteFile path) \<longleftrightarrow>
     text_at fs st' (resolved home cwd (DeleteFile path)) = None"
| "hunk_done fs home cwd st st' (UpdateFile path None chunks) \<longleftrightarrow>
     (let p = resolved home cwd (UpdateFile path None chunks) in
      \<exists>new. derived fs st p chunks new \<and> text_at fs st' p = Some new)"
| "hunk_done fs home cwd st st' (UpdateFile path (Some dest) chunks) \<longleftrightarrow>
     (let p = resolved home cwd (UpdateFile path (Some dest) chunks) in
      \<exists>new. derived fs st p chunks new \<and>
        text_at fs st' (resolve_path_against_base home dest cwd) = Some new \<and> text_at fs st' p = None)"

lemma derived_cong: "text_at fs st p = text_at fs st2 p \<Longrightarrow> derived fs st p chunks = derived fs st2 p chunks"
  by (simp add: derived_def fun_eq_iff)

lemma hunk_done_cong:
  assumes "\<forall>q \<in> set (touched home cwd h). text_at fs st q = text_at fs st2 q \<and> text_at fs st' q = text_at fs st2' q"
  shows "hunk_done fs home cwd st st' h = hunk_done fs home cwd st2 st2' h"
proof (cases h)
  case (UpdateFile path move_path chunks)
  with assms show ?thesis
    using derived_cong [of fs st "resolved home cwd h" st2 chunks] by (cases move_path) (simp_all add: Let_def)
qed (use assms in simp_all)

lemma derive_new_contents_Ok:
  assumes "derive_new_contents_from_chunks fs st p chunks = Some (Ok applied)"
  shows "derived fs st p chunks (new_contents applied)"
proof -
  from assms obtain contents where "read_file_text fs st p = Ok contents"
      "derive_from_contents p contents chunks = Some (Ok applied)"
    by (auto simp: derive_new_contents_from_chunks_def split: sum.splits)
  moreover from this(2) have "original_contents applied = contents"
    by (auto simp: derive_from_contents_def Let_def split: sum.splits option.splits)
  ultimately show ?thesis by (auto simp: derived_def text_at_def)
qed

fun record_hunk :: "hunk \<Rightarrow> affected_paths \<Rightarrow> affected_paths" where
  "record_hunk (AddFile path contents) aff = aff\<lparr>added_paths := added_paths aff @ [path]\<rparr>"
| "record_hunk (DeleteFile path) aff = aff\<lparr>deleted_paths := deleted_paths aff @ [path]\<rparr>"
| "record_hunk (UpdateFile path None chunks) aff = aff\<lparr>modified_paths := modified_paths aff @ [path]\<rparr>"
| "record_hunk (UpdateFile path (Some dest) chunks) aff = aff\<lparr>modified_paths := modified_paths aff @ [dest]\<rparr>"

lemma apply_hunk_recorded:
  "apply_hunk fs home cwd h st aff = (st', Some (Ok aff')) \<Longrightarrow> aff' = record_hunk h aff"
  by (cases "(h, aff)" rule: record_hunk.cases)
    (auto simp: Let_def split: option.splits sum.splits prod.splits)

lemma apply_hunk_done:
  assumes "fs_laws fs" "apply_hunk fs home cwd h st aff = (st', Some (Ok aff'))" "distinct (touched home cwd h)"
  shows "hunk_done fs home cwd st st' h"
proof (cases "(h, aff)" rule: record_hunk.cases)
  case (1 path contents aff0)
  with assms show ?thesis
    by (auto simp: Let_def retry_write_law split: sum.splits prod.splits)
next
  case (2 path aff0)
  with assms show ?thesis
    by (auto simp: Let_def remove_regular_law with_context_Ok split: sum.splits prod.splits)
next
  case (3 path chunks aff0)
  with assms show ?thesis
    by (auto simp: Let_def write_law with_context_Ok split: sum.splits prod.splits option.splits
        dest!: derive_new_contents_Ok)
next
  case (4 path dest chunks aff0)
  let ?p = "resolved home cwd (UpdateFile path (Some dest) chunks)" and ?d = "resolve_path_against_base home dest cwd"
  from assms(2) 4 obtain applied s1 where
    run: "derive_new_contents_from_chunks fs st ?p chunks = Some (Ok applied)"
      "write_file_with_missing_parent_retry fs st ?d (new_contents applied) = (s1, Ok ())"
      "remove_regular_file fs s1 ?p = (st', Ok ())"
    by (auto simp: Let_def with_context_Ok split: sum.splits prod.splits option.splits)
  have "?d \<noteq> ?p" using assms(3) 4 by auto
  from remove_regular_frame [OF assms(1) this run(3)] retry_write_law [OF assms(1) run(2)]
    remove_regular_law [OF assms(1) run(3)] derive_new_contents_Ok [OF run(1)] 4
  show ?thesis by auto
qed

lemma apply_hunks_loop_done:
  assumes "fs_laws fs" "apply_hunks_loop fs home cwd hs st aff = (st', Some (Ok aff'))"
    and "distinct (concat (map (touched home cwd) hs))"
  shows "(\<forall>h \<in> set hs. hunk_done fs home cwd st st' h) \<and> aff' = fold record_hunk hs aff"
  using assms(2,3)
proof (induction hs arbitrary: st aff)
  case (Cons h hs)
  then obtain s1 aff1 where h: "apply_hunk fs home cwd h st aff = (s1, Some (Ok aff1))"
      and rest: "apply_hunks_loop fs home cwd hs s1 aff1 = (st', Some (Ok aff'))"
    by (auto split: option.splits sum.splits prod.splits)
  have IH: "\<forall>g \<in> set hs. hunk_done fs home cwd s1 st' g" "aff' = fold record_hunk hs aff1"
    using Cons.IH [OF rest] Cons.prems(2) by simp_all
  have apart: "\<forall>g \<in> set hs. set (touched home cwd h) \<inter> set (touched home cwd g) = {}"
    using Cons.prems(2) by auto
  have "hunk_done fs home cwd st s1 h" using apply_hunk_done [OF assms(1) h] Cons.prems(2) by simp
  moreover have "text_at fs st' q = text_at fs s1 q" if "q \<in> set (touched home cwd h)" for q
    using apply_hunks_loop_frame [OF assms(1) _ rest, of q] apart that by auto
  ultimately have "hunk_done fs home cwd st st' h"
    using hunk_done_cong [of home cwd h fs st st s1 st'] by simp
  moreover have "hunk_done fs home cwd st st' g" if "g \<in> set hs" for g
    using hunk_done_cong [of home cwd g fs s1 st st' st'] IH(1) that apply_hunk_frame [OF assms(1) _ h] apart
    by (metis disjoint_iff)
  ultimately show ?case using IH(2) apply_hunk_recorded [OF h] by simp
qed simp

section \<open>A file system in memory\<close>

text \<open>Files as a map, and the directories that exist; a write needs the parent directory.\<close>

type_synonym mem = "(string \<Rightarrow> string option) \<times> string list"

definition not_found :: io_error where
  "not_found = \<lparr>err_kind = NotFound, err_message = ''No such file or directory''\<rparr>"

definition mem_fs :: "mem file_system" where
  "mem_fs = \<lparr>
     read_file_text = (\<lambda>st p. case fst st p of Some t \<Rightarrow> Ok t | None \<Rightarrow> Err not_found),
     write_file = (\<lambda>st p c. case abs_parent p of
         Some d \<Rightarrow> if d \<in> set (snd st) then (((fst st)(p := Some c), snd st), Ok ()) else (st, Err not_found)
       | None \<Rightarrow> (st, Err \<lparr>err_kind = OtherKind, err_message = ''Is a directory''\<rparr>)),
     create_directory = (\<lambda>st p recursive. ((fst st, p # snd st), Ok ())),
     is_directory_at = (\<lambda>st p. if p \<in> set (snd st) then Ok True
       else if fst st p = None then Err not_found else Ok False),
     remove_path = (\<lambda>st p recursive force. case fst st p of
         None \<Rightarrow> (st, Err not_found)
       | Some _ \<Rightarrow> (((fst st)(p := None), snd st), Ok ()))\<rparr>"

lemma mem_fs_laws: "fs_laws mem_fs"
  by (auto simp: fs_laws_def mem_fs_def text_at_def split: option.splits if_splits)

definition buffer :: "string writer" where
  "buffer w s = (w @ s, Ok ())"

definition sample_world :: "(mem, string) world" where
  "sample_world = \<lparr>files = ((\<lambda>_. None)(''/w/a'' := Some (''x'' @ [nl])), [''/w'']), stdout = [], stderr = []\<rparr>"

text \<open>One file updated and moved, one added below a directory that is not there yet.\<close>

definition sample_patch_text :: string where
  "sample_patch_text = join [nl]
     [''*** Begin Patch'', ''*** Update File: a'', ''*** Move to: b'', ''@@'', ''-x'', ''+y'',
      ''*** Add File: d/c'', ''+z'', ''*** End Patch'']"

definition sample_hunks :: "hunk list" where
  "sample_hunks =
     [UpdateFile ''a'' (Some ''b'')
        [\<lparr>change_context = None, old_lines = [''x''], new_lines = [''y''], is_end_of_file = False\<rparr>],
      AddFile ''d/c'' (''z'' @ [nl])]"

lemma sample_patch_parses:
  "parse_patch sample_patch_text =
     Some (Ok \<lparr>patch = sample_patch_text, hunks = sample_hunks, workdir = None\<rparr>)"
  by code_simp

section \<open>The properties of applying a patch\<close>

lemma apply_hunk_total: "\<exists>st' r. apply_hunk fs home cwd h st aff = (st', Some r)"
proof (cases h)
  case (UpdateFile path move_path chunks)
  have "\<exists>r. derive_new_contents_from_chunks fs st p chunks = Some r" for p
    using derive_total by (auto simp: derive_new_contents_from_chunks_def split: sum.split)
  then obtain r where "derive_new_contents_from_chunks fs st (resolved home cwd h) chunks = Some r" by blast
  with UpdateFile show ?thesis by (auto simp: Let_def split: option.split sum.split prod.split)
qed (auto simp: Let_def split: sum.split prod.split)

lemma apply_hunks_loop_total: "\<exists>st' r. apply_hunks_loop fs home cwd hs st aff = (st', Some r)"
proof (induction hs arbitrary: st aff)
  case (Cons h hs)
  obtain s1 r1 where "apply_hunk fs home cwd h st aff = (s1, Some r1)"
    using apply_hunk_total [of fs home cwd h st aff] by blast
  with Cons show ?case by (cases r1) auto
qed simp

text \<open>
  C34 (apply_patch_total). Applying a patch never panics: on every text, every file system and every
  writer it returns success or an error, whatever the operations of the file system return.
\<close>

theorem apply_patch_total: "\<exists>w' r. apply_patch fs wr home text cwd w = (w', Some r)"
proof -
  obtain p where p: "parse_patch text = Some p"
    using parse_patch_text_answers by (auto simp: parse_patch_def)
  have "\<exists>w' r. apply_hunks fs wr home cwd hs w = (w', Some r)" for hs
  proof -
    obtain st r where run: "apply_hunks_to_files fs home cwd hs (files w) = (st, Some r)"
      using apply_hunks_loop_total [of fs home cwd hs "files w" no_paths]
      by (cases "hs = []") (auto simp: apply_hunks_to_files_def)
    then show ?thesis by (cases r) (simp_all add: apply_hunks_def split: sum.split prod.split)
  qed
  with p show ?thesis by (auto simp: apply_patch_def split: sum.split prod.split)
qed

lemma apply_patch_untouched:
  assumes "fs_laws fs" "apply_patch fs wr home text cwd w = (w', r)"
    and "\<forall>source. parse_patch text = Some (Ok source) \<longrightarrow> (\<forall>h \<in> set (hunks source). q \<notin> set (touched home cwd h))"
  shows "text_at fs (files w') q = text_at fs (files w) q"
proof (cases "\<exists>source. parse_patch text = Some (Ok source)")
  case True
  then obtain source where source: "parse_patch text = Some (Ok source)" by blast
  obtain st r' where run: "apply_hunks_to_files fs home cwd (hunks source) (files w) = (st, r')" by fastforce
  then have "text_at fs st q = text_at fs (files w) q"
    using apply_hunks_loop_frame [OF assms(1), of "hunks source" q] assms(3) source
    by (auto simp: apply_hunks_to_files_def split: if_splits)
  moreover have "files w' = st"
    using assms(2) source run
    by (auto simp: apply_patch_def apply_hunks_def split: option.splits sum.splits prod.splits)
  ultimately show ?thesis by simp
next
  case False
  with assms(2) have "files w' = files w"
    by (auto simp: apply_patch_def split: option.splits sum.splits prod.splits)
  then show ?thesis by simp
qed

text \<open>
  C30 (apply_patch_frame). A patch changes no file but those it names: the text of every file that is
  neither the path of a hunk nor the destination of a move, resolved against the working directory,
  is the same afterwards, also when the patch is rejected or fails half way.
\<close>

theorem apply_patch_frame:
  assumes "fs_laws fs" "apply_patch fs wr home text cwd w = (w', r)"
    and "\<forall>source. parse_patch text = Some (Ok source) \<longrightarrow> (\<forall>h \<in> set (hunks source). q \<notin> set (touched home cwd h))"
  shows "text_at fs (files w') q = text_at fs (files w) q"
  using apply_patch_untouched [OF assms] .

theorem apply_patch_frame_witness:
  "text_at mem_fs (files (fst (apply_patch mem_fs buffer None sample_patch_text ''/w'' sample_world))) ''/w/z'' =
   text_at mem_fs (files sample_world) ''/w/z''"
proof (rule apply_patch_frame [OF mem_fs_laws])
  show "apply_patch mem_fs buffer None sample_patch_text ''/w'' sample_world =
      (fst (apply_patch mem_fs buffer None sample_patch_text ''/w'' sample_world),
       snd (apply_patch mem_fs buffer None sample_patch_text ''/w'' sample_world))"
    by simp
  have "\<forall>h \<in> set sample_hunks. ''/w/z'' \<notin> set (touched None ''/w'' h)" by code_simp
  then show "\<forall>source. parse_patch sample_patch_text = Some (Ok source) \<longrightarrow>
      (\<forall>h \<in> set (hunks source). ''/w/z'' \<notin> set (touched None ''/w'' h))"
    by (simp add: sample_patch_parses)
qed

text \<open>
  C2 (apply_patch_done). A patch that reports success, and whose hunks name distinct files, has done
  what it says: added files have their contents, deleted files are gone, updated files have the
  contents derived from their text before the patch, moved files are at the destination only; stdout
  gets the summary of exactly these paths, in order, and stderr nothing.
\<close>

theorem apply_patch_done:
  assumes "fs_laws fs" "parse_patch text = Some (Ok source)"
    and "apply_patch fs wr home text cwd w = (w', Some (Ok ()))"
    and "distinct (concat (map (touched home cwd) (hunks source)))"
  shows "(\<forall>h \<in> set (hunks source). hunk_done fs home cwd (files w) (files w') h) \<and>
    stdout w' = fst (print_summary wr (fold record_hunk (hunks source) no_paths) (stdout w)) \<and>
    stderr w' = stderr w"
proof -
  obtain st aff where run: "apply_hunks_to_files fs home cwd (hunks source) (files w) = (st, Some (Ok aff))"
    using assms(2,3)
    by (auto simp: apply_patch_def apply_hunks_def split: option.splits sum.splits prod.splits)
  then have loop: "apply_hunks_loop fs home cwd (hunks source) (files w) no_paths = (st, Some (Ok aff))"
    by (auto simp: apply_hunks_to_files_def split: if_splits)
  have "w' = w\<lparr>files := st, stdout := fst (print_summary wr aff (stdout w))\<rparr>"
    using assms(2,3) run by (auto simp: apply_patch_def apply_hunks_def split: prod.splits)
  with apply_hunks_loop_done [OF assms(1) loop assms(4)] show ?thesis by simp
qed

theorem apply_patch_done_witness:
  "let w' = fst (apply_patch mem_fs buffer None sample_patch_text ''/w'' sample_world) in
     (\<forall>h \<in> set sample_hunks. hunk_done mem_fs None ''/w'' (files sample_world) (files w') h) \<and>
     stdout w' = join [nl] [''Success. Updated the following files:'', ''A d/c'', ''M b'', []]"
proof -
  let ?run = "apply_patch mem_fs buffer None sample_patch_text ''/w'' sample_world"
  have "snd ?run = Some (Ok ())" by code_simp
  then have run: "?run = (fst ?run, Some (Ok ()))" by (metis prod.collapse)
  have "distinct (concat (map (touched None ''/w'') sample_hunks))" by code_simp
  from apply_patch_done [OF mem_fs_laws sample_patch_parses run] this
  have "\<forall>h \<in> set sample_hunks. hunk_done mem_fs None ''/w'' (files sample_world) (files (fst ?run)) h"
    "stdout (fst ?run) = fst (print_summary buffer (fold record_hunk sample_hunks no_paths) (stdout sample_world))"
    by simp_all
  moreover have "fst (print_summary buffer (fold record_hunk sample_hunks no_paths) (stdout sample_world)) =
      join [nl] [''Success. Updated the following files:'', ''A d/c'', ''M b'', []]"
    by code_simp
  ultimately show ?thesis by (simp add: Let_def)
qed

text \<open>
  Moving a file onto itself deletes it: a hunk whose destination resolves to its
  own path reports success, and afterwards there is no file at that path.
\<close>

lemma move_onto_itself:
  assumes "fs_laws fs" "resolve_path_against_base home dest cwd = resolve_path_against_base home path cwd"
    and "apply_hunk fs home cwd (UpdateFile path (Some dest) chunks) st aff = (st', Some (Ok aff'))"
  shows "text_at fs st' (resolve_path_against_base home path cwd) = None"
  using assms(3)
  by (auto simp: Let_def with_context_Ok resolved_def resolve_path_def
      intro: remove_regular_law [OF assms(1)] split: sum.splits prod.splits option.splits)

lemma move_onto_itself_witness:
  "text_at mem_fs (fst (apply_hunk mem_fs None ''/w'' (UpdateFile ''a'' (Some ''./a'')
       [\<lparr>change_context = None, old_lines = [''x''], new_lines = [''y''], is_end_of_file = False\<rparr>])
     (files sample_world) no_paths)) ''/w/a'' = None"
proof -
  let ?h = "UpdateFile ''a'' (Some ''./a'')
       [\<lparr>change_context = None, old_lines = [''x''], new_lines = [''y''], is_end_of_file = False\<rparr>]"
  let ?run = "apply_hunk mem_fs None ''/w'' ?h (files sample_world) no_paths"
  have "snd ?run = Some (Ok (record_hunk ?h no_paths))" by code_simp
  then have run: "?run = (fst ?run, Some (Ok (record_hunk ?h no_paths)))" by (metis prod.collapse)
  have same: "resolve_path_against_base None ''./a'' ''/w'' = resolve_path_against_base None ''a'' ''/w''"
    and at: "resolve_path_against_base None ''a'' ''/w'' = ''/w/a''"
    by code_simp+
  from move_onto_itself [OF mem_fs_laws same run] show ?thesis unfolding at .
qed

end
