(* ===== verification/Patch_Invocation.thy ===== *)
theory Patch_Invocation
  imports Patch_Fs
begin

text \<open>
  \<open>codex-rs/apply-patch/src/invocation.rs\<close>: recognising a command line that calls \<open>apply_patch\<close> and
  previewing the changes it would make.

  Three things of other packages are parameters: the matches of the tree-sitter query over a bash
  script, the unified diff of two texts, and the file system.
\<close>

section \<open>Shells\<close>

definition APPLY_PATCH_COMMANDS :: "string list" where
  "APPLY_PATCH_COMMANDS = [''apply_patch'', ''applypatch'']"

datatype apply_patch_shell = Unix | PowerShell | Cmd

definition eq_ignore_ascii_case :: "string \<Rightarrow> string \<Rightarrow> bool" where
  "eq_ignore_ascii_case a b \<longleftrightarrow> to_ascii_lowercase a = to_ascii_lowercase b"

definition classify_shell_name :: "string \<Rightarrow> string option" where
  "classify_shell_name shell = map_option to_ascii_lowercase (file_stem shell)"

definition classify_shell :: "string \<Rightarrow> string \<Rightarrow> apply_patch_shell option" where
  "classify_shell shell flag =
     (case classify_shell_name shell of
        None \<Rightarrow> None
      | Some name \<Rightarrow>
          if name \<in> {''bash'', ''zsh'', ''sh''} \<and> flag \<in> {''-lc'', ''-c''} then Some Unix
          else if name \<in> {''pwsh'', ''powershell''} \<and> eq_ignore_ascii_case flag ''-command'' then Some PowerShell
          else if name = ''cmd'' \<and> eq_ignore_ascii_case flag ''/c'' then Some Cmd
          else None)"

definition can_skip_flag :: "string \<Rightarrow> string \<Rightarrow> bool" where
  "can_skip_flag shell flag =
     (case classify_shell_name shell of
        None \<Rightarrow> False
      | Some name \<Rightarrow> name \<in> {''pwsh'', ''powershell''} \<and> eq_ignore_ascii_case flag ''-noprofile'')"

fun parse_shell_script :: "string list \<Rightarrow> (apply_patch_shell \<times> string) option" where
  "parse_shell_script [shell, flag, script] = map_option (\<lambda>t. (t, script)) (classify_shell shell flag)"
| "parse_shell_script [shell, skip_flag, flag, script] =
     (if can_skip_flag shell skip_flag then map_option (\<lambda>t. (t, script)) (classify_shell shell flag) else None)"
| "parse_shell_script _ = None"

section \<open>The heredoc\<close>

datatype extract_heredoc_error =
    CommandDidNotStartWithApplyPatch
  | FailedToLoadBashGrammar
  | HeredocNotUtf8
  | FailedToParsePatchIntoAst
  | FailedToFindHeredocBody

text \<open>A capture of the query: its name and its text, when the bytes are UTF-8.\<close>

type_synonym capture = "string \<times> string option"

text \<open>The matches of the query over a script, or why there are none.\<close>

type_synonym bash_query = "string \<Rightarrow> (extract_heredoc_error, capture list list) result"

text \<open>The quotes around a raw string.\<close>

definition unquote_raw :: "string \<Rightarrow> string" where
  "unquote_raw raw =
     (case strip_prefix [CHR 0x27] raw of
        None \<Rightarrow> raw
      | Some s \<Rightarrow> (case strip_suffix [CHR 0x27] s of None \<Rightarrow> raw | Some t \<Rightarrow> t))"

text \<open>The captures of one match: the heredoc text and the path of the \<open>cd\<close>.\<close>

fun read_captures :: "capture list \<Rightarrow> string option \<Rightarrow> string option \<Rightarrow>
    (extract_heredoc_error, string option \<times> string option) result" where
  "read_captures [] heredoc_text cd_path = Ok (heredoc_text, cd_path)"
| "read_captures ((name, text) # cs) heredoc_text cd_path =
     (if name = ''heredoc'' then
        (case text of None \<Rightarrow> Err HeredocNotUtf8
         | Some t \<Rightarrow> read_captures cs (Some (trim_end_matches nl t)) cd_path)
      else if name = ''cd_path'' then
        (case text of None \<Rightarrow> Err HeredocNotUtf8 | Some t \<Rightarrow> read_captures cs heredoc_text (Some t))
      else if name = ''cd_raw_string'' then
        (case text of None \<Rightarrow> Err HeredocNotUtf8 | Some t \<Rightarrow> read_captures cs heredoc_text (Some (unquote_raw t)))
      else read_captures cs heredoc_text cd_path)"

fun first_heredoc :: "capture list list \<Rightarrow> (extract_heredoc_error, string \<times> string option) result" where
  "first_heredoc [] = Err CommandDidNotStartWithApplyPatch"
| "first_heredoc (m # ms) =
     (case read_captures m None None of
        Err e \<Rightarrow> Err e
      | Ok (Some body, cd_path) \<Rightarrow> Ok (body, cd_path)
      | Ok (None, _) \<Rightarrow> first_heredoc ms)"

definition extract_apply_patch_from_bash :: "bash_query \<Rightarrow> string \<Rightarrow>
    (extract_heredoc_error, string \<times> string option) result" where
  "extract_apply_patch_from_bash query src =
     (case query src of Err e \<Rightarrow> Err e | Ok matches \<Rightarrow> first_heredoc matches)"

definition extract_apply_patch_from_shell :: "bash_query \<Rightarrow> apply_patch_shell \<Rightarrow> string \<Rightarrow>
    (extract_heredoc_error, string \<times> string option) result" where
  "extract_apply_patch_from_shell query shell script =
     (case shell of Unix \<Rightarrow> extract_apply_patch_from_bash query script
      | PowerShell \<Rightarrow> extract_apply_patch_from_bash query script
      | Cmd \<Rightarrow> extract_apply_patch_from_bash query script)"

section \<open>Recognising a call\<close>

datatype maybe_apply_patch =
    Body apply_patch_args
  | ShellParseError extract_heredoc_error
  | PatchParseError parse_error
  | NotApplyPatch

definition maybe_parse_from_shell :: "bash_query \<Rightarrow> string list \<Rightarrow> maybe_apply_patch option" where
  "maybe_parse_from_shell query argv =
     (case parse_shell_script argv of
        None \<Rightarrow> Some NotApplyPatch
      | Some (shell, script) \<Rightarrow>
          (case extract_apply_patch_from_shell query shell script of
             Ok (body, dir) \<Rightarrow>
               (case parse_patch body of
                  None \<Rightarrow> None
                | Some (Ok source) \<Rightarrow> Some (Body (source\<lparr>workdir := dir\<rparr>))
                | Some (Err e) \<Rightarrow> Some (PatchParseError e))
           | Err e \<Rightarrow>
               if e = CommandDidNotStartWithApplyPatch then Some NotApplyPatch else Some (ShellParseError e)))"

definition maybe_parse_apply_patch :: "bash_query \<Rightarrow> string list \<Rightarrow> maybe_apply_patch option" where
  "maybe_parse_apply_patch query argv =
     (case argv of
        [cmd, body] \<Rightarrow>
          if cmd \<in> set APPLY_PATCH_COMMANDS then
            (case parse_patch body of
               None \<Rightarrow> None
             | Some (Ok source) \<Rightarrow> Some (Body source)
             | Some (Err e) \<Rightarrow> Some (PatchParseError e))
          else maybe_parse_from_shell query argv
      | _ \<Rightarrow> maybe_parse_from_shell query argv)"

section \<open>The preview\<close>

text \<open>The unified diff of two texts with a number of context lines (package \<open>similar\<close>).\<close>

type_synonym differ = "string \<Rightarrow> string \<Rightarrow> nat \<Rightarrow> string"

record apply_patch_file_update =
  unified_diff :: string
  content :: string

definition unified_diff_from_chunks_with_context :: "differ \<Rightarrow> 'fs file_system \<Rightarrow> 'fs \<Rightarrow> string \<Rightarrow>
    update_file_chunk list \<Rightarrow> nat \<Rightarrow> (apply_patch_error, apply_patch_file_update) result option" where
  "unified_diff_from_chunks_with_context diff fs st path_abs chunks context =
     map_option (map_sum id (\<lambda>applied.
        \<lparr>unified_diff = diff (original_contents applied) (new_contents applied) context,
         content = new_contents applied\<rparr>))
       (derive_new_contents_from_chunks fs st path_abs chunks)"

definition unified_diff_from_chunks :: "differ \<Rightarrow> 'fs file_system \<Rightarrow> 'fs \<Rightarrow> string \<Rightarrow>
    update_file_chunk list \<Rightarrow> (apply_patch_error, apply_patch_file_update) result option" where
  "unified_diff_from_chunks diff fs st path_abs chunks =
     unified_diff_from_chunks_with_context diff fs st path_abs chunks 1"

datatype apply_patch_file_change =
    Add string
  | Delete string
  | Update string "string option" string

record apply_patch_action =
  changes :: "string \<Rightarrow> apply_patch_file_change option"
  action_patch :: string
  action_cwd :: string

datatype maybe_apply_patch_verified =
    VerifiedBody apply_patch_action
  | VerifiedShellParseError extract_heredoc_error
  | CorrectnessError apply_patch_error
  | VerifiedNotApplyPatch

text \<open>The change one hunk previews.\<close>

fun preview_hunk :: "differ \<Rightarrow> 'fs file_system \<Rightarrow> 'fs \<Rightarrow> string option \<Rightarrow> string \<Rightarrow> hunk \<Rightarrow>
    (apply_patch_error, apply_patch_file_change) result option" where
  "preview_hunk diff fs st home cwd (AddFile path contents) = Some (Ok (Add contents))"
| "preview_hunk diff fs st home cwd (DeleteFile path) =
     (let p = resolved home cwd (DeleteFile path) in
      case read_file_text fs st p of
        Ok t \<Rightarrow> Some (Ok (Delete t))
      | Err e \<Rightarrow> Some (Err (IoError \<lparr>err_context = ''Failed to read '' @ p, err_source = e\<rparr>)))"
| "preview_hunk diff fs st home cwd (UpdateFile path move_path chunks) =
     (let p = resolved home cwd (UpdateFile path move_path chunks) in
      map_option (map_sum id (\<lambda>u. Update (unified_diff u) (map_option (abs_join home cwd) move_path) (content u)))
        (unified_diff_from_chunks diff fs st p chunks))"

fun preview_loop :: "differ \<Rightarrow> 'fs file_system \<Rightarrow> 'fs \<Rightarrow> string option \<Rightarrow> string \<Rightarrow> hunk list \<Rightarrow>
    (string \<Rightarrow> apply_patch_file_change option) \<Rightarrow>
    (apply_patch_error, string \<Rightarrow> apply_patch_file_change option) result option" where
  "preview_loop diff fs st home cwd [] cs = Some (Ok cs)"
| "preview_loop diff fs st home cwd (h # hs) cs =
     (case preview_hunk diff fs st home cwd h of
        None \<Rightarrow> None
      | Some (Err e) \<Rightarrow> Some (Err e)
      | Some (Ok c) \<Rightarrow> preview_loop diff fs st home cwd hs (cs(resolved home cwd h \<mapsto> c)))"

definition parses :: "string \<Rightarrow> bool" where
  "parses text \<longleftrightarrow> (case parse_patch text of Some (Ok _) \<Rightarrow> True | _ \<Rightarrow> False)"

text \<open>A patch given as the whole command, or as the script of a shell.\<close>

definition implicit_invocation :: "string list \<Rightarrow> bool" where
  "implicit_invocation argv \<longleftrightarrow>
     (case argv of [body] \<Rightarrow> parses body | _ \<Rightarrow> False) \<or>
     (case parse_shell_script argv of Some (_, script) \<Rightarrow> parses script | None \<Rightarrow> False)"

definition maybe_parse_apply_patch_verified :: "bash_query \<Rightarrow> differ \<Rightarrow> 'fs file_system \<Rightarrow> 'fs \<Rightarrow> string option \<Rightarrow>
    string list \<Rightarrow> string \<Rightarrow> maybe_apply_patch_verified option" where
  "maybe_parse_apply_patch_verified query diff fs st home argv cwd =
     (if implicit_invocation argv then Some (CorrectnessError ImplicitInvocation)
      else
        (case maybe_parse_apply_patch query argv of
           None \<Rightarrow> None
         | Some (Body args) \<Rightarrow>
             (let effective_cwd = (case workdir args of Some dir \<Rightarrow> abs_join home cwd dir | None \<Rightarrow> cwd) in
              map_option (\<lambda>r. case r of
                   Err e \<Rightarrow> CorrectnessError e
                 | Ok cs \<Rightarrow> VerifiedBody \<lparr>changes = cs, action_patch = patch args, action_cwd = effective_cwd\<rparr>)
                (preview_loop diff fs st home effective_cwd (hunks args) (\<lambda>_. None)))
         | Some (ShellParseError e) \<Rightarrow> Some (VerifiedShellParseError e)
         | Some (PatchParseError e) \<Rightarrow> Some (CorrectnessError (ParseError e))
         | Some NotApplyPatch \<Rightarrow> Some VerifiedNotApplyPatch))"

section \<open>The preview shows what the patch does\<close>

text \<open>What a previewed change says of the files before and afterwards.\<close>

fun change_done :: "differ \<Rightarrow> 'fs file_system \<Rightarrow> 'fs \<Rightarrow> 'fs \<Rightarrow> string \<Rightarrow> apply_patch_file_change \<Rightarrow> bool" where
  "change_done diff fs st st' p (Add c) \<longleftrightarrow> text_at fs st' p = Some c"
| "change_done diff fs st st' p (Delete c) \<longleftrightarrow> text_at fs st p = Some c \<and> text_at fs st' p = None"
| "change_done diff fs st st' p (Update d dest c) \<longleftrightarrow>
     (\<exists>before. text_at fs st p = Some before \<and> d = diff before c 1) \<and>
     (case dest of
        None \<Rightarrow> text_at fs st' p = Some c
      | Some q \<Rightarrow> text_at fs st' q = Some c \<and> text_at fs st' p = None)"

lemma preview_loop_changes:
  assumes "preview_loop diff fs st home cwd hs cs = Some (Ok cs')" "cs' p = Some c"
  shows "cs p = Some c \<or> (\<exists>h \<in> set hs. resolved home cwd h = p \<and> preview_hunk diff fs st home cwd h = Some (Ok c))"
  using assms
proof (induction hs arbitrary: cs)
  case (Cons h hs)
  then obtain d where d: "preview_hunk diff fs st home cwd h = Some (Ok d)"
      "preview_loop diff fs st home cwd hs (cs(resolved home cwd h \<mapsto> d)) = Some (Ok cs')"
    by (auto split: option.splits sum.splits)
  from Cons.IH [OF d(2) Cons.prems(2)] d(1) show ?case by (auto split: if_splits)
qed simp

lemma verified_preview:
  assumes "maybe_parse_apply_patch_verified query diff fs st home argv cwd = Some (VerifiedBody action)"
    and "maybe_parse_apply_patch query argv = Some (Body args)"
  shows "preview_loop diff fs st home (action_cwd action) (hunks args) (\<lambda>_. None) = Some (Ok (changes action))"
proof -
  obtain r where r: "preview_loop diff fs st home
        (case workdir args of Some dir \<Rightarrow> abs_join home cwd dir | None \<Rightarrow> cwd) (hunks args) (\<lambda>_. None) = Some r"
      "(case r of Err e \<Rightarrow> CorrectnessError e
        | Ok cs \<Rightarrow> VerifiedBody \<lparr>changes = cs, action_patch = patch args,
            action_cwd = (case workdir args of Some dir \<Rightarrow> abs_join home cwd dir | None \<Rightarrow> cwd)\<rparr>) = VerifiedBody action"
    using assms by (auto simp: maybe_parse_apply_patch_verified_def Let_def split: if_splits)
  then show ?thesis by (cases r) auto
qed

lemma preview_loop_keeps:
  assumes "preview_loop diff fs st home cwd hs cs = Some (Ok cs')" "p \<notin> resolved home cwd ` set hs"
  shows "cs' p = cs p"
  using assms
proof (induction hs arbitrary: cs)
  case (Cons h hs)
  then obtain d where "preview_loop diff fs st home cwd hs (cs(resolved home cwd h \<mapsto> d)) = Some (Ok cs')"
    by (auto split: option.splits sum.splits)
  from Cons.IH [OF this] Cons.prems(2) show ?case by simp
qed simp

text \<open>With distinct paths, every hunk is shown under its path.\<close>

lemma preview_loop_shows:
  assumes "preview_loop diff fs st home cwd hs cs = Some (Ok cs')" "distinct (map (resolved home cwd) hs)" "h \<in> set hs"
  shows "\<exists>c. cs' (resolved home cwd h) = Some c \<and> preview_hunk diff fs st home cwd h = Some (Ok c)"
  using assms
proof (induction hs arbitrary: cs)
  case (Cons g hs)
  then obtain d where d: "preview_hunk diff fs st home cwd g = Some (Ok d)"
      "preview_loop diff fs st home cwd hs (cs(resolved home cwd g \<mapsto> d)) = Some (Ok cs')"
    by (auto split: option.splits sum.splits)
  show ?case
  proof (cases "h \<in> set hs")
    case True
    then show ?thesis using Cons.IH [OF d(2)] Cons.prems(2) by simp
  next
    case False
    then have "h = g" using Cons.prems(3) by simp
    then show ?thesis using preview_loop_keeps [OF d(2), of "resolved home cwd g"] Cons.prems(2) d(1) by simp
  qed
qed simp

lemma distinct_resolved: "distinct (concat (map (touched home cwd) hs)) \<Longrightarrow> distinct (map (resolved home cwd) hs)"
proof (induction hs)
  case (Cons h hs)
  have own: "resolved home cwd g \<in> set (touched home cwd g)" for g by (cases "(home, cwd, g)" rule: touched.cases) auto
  have "resolved home cwd h \<noteq> resolved home cwd g" if "g \<in> set hs" for g
    using Cons.prems that own [of h] own [of g] by (auto simp: disjoint_iff)
  then show ?case using Cons by auto
qed simp

lemma preview_update_content:
  assumes "unified_diff_from_chunks diff fs st p chunks = Some (Ok u)" "derived fs st p chunks new"
  shows "content u = new \<and> (\<exists>before. text_at fs st p = Some before \<and> unified_diff u = diff before (content u) 1)"
  using assms
  by (auto simp: unified_diff_from_chunks_def unified_diff_from_chunks_with_context_def derived_def text_at_def
      derive_new_contents_from_chunks_def split: sum.splits)

lemma preview_hunk_done:
  assumes "preview_hunk diff fs st home cwd h = Some (Ok c)" "hunk_done fs home cwd st st' h"
  shows "change_done diff fs st st' (resolved home cwd h) c"
proof (cases "(h, no_paths)" rule: record_hunk.cases)
  case (2 path aff)
  with assms show ?thesis by (auto simp: Let_def text_at_def split: sum.splits)
next
  case (3 path chunks aff)
  with assms show ?thesis by (auto simp: Let_def elim!: map_sum_OkE dest!: preview_update_content)
next
  case (4 path dest chunks aff)
  with assms show ?thesis by (auto simp: Let_def abs_join_def elim!: map_sum_OkE dest!: preview_update_content)
qed (use assms in auto)

lemma touched_destination:
  "p \<in> set (touched home cwd h) \<Longrightarrow> p = resolved home cwd h \<or>
     (\<exists>path dest chunks. h = UpdateFile path (Some dest) chunks \<and> p = resolve_path_against_base home dest cwd)"
  by (cases "(home, cwd, h)" rule: touched.cases) simp_all

lemma preview_destination:
  assumes "preview_hunk diff fs st home cwd (UpdateFile path (Some dest) chunks) = Some (Ok c)"
  shows "\<exists>d new. c = Update d (Some (resolve_path_against_base home dest cwd)) new"
  using assms by (auto simp: Let_def abs_join_def elim!: map_sum_OkE)

text \<open>
  C28 (preview_sound). The preview of a call shows what applying it does. Take a call whose changes were computed on some files,
  whose hunks name distinct files (paths of hunks and destinations of moves), and whose hunks are then applied to these files
  with success. Then a path that the preview shows as added has that text afterwards; one shown as deleted had the text that
  is shown and is gone; one shown as updated had a text whose unified diff to the new one, in this order and with one line of context, is the
  diff that is shown, and the new text is at the path, or at the destination only when there is one. And a path that is not shown
  keeps its text or is the destination of a move that is shown, with the text shown for it.
\<close>

theorem preview_sound:
  assumes "fs_laws fs"
    and "maybe_parse_apply_patch_verified query diff fs (files w) home argv cwd = Some (VerifiedBody action)"
    and "maybe_parse_apply_patch query argv = Some (Body args)"
    and "distinct (concat (map (touched home (action_cwd action)) (hunks args)))"
    and "apply_hunks fs wr home (action_cwd action) (hunks args) w = (w', Some (Ok ()))"
  shows "case changes action p of
      Some (Add c) \<Rightarrow> text_at fs (files w') p = Some c
    | Some (Delete c) \<Rightarrow> text_at fs (files w) p = Some c \<and> text_at fs (files w') p = None
    | Some (Update d dest c) \<Rightarrow>
        (\<exists>before. text_at fs (files w) p = Some before \<and> d = diff before c 1) \<and>
        (case dest of
           None \<Rightarrow> text_at fs (files w') p = Some c
         | Some q \<Rightarrow> text_at fs (files w') q = Some c \<and> text_at fs (files w') p = None)
    | None \<Rightarrow> text_at fs (files w') p = text_at fs (files w) p \<or>
        (\<exists>q d c. changes action q = Some (Update d (Some p) c) \<and> text_at fs (files w') p = Some c)"
proof -
  note preview = verified_preview [OF assms(2,3)]
  obtain aff where loop:
      "apply_hunks_loop fs home (action_cwd action) (hunks args) (files w) no_paths = (files w', Some (Ok aff))"
    using assms(5)
    by (auto simp: apply_hunks_def apply_hunks_to_files_def split: option.splits sum.splits prod.splits if_splits)
  have ran: "change_done diff fs (files w) (files w') (resolved home (action_cwd action) h) c"
    if "h \<in> set (hunks args)" "preview_hunk diff fs (files w) home (action_cwd action) h = Some (Ok c)" for h c
    using preview_hunk_done [OF that(2)] apply_hunks_loop_done [OF assms(1) loop assms(4)] that(1) by blast
  show ?thesis
  proof (cases "changes action p")
    case None
    show ?thesis
    proof (cases "\<forall>h \<in> set (hunks args). p \<notin> set (touched home (action_cwd action) h)")
      case True
      then show ?thesis using apply_hunks_loop_frame [OF assms(1) True loop] None by simp
    next
      case False
      then obtain h where h: "h \<in> set (hunks args)" "p \<in> set (touched home (action_cwd action) h)" by blast
      obtain c where c: "changes action (resolved home (action_cwd action) h) = Some c"
          "preview_hunk diff fs (files w) home (action_cwd action) h = Some (Ok c)"
        using preview_loop_shows [OF preview distinct_resolved [OF assms(4)] h(1)] by blast
      then have "p \<noteq> resolved home (action_cwd action) h" using None by auto
      then obtain path dest chunks where move: "h = UpdateFile path (Some dest) chunks" "p = resolve_path_against_base home dest (action_cwd action)"
        using touched_destination [OF h(2)] by blast
      obtain d new where "c = Update d (Some p) new" using preview_destination [OF c(2) [unfolded move(1)]] move(2) by auto
      then show ?thesis using ran [OF h(1) c(2)] c(1) None by auto
    qed
  next
    case (Some change)
    obtain h where h: "h \<in> set (hunks args)" "resolved home (action_cwd action) h = p"
        "preview_hunk diff fs (files w) home (action_cwd action) h = Some (Ok change)"
      using preview_loop_changes [OF preview Some] by auto
    show ?thesis using ran [OF h(1,3)] h(2) Some by (cases change) simp_all
  qed
qed

text \<open>The call of the sample patch, with no shell involved and a differ that shows both texts.\<close>

definition sample_argv :: "string list" where
  "sample_argv = [''apply_patch'', sample_patch_text]"

definition sample_differ :: differ where
  "sample_differ before after context = before @ ''|'' @ after"

definition sample_changes :: "string \<Rightarrow> apply_patch_file_change option" where
  "sample_changes = [''/w/a'' \<mapsto> Update (''x'' @ [nl] @ ''|y'' @ [nl]) (Some ''/w/b'') (''y'' @ [nl]), ''/w/d/c'' \<mapsto> Add (''z'' @ [nl])]"

lemma sample_args:
  "maybe_parse_apply_patch (\<lambda>_. Ok []) sample_argv =
     Some (Body \<lparr>patch = sample_patch_text, hunks = sample_hunks, workdir = None\<rparr>)"
  by (simp add: maybe_parse_apply_patch_def sample_argv_def sample_patch_parses APPLY_PATCH_COMMANDS_def)

lemma sample_preview:
  "preview_loop sample_differ mem_fs (files sample_world) None ''/w'' sample_hunks (\<lambda>_. None) = Some (Ok sample_changes)"
proof -
  have paths: "resolve_path_against_base None ''a'' ''/w'' = ''/w/a''" "resolve_path_against_base None ''b'' ''/w'' = ''/w/b''"
    "resolve_path_against_base None ''d/c'' ''/w'' = ''/w/d/c''"
    by code_simp+
  have "derive_new_contents_from_chunks mem_fs (files sample_world) ''/w/a''
      [\<lparr>change_context = None, old_lines = [''x''], new_lines = [''y''], is_end_of_file = False\<rparr>] =
      Some (Ok \<lparr>original_contents = ''x'' @ [nl], new_contents = ''y'' @ [nl]\<rparr>)"
    by code_simp
  with paths show ?thesis
    by (simp add: sample_hunks_def sample_changes_def resolved_def resolve_path_def abs_join_def Let_def sample_differ_def
        unified_diff_from_chunks_def unified_diff_from_chunks_with_context_def)
qed

lemma sample_verified:
  "maybe_parse_apply_patch_verified (\<lambda>_. Ok []) sample_differ mem_fs (files sample_world) None sample_argv ''/w'' =
     Some (VerifiedBody \<lparr>changes = sample_changes, action_patch = sample_patch_text, action_cwd = ''/w''\<rparr>)"
proof -
  have "\<not> implicit_invocation sample_argv" by (simp add: implicit_invocation_def sample_argv_def)
  then show ?thesis
    by (simp add: maybe_parse_apply_patch_verified_def sample_args sample_preview)
qed

theorem preview_sound_witness:
  "let st' = files (fst (apply_hunks mem_fs buffer None ''/w'' sample_hunks sample_world)) in
   (\<exists>before. text_at mem_fs (files sample_world) ''/w/a'' = Some before \<and>
      ''x'' @ [nl] @ ''|y'' @ [nl] = sample_differ before (''y'' @ [nl]) 1) \<and>
   text_at mem_fs st' ''/w/b'' = Some (''y'' @ [nl]) \<and> text_at mem_fs st' ''/w/a'' = None"
proof -
  let ?run = "apply_hunks mem_fs buffer None ''/w'' sample_hunks sample_world"
  have "snd ?run = Some (Ok ())" by code_simp
  then have run: "?run = (fst ?run, Some (Ok ()))" by (metis prod.collapse)
  have apart: "distinct (concat (map (touched None ''/w'') sample_hunks))" by code_simp
  have change: "sample_changes ''/w/a'' = Some (Update (''x'' @ [nl] @ ''|y'' @ [nl]) (Some ''/w/b'') (''y'' @ [nl]))"
    by (simp add: sample_changes_def)
  from preview_sound [OF mem_fs_laws sample_verified sample_args, unfolded apply_patch_action.select_convs
      apply_patch_args.select_convs, OF apart run, of "''/w/a''"]
  show ?thesis unfolding change option.case apply_patch_file_change.case Let_def .
qed

end
