(* ===== verification/Response_Items.thy ===== *)
theory Response_Items
  imports Truncation Patch_Invocation "HOL-Library.Log_Nat" "HOL-Library.Monad_Syntax"
begin

text \<open>
  The items of a conversation (\<open>ResponseItem\<close> of \<open>protocol/src/models.rs\<close>), the fragments that the program itself puts into
  it (\<open>core/src/context\<close> and \<open>core/src/event_mapping.rs\<close>), the token counts of \<open>protocol/src/protocol.rs\<close>, and the estimates of
  \<open>core/src/context_manager/history.rs\<close>. Token counts are integers kept in the range of \<open>i64\<close>: plain operators panic on
  overflow in a build with debug assertions and wrap in a release build, the saturating ones stop at the bounds.
\<close>

section \<open>Signed 64-bit integers and a scaled budget\<close>

definition i64_max :: int where "i64_max = 2 ^ 63 - 1"

definition i64_min :: int where "i64_min = - (2 ^ 63)"

definition in_i64 :: "int \<Rightarrow> bool" where
  "in_i64 x \<longleftrightarrow> i64_min \<le> x \<and> x \<le> i64_max"

definition wrap_i64 :: "int \<Rightarrow> int" where
  "wrap_i64 x = (x + 2 ^ 63) mod 2 ^ 64 - 2 ^ 63"

definition saturate_i64 :: "int \<Rightarrow> int" where
  "saturate_i64 x = max i64_min (min i64_max x)"

text \<open>The operators \<open>+\<close> and \<open>-\<close> on the exact result, with and without debug assertions.\<close>

definition i64_op :: "bool \<Rightarrow> int \<Rightarrow> int option" where
  "i64_op debug x = (if in_i64 x then Some x else if debug then None else Some (wrap_i64 x))"

definition i64_add :: "int \<Rightarrow> int \<Rightarrow> int" where
  "i64_add a b = saturate_i64 (a + b)"

definition i64_sub :: "int \<Rightarrow> int \<Rightarrow> int" where
  "i64_sub a b = saturate_i64 (a - b)"

text \<open>\<open>i64::try_from(n).unwrap_or(i64::MAX)\<close>.\<close>

definition i64_of_usize :: "nat \<Rightarrow> int" where
  "i64_of_usize n = min i64_max (int n)"

lemmas i64_defs = i64_max_def i64_min_def in_i64_def wrap_i64_def saturate_i64_def

lemma in_i64_wrap [simp]: "in_i64 (wrap_i64 x)"
  using pos_mod_bound [of "2 ^ 64" "x + 2 ^ 63"] pos_mod_sign [of "2 ^ 64" "x + 2 ^ 63"] by (auto simp: i64_defs)

lemma in_i64_saturate [simp]: "in_i64 (saturate_i64 x)"
  by (simp add: i64_defs)

lemma saturate_i64_exact [simp]: "in_i64 x \<Longrightarrow> saturate_i64 x = x"
  by (simp add: i64_defs)

lemma saturate_i64_mono: "x \<le> y \<Longrightarrow> saturate_i64 x \<le> saturate_i64 y"
  by (simp add: i64_defs)

lemma i64_op_total: "\<not> debug \<Longrightarrow> \<exists>y. i64_op debug x = Some y \<and> in_i64 y"
  by (simp add: i64_op_def)

text \<open>
  \<open>(n as f64 * 1.2).ceil() as usize\<close>. A conversion or a product is rounded to 53 significant bits, ties to even; the constant
  is \<open>5404319552844595 / 2 ^ 52\<close>. A product is kept here as a multiple of \<open>2 ^ -52\<close>.
\<close>

definition round_to_53 :: "nat \<Rightarrow> nat" where
  "round_to_53 n =
     (let ulp = 2 ^ (floorlog 2 n - 53); q = n div ulp; r = n mod ulp in
      if 2 * r < ulp \<or> 2 * r = ulp \<and> even q then q * ulp else (q + 1) * ulp)"

definition times_1_2 :: "nat \<Rightarrow> nat" where
  "times_1_2 n = min usize_max ((round_to_53 (round_to_53 n * 5404319552844595) + (2 ^ 52 - 1)) div 2 ^ 52)"

fun scale_policy :: "truncation_policy \<Rightarrow> truncation_policy" where
  "scale_policy (Bytes bytes) = Bytes (times_1_2 bytes)"
| "scale_policy (Tokens tokens) = Tokens (times_1_2 tokens)"

lemma round_to_53_small: "n < 2 ^ 53 \<Longrightarrow> round_to_53 n = n"
proof -
  assume n: "n < 2 ^ 53"
  have "floorlog 2 n \<le> 53" using n by (intro floorlog_leI) simp_all
  then show ?thesis by (simp add: round_to_53_def)
qed

lemma round_to_53_ge: "n div 2 ^ (floorlog 2 n - 53) * 2 ^ (floorlog 2 n - 53) \<le> round_to_53 n"
  by (simp add: round_to_53_def Let_def)

text \<open>The scaled budget is no smaller, as long as it is far from overflow.\<close>

lemma times_1_2_ge:
  assumes "n \<le> 2 ^ 52"
  shows "n \<le> times_1_2 n"
proof -
  let ?p = "n * 5404319552844595"
  have "floorlog 2 ?p \<le> 105"
  proof (rule floorlog_leI)
    have "?p \<le> 2 ^ 52 * 5404319552844595" using assms by (rule mult_le_mono1)
    also have "\<dots> < 2 ^ 105" by simp
    finally show "?p < 2 ^ 105" .
  qed simp_all
  then have k: "floorlog 2 ?p - 53 \<le> 52" by simp
  let ?u = "2 ^ (floorlog 2 ?p - 53) :: nat"
  have mult: "2 ^ 52 = 2 ^ (52 - (floorlog 2 ?p - 53)) * ?u" using k by (simp flip: power_add)
  have "n * 2 ^ 52 = n * 2 ^ (52 - (floorlog 2 ?p - 53)) * ?u" using mult by simp
  also have "\<dots> \<le> ?p div ?u * ?u"
  proof (rule mult_le_mono1)
    have "n * 2 ^ (52 - (floorlog 2 ?p - 53)) * ?u \<le> ?p" using mult by simp
    then show "n * 2 ^ (52 - (floorlog 2 ?p - 53)) \<le> ?p div ?u" by (simp add: less_eq_div_iff_mult_less_eq)
  qed
  also have "\<dots> \<le> round_to_53 ?p" by (rule round_to_53_ge)
  finally have "n \<le> round_to_53 ?p div 2 ^ 52" by (simp add: less_eq_div_iff_mult_less_eq)
  also have "\<dots> \<le> (round_to_53 ?p + (2 ^ 52 - 1)) div 2 ^ 52" by (rule div_le_mono) simp
  finally have "n \<le> (round_to_53 ?p + (2 ^ 52 - 1)) div 2 ^ 52" .
  moreover have "n \<le> usize_max" using assms by (simp add: usize_max_def)
  moreover have "round_to_53 n = n" using assms by (intro round_to_53_small) simp
  ultimately show ?thesis by (simp add: times_1_2_def)
qed

section \<open>Token usage\<close>

record token_usage =
  input_tokens :: int
  cached_input_tokens :: int
  output_tokens :: int
  reasoning_output_tokens :: int
  total_tokens :: int

definition no_usage :: token_usage where
  "no_usage = \<lparr>input_tokens = 0, cached_input_tokens = 0, output_tokens = 0, reasoning_output_tokens = 0, total_tokens = 0\<rparr>"

record token_usage_info =
  total_token_usage :: token_usage
  last_token_usage :: token_usage
  model_context_window :: "int option"

definition add_assign :: "bool \<Rightarrow> token_usage \<Rightarrow> token_usage \<Rightarrow> token_usage option" where
  "add_assign debug self other =
     do {
       a \<leftarrow> i64_op debug (input_tokens self + input_tokens other);
       b \<leftarrow> i64_op debug (cached_input_tokens self + cached_input_tokens other);
       c \<leftarrow> i64_op debug (output_tokens self + output_tokens other);
       d \<leftarrow> i64_op debug (reasoning_output_tokens self + reasoning_output_tokens other);
       e \<leftarrow> i64_op debug (total_tokens self + total_tokens other);
       Some \<lparr>input_tokens = a, cached_input_tokens = b, output_tokens = c, reasoning_output_tokens = d, total_tokens = e\<rparr>
     }"

definition append_last_usage :: "bool \<Rightarrow> token_usage_info \<Rightarrow> token_usage \<Rightarrow> token_usage_info option" where
  "append_last_usage debug info last_usage =
     map_option (\<lambda>total. info\<lparr>total_token_usage := total, last_token_usage := last_usage\<rparr>)
       (add_assign debug (total_token_usage info) last_usage)"

definition new_or_append ::
  "bool \<Rightarrow> token_usage_info option \<Rightarrow> token_usage option \<Rightarrow> int option \<Rightarrow> token_usage_info option option" where
  "new_or_append debug info last_usage window =
     (if info = None \<and> last_usage = None then Some None
      else
        (let info0 = (case info of
             Some i \<Rightarrow> i
           | None \<Rightarrow> \<lparr>total_token_usage = no_usage, last_token_usage = no_usage, model_context_window = window\<rparr>) in
         do {
           info1 \<leftarrow> (case last_usage of Some u \<Rightarrow> append_last_usage debug info0 u | None \<Rightarrow> Some info0);
           Some (Some (case window of Some w \<Rightarrow> info1\<lparr>model_context_window := Some w\<rparr> | None \<Rightarrow> info1))
         }))"

definition fill_to_context_window :: "bool \<Rightarrow> token_usage_info \<Rightarrow> int \<Rightarrow> token_usage_info option" where
  "fill_to_context_window debug info window =
     map_option (\<lambda>difference.
         \<lparr>total_token_usage = no_usage\<lparr>total_tokens := window\<rparr>,
          last_token_usage = no_usage\<lparr>total_tokens := max difference 0\<rparr>,
          model_context_window = Some window\<rparr>)
       (i64_op debug (window - total_tokens (total_token_usage info)))"

definition full_context_window :: "bool \<Rightarrow> int \<Rightarrow> token_usage_info option" where
  "full_context_window debug window =
     fill_to_context_window debug
       \<lparr>total_token_usage = no_usage, last_token_usage = no_usage, model_context_window = Some window\<rparr> window"

section \<open>Items\<close>

datatype message_content = InText string | InImage string "image_detail option" | OutText string

datatype message_phase = Commentary | FinalAnswer

datatype reasoning_summary = SummaryText string

datatype reasoning_content = ReasoningText string | PlainReasoning string

datatype local_shell_status = ShellCompleted | ShellInProgress | ShellIncomplete

record local_shell_exec_action =
  shell_action_command :: "string list"
  shell_action_timeout_ms :: "nat option"
  shell_action_working_directory :: "string option"
  shell_action_env :: "(string \<times> string) list option"
  shell_action_user :: "string option"

datatype web_search_action =
    WebSearch "string option" "string list option"
  | OpenPage "string option"
  | FindInPage "string option" "string option"
  | OtherWebSearch

record ghost_commit =
  ghost_id :: string
  ghost_parent :: "string option"
  preexisting_untracked_files :: "string list"
  preexisting_untracked_dirs :: "string list"

datatype function_call_output_body = OutputBodyText string | ContentItems "content_item list"

record function_call_output_payload =
  payload_body :: function_call_output_body
  payload_success :: "bool option"

definition payload_from_text :: "string \<Rightarrow> function_call_output_payload" where
  "payload_from_text content' = \<lparr>payload_body = OutputBodyText content', payload_success = None\<rparr>"

text \<open>A JSON value is only carried along; it is kept as its text.\<close>

type_synonym json_text = string

datatype response_item =
    Message "string option" string "message_content list" "bool option" "message_phase option"
  | Reasoning string "reasoning_summary list" "reasoning_content list option" "string option"
  | LocalShellCall "string option" "string option" local_shell_status local_shell_exec_action
  | FunctionCall "string option" string "string option" string string
  | ToolSearchCall "string option" "string option" "string option" string json_text
  | FunctionCallOutput string function_call_output_payload
  | CustomToolCall "string option" "string option" string string string
  | CustomToolCallOutput string "string option" function_call_output_payload
  | ToolSearchOutput "string option" string string "json_text list"
  | WebSearchCall "string option" "string option" "web_search_action option"
  | ImageGenerationCall string string "string option" string
  | GhostSnapshot ghost_commit
  | Compaction string
  | OtherItem

fun is_api_message :: "response_item \<Rightarrow> bool" where
  "is_api_message (Message id' role content' end_turn phase) \<longleftrightarrow> role \<noteq> ''system''"
| "is_api_message (GhostSnapshot commit) \<longleftrightarrow> False"
| "is_api_message OtherItem \<longleftrightarrow> False"
| "is_api_message _ \<longleftrightarrow> True"

fun is_ghost_snapshot :: "response_item \<Rightarrow> bool" where
  "is_ghost_snapshot (GhostSnapshot commit) \<longleftrightarrow> True"
| "is_ghost_snapshot _ \<longleftrightarrow> False"

fun is_model_generated_item :: "response_item \<Rightarrow> bool" where
  "is_model_generated_item (Message id' role content' end_turn phase) \<longleftrightarrow> role = ''assistant''"
| "is_model_generated_item (FunctionCallOutput call_id out) \<longleftrightarrow> False"
| "is_model_generated_item (ToolSearchOutput call_id status execution tools) \<longleftrightarrow> False"
| "is_model_generated_item (CustomToolCallOutput call_id name out) \<longleftrightarrow> False"
| "is_model_generated_item (GhostSnapshot commit) \<longleftrightarrow> False"
| "is_model_generated_item OtherItem \<longleftrightarrow> False"
| "is_model_generated_item _ \<longleftrightarrow> True"

fun is_codex_generated_item :: "response_item \<Rightarrow> bool" where
  "is_codex_generated_item (FunctionCallOutput call_id out) \<longleftrightarrow> True"
| "is_codex_generated_item (ToolSearchOutput call_id status execution tools) \<longleftrightarrow> True"
| "is_codex_generated_item (CustomToolCallOutput call_id name out) \<longleftrightarrow> True"
| "is_codex_generated_item (Message id' role content' end_turn phase) \<longleftrightarrow> role = ''developer''"
| "is_codex_generated_item _ \<longleftrightarrow> False"

text \<open>
  What the conversation relies on of other packages: the JSON text of an item, whether a text is the JSON of a message between
  agents, the XML of a hook prompt (its text and the id of its run), base64, and the size of a decoded picture. The
  flag tells a build with debug assertions from a release build.
\<close>

record history_host =
  hx_debug :: bool
  hx_json :: "response_item \<Rightarrow> string option"
  hx_inter_agent :: "string \<Rightarrow> bool"
  hx_hook_xml :: "string \<Rightarrow> (string \<times> string) option"
  hx_base64 :: "string \<Rightarrow> string option"
  hx_image_size :: "string \<Rightarrow> (nat \<times> nat) option"

section \<open>Fragments that the program injects\<close>

text \<open>\<open>s.get(..p.len()).is_some_and(|c| c.eq_ignore_ascii_case(p))\<close>, and the same for the end.\<close>

definition starts_ignoring_case :: "string \<Rightarrow> string \<Rightarrow> bool" where
  "starts_ignoring_case p s = (case str_slice_to s (length p) of None \<Rightarrow> False | Some c \<Rightarrow> eq_ignore_ascii_case c p)"

definition ends_ignoring_case :: "string \<Rightarrow> string \<Rightarrow> bool" where
  "ends_ignoring_case p s =
     (case str_slice_from s (length s - length p) of None \<Rightarrow> False | Some c \<Rightarrow> eq_ignore_ascii_case c p)"

definition matches_text :: "string \<times> string \<Rightarrow> string \<Rightarrow> bool" where
  "matches_text markers text' =
     (case markers of (start_marker, end_marker) \<Rightarrow>
        if start_marker = [] \<or> end_marker = [] then False
        else
          (let trimmed = trim_start text' in
           starts_ignoring_case start_marker trimmed \<and> ends_ignoring_case end_marker (trim_end trimmed)))"

definition CONTEXTUAL_USER_FRAGMENTS :: "(string \<times> string) list" where
  "CONTEXTUAL_USER_FRAGMENTS =
     [(''# AGENTS.md instructions for '', ''</INSTRUCTIONS>''), (''<environment_context>'', ''</environment_context>''),
      (''<skill>'', ''</skill>''), (''<user_shell_command>'', ''</user_shell_command>''),
      (''<turn_aborted>'', ''</turn_aborted>''), (''<subagent_notification>'', ''</subagent_notification>'')]"

definition is_standard_contextual_user_text :: "string \<Rightarrow> bool" where
  "is_standard_contextual_user_text text' = list_ex (\<lambda>markers. matches_text markers text') CONTEXTUAL_USER_FRAGMENTS"

definition parse_hook_prompt_fragment :: "history_host \<Rightarrow> string \<Rightarrow> (string \<times> string) option" where
  "parse_hook_prompt_fragment host text' =
     (case hx_hook_xml host (trim text') of
        None \<Rightarrow> None
      | Some (text'', hook_run_id) \<Rightarrow> if trim hook_run_id = [] then None else Some (text'', hook_run_id))"

fun is_contextual_user_fragment :: "history_host \<Rightarrow> message_content \<Rightarrow> bool" where
  "is_contextual_user_fragment host (InText text') \<longleftrightarrow>
     parse_hook_prompt_fragment host text' \<noteq> None \<or> is_standard_contextual_user_text text'"
| "is_contextual_user_fragment host _ \<longleftrightarrow> False"

definition is_contextual_user_message_content :: "history_host \<Rightarrow> message_content list \<Rightarrow> bool" where
  "is_contextual_user_message_content host message = list_ex (is_contextual_user_fragment host) message"

definition CONTEXTUAL_DEVELOPER_PREFIXES :: "string list" where
  "CONTEXTUAL_DEVELOPER_PREFIXES =
     [''<permissions instructions>'', ''<model_switch>'', ''<collaboration_mode>'', ''<realtime_conversation>'', ''<personality_spec>'']"

fun is_contextual_dev_fragment :: "message_content \<Rightarrow> bool" where
  "is_contextual_dev_fragment (InText text') \<longleftrightarrow>
     list_ex (\<lambda>p. starts_ignoring_case p (trim_start text')) CONTEXTUAL_DEVELOPER_PREFIXES"
| "is_contextual_dev_fragment _ \<longleftrightarrow> False"

definition is_contextual_dev_message_content :: "message_content list \<Rightarrow> bool" where
  "is_contextual_dev_message_content message = list_ex is_contextual_dev_fragment message"

definition has_non_contextual_dev_message_content :: "message_content list \<Rightarrow> bool" where
  "has_non_contextual_dev_message_content message = list_ex (\<lambda>c. \<not> is_contextual_dev_fragment c) message"

fun is_inter_agent_instruction_content :: "history_host \<Rightarrow> message_content list \<Rightarrow> bool" where
  "is_inter_agent_instruction_content host [InText text'] \<longleftrightarrow> hx_inter_agent host text'"
| "is_inter_agent_instruction_content host [OutText text'] \<longleftrightarrow> hx_inter_agent host text'"
| "is_inter_agent_instruction_content host _ \<longleftrightarrow> False"

fun is_user_turn_boundary :: "history_host \<Rightarrow> response_item \<Rightarrow> bool" where
  "is_user_turn_boundary host (Message id' role content' end_turn phase) \<longleftrightarrow>
     role = ''user'' \<and> \<not> is_contextual_user_message_content host content' \<or>
     role = ''assistant'' \<and> is_inter_agent_instruction_content host content'"
| "is_user_turn_boundary host _ \<longleftrightarrow> False"

section \<open>Estimates\<close>

definition RESIZED_IMAGE_BYTES_ESTIMATE :: int where
  "RESIZED_IMAGE_BYTES_ESTIMATE = 7373"

definition ORIGINAL_IMAGE_PATCH_SIZE :: int where
  "ORIGINAL_IMAGE_PATCH_SIZE = 32"

definition estimate_reasoning_length :: "nat \<Rightarrow> nat" where
  "estimate_reasoning_length encoded_len = saturating_mul encoded_len 3 div 4 - 650"

definition parse_base64_image_data_url :: "string \<Rightarrow> string option" where
  "parse_base64_image_data_url url =
     (if \<not> starts_ignoring_case ''data:'' url then None
      else
        (case str_find url '','' of
           None \<Rightarrow> None
         | Some comma_index \<Rightarrow>
             let metadata = take comma_index url; payload = drop (comma_index + 1) url;
               parts = split_on (CHR '';'') (drop (length ''data:'') metadata)
             in if \<not> starts_ignoring_case ''image/'' (hd parts) then None
                else if \<not> list_ex (\<lambda>part. eq_ignore_ascii_case part ''base64'') (tl parts) then None
                else Some payload))"

definition estimate_original_image_bytes :: "history_host \<Rightarrow> string \<Rightarrow> int option" where
  "estimate_original_image_bytes host image_url =
     do {
       payload \<leftarrow> parse_base64_image_data_url image_url;
       bytes \<leftarrow> hx_base64 host payload;
       (width, height) \<leftarrow> hx_image_size host bytes;
       let patch_size = ORIGINAL_IMAGE_PATCH_SIZE;
       let patches_wide = i64_add (int width) (i64_sub patch_size 1) div patch_size;
       let patches_high = i64_add (int height) (i64_sub patch_size 1) div patch_size;
       let patch_count = saturate_i64 (patches_wide * patches_high);
       Some (i64_of_usize (approx_bytes_for_tokens (nat patch_count)))
     }"

text \<open>The closure \<open>accumulate\<close> on the two counters.\<close>

definition accumulate_image :: "history_host \<Rightarrow> string \<times> image_detail option \<Rightarrow> int \<times> int \<Rightarrow> int \<times> int" where
  "accumulate_image host picture counters =
     (case (picture, counters) of ((image_url, detail), (payload_bytes, replacement_bytes)) \<Rightarrow>
        (case parse_base64_image_data_url image_url of
           None \<Rightarrow> (payload_bytes, replacement_bytes)
         | Some payload \<Rightarrow>
             (i64_add payload_bytes (i64_of_usize (length payload)),
              i64_add replacement_bytes
                (if detail = Some Original
                 then case_option RESIZED_IMAGE_BYTES_ESTIMATE id (estimate_original_image_bytes host image_url)
                 else RESIZED_IMAGE_BYTES_ESTIMATE))))"

fun message_image :: "message_content \<Rightarrow> (string \<times> image_detail option) option" where
  "message_image (InImage image_url detail) = Some (image_url, detail)"
| "message_image _ = None"

fun output_image :: "content_item \<Rightarrow> (string \<times> image_detail option) option" where
  "output_image (InputImage image_url detail) = Some (image_url, detail)"
| "output_image _ = None"

fun payload_images :: "function_call_output_body \<Rightarrow> (string \<times> image_detail option) list" where
  "payload_images (ContentItems items) = List.map_filter output_image items"
| "payload_images (OutputBodyText content') = []"

fun item_images :: "response_item \<Rightarrow> (string \<times> image_detail option) list" where
  "item_images (Message id' role content' end_turn phase) = List.map_filter message_image content'"
| "item_images (FunctionCallOutput call_id out) = payload_images (payload_body out)"
| "item_images (CustomToolCallOutput call_id name out) = payload_images (payload_body out)"
| "item_images _ = []"

definition image_data_url_estimate_adjustment :: "history_host \<Rightarrow> response_item \<Rightarrow> int \<times> int" where
  "image_data_url_estimate_adjustment host item = fold (accumulate_image host) (item_images item) (0, 0)"

definition estimate_serialized :: "history_host \<Rightarrow> response_item \<Rightarrow> int" where
  "estimate_serialized host item =
     (let raw = (case hx_json host item of None \<Rightarrow> 0 | Some serialized \<Rightarrow> i64_of_usize (length serialized)) in
      case image_data_url_estimate_adjustment host item of
        (payload_bytes, replacement_bytes) \<Rightarrow>
          if payload_bytes = 0 \<or> replacement_bytes = 0 then raw
          else i64_add (i64_sub raw payload_bytes) replacement_bytes)"

fun estimate_response_item_model_visible_bytes :: "history_host \<Rightarrow> response_item \<Rightarrow> int" where
  "estimate_response_item_model_visible_bytes host (GhostSnapshot commit) = 0"
| "estimate_response_item_model_visible_bytes host (Reasoning id' summary content' (Some encrypted)) =
     i64_of_usize (estimate_reasoning_length (length encrypted))"
| "estimate_response_item_model_visible_bytes host (Compaction encrypted) =
     i64_of_usize (estimate_reasoning_length (length encrypted))"
| "estimate_response_item_model_visible_bytes host item = estimate_serialized host item"

definition estimate_item_token_count :: "history_host \<Rightarrow> response_item \<Rightarrow> int" where
  "estimate_item_token_count host item =
     approx_tokens_from_byte_count_i64 (estimate_response_item_model_visible_bytes host item)"

text \<open>\<open>.map(f).fold(0i64, i64::saturating_add)\<close>.\<close>

definition saturating_sum :: "int list \<Rightarrow> int" where
  "saturating_sum counts = fold (\<lambda>n total. i64_add total n) counts 0"

lemma data_url_comma:
  assumes "starts_ignoring_case ''data:'' url" "str_find url '','' = Some comma_index"
  shows "length ''data:'' \<le> comma_index"
proof (rule ccontr)
  assume "\<not> length ''data:'' \<le> comma_index"
  then have short: "comma_index < 5" by simp
  have at: "url ! comma_index = CHR '',''" "comma_index < length url"
    using assms(2) by (auto simp: str_find_Some prefix_def nth_via_drop dest: arg_cong [where f = length])
  have "eq_ignore_ascii_case (take (length ''data:'') url) ''data:''"
    using assms(1) by (simp add: starts_ignoring_case_def str_slice_to_def del: list.size split: option.splits if_splits)
  moreover have "to_ascii_lowercase ''data:'' = ''data:''" by code_simp
  ultimately have "to_ascii_lowercase (take (length ''data:'') url) ! comma_index = ''data:'' ! comma_index"
    by (simp add: eq_ignore_ascii_case_def del: list.size)
  moreover have "ascii_lower (CHR '','') = CHR '',''" by code_simp
  ultimately have "CHR '','' = ''data:'' ! comma_index"
    using at short by (simp add: to_ascii_lowercase_def)
  moreover have "comma_index \<in> {0, 1, 2, 3, 4}" using short by auto
  ultimately show False by auto
qed

text \<open>A sum of counts that are not negative is exact up to the bound.\<close>

lemma saturating_sum_exact:
  assumes "\<forall>n \<in> set counts. 0 \<le> n"
  shows "saturating_sum counts = min i64_max (sum_list counts)"
proof -
  have "fold (\<lambda>n total. i64_add total n) counts (min i64_max t) = min i64_max (t + sum_list counts)" if "0 \<le> t" for t
    using assms that
  proof (induction counts arbitrary: t)
    case (Cons n ns)
    have "i64_add (min i64_max t) n = min i64_max (t + n)" using Cons.prems by (auto simp: i64_add_def i64_defs)
    then show ?case using Cons.IH [of "t + n"] Cons.prems by (simp add: add.assoc)
  qed simp
  from this [of 0] show ?thesis by (simp add: saturating_sum_def i64_defs)
qed

lemma token_count_nonneg: "0 \<le> estimate_item_token_count host item" "estimate_item_token_count host item \<le> i64_max"
  by (simp_all add: estimate_item_token_count_def approx_tokens_from_byte_count_i64_def i64_max_def)

end
