(* ===== verification/Context_History.thy ===== *)
theory Context_History
  imports Response_Items
begin

text \<open>
  The history of a conversation: \<open>core/src/context_manager/history.rs\<close> with the normalisation of \<open>normalize.rs\<close>. The context
  snapshot that later turns are compared with is a type parameter, since it is only kept or dropped.

  The keyed view of an item (\<open>call_key\<close>, \<open>output_key\<close>) covers the three kinds of calls at once, and the locale \<open>keyed_pairs\<close> holds what
  inserting and removing items does to the pairs. The theorems say that a prompt answers every call and holds no stray
  output, that removing an item at either end keeps calls and outputs together, and that rolling back turns
  composes.
\<close>

section \<open>Normalisation\<close>

datatype input_modality = TextInput | ImageInput

definition IMAGE_CONTENT_OMITTED_PLACEHOLDER :: string where
  "IMAGE_CONTENT_OMITTED_PLACEHOLDER = ''image content omitted because you do not support image input''"

text \<open>\<open>error_or_panic\<close> logs in a release build.\<close>

definition error_or_panic :: "history_host \<Rightarrow> unit option" where
  "error_or_panic host = (if hx_debug host then None else Some ())"

fun is_function_output :: "string \<Rightarrow> response_item \<Rightarrow> bool" where
  "is_function_output call_id (FunctionCallOutput existing out) \<longleftrightarrow> existing = call_id"
| "is_function_output call_id _ \<longleftrightarrow> False"

fun is_search_output :: "string \<Rightarrow> response_item \<Rightarrow> bool" where
  "is_search_output call_id (ToolSearchOutput (Some existing) status execution tools) \<longleftrightarrow> existing = call_id"
| "is_search_output call_id _ \<longleftrightarrow> False"

fun is_custom_output :: "string \<Rightarrow> response_item \<Rightarrow> bool" where
  "is_custom_output call_id (CustomToolCallOutput existing name out) \<longleftrightarrow> existing = call_id"
| "is_custom_output call_id _ \<longleftrightarrow> False"

fun is_function_call :: "string \<Rightarrow> response_item \<Rightarrow> bool" where
  "is_function_call call_id (FunctionCall id' name namespace args existing) \<longleftrightarrow> existing = call_id"
| "is_function_call call_id _ \<longleftrightarrow> False"

fun is_local_shell_call :: "string \<Rightarrow> response_item \<Rightarrow> bool" where
  "is_local_shell_call call_id (LocalShellCall id' (Some existing) status action) \<longleftrightarrow> existing = call_id"
| "is_local_shell_call call_id _ \<longleftrightarrow> False"

fun is_search_call :: "string \<Rightarrow> response_item \<Rightarrow> bool" where
  "is_search_call call_id (ToolSearchCall id' (Some existing) status execution args) \<longleftrightarrow> existing = call_id"
| "is_search_call call_id _ \<longleftrightarrow> False"

fun is_custom_call :: "string \<Rightarrow> response_item \<Rightarrow> bool" where
  "is_custom_call call_id (CustomToolCall id' status existing name inp) \<longleftrightarrow> existing = call_id"
| "is_custom_call call_id _ \<longleftrightarrow> False"

definition aborted_output :: "string \<Rightarrow> response_item" where
  "aborted_output call_id = FunctionCallOutput call_id (payload_from_text ''aborted'')"

text \<open>One round of the loop over the items: the output to insert after the item, if any.\<close>

fun missing_output :: "history_host \<Rightarrow> response_item list \<Rightarrow> response_item \<Rightarrow> response_item option option" where
  "missing_output host items (FunctionCall id' name namespace args call_id) =
     Some (if list_ex (is_function_output call_id) items then None else Some (aborted_output call_id))"
| "missing_output host items (ToolSearchCall id' (Some call_id) status execution args) =
     Some (if list_ex (is_search_output call_id) items then None
           else Some (ToolSearchOutput (Some call_id) ''completed'' ''client'' []))"
| "missing_output host items (CustomToolCall id' status call_id name inp) =
     (if list_ex (is_custom_output call_id) items then Some None
      else map_option (\<lambda>_. Some (CustomToolCallOutput call_id None (payload_from_text ''aborted''))) (error_or_panic host))"
| "missing_output host items (LocalShellCall id' (Some call_id) status action) =
     (if list_ex (is_function_output call_id) items then Some None
      else map_option (\<lambda>_. Some (aborted_output call_id)) (error_or_panic host))"
| "missing_output host items _ = Some None"

fun missing_outputs :: "history_host \<Rightarrow> response_item list \<Rightarrow> nat \<Rightarrow> response_item list \<Rightarrow> (nat \<times> response_item) list option" where
  "missing_outputs host items idx [] = Some []"
| "missing_outputs host items idx (item # rest) =
     do {
       missing \<leftarrow> missing_output host items item;
       others \<leftarrow> missing_outputs host items (Suc idx) rest;
       Some (case missing of None \<Rightarrow> others | Some out \<Rightarrow> (idx, out) # others)
     }"

fun insert_outputs :: "(nat \<times> response_item) list \<Rightarrow> response_item list \<Rightarrow> response_item list option" where
  "insert_outputs [] items = Some items"
| "insert_outputs ((idx, out) # rest) items = do { items' \<leftarrow> vec_insert items (idx + 1) out; insert_outputs rest items' }"

definition ensure_call_outputs_present :: "history_host \<Rightarrow> response_item list \<Rightarrow> response_item list option" where
  "ensure_call_outputs_present host items =
     do { missing \<leftarrow> missing_outputs host items 0 items; insert_outputs (rev missing) items }"

text \<open>What \<open>retain\<close> keeps of the outputs.\<close>

fun output_has_call :: "response_item list \<Rightarrow> response_item \<Rightarrow> bool" where
  "output_has_call items (FunctionCallOutput call_id out) \<longleftrightarrow>
     list_ex (is_function_call call_id) items \<or> list_ex (is_local_shell_call call_id) items"
| "output_has_call items (CustomToolCallOutput call_id name out) \<longleftrightarrow> list_ex (is_custom_call call_id) items"
| "output_has_call items (ToolSearchOutput call_id status execution tools) \<longleftrightarrow>
     execution = ''server'' \<or> (case call_id of None \<Rightarrow> True | Some k \<Rightarrow> list_ex (is_search_call k) items)"
| "output_has_call items _ \<longleftrightarrow> True"

fun retain_outputs :: "history_host \<Rightarrow> response_item list \<Rightarrow> response_item list \<Rightarrow> response_item list option" where
  "retain_outputs host items [] = Some []"
| "retain_outputs host items (item # rest) =
     (if output_has_call items item then map_option (Cons item) (retain_outputs host items rest)
      else do { _ \<leftarrow> error_or_panic host; retain_outputs host items rest })"

definition remove_orphan_outputs :: "history_host \<Rightarrow> response_item list \<Rightarrow> response_item list option" where
  "remove_orphan_outputs host items = retain_outputs host items items"

definition remove_first_matching :: "(response_item \<Rightarrow> bool) \<Rightarrow> response_item list \<Rightarrow> response_item list option" where
  "remove_first_matching P items = (case position P items of None \<Rightarrow> Some items | Some pos \<Rightarrow> vec_remove items pos)"

fun remove_corresponding_for :: "response_item list \<Rightarrow> response_item \<Rightarrow> response_item list option" where
  "remove_corresponding_for items (FunctionCall id' name namespace args call_id) = remove_first_matching (is_function_output call_id) items"
| "remove_corresponding_for items (FunctionCallOutput call_id out) =
     (case position (is_function_call call_id) items of
        Some pos \<Rightarrow> vec_remove items pos
      | None \<Rightarrow> (case position (is_local_shell_call call_id) items of Some pos \<Rightarrow> vec_remove items pos | None \<Rightarrow> Some items))"
| "remove_corresponding_for items (ToolSearchCall id' (Some call_id) status execution args) =
     remove_first_matching (is_search_output call_id) items"
| "remove_corresponding_for items (ToolSearchOutput (Some call_id) status execution tools) =
     remove_first_matching (is_search_call call_id) items"
| "remove_corresponding_for items (CustomToolCall id' status call_id name inp) = remove_first_matching (is_custom_output call_id) items"
| "remove_corresponding_for items (CustomToolCallOutput call_id name out) = remove_first_matching (is_custom_call call_id) items"
| "remove_corresponding_for items (LocalShellCall id' (Some call_id) status action) =
     remove_first_matching (is_function_output call_id) items"
| "remove_corresponding_for items _ = Some items"

fun strip_message_image :: "message_content \<Rightarrow> message_content" where
  "strip_message_image (InImage image_url detail) = InText IMAGE_CONTENT_OMITTED_PLACEHOLDER"
| "strip_message_image c = c"

fun strip_output_image :: "content_item \<Rightarrow> content_item" where
  "strip_output_image (InputImage image_url detail) = InputText IMAGE_CONTENT_OMITTED_PLACEHOLDER"
| "strip_output_image c = c"

fun map_content_items :: "(content_item list \<Rightarrow> content_item list) \<Rightarrow> function_call_output_body \<Rightarrow> function_call_output_body" where
  "map_content_items f (ContentItems items) = ContentItems (f items)"
| "map_content_items f (OutputBodyText content') = OutputBodyText content'"

definition strip_payload :: "function_call_output_payload \<Rightarrow> function_call_output_payload" where
  "strip_payload out = out\<lparr>payload_body := map_content_items (map strip_output_image) (payload_body out)\<rparr>"

fun strip_item :: "response_item \<Rightarrow> response_item" where
  "strip_item (Message id' role content' end_turn phase) = Message id' role (map strip_message_image content') end_turn phase"
| "strip_item (FunctionCallOutput call_id out) = FunctionCallOutput call_id (strip_payload out)"
| "strip_item (CustomToolCallOutput call_id name out) = CustomToolCallOutput call_id name (strip_payload out)"
| "strip_item (ImageGenerationCall id' status revised_prompt result) = ImageGenerationCall id' status revised_prompt []"
| "strip_item item = item"

definition strip_images_when_unsupported :: "input_modality list \<Rightarrow> response_item list \<Rightarrow> response_item list" where
  "strip_images_when_unsupported modalities items =
     (if ImageInput \<in> set modalities then items else map strip_item items)"

section \<open>The history\<close>

record 'ctx context_manager =
  cm_items :: "response_item list"
  cm_history_version :: nat
  cm_token_info :: "token_usage_info option"
  cm_reference_context_item :: "'ctx option"

record total_token_usage_breakdown =
  last_api_response_total_tokens :: int
  all_history_items_model_visible_bytes :: int
  estimated_tokens_of_items_added :: int
  estimated_bytes_of_items_added :: int

definition new_history :: "history_host \<Rightarrow> 'ctx context_manager option" where
  "new_history host =
     map_option (\<lambda>info. \<lparr>cm_items = [], cm_history_version = 0, cm_token_info = info, cm_reference_context_item = None\<rparr>)
       (new_or_append (hx_debug host) None None None)"

definition set_token_info :: "'ctx context_manager \<Rightarrow> token_usage_info option \<Rightarrow> 'ctx context_manager" where
  "set_token_info cm info = cm\<lparr>cm_token_info := info\<rparr>"

definition set_reference_context_item :: "'ctx context_manager \<Rightarrow> 'ctx option \<Rightarrow> 'ctx context_manager" where
  "set_reference_context_item cm item = cm\<lparr>cm_reference_context_item := item\<rparr>"

definition set_token_usage_full :: "history_host \<Rightarrow> 'ctx context_manager \<Rightarrow> int \<Rightarrow> 'ctx context_manager option" where
  "set_token_usage_full host cm window =
     map_option (\<lambda>info. cm\<lparr>cm_token_info := Some info\<rparr>)
       (case cm_token_info cm of
          Some info \<Rightarrow> fill_to_context_window (hx_debug host) info window
        | None \<Rightarrow> full_context_window (hx_debug host) window)"

definition update_token_info :: "history_host \<Rightarrow> 'ctx context_manager \<Rightarrow> token_usage \<Rightarrow> int option \<Rightarrow> 'ctx context_manager option" where
  "update_token_info host cm usage window =
     map_option (\<lambda>info. cm\<lparr>cm_token_info := info\<rparr>)
       (new_or_append (hx_debug host) (cm_token_info cm) (Some usage) window)"

definition truncate_function_output_payload ::
  "function_call_output_payload \<Rightarrow> truncation_policy \<Rightarrow> function_call_output_payload option" where
  "truncate_function_output_payload out policy =
     map_option (\<lambda>body. \<lparr>payload_body = body, payload_success = payload_success out\<rparr>)
       (case payload_body out of
          OutputBodyText content' \<Rightarrow> map_option OutputBodyText (truncate_text content' policy)
        | ContentItems items \<Rightarrow> map_option ContentItems (truncate_function_output_items_with_policy items policy))"

fun process_item :: "response_item \<Rightarrow> truncation_policy \<Rightarrow> response_item option" where
  "process_item (FunctionCallOutput call_id out) policy =
     map_option (FunctionCallOutput call_id) (truncate_function_output_payload out (scale_policy policy))"
| "process_item (CustomToolCallOutput call_id name out) policy =
     map_option (CustomToolCallOutput call_id name) (truncate_function_output_payload out (scale_policy policy))"
| "process_item item policy = Some item"

fun record_items :: "'ctx context_manager \<Rightarrow> response_item list \<Rightarrow> truncation_policy \<Rightarrow> 'ctx context_manager option" where
  "record_items cm [] policy = Some cm"
| "record_items cm (item # rest) policy =
     (if \<not> is_api_message item \<and> \<not> is_ghost_snapshot item then record_items cm rest policy
      else do { processed \<leftarrow> process_item item policy; record_items (cm\<lparr>cm_items := cm_items cm @ [processed]\<rparr>) rest policy })"

definition normalize_history :: "history_host \<Rightarrow> input_modality list \<Rightarrow> response_item list \<Rightarrow> response_item list option" where
  "normalize_history host modalities items =
     do {
       items1 \<leftarrow> ensure_call_outputs_present host items;
       items2 \<leftarrow> remove_orphan_outputs host items1;
       Some (strip_images_when_unsupported modalities items2)
     }"

definition for_prompt :: "history_host \<Rightarrow> 'ctx context_manager \<Rightarrow> input_modality list \<Rightarrow> response_item list option" where
  "for_prompt host cm modalities =
     map_option (filter (\<lambda>item. \<not> is_ghost_snapshot item)) (normalize_history host modalities (cm_items cm))"

definition replace_items :: "'ctx context_manager \<Rightarrow> response_item list \<Rightarrow> 'ctx context_manager" where
  "replace_items cm items = cm\<lparr>cm_items := items, cm_history_version := saturating_add (cm_history_version cm) 1\<rparr>"

definition remove_first_item :: "'ctx context_manager \<Rightarrow> 'ctx context_manager option" where
  "remove_first_item cm =
     (case cm_items cm of
        [] \<Rightarrow> Some cm
      | removed # rest \<Rightarrow> map_option (\<lambda>items. cm\<lparr>cm_items := items\<rparr>) (remove_corresponding_for rest removed))"

definition remove_last_item :: "'ctx context_manager \<Rightarrow> ('ctx context_manager \<times> bool) option" where
  "remove_last_item cm =
     (if cm_items cm = [] then Some (cm, False)
      else map_option (\<lambda>items. (replace_items cm items, True))
        (remove_corresponding_for (butlast (cm_items cm)) (last (cm_items cm))))"

text \<open>\<open>Iterator::rposition\<close>.\<close>

definition rposition :: "('a \<Rightarrow> bool) \<Rightarrow> 'a list \<Rightarrow> nat option" where
  "rposition P xs = map_option (\<lambda>i. length xs - Suc i) (position P (rev xs))"

fun is_any_function_output :: "response_item \<Rightarrow> bool" where
  "is_any_function_output (FunctionCallOutput call_id out) \<longleftrightarrow> True"
| "is_any_function_output _ \<longleftrightarrow> False"

definition replace_last_turn_images :: "history_host \<Rightarrow> 'ctx context_manager \<Rightarrow> string \<Rightarrow> 'ctx context_manager \<times> bool" where
  "replace_last_turn_images host cm placeholder =
     (case rposition (\<lambda>item. is_any_function_output item \<or> is_user_turn_boundary host item) (cm_items cm) of
        None \<Rightarrow> (cm, False)
      | Some index \<Rightarrow>
          (case cm_items cm ! index of
             FunctionCallOutput call_id out \<Rightarrow>
               (case payload_body out of
                  OutputBodyText _ \<Rightarrow> (cm, False)
                | ContentItems content_items \<Rightarrow>
                    let replaced = list_ex (\<lambda>c. output_image c \<noteq> None) content_items;
                      content_items' = map (\<lambda>c. if output_image c \<noteq> None then InputText placeholder else c) content_items;
                      cm' = cm\<lparr>cm_items := (cm_items cm)[index := FunctionCallOutput call_id (out\<lparr>payload_body := ContentItems content_items'\<rparr>)]\<rparr>
                    in (if replaced then cm'\<lparr>cm_history_version := saturating_add (cm_history_version cm') 1\<rparr> else cm', replaced))
           | _ \<Rightarrow> (cm, False)))"

definition user_message_positions :: "history_host \<Rightarrow> response_item list \<Rightarrow> nat list" where
  "user_message_positions host items = filter (\<lambda>idx. is_user_turn_boundary host (items ! idx)) [0..<length items]"

text \<open>The walk back from the cut. The index is in range: the cut is at most the length of the snapshot.\<close>

fun trim_pre_turn_context_updates ::
  "history_host \<Rightarrow> 'ctx context_manager \<Rightarrow> response_item list \<Rightarrow> nat \<Rightarrow> nat \<Rightarrow> 'ctx context_manager \<times> nat" where
  "trim_pre_turn_context_updates host cm snapshot first_instruction_turn_idx cut_idx =
     (if first_instruction_turn_idx < cut_idx then
        (case snapshot ! (cut_idx - 1) of
           Message id' role content' end_turn phase \<Rightarrow>
             if role = ''developer'' \<and> is_contextual_dev_message_content content' then
               trim_pre_turn_context_updates host
                 (if has_non_contextual_dev_message_content content' then cm\<lparr>cm_reference_context_item := None\<rparr> else cm)
                 snapshot first_instruction_turn_idx (cut_idx - 1)
             else if role = ''user'' \<and> is_contextual_user_message_content host content' then
               trim_pre_turn_context_updates host cm snapshot first_instruction_turn_idx (cut_idx - 1)
             else (cm, cut_idx)
         | _ \<Rightarrow> (cm, cut_idx))
      else (cm, cut_idx))"

declare trim_pre_turn_context_updates.simps [simp del]

definition drop_last_n_user_turns :: "history_host \<Rightarrow> 'ctx context_manager \<Rightarrow> nat \<Rightarrow> 'ctx context_manager option" where
  "drop_last_n_user_turns host cm num_turns =
     (if num_turns = 0 then Some cm
      else
        (let snapshot = cm_items cm; user_positions = user_message_positions host snapshot in
         case user_positions of
           [] \<Rightarrow> Some (replace_items cm snapshot)
         | first_instruction_turn_idx # _ \<Rightarrow>
             (let cut_idx = (if length user_positions \<le> num_turns then first_instruction_turn_idx
                  else user_positions ! (length user_positions - num_turns)) in
              case trim_pre_turn_context_updates host cm snapshot first_instruction_turn_idx cut_idx of
                (cm', cut_idx') \<Rightarrow> map_option (replace_items cm') (slice snapshot 0 cut_idx'))))"

section \<open>Token usage of the history\<close>

definition estimate_token_count_with_base_instructions :: "history_host \<Rightarrow> 'ctx context_manager \<Rightarrow> string \<Rightarrow> int" where
  "estimate_token_count_with_base_instructions host cm base_instructions =
     (let base_tokens = i64_of_usize (approx_token_count base_instructions) in
      i64_add base_tokens (saturating_sum (map (estimate_item_token_count host) (cm_items cm))))"

fun is_encrypted_reasoning :: "response_item \<Rightarrow> bool" where
  "is_encrypted_reasoning (Reasoning id' summary content' (Some encrypted)) \<longleftrightarrow> True"
| "is_encrypted_reasoning _ \<longleftrightarrow> False"

definition get_non_last_reasoning_items_tokens :: "history_host \<Rightarrow> 'ctx context_manager \<Rightarrow> int" where
  "get_non_last_reasoning_items_tokens host cm =
     (case rposition (is_user_turn_boundary host) (cm_items cm) of
        None \<Rightarrow> 0
      | Some last_user_index \<Rightarrow>
          saturating_sum (map (estimate_item_token_count host) (filter is_encrypted_reasoning (take last_user_index (cm_items cm)))))"

definition items_after_last_model_generated_item :: "'ctx context_manager \<Rightarrow> response_item list" where
  "items_after_last_model_generated_item cm =
     (let start = (case rposition is_model_generated_item (cm_items cm) of
          None \<Rightarrow> length (cm_items cm)
        | Some index \<Rightarrow> saturating_add index 1)
      in drop start (cm_items cm))"

definition last_total_tokens :: "'ctx context_manager \<Rightarrow> int" where
  "last_total_tokens cm = (case cm_token_info cm of None \<Rightarrow> 0 | Some info \<Rightarrow> total_tokens (last_token_usage info))"

definition get_total_token_usage :: "history_host \<Rightarrow> 'ctx context_manager \<Rightarrow> bool \<Rightarrow> int" where
  "get_total_token_usage host cm server_reasoning_included =
     (let last_tokens = last_total_tokens cm;
        added = saturating_sum (map (estimate_item_token_count host) (items_after_last_model_generated_item cm)) in
      if server_reasoning_included then i64_add last_tokens added
      else i64_add (i64_add last_tokens (get_non_last_reasoning_items_tokens host cm)) added)"

definition get_total_token_usage_breakdown :: "history_host \<Rightarrow> 'ctx context_manager \<Rightarrow> total_token_usage_breakdown" where
  "get_total_token_usage_breakdown host cm =
     (let added = items_after_last_model_generated_item cm in
      \<lparr>last_api_response_total_tokens = last_total_tokens cm,
       all_history_items_model_visible_bytes = saturating_sum (map (estimate_response_item_model_visible_bytes host) (cm_items cm)),
       estimated_tokens_of_items_added = saturating_sum (map (estimate_item_token_count host) added),
       estimated_bytes_of_items_added = saturating_sum (map (estimate_response_item_model_visible_bytes host) added)\<rparr>)"

section \<open>Calls and outputs by key\<close>

definition keys_of :: "('i \<Rightarrow> 'k option) \<Rightarrow> 'i list \<Rightarrow> 'k set" where
  "keys_of f xs = {k. Some k \<in> f ` set xs}"

definition answers_after :: "('i \<Rightarrow> 'k option) \<Rightarrow> ('i \<Rightarrow> 'k option) \<Rightarrow> ('k \<Rightarrow> 'i) \<Rightarrow> 'i list \<Rightarrow> 'i \<Rightarrow> 'i list" where
  "answers_after call reply answer all x =
     (case call x of None \<Rightarrow> [x] | Some k \<Rightarrow> if k \<in> keys_of reply all then [x] else [x, answer k])"

definition completed :: "('i \<Rightarrow> 'k option) \<Rightarrow> ('i \<Rightarrow> 'k option) \<Rightarrow> ('k \<Rightarrow> 'i) \<Rightarrow> 'i list \<Rightarrow> 'i list" where
  "completed call reply answer xs = concat (map (answers_after call reply answer xs) xs)"

definition asked_for :: "('i \<Rightarrow> 'k option) \<Rightarrow> ('i \<Rightarrow> 'k option) \<Rightarrow> ('i \<Rightarrow> bool) \<Rightarrow> 'i list \<Rightarrow> 'i \<Rightarrow> bool" where
  "asked_for call reply exempt all x \<longleftrightarrow> (case reply x of None \<Rightarrow> True | Some k \<Rightarrow> exempt x \<or> k \<in> keys_of call all)"

definition well_paired :: "('i \<Rightarrow> 'k option) \<Rightarrow> ('i \<Rightarrow> 'k option) \<Rightarrow> ('i \<Rightarrow> bool) \<Rightarrow> 'i list \<Rightarrow> bool" where
  "well_paired call reply exempt xs \<longleftrightarrow>
     keys_of call xs \<subseteq> keys_of reply xs \<and> (\<forall>x \<in> set xs. asked_for call reply exempt xs x)"

definition one_each :: "('i \<Rightarrow> 'k option) \<Rightarrow> ('i \<Rightarrow> 'k option) \<Rightarrow> 'i list \<Rightarrow> bool" where
  "one_each call reply xs \<longleftrightarrow> distinct (List.map_filter call xs) \<and> distinct (List.map_filter reply xs)"

definition counterpart :: "('i \<Rightarrow> 'k option) \<Rightarrow> ('i \<Rightarrow> 'k option) \<Rightarrow> 'i \<Rightarrow> 'i \<Rightarrow> bool" where
  "counterpart call reply x y \<longleftrightarrow> call x \<noteq> None \<and> reply y = call x \<or> reply x \<noteq> None \<and> call y = reply x"

lemma keys_of_simps [simp]:
  "keys_of f [] = {}" "keys_of f (x # xs) = set_option (f x) \<union> keys_of f xs" "keys_of f (xs @ ys) = keys_of f xs \<union> keys_of f ys"
  by (cases "f x"; auto simp: keys_of_def)+

lemma in_keys_of: "k \<in> keys_of f xs \<longleftrightarrow> (\<exists>x \<in> set xs. f x = Some k)"
  by (auto simp: keys_of_def intro: sym)

lemma keys_of_map_filter: "keys_of f xs = set (List.map_filter f xs)"
  by (force simp: in_keys_of List.map_filter_def)

lemma asked_for_iff:
  "asked_for call reply exempt all x \<longleftrightarrow> (\<forall>k. reply x = Some k \<longrightarrow> exempt x \<or> k \<in> keys_of call all)"
  by (simp add: asked_for_def split: option.split)

lemma map_filter_app: "List.map_filter f (xs @ ys) = List.map_filter f xs @ List.map_filter f ys"
  by (simp add: List.map_filter_def)

text \<open>What inserting answers and dropping stray outputs does, for any kind of call with its output.\<close>

locale keyed_pairs =
  fixes call reply :: "'i \<Rightarrow> 'k option" and answer :: "'k \<Rightarrow> 'i" and exempt :: "'i \<Rightarrow> bool"
  assumes answer_output: "reply (answer k) = Some k"
    and answer_call: "call (answer k) = None"
    and not_both: "call x = Some k \<Longrightarrow> reply x = None"
begin

lemma answers_after_keys:
  "keys_of call (answers_after call reply answer all x) = set_option (call x)"
  "keys_of reply (answers_after call reply answer all x) = set_option (reply x) \<union> (set_option (call x) - keys_of reply all)"
  by (auto simp: answers_after_def answer_output answer_call not_both split: option.split)

lemma keys_of_concat: "keys_of f (concat xss) = (\<Union>xs \<in> set xss. keys_of f xs)"
  by (induction xss) simp_all

lemma completed_calls: "keys_of call (completed call reply answer xs) = keys_of call xs"
  by (auto simp: completed_def keys_of_concat answers_after_keys in_keys_of)

lemma completed_outputs: "keys_of reply (completed call reply answer xs) = keys_of reply xs \<union> keys_of call xs"
  by (auto simp: completed_def keys_of_concat answers_after_keys in_keys_of) (metis in_keys_of)

lemma cleaned_pairs:
  assumes "keys_of call xs \<subseteq> keys_of reply xs"
  shows "well_paired call reply exempt (filter (asked_for call reply exempt xs) xs)"
proof -
  have calls: "keys_of call (filter (asked_for call reply exempt xs) xs) = keys_of call xs"
    using not_both by (fastforce simp: in_keys_of asked_for_iff)
  have "keys_of call xs \<subseteq> keys_of reply (filter (asked_for call reply exempt xs) xs)"
    using assms by (fastforce simp: in_keys_of asked_for_iff)
  then show ?thesis by (simp add: well_paired_def calls asked_for_iff)
qed

lemma normalised_pairs:
  "well_paired call reply exempt
     (filter (asked_for call reply exempt (completed call reply answer xs)) (completed call reply answer xs))"
  by (rule cleaned_pairs) (simp add: completed_calls completed_outputs)

lemma completed_others: "filter (\<lambda>x. reply x = None) (completed call reply answer xs) = filter (\<lambda>x. reply x = None) xs"
proof -
  have "filter (\<lambda>x. reply x = None) (answers_after call reply answer all x) = (if reply x = None then [x] else [])" for all x
    by (auto simp: answers_after_def answer_output not_both split: option.split)
  then have "filter (\<lambda>x. reply x = None) (concat (map (answers_after call reply answer all) ys)) = filter (\<lambda>x. reply x = None) ys" for all ys
    by (induction ys) simp_all
  then show ?thesis by (simp add: completed_def)
qed

lemma normalised_others:
  "filter (\<lambda>x. reply x = None)
     (filter (asked_for call reply exempt all) (completed call reply answer xs)) = filter (\<lambda>x. reply x = None) xs"
proof -
  have "(\<lambda>x. asked_for call reply exempt all x \<and> reply x = None) = (\<lambda>x. reply x = None)"
    by (auto simp: asked_for_def)
  then show ?thesis by (simp add: completed_others conj_commute)
qed

lemma completed_paired:
  assumes "keys_of call xs \<subseteq> keys_of reply xs"
  shows "completed call reply answer xs = xs"
proof -
  have "answers_after call reply answer xs x = [x]" if "x \<in> set xs" for x
    using that assms by (auto simp: answers_after_def split: option.split dest!: subsetD [of _ _ "the (call x)"] simp: in_keys_of)
  then have "map (answers_after call reply answer xs) xs = map (\<lambda>x. [x]) xs" by (simp cong: map_cong)
  then show ?thesis by (simp only: completed_def concat_map_singleton list.map_ident)
qed

lemma well_paired_filter:
  assumes "well_paired call reply exempt xs" "\<And>x. call x \<noteq> None \<or> reply x \<noteq> None \<Longrightarrow> P x"
  shows "well_paired call reply exempt (filter P xs)"
proof -
  have "keys_of call (filter P xs) = keys_of call xs" "keys_of reply (filter P xs) = keys_of reply xs"
    using assms(2) by (fastforce simp: in_keys_of)+
  then show ?thesis using assms(1) by (auto simp: well_paired_def asked_for_iff)
qed

lemma well_paired_map:
  assumes "well_paired call reply exempt xs" "\<And>x. call (f x) = call x" "\<And>x. reply (f x) = reply x" "\<And>x. exempt (f x) = exempt x"
  shows "well_paired call reply exempt (map f xs)"
proof -
  have "keys_of call (map f xs) = keys_of call xs" "keys_of reply (map f xs) = keys_of reply xs"
    by (auto simp: in_keys_of assms(2,3))
  then show ?thesis using assms(1) by (simp add: well_paired_def asked_for_iff assms(3,4))
qed

text \<open>Taking an item out together with its counterpart leaves no half of a pair behind.\<close>

lemma removed_pairs:
  assumes pairs: "well_paired call reply exempt (us @ x # vs)" and once: "one_each call reply (us @ x # vs)"
  shows "well_paired call reply exempt (filter (\<lambda>y. \<not> counterpart call reply x y) (us @ vs))"
    "one_each call reply (filter (\<lambda>y. \<not> counterpart call reply x y) (us @ vs))"
proof -
  let ?all = "us @ x # vs" and ?rest = "filter (\<lambda>y. \<not> counterpart call reply x y) (us @ vs)"
  have apart: "f y \<noteq> f x" if d: "distinct (List.map_filter f ?all)" "y \<in> set (us @ vs)" "f x \<noteq> None" for f :: "'i \<Rightarrow> 'k option" and y
  proof -
    obtain k where k: "f x = Some k" using d(3) by auto
    then have "k \<notin> keys_of f (us @ vs)" using d(1) by (auto simp: map_filter_app map_filter_simps keys_of_map_filter)
    then show ?thesis using d(2) k by (auto simp: in_keys_of)
  qed
  have call_once: "call y \<noteq> call x" if "y \<in> set (us @ vs)" "call x \<noteq> None" for y
    using once apart that by (simp add: one_each_def)
  have reply_once: "reply y \<noteq> reply x" if "y \<in> set (us @ vs)" "reply x \<noteq> None" for y
    using once apart that by (simp add: one_each_def)
  have answered: "k \<in> keys_of reply ?rest" if y: "y \<in> set (us @ vs)" "\<not> counterpart call reply x y" "call y = Some k" for y k
  proof -
    have "k \<in> keys_of call ?all" using y by (auto simp: in_keys_of)
    then have "k \<in> keys_of reply ?all" using pairs by (auto simp: well_paired_def)
    then obtain z where z: "z \<in> set ?all" "reply z = Some k" unfolding in_keys_of by blast
    have "z \<noteq> x" using y z by (auto simp: counterpart_def)
    moreover have "\<not> counterpart call reply x z"
      using y z call_once [of y] not_both [of z] by (auto simp: counterpart_def)
    ultimately show ?thesis using z unfolding in_keys_of by auto
  qed
  have asked: "k \<in> keys_of call ?rest"
    if y: "y \<in> set (us @ vs)" "\<not> counterpart call reply x y" "reply y = Some k" "\<not> exempt y" for y k
  proof -
    have "k \<in> keys_of call ?all" using pairs y by (auto simp: well_paired_def asked_for_iff)
    then obtain z where z: "z \<in> set ?all" "call z = Some k" unfolding in_keys_of by blast
    have "z \<noteq> x" using y z by (auto simp: counterpart_def)
    moreover have "\<not> counterpart call reply x z"
      using y z reply_once [of y] not_both [OF z(2)] by (auto simp: counterpart_def)
    ultimately show ?thesis using z unfolding in_keys_of by auto
  qed
  have "keys_of call ?rest \<subseteq> keys_of reply ?rest"
  proof
    fix k assume "k \<in> keys_of call ?rest"
    then obtain y where "y \<in> set (us @ vs)" "\<not> counterpart call reply x y" "call y = Some k" unfolding in_keys_of by auto
    then show "k \<in> keys_of reply ?rest" by (rule answered)
  qed
  then show "well_paired call reply exempt ?rest"
    unfolding well_paired_def asked_for_iff set_filter using asked by blast
  have sub: "distinct (List.map_filter f (filter P ys))" if "distinct (List.map_filter f ys)" for f :: "'i \<Rightarrow> 'k option" and P ys
    using that by (induction ys) (auto simp: map_filter_simps simp flip: keys_of_map_filter simp: in_keys_of split: option.splits)
  show "one_each call reply ?rest"
    using once sub by (auto simp: one_each_def map_filter_app map_filter_simps split: option.splits simp del: filter_append)
qed

end

section \<open>The kinds of calls\<close>

datatype call_kind = FunctionKind | SearchKind | CustomKind

fun call_key :: "response_item \<Rightarrow> (call_kind \<times> string) option" where
  "call_key (FunctionCall id' name namespace args call_id) = Some (FunctionKind, call_id)"
| "call_key (LocalShellCall id' (Some call_id) status action) = Some (FunctionKind, call_id)"
| "call_key (ToolSearchCall id' (Some call_id) status execution args) = Some (SearchKind, call_id)"
| "call_key (CustomToolCall id' status call_id name inp) = Some (CustomKind, call_id)"
| "call_key _ = None"

fun output_key :: "response_item \<Rightarrow> (call_kind \<times> string) option" where
  "output_key (FunctionCallOutput call_id out) = Some (FunctionKind, call_id)"
| "output_key (ToolSearchOutput (Some call_id) status execution tools) = Some (SearchKind, call_id)"
| "output_key (CustomToolCallOutput call_id name out) = Some (CustomKind, call_id)"
| "output_key _ = None"

text \<open>A search that the server has executed needs no call of the client.\<close>

fun from_server :: "response_item \<Rightarrow> bool" where
  "from_server (ToolSearchOutput call_id status execution tools) \<longleftrightarrow> execution = ''server''"
| "from_server _ \<longleftrightarrow> False"

fun synthetic_output :: "call_kind \<times> string \<Rightarrow> response_item" where
  "synthetic_output (FunctionKind, call_id) = aborted_output call_id"
| "synthetic_output (SearchKind, call_id) = ToolSearchOutput (Some call_id) ''completed'' ''client'' []"
| "synthetic_output (CustomKind, call_id) = CustomToolCallOutput call_id None (payload_from_text ''aborted'')"

interpretation calls: keyed_pairs call_key output_key synthetic_output from_server
proof
  show "output_key (synthetic_output k) = Some k" "call_key (synthetic_output k) = None" for k
    by (induction k rule: synthetic_output.induct; simp add: aborted_output_def)+
  show "call_key x = Some k \<Longrightarrow> output_key x = None" for x k by (induction x rule: call_key.induct) simp_all
qed

abbreviation paired :: "response_item list \<Rightarrow> bool" where
  "paired \<equiv> well_paired call_key output_key from_server"

abbreviation single_ids :: "response_item list \<Rightarrow> bool" where
  "single_ids \<equiv> one_each call_key output_key"

abbreviation answered_items :: "response_item list \<Rightarrow> response_item list" where
  "answered_items \<equiv> completed call_key output_key synthetic_output"

abbreviation asked_item :: "response_item list \<Rightarrow> response_item \<Rightarrow> bool" where
  "asked_item \<equiv> asked_for call_key output_key from_server"

lemma is_output_key:
  "is_function_output call_id = (\<lambda>y. output_key y = Some (FunctionKind, call_id))"
  "is_search_output call_id = (\<lambda>y. output_key y = Some (SearchKind, call_id))"
  "is_custom_output call_id = (\<lambda>y. output_key y = Some (CustomKind, call_id))"
proof -
  have "is_function_output call_id y \<longleftrightarrow> output_key y = Some (FunctionKind, call_id)"
    "is_search_output call_id y \<longleftrightarrow> output_key y = Some (SearchKind, call_id)"
    "is_custom_output call_id y \<longleftrightarrow> output_key y = Some (CustomKind, call_id)" for y
    by (cases y rule: output_key.cases; simp)+
  then show "is_function_output call_id = (\<lambda>y. output_key y = Some (FunctionKind, call_id))"
    "is_search_output call_id = (\<lambda>y. output_key y = Some (SearchKind, call_id))"
    "is_custom_output call_id = (\<lambda>y. output_key y = Some (CustomKind, call_id))" by blast+
qed

lemma is_call_key:
  "is_function_call call_id y \<or> is_local_shell_call call_id y \<longleftrightarrow> call_key y = Some (FunctionKind, call_id)"
  "is_search_call call_id = (\<lambda>y. call_key y = Some (SearchKind, call_id))"
  "is_custom_call call_id = (\<lambda>y. call_key y = Some (CustomKind, call_id))"
proof -
  have pointwise: "is_function_call call_id y \<or> is_local_shell_call call_id y \<longleftrightarrow> call_key y = Some (FunctionKind, call_id)"
    "is_search_call call_id y \<longleftrightarrow> call_key y = Some (SearchKind, call_id)"
    "is_custom_call call_id y \<longleftrightarrow> call_key y = Some (CustomKind, call_id)" for y
    by (cases y rule: call_key.cases; simp)+
  show "is_function_call call_id y \<or> is_local_shell_call call_id y \<longleftrightarrow> call_key y = Some (FunctionKind, call_id)" by (rule pointwise)
  show "is_search_call call_id = (\<lambda>y. call_key y = Some (SearchKind, call_id))"
    "is_custom_call call_id = (\<lambda>y. call_key y = Some (CustomKind, call_id))" using pointwise by blast+
qed

lemma list_ex_key: "list_ex (\<lambda>y. f y = Some k) xs \<longleftrightarrow> k \<in> keys_of f xs"
  by (auto simp: list_ex_iff in_keys_of)

lemma output_has_call_asked: "output_has_call items x = asked_item items x"
proof -
  have "list_ex (is_function_call call_id) items \<or> list_ex (is_local_shell_call call_id) items \<longleftrightarrow>
      list_ex (\<lambda>y. call_key y = Some (FunctionKind, call_id)) items" for call_id
    by (auto simp: list_ex_iff simp flip: is_call_key)
  then show ?thesis
    by (cases "(items, x)" rule: output_has_call.cases) (auto simp: asked_for_def is_call_key list_ex_key split: option.split)
qed

lemma missing_output_cases:
  "missing_output host items x = Some (case call_key x of None \<Rightarrow> None
     | Some k \<Rightarrow> if k \<in> keys_of output_key items then None else Some (synthetic_output k)) \<or>
   missing_output host items x = None \<and> hx_debug host \<and> \<not> keys_of call_key [x] \<subseteq> keys_of output_key items"
  by (cases "(host, items, x)" rule: missing_output.cases) (auto simp: is_output_key list_ex_key error_or_panic_def)

lemma insert_outputs_append: "insert_outputs (xs @ ys) items = insert_outputs xs items \<bind> insert_outputs ys"
  by (induction xs items rule: insert_outputs.induct) (auto split: bind_split)

lemma insert_missing:
  "missing_outputs host items (length pre) rest = Some missing \<Longrightarrow>
   insert_outputs (rev missing) (pre @ rest) =
     Some (pre @ concat (map (answers_after call_key output_key synthetic_output items) rest))"
proof (induction rest arbitrary: pre missing)
  case (Cons x rest)
  from Cons.prems obtain m others where m: "missing_output host items x = Some m"
      "missing_outputs host items (length (pre @ [x])) rest = Some others"
      "missing = (case m of None \<Rightarrow> others | Some out \<Rightarrow> (length pre, out) # others)"
    by (auto split: bind_splits)
  have IH: "insert_outputs (rev others) (pre @ x # rest) =
      Some ((pre @ [x]) @ concat (map (answers_after call_key output_key synthetic_output items) rest))"
    using Cons.IH [OF m(2)] by simp
  have "answers_after call_key output_key synthetic_output items x = (case m of None \<Rightarrow> [x] | Some out \<Rightarrow> [x, out])"
    using missing_output_cases [of host items x] m(1) by (auto simp: answers_after_def split: option.splits)
  then show ?case
    using m(3) IH vec_insert_append [of "pre @ [x]"] by (cases m) (auto simp: insert_outputs_append)
qed simp

lemma missing_outputs_total:
  "missing_outputs host items idx rest = None \<Longrightarrow>
   hx_debug host \<and> \<not> keys_of call_key rest \<subseteq> keys_of output_key items"
proof (induction rest arbitrary: idx)
  case (Cons x rest)
  then show ?case using missing_output_cases [of host items x] by (auto split: bind_splits)
qed simp

lemma ensure_call_outputs:
  "ensure_call_outputs_present host items = Some (answered_items items) \<or>
   ensure_call_outputs_present host items = None \<and> hx_debug host \<and> \<not> keys_of call_key items \<subseteq> keys_of output_key items"
proof (cases "missing_outputs host items 0 items")
  case None
  then show ?thesis using missing_outputs_total [OF None] by (simp add: ensure_call_outputs_present_def)
next
  case (Some missing)
  then show ?thesis using insert_missing [of host items "[]" items missing]
    by (simp add: ensure_call_outputs_present_def completed_def)
qed

lemma retain_outputs_asked:
  "retain_outputs host items xs = Some (filter (asked_item items) xs) \<or>
   retain_outputs host items xs = None \<and> hx_debug host \<and> \<not> (\<forall>x \<in> set xs. asked_item items x)"
  by (induction xs) (auto simp: output_has_call_asked error_or_panic_def)

lemma strip_item_keys [simp]:
  "call_key (strip_item x) = call_key x" "output_key (strip_item x) = output_key x" "from_server (strip_item x) = from_server x"
  "is_ghost_snapshot (strip_item x) = is_ghost_snapshot x"
  by (cases x rule: strip_item.cases; simp)+

lemma strip_item_images [simp]: "item_images (strip_item x) = []"
proof -
  have "message_image (strip_message_image c) = None" for c by (cases c) simp_all
  moreover have "output_image (strip_output_image c) = None" for c by (cases c) simp_all
  moreover have "payload_images (map_content_items (map strip_output_image) b) = []" for b
    using \<open>\<And>c. output_image (strip_output_image c) = None\<close> by (cases b) (simp_all add: List.map_filter_def)
  ultimately show ?thesis by (cases x rule: strip_item.cases) (simp_all add: List.map_filter_def strip_payload_def)
qed

lemma ghosts_have_no_keys: "call_key x \<noteq> None \<or> output_key x \<noteq> None \<Longrightarrow> \<not> is_ghost_snapshot x"
  by (cases x) auto

text \<open>The prompt, with the two passes as plain list functions.\<close>

lemma for_prompt_eq:
  fixes cm :: "'ctx context_manager"
  defines "answered \<equiv> answered_items (cm_items cm)"
  shows "for_prompt host cm modalities =
      Some (filter (\<lambda>x. \<not> is_ghost_snapshot x)
        (strip_images_when_unsupported modalities (filter (asked_item answered) answered))) \<or>
    for_prompt host cm modalities = None \<and> hx_debug host \<and> \<not> paired (cm_items cm)"
proof (cases "ensure_call_outputs_present host (cm_items cm)")
  case None
  then show ?thesis using ensure_call_outputs [of host "cm_items cm"]
    by (auto simp: for_prompt_def normalize_history_def well_paired_def)
next
  case (Some items1)
  then have items1: "items1 = answered" using ensure_call_outputs [of host "cm_items cm"] by (auto simp: answered_def)
  have paired: "answered = cm_items cm" if "paired (cm_items cm)"
    using that calls.completed_paired by (simp add: well_paired_def answered_def)
  then have "paired (cm_items cm) \<Longrightarrow> \<forall>x \<in> set answered. asked_item answered x" by (simp add: well_paired_def)
  then show ?thesis
    using retain_outputs_asked [of host answered answered] Some
    by (auto simp: for_prompt_def normalize_history_def remove_orphan_outputs_def items1)
qed

text \<open>
  C21 (prompt_paired). The history that is sent to the model answers every call and holds no output without its call. Everything that is not
  an output is kept in order, except for snapshots; where the model takes no images there are none. In a release build the
  prompt is always made; a build with debug assertions may panic, but only on a history that is not paired already.
\<close>

theorem prompt_paired:
  "case for_prompt host cm modalities of
     None \<Rightarrow> hx_debug host \<and> \<not> paired (cm_items cm)
   | Some prompt \<Rightarrow>
       paired prompt \<and>
       filter (\<lambda>x. output_key x = None) prompt =
         strip_images_when_unsupported modalities (filter (\<lambda>x. output_key x = None \<and> \<not> is_ghost_snapshot x) (cm_items cm)) \<and>
       list_all (\<lambda>x. \<not> is_ghost_snapshot x \<and> (ImageInput \<in> set modalities \<or> item_images x = [])) prompt"
proof (cases "for_prompt host cm modalities")
  case None
  then show ?thesis using for_prompt_eq [of host cm modalities] by auto
next
  case (Some prompt)
  let ?answered = "answered_items (cm_items cm)"
  let ?kept = "filter (asked_item ?answered) ?answered"
  have prompt: "prompt = filter (\<lambda>x. \<not> is_ghost_snapshot x) (strip_images_when_unsupported modalities ?kept)"
    using for_prompt_eq [of host cm modalities] Some by auto
  have "paired (strip_images_when_unsupported modalities ?kept)"
    using calls.normalised_pairs calls.well_paired_map [OF calls.normalised_pairs, of strip_item]
    by (simp add: strip_images_when_unsupported_def)
  then have "paired prompt" unfolding prompt by (rule calls.well_paired_filter) (rule ghosts_have_no_keys)
  moreover have "filter (\<lambda>x. output_key x = None) prompt =
      strip_images_when_unsupported modalities (filter (\<lambda>x. output_key x = None \<and> \<not> is_ghost_snapshot x) (cm_items cm))"
  proof -
    have plain: "filter (\<lambda>x. output_key x = None \<and> \<not> is_ghost_snapshot x) ?kept =
        filter (\<lambda>x. output_key x = None \<and> \<not> is_ghost_snapshot x) (cm_items cm)"
      using calls.normalised_others [of ?answered "cm_items cm"] by (metis filter_filter)
    show ?thesis
      using plain by (simp add: prompt strip_images_when_unsupported_def filter_map comp_def conj_commute)
  qed
  moreover have "list_all (\<lambda>x. \<not> is_ghost_snapshot x \<and> (ImageInput \<in> set modalities \<or> item_images x = [])) prompt"
    by (auto simp: prompt list_all_iff strip_images_when_unsupported_def)
  ultimately show ?thesis by (simp add: Some)
qed

section \<open>Removing items at the ends\<close>

lemma vec_remove_keyed:
  assumes "distinct (List.map_filter f xs)" "i < length xs" "f (xs ! i) = Some k"
  shows "vec_remove xs i = Some (filter (\<lambda>y. f y \<noteq> Some k) xs)"
proof -
  let ?us = "take i xs" and ?vs = "drop (Suc i) xs"
  have xs: "xs = ?us @ xs ! i # ?vs" using assms(2) by (rule id_take_nth_drop)
  have "k \<notin> keys_of f (?us @ ?vs)"
    using assms(1,3) by (subst (asm) xs) (auto simp: map_filter_app map_filter_simps keys_of_map_filter)
  then have rest: "\<forall>y \<in> set (?us @ ?vs). f y \<noteq> Some k" unfolding in_keys_of by blast
  have "filter (\<lambda>y. f y \<noteq> Some k) xs = filter (\<lambda>y. f y \<noteq> Some k) (?us @ ?vs)" by (subst xs) (simp add: assms(3))
  also have "\<dots> = ?us @ ?vs" using rest by (simp only: filter_id_conv)
  finally show ?thesis using assms(2) by (simp add: vec_remove_def)
qed

lemma remove_first_keyed:
  assumes "distinct (List.map_filter f xs)"
  shows "remove_first_matching (\<lambda>y. f y = Some k) xs = Some (filter (\<lambda>y. f y \<noteq> Some k) xs)"
proof (cases "position (\<lambda>y. f y = Some k) xs")
  case None
  then have "filter (\<lambda>y. f y \<noteq> Some k) xs = xs" by (simp add: position_None filter_id_conv)
  then show ?thesis using None by (simp add: remove_first_matching_def)
next
  case (Some i)
  then have "i < length xs" "f (xs ! i) = Some k" by (simp_all add: position_Some)
  then show ?thesis using vec_remove_keyed [OF assms] Some by (simp add: remove_first_matching_def)
qed

lemma remove_function_call:
  assumes "distinct (List.map_filter call_key xs)"
  shows "remove_corresponding_for xs (FunctionCallOutput call_id out) =
    Some (filter (\<lambda>y. call_key y \<noteq> Some (FunctionKind, call_id)) xs)"
proof (cases "position (is_function_call call_id) xs")
  case None
  then have eq: "\<forall>y \<in> set xs. is_local_shell_call call_id y \<longleftrightarrow> call_key y = Some (FunctionKind, call_id)"
    by (auto simp: position_None simp flip: is_call_key(1))
  show ?thesis
  proof (cases "position (is_local_shell_call call_id) xs")
    case none: None
    then have "filter (\<lambda>y. call_key y \<noteq> Some (FunctionKind, call_id)) xs = xs" using eq by (simp add: position_None filter_id_conv)
    then show ?thesis by (simp add: None none)
  next
    case (Some i)
    then have "i < length xs" "call_key (xs ! i) = Some (FunctionKind, call_id)" using eq by (auto simp: position_Some)
    then show ?thesis using vec_remove_keyed [OF assms] Some by (simp add: None)
  qed
next
  case (Some i)
  then have "call_key (xs ! i) = Some (FunctionKind, call_id)" "i < length xs" by (auto simp: position_Some simp flip: is_call_key(1))
  then show ?thesis using vec_remove_keyed [OF assms] Some by simp
qed

lemma remove_corresponding_pairs:
  assumes "distinct (List.map_filter call_key xs)" "distinct (List.map_filter output_key xs)"
  shows "remove_corresponding_for xs x = Some (filter (\<lambda>y. \<not> counterpart call_key output_key x y) xs)"
proof -
  have keyed: "remove_corresponding_for xs x =
      Some (case call_key x of
          Some k \<Rightarrow> filter (\<lambda>y. output_key y \<noteq> Some k) xs
        | None \<Rightarrow> (case output_key x of Some k \<Rightarrow> filter (\<lambda>y. call_key y \<noteq> Some k) xs | None \<Rightarrow> xs))"
    using remove_first_keyed [OF assms(1)] remove_first_keyed [OF assms(2)] remove_function_call [OF assms(1)]
    by (cases "(xs, x)" rule: remove_corresponding_for.cases)
      (simp_all add: is_output_key is_call_key del: remove_corresponding_for.simps(2))
  show ?thesis
    by (cases "call_key x"; cases "output_key x") (auto simp: keyed counterpart_def calls.not_both)
qed

lemma one_each_sides:
  assumes "one_each call reply (us @ x # vs)"
  shows "distinct (List.map_filter call (us @ vs))" "distinct (List.map_filter reply (us @ vs))"
  using assms by (auto simp: one_each_def map_filter_app map_filter_simps split: option.splits)

text \<open>
  C35 (removal_keeps_pairs). Where every id occurs in one call and one output at most, taking the oldest or the newest item out of the history
  takes its counterpart out too: a history in which calls and outputs are paired stays so, without a new pass of
  normalisation, and no other item is touched.
\<close>

theorem removal_keeps_pairs:
  assumes "paired (cm_items cm)" "single_ids (cm_items cm)" "cm_items cm \<noteq> []"
  shows "\<exists>first last. remove_first_item cm = Some first \<and> remove_last_item cm = Some (last, True) \<and>
    cm_items first = filter (\<lambda>y. \<not> counterpart call_key output_key (hd (cm_items cm)) y) (tl (cm_items cm)) \<and>
    cm_items last = filter (\<lambda>y. \<not> counterpart call_key output_key (List.last (cm_items cm)) y) (butlast (cm_items cm)) \<and>
    paired (cm_items first) \<and> single_ids (cm_items first) \<and> paired (cm_items last) \<and> single_ids (cm_items last)"
proof -
  have head: "cm_items cm = [] @ hd (cm_items cm) # tl (cm_items cm)" using assms(3) by simp
  note sides = one_each_sides [of call_key output_key]
  have first: "remove_corresponding_for (tl (cm_items cm)) (hd (cm_items cm)) =
      Some (filter (\<lambda>y. \<not> counterpart call_key output_key (hd (cm_items cm)) y) (tl (cm_items cm)))"
    using sides [of "[]" "hd (cm_items cm)" "tl (cm_items cm)"] assms(2) head by (intro remove_corresponding_pairs) simp_all
  have last: "remove_corresponding_for (butlast (cm_items cm)) (List.last (cm_items cm)) =
      Some (filter (\<lambda>y. \<not> counterpart call_key output_key (List.last (cm_items cm)) y) (butlast (cm_items cm)))"
    using sides [of "butlast (cm_items cm)" "List.last (cm_items cm)" "[]"] assms(2,3) by (intro remove_corresponding_pairs) simp_all
  show ?thesis
    using calls.removed_pairs [of "[]" "hd (cm_items cm)" "tl (cm_items cm)"]
      calls.removed_pairs [of "butlast (cm_items cm)" "List.last (cm_items cm)" "[]"] assms first last
    by (auto simp: remove_first_item_def remove_last_item_def replace_items_def neq_Nil_conv)
qed

section \<open>Rolling back turns\<close>

fun context_update :: "history_host \<Rightarrow> response_item \<Rightarrow> bool" where
  "context_update host (Message id' role content' end_turn phase) \<longleftrightarrow>
     role = ''developer'' \<and> is_contextual_dev_message_content content' \<or>
     role = ''user'' \<and> is_contextual_user_message_content host content'"
| "context_update host _ \<longleftrightarrow> False"

text \<open>The cut alone, as a reference for the walk back.\<close>

fun trimmed_cut :: "history_host \<Rightarrow> response_item list \<Rightarrow> nat \<Rightarrow> nat \<Rightarrow> nat" where
  "trimmed_cut host s start 0 = 0"
| "trimmed_cut host s start (Suc cut_at) =
     (if start \<le> cut_at \<and> context_update host (s ! cut_at) then trimmed_cut host s start cut_at else Suc cut_at)"

definition cut_index :: "history_host \<Rightarrow> response_item list \<Rightarrow> nat \<Rightarrow> nat" where
  "cut_index host items n =
     (let ps = user_message_positions host items in
      if n = 0 \<or> ps = [] then length items
      else trimmed_cut host items (hd ps) (if length ps \<le> n then hd ps else ps ! (length ps - n)))"

lemma boundary_not_update: "is_user_turn_boundary host x \<Longrightarrow> \<not> context_update host x"
  by (cases x) auto

lemma trim_cut:
  "snd (trim_pre_turn_context_updates host cm s start cut_at) = trimmed_cut host s start cut_at"
  "cm_items (fst (trim_pre_turn_context_updates host cm s start cut_at)) = cm_items cm"
  by (induction cut_at arbitrary: cm)
    (subst trim_pre_turn_context_updates.simps, simp add: less_Suc_eq_le split: response_item.split)+

lemma trimmed_cut_le: "trimmed_cut host s start cut_at \<le> cut_at"
  by (induction cut_at) (auto intro: le_SucI)

lemma trimmed_cut_ge: "start \<le> cut_at \<Longrightarrow> start \<le> trimmed_cut host s start cut_at"
  by (induction cut_at) (auto simp: le_Suc_eq)

lemma trimmed_cut_updates: "trimmed_cut host s start cut_at \<le> i \<Longrightarrow> i < cut_at \<Longrightarrow> context_update host (s ! i)"
  by (induction cut_at) (auto simp: less_Suc_eq split: if_splits)

lemma trimmed_cut_take: "cut_at \<le> c \<Longrightarrow> trimmed_cut host (take c s) start cut_at = trimmed_cut host s start cut_at"
  by (induction cut_at) auto

lemma positions_take:
  assumes "c \<le> length items"
  shows "user_message_positions host (take c items) = filter (\<lambda>i. i < c) (user_message_positions host items)"
proof -
  have "[0..<length items] = [0..<c] @ [c..<length items]" using assms by (metis le_add_diff_inverse upt_add_eq_append zero_le)
  then show ?thesis using assms by (auto simp: user_message_positions_def min_absorb2 filter_empty_conv intro!: filter_cong)
qed

lemma positions_sorted: "sorted_wrt (<) (user_message_positions host items)"
  by (simp add: user_message_positions_def sorted_wrt_filter)

lemma positions_boundary: "i \<in> set (user_message_positions host items) \<Longrightarrow> i < length items \<and> is_user_turn_boundary host (items ! i)"
  by (simp add: user_message_positions_def)

lemma filter_below: "sorted_wrt (<) ps \<Longrightarrow> j < length ps \<Longrightarrow> filter (\<lambda>i. i < ps ! j) ps = take j (ps :: nat list)"
proof (induction ps arbitrary: j)
  case (Cons p ps)
  show ?case
  proof (cases j)
    case 0
    then show ?thesis using Cons.prems by (auto simp: filter_empty_conv)
  next
    case (Suc j')
    then show ?thesis using Cons by (auto simp: nth_mem)
  qed
qed simp

lemma drop_last_items:
  "\<exists>cm'. drop_last_n_user_turns host cm n = Some cm' \<and> cm_items cm' = take (cut_index host (cm_items cm) n) (cm_items cm)"
proof -
  let ?ps = "user_message_positions host (cm_items cm)"
  show ?thesis
  proof (cases "n = 0 \<or> ?ps = []")
    case True
    then show ?thesis by (auto simp: drop_last_n_user_turns_def cut_index_def replace_items_def)
  next
    case False
    define cut_at where "cut_at = (if length ?ps \<le> n then hd ?ps else ?ps ! (length ?ps - n))"
    have "cut_at \<in> set ?ps" using False by (auto simp: cut_at_def)
    then have "cut_at < length (cm_items cm)" using positions_boundary by blast
    then have "trimmed_cut host (cm_items cm) (hd ?ps) cut_at \<le> length (cm_items cm)"
      using trimmed_cut_le [of host "cm_items cm" "hd ?ps" cut_at] by simp
    moreover obtain cm1 cut1 where trim: "trim_pre_turn_context_updates host cm (cm_items cm) (hd ?ps) cut_at = (cm1, cut1)" by fastforce
    moreover have "cut1 = trimmed_cut host (cm_items cm) (hd ?ps) cut_at"
      using trim_cut(1) [of host cm "cm_items cm" "hd ?ps" cut_at] trim by simp
    ultimately show ?thesis
      using False by (cases ?ps) (auto simp: drop_last_n_user_turns_def cut_index_def cut_at_def slice_def replace_items_def Let_def)
  qed
qed

lemma cut_index_positions:
  fixes host items
  defines "ps \<equiv> user_message_positions host items"
  shows "user_message_positions host (take (cut_index host items n) items) = take (length ps - n) ps" "cut_index host items n \<le> length items"
proof -
  have "user_message_positions host (take (cut_index host items n) items) = take (length ps - n) ps \<and> cut_index host items n \<le> length items"
  proof (cases "n = 0 \<or> ps = []")
    case True
    then show ?thesis by (auto simp: cut_index_def ps_def)
  next
    case False
    define j where "j = length ps - n"
    have j: "j < length ps" "(if length ps \<le> n then hd ps else ps ! (length ps - n)) = ps ! j"
      using False by (auto simp: j_def hd_conv_nth)
    have index: "cut_index host items n = trimmed_cut host items (hd ps) (ps ! j)"
      using False j(2) by (simp add: cut_index_def flip: ps_def)
    have "cut_index host items n \<le> ps ! j" unfolding index by (rule trimmed_cut_le)
    moreover have "ps ! j < length items" using j(1) positions_boundary nth_mem unfolding ps_def by blast
    ultimately have le: "cut_index host items n \<le> length items" by simp
    have "i < cut_index host items n \<longleftrightarrow> i < ps ! j" if "i \<in> set ps" for i
      using trimmed_cut_updates [of host items "hd ps" "ps ! j" i] boundary_not_update positions_boundary [of i host items] that
        \<open>cut_index host items n \<le> ps ! j\<close> unfolding index ps_def by force
    then have "filter (\<lambda>i. i < cut_index host items n) ps = filter (\<lambda>i. i < ps ! j) ps" by (auto intro: filter_cong)
    also have "\<dots> = take j ps" using j(1) positions_sorted unfolding ps_def by (intro filter_below)
    finally show ?thesis using le by (simp add: positions_take ps_def [symmetric] j_def)
  qed
  then show "user_message_positions host (take (cut_index host items n) items) = take (length ps - n) ps" "cut_index host items n \<le> length items"
    by simp_all
qed

lemma cut_index_compose:
  "take (cut_index host (take (cut_index host items n) items) m) (take (cut_index host items n) items) = take (cut_index host items (n + m)) items"
proof -
  let ?ps = "user_message_positions host items" and ?c = "cut_index host items n"
  have ps1: "user_message_positions host (take ?c items) = take (length ?ps - n) ?ps" by (rule cut_index_positions)
  have none [simp]: "cut_index host xs 0 = length xs" for xs by (simp add: cut_index_def)
  consider "n = 0 \<or> m = 0" | "?ps = []" | "n \<noteq> 0" "m \<noteq> 0" "?ps \<noteq> []" "length ?ps \<le> n" | "n \<noteq> 0" "m \<noteq> 0" "n < length ?ps"
    by fastforce
  then show ?thesis
  proof cases
    case 1
    then show ?thesis using cut_index_positions(2) [of host items] by (auto simp: min_absorb1 min_absorb2)
  next
    case 2
    then show ?thesis by (simp add: cut_index_def)
  next
    case 3
    then show ?thesis using ps1 cut_index_positions(2) [of host items n] by (auto simp: cut_index_def Let_def min_absorb2)
  next
    case 4
    define cut_at where "cut_at = (if length ?ps \<le> n + m then hd ?ps else ?ps ! (length ?ps - (n + m)))"
    have head: "hd (take (length ?ps - n) ?ps) = hd ?ps" "take (length ?ps - n) ?ps \<noteq> []" using 4 by auto
    have "cut_at \<in> set (take (length ?ps - n) ?ps)"
    proof (cases "length ?ps \<le> n + m")
      case True
      then show ?thesis using hd_in_set [OF head(2)] by (simp add: cut_at_def head(1))
    next
      case False
      then have "take (length ?ps - n) ?ps ! (length ?ps - (n + m)) = cut_at" "length ?ps - (n + m) < length (take (length ?ps - n) ?ps)"
        using 4 by (simp_all add: cut_at_def)
      then show ?thesis by (metis nth_mem)
    qed
    then have "cut_at < ?c" using positions_boundary [of cut_at host "take ?c items"] ps1 by auto
    have "cut_index host (take ?c items) m = trimmed_cut host (take ?c items) (hd ?ps) cut_at"
      using 4 head by (auto simp: cut_index_def [of _ "take _ _"] ps1 cut_at_def Let_def)
    also have "\<dots> = trimmed_cut host items (hd ?ps) cut_at" using \<open>cut_at < ?c\<close> by (intro trimmed_cut_take) simp
    also have "\<dots> = cut_index host items (n + m)" using 4 by (auto simp: cut_index_def [of _ items "n + m"] cut_at_def Let_def)
    finally have "cut_index host (take ?c items) m = cut_index host items (n + m)" .
    moreover have "cut_index host items (n + m) \<le> ?c"
      using trimmed_cut_le [of host items "hd ?ps" cut_at] \<open>cut_at < ?c\<close> calculation \<open>trimmed_cut host items (hd ?ps) cut_at = cut_index host items (n + m)\<close>
      by simp
    ultimately show ?thesis by (simp add: min_absorb1)
  qed
qed

lemma length_positions: "length (user_message_positions host items) = length (filter (is_user_turn_boundary host) items)"
proof -
  have "map (\<lambda>i. items ! i) (user_message_positions host items) = filter (is_user_turn_boundary host) (map (\<lambda>i. items ! i) [0..<length items])"
    by (simp add: user_message_positions_def filter_map comp_def)
  then show ?thesis by (metis length_map map_nth)
qed

fun mixed_bundle :: "response_item \<Rightarrow> bool" where
  "mixed_bundle (Message id' role content' end_turn phase) \<longleftrightarrow> role = ''developer'' \<and> list_ex (\<lambda>c. \<not> is_contextual_dev_fragment c) content'"
| "mixed_bundle _ \<longleftrightarrow> False"

lemma trim_reference:
  "cut_at \<le> length s \<Longrightarrow>
   cm_reference_context_item (fst (trim_pre_turn_context_updates host cm s start cut_at)) =
     (if list_ex mixed_bundle (drop (trimmed_cut host s start cut_at) (take cut_at s)) then None else cm_reference_context_item cm)"
proof (induction cut_at arbitrary: cm)
  case 0
  then show ?case by (subst trim_pre_turn_context_updates.simps) simp
next
  case (Suc k)
  have "drop (trimmed_cut host s start k) (take (Suc k) s) = drop (trimmed_cut host s start k) (take k s) @ [s ! k]"
    using Suc.prems trimmed_cut_le [of host s start k] by (simp add: take_Suc_conv_app_nth)
  then show ?case
    using Suc by (subst trim_pre_turn_context_updates.simps)
      (auto simp: less_Suc_eq_le is_contextual_dev_message_content_def has_non_contextual_dev_message_content_def split: response_item.split)
qed

lemma trimmed_cut_stops:
  "start < trimmed_cut host s start cut_at \<Longrightarrow> \<not> context_update host (s ! (trimmed_cut host s start cut_at - 1))"
  by (induction cut_at) (auto simp: less_Suc_eq_le split: if_splits)

lemma trimmed_cut_above: "start < cut_at \<Longrightarrow> \<not> context_update host (s ! start) \<Longrightarrow> start < trimmed_cut host s start cut_at"
  by (induction cut_at) (auto simp: less_Suc_eq)

lemma drop_last_parts:
  fixes host :: history_host and cm :: "'ctx context_manager" and n :: nat
  defines "items \<equiv> cm_items cm"
  defines "ps \<equiv> user_message_positions host items"
  assumes "n \<noteq> 0" "ps \<noteq> []"
  obtains cut_at c cm' where
    "drop_last_n_user_turns host cm n = Some cm'" "cm_items cm' = take c items" "c \<le> cut_at" "cut_at < length items"
    "is_user_turn_boundary host (items ! cut_at)" "\<forall>i. c \<le> i \<and> i < cut_at \<longrightarrow> context_update host (items ! i)"
    "cm_reference_context_item cm' = (if list_ex mixed_bundle (drop c (take cut_at items)) then None else cm_reference_context_item cm)"
    "user_message_positions host (take cut_at items) = take (length ps - n) ps"
    "if n < length ps then 0 < c \<and> \<not> context_update host (items ! (c - 1)) else c = cut_at \<and> cut_at = hd ps"
proof -
  define cut_at where "cut_at = (if length ps \<le> n then hd ps else ps ! (length ps - n))"
  define j where "j = length ps - n"
  have j: "j < length ps" "cut_at = ps ! j" using assms(3,4) by (auto simp: j_def cut_at_def hd_conv_nth)
  then have member: "cut_at \<in> set ps" by simp
  then have bounds: "cut_at < length items" "is_user_turn_boundary host (items ! cut_at)"
    using positions_boundary [of cut_at host items] unfolding ps_def by auto
  define c where "c = trimmed_cut host items (hd ps) cut_at"
  have c: "c \<le> cut_at" "\<forall>i. c \<le> i \<and> i < cut_at \<longrightarrow> context_update host (items ! i)"
    by (auto simp: c_def trimmed_cut_le trimmed_cut_updates)
  obtain cm1 cut1 where trim: "trim_pre_turn_context_updates host cm items (hd ps) cut_at = (cm1, cut1)" by fastforce
  have "cut1 = c" using trim_cut(1) [of host cm items "hd ps" cut_at] trim by (simp add: c_def)
  have run: "drop_last_n_user_turns host cm n = Some (replace_items cm1 (take c items))"
    using assms(3,4) trim \<open>cut1 = c\<close> c(1) bounds(1)
    by (cases ps) (auto simp: drop_last_n_user_turns_def slice_def Let_def cut_at_def simp flip: items_def ps_def)
  have reference: "cm_reference_context_item (replace_items cm1 (take c items)) =
      (if list_ex mixed_bundle (drop c (take cut_at items)) then None else cm_reference_context_item cm)"
    using trim_reference [of cut_at items host cm "hd ps"] trim bounds(1) by (simp add: replace_items_def c_def)
  have positions: "user_message_positions host (take cut_at items) = take (length ps - n) ps"
    using positions_take [of cut_at items host] filter_below [OF positions_sorted, of j host items] bounds(1) j by (simp add: ps_def j_def)
  have "if n < length ps then 0 < c \<and> \<not> context_update host (items ! (c - 1)) else c = cut_at \<and> cut_at = hd ps"
  proof (cases "n < length ps")
    case True
    have first: "\<not> context_update host (items ! hd ps)" 
      using boundary_not_update positions_boundary [of "hd ps" host items] hd_in_set [OF assms(4)] unfolding ps_def by blast
    have "hd ps < cut_at" using True assms(3,4) positions_sorted [of host items] j
      by (auto simp: hd_conv_nth j_def sorted_wrt_iff_nth_less simp flip: ps_def)
    then have "hd ps < c" using first unfolding c_def by (rule trimmed_cut_above)
    then show ?thesis using trimmed_cut_stops [of "hd ps" host items cut_at] True by (simp add: c_def)
  next
    case False
    moreover have "trimmed_cut host items (hd ps) (hd ps) = hd ps"
      using trimmed_cut_le [of host items "hd ps" "hd ps"] trimmed_cut_ge [of "hd ps" "hd ps" host items] by simp
    ultimately show ?thesis by (simp add: c_def cut_at_def)
  qed
  then show ?thesis using that [OF run _ c(1) bounds c(2) reference positions] by (simp add: replace_items_def)
qed

lemma context_update_contents:
  "context_update host x \<longleftrightarrow>
     (case x of
        Message _ role content' _ _ \<Rightarrow>
          role = ''developer'' \<and> list_ex is_contextual_dev_fragment content' \<or>
          role = ''user'' \<and> list_ex (is_contextual_user_fragment host) content'
      | _ \<Rightarrow> False)"
  by (cases x) (auto simp: is_contextual_dev_message_content_def is_contextual_user_message_content_def)

lemma mixed_bundle_contents:
  "mixed_bundle x \<longleftrightarrow> (case x of Message _ role content' _ _ \<Rightarrow> role = ''developer'' \<and> list_ex (\<lambda>c. \<not> is_contextual_dev_fragment c) content' | _ \<Rightarrow> False)"
  by (cases x) auto

lemma rollback_parts:
  "\<exists>cm' trimmed dropped. drop_last_n_user_turns host cm n = Some cm' \<and>
     cm_items cm = cm_items cm' @ trimmed @ dropped \<and>
     length (filter (is_user_turn_boundary host) dropped) = min n (length (filter (is_user_turn_boundary host) (cm_items cm))) \<and>
     list_all (context_update host) trimmed \<and>
     (if n = 0 \<or> length (filter (is_user_turn_boundary host) (cm_items cm)) = 0 then trimmed = [] \<and> dropped = []
      else dropped \<noteq> [] \<and> is_user_turn_boundary host (hd dropped) \<and>
        (if n < length (filter (is_user_turn_boundary host) (cm_items cm)) then cm_items cm' \<noteq> [] \<and> \<not> context_update host (last (cm_items cm'))
         else trimmed = [] \<and> list_all (\<lambda>x. \<not> is_user_turn_boundary host x) (cm_items cm'))) \<and>
     cm_reference_context_item cm' = (if list_ex mixed_bundle trimmed then None else cm_reference_context_item cm)"
proof (cases "n = 0 \<or> user_message_positions host (cm_items cm) = []")
  case True
  then have "n = 0 \<or> length (filter (is_user_turn_boundary host) (cm_items cm)) = 0" using length_positions [of host "cm_items cm"] by auto
  moreover have "\<exists>cm'. drop_last_n_user_turns host cm n = Some cm' \<and> cm_items cm' = cm_items cm \<and>
      cm_reference_context_item cm' = cm_reference_context_item cm"
    using True by (auto simp: drop_last_n_user_turns_def replace_items_def)
  ultimately show ?thesis by auto
next
  case False
  let ?items = "cm_items cm" and ?ps = "user_message_positions host (cm_items cm)"
  obtain cut_at c cm' where parts:
      "drop_last_n_user_turns host cm n = Some cm'" "cm_items cm' = take c ?items" "c \<le> cut_at" "cut_at < length ?items"
      "is_user_turn_boundary host (?items ! cut_at)" "\<forall>i. c \<le> i \<and> i < cut_at \<longrightarrow> context_update host (?items ! i)"
      "cm_reference_context_item cm' = (if list_ex mixed_bundle (drop c (take cut_at ?items)) then None else cm_reference_context_item cm)"
      "user_message_positions host (take cut_at ?items) = take (length ?ps - n) ?ps"
      "if n < length ?ps then 0 < c \<and> \<not> context_update host (?items ! (c - 1)) else c = cut_at \<and> cut_at = hd ?ps"
    by (rule drop_last_parts [of n host cm]; use False in \<open>(simp; fail) | blast\<close>)
  let ?trimmed = "drop c (take cut_at ?items)" and ?dropped = "drop cut_at ?items"
  have "take cut_at ?items = cm_items cm' @ ?trimmed"
    using parts(2,3) append_take_drop_id [of c "take cut_at ?items"] by (simp add: min_absorb1)
  then have joined: "?items = cm_items cm' @ ?trimmed @ ?dropped" by (metis append.assoc append_take_drop_id)
  have turns: "length (filter (is_user_turn_boundary host) ?items) = length ?ps" by (simp add: length_positions)
  have "length (filter (is_user_turn_boundary host) (take cut_at ?items)) = length ?ps - n"
    using parts(8) by (simp flip: length_positions)
  moreover have "length (filter (is_user_turn_boundary host) (take cut_at ?items)) + length (filter (is_user_turn_boundary host) ?dropped) = length ?ps"
    using turns append_take_drop_id [of cut_at ?items] by (metis filter_append length_append)
  ultimately have count: "length (filter (is_user_turn_boundary host) ?dropped) = min n (length ?ps)"
      and kept: "n \<ge> length ?ps \<Longrightarrow> list_all (\<lambda>x. \<not> is_user_turn_boundary host x) (take cut_at ?items)"
    by (auto simp: list_all_iff filter_empty_conv)
  have updates: "list_all (context_update host) ?trimmed"
    using parts(3,4,6) by (auto simp: list_all_iff in_set_conv_nth)
  have "hd ?dropped = ?items ! cut_at" "?dropped \<noteq> []" using parts(4) by (simp_all add: hd_drop_conv_nth)
  moreover have "n < length ?ps \<Longrightarrow> cm_items cm' \<noteq> [] \<and> \<not> context_update host (last (cm_items cm'))"
    using parts(2-4,9) by (cases "take c ?items = []") (auto simp: last_conv_nth min_absorb2)
  moreover have "?trimmed = [] \<and> list_all (\<lambda>x. \<not> is_user_turn_boundary host x) (cm_items cm')" if "length ?ps \<le> n"
    using that parts(2,9) kept by simp
  ultimately show ?thesis
    using parts(1,5,7) joined count updates False unfolding turns
    by (intro exI [of _ cm'] exI [of _ ?trimmed] exI [of _ ?dropped]) auto
qed

lemma rollback_compose:
  assumes "drop_last_n_user_turns host cm n = Some cm'"
  shows "map_option cm_items (drop_last_n_user_turns host cm' m) = map_option cm_items (drop_last_n_user_turns host cm (n + m))"
  using assms drop_last_items [of host cm n] drop_last_items [of host cm' m] drop_last_items [of host cm "n + m"]
    cut_index_compose [of host "cm_items cm" n m] by auto

text \<open>
  C22 (rollback_turns). Rolling back \<open>n\<close> turns always succeeds and splits the history into what is kept, the trimmed context
  updates and what is dropped. The dropped part begins with the boundary of a turn and holds the last \<open>n\<close> turns (all of them when there are
  fewer). The trimmed part holds only developer messages with a contextual fragment and user messages with one, and nothing is trimmed
  beyond them: the kept part ends with an item that is no such update or, where every turn is dropped, is all that precedes the first turn. Without a turn
  to roll back nothing is dropped or trimmed. The baseline for the next turn is cleared exactly when a trimmed developer message
  also holds something else. Rolling back \<open>n\<close> turns and then \<open>m\<close> turns leaves the items that rolling back \<open>n + m\<close> turns leaves.
\<close>

theorem rollback_turns:
  "let turn = is_user_turn_boundary host; turns = length (filter turn (cm_items cm));
     update = (\<lambda>x. case x of
         Message _ role content' _ _ \<Rightarrow>
           role = ''developer'' \<and> list_ex is_contextual_dev_fragment content' \<or> role = ''user'' \<and> list_ex (is_contextual_user_fragment host) content'
       | _ \<Rightarrow> False);
     mixed = (\<lambda>x. case x of
         Message _ role content' _ _ \<Rightarrow> role = ''developer'' \<and> list_ex (\<lambda>c. \<not> is_contextual_dev_fragment c) content'
       | _ \<Rightarrow> False)
   in \<exists>cm' trimmed dropped. drop_last_n_user_turns host cm n = Some cm' \<and>
     cm_items cm = cm_items cm' @ trimmed @ dropped \<and>
     length (filter turn dropped) = min n turns \<and>
     list_all update trimmed \<and>
     (if n = 0 \<or> turns = 0 then trimmed = [] \<and> dropped = []
      else dropped \<noteq> [] \<and> turn (hd dropped) \<and>
        (if n < turns then cm_items cm' \<noteq> [] \<and> \<not> update (last (cm_items cm'))
         else trimmed = [] \<and> list_all (\<lambda>x. \<not> turn x) (cm_items cm'))) \<and>
     cm_reference_context_item cm' = (if list_ex mixed trimmed then None else cm_reference_context_item cm) \<and>
     map_option cm_items (drop_last_n_user_turns host cm' m) = map_option cm_items (drop_last_n_user_turns host cm (n + m))"
  using rollback_parts [of host cm n] rollback_compose [of host cm n _ m]
  unfolding Let_def context_update_contents [abs_def] mixed_bundle_contents [abs_def] by blast

text \<open>Where there is no turn to roll back, the items stay but the version of the history moves on.\<close>

lemma rollback_without_turns:
  "user_message_positions host (cm_items cm) = [] \<Longrightarrow> n \<noteq> 0 \<Longrightarrow>
   drop_last_n_user_turns host cm n = Some (cm\<lparr>cm_history_version := saturating_add (cm_history_version cm) 1\<rparr>)"
  by (simp add: drop_last_n_user_turns_def replace_items_def)

section \<open>Recording and counting\<close>

text \<open>An output that fits the budget is recorded as it is: the scaling never makes a budget smaller.\<close>

lemma process_item_fits:
  assumes "length content' \<le> budget" "budget \<le> 2 ^ 52" "payload_body out = OutputBodyText content'"
  shows "process_item (FunctionCallOutput call_id out) (Bytes budget) = Some (FunctionCallOutput call_id out)"
proof -
  have "length content' \<le> times_1_2 budget" using assms(1) times_1_2_ge [OF assms(2)] by simp
  then show ?thesis using assms(3)
    by (cases out) (simp add: truncate_function_output_payload_def truncate_middle_chars_def truncate_short)
qed

lemma record_items_appends:
  "record_items cm items policy = Some cm' \<Longrightarrow>
   \<exists>recorded. cm_items cm' = cm_items cm @ recorded \<and>
     map call_key recorded = map call_key (filter (\<lambda>x. is_api_message x \<or> is_ghost_snapshot x) items) \<and>
     map output_key recorded = map output_key (filter (\<lambda>x. is_api_message x \<or> is_ghost_snapshot x) items)"
proof (induction items arbitrary: cm)
  case (Cons item items)
  have keys: "call_key processed = call_key item \<and> output_key processed = output_key item"
    if "process_item item policy = Some processed" for processed
    using that by (cases "(item, policy)" rule: process_item.cases) auto
  show ?case
  proof (cases "is_api_message item \<or> is_ghost_snapshot item")
    case True
    then obtain processed where run: "process_item item policy = Some processed"
        "record_items (cm\<lparr>cm_items := cm_items cm @ [processed]\<rparr>) items policy = Some cm'"
      using Cons.prems by (auto split: bind_splits if_splits)
    show ?thesis using Cons.IH [OF run(2)] keys [OF run(1)] True by fastforce
  next
    case False
    then show ?thesis using Cons by simp
  qed
qed simp

lemma total_usage_covers:
  assumes "0 \<le> last_total_tokens cm" "last_total_tokens cm \<le> i64_max"
  shows "last_total_tokens cm \<le> get_total_token_usage host cm server" "get_total_token_usage host cm server \<le> i64_max"
proof -
  have sums: "0 \<le> saturating_sum (map (estimate_item_token_count host) xs)" for xs
    using token_count_nonneg by (subst saturating_sum_exact) (auto simp: i64_max_def intro!: sum_list_nonneg)
  have step: "a \<le> i64_add a b \<and> i64_add a b \<le> i64_max" if "0 \<le> b" "a \<le> i64_max" for a b
    using that by (auto simp: i64_add_def i64_defs)
  have "0 \<le> get_non_last_reasoning_items_tokens host cm"
    using sums by (simp add: get_non_last_reasoning_items_tokens_def split: option.split)
  then show "last_total_tokens cm \<le> get_total_token_usage host cm server" "get_total_token_usage host cm server \<le> i64_max"
    using step sums assms by (auto simp: get_total_token_usage_def Let_def) (meson order_trans)
qed

section \<open>Examples\<close>

definition plain_host :: "bool \<Rightarrow> history_host" where
  "plain_host debug = \<lparr>hx_debug = debug, hx_json = (\<lambda>_. None), hx_inter_agent = (\<lambda>_. False), hx_hook_xml = (\<lambda>_. None),
     hx_base64 = (\<lambda>_. None), hx_image_size = (\<lambda>_. None)\<rparr>"

definition said :: "string \<Rightarrow> string \<Rightarrow> response_item" where
  "said role text' = Message None role [InText text'] None None"

definition called :: "string \<Rightarrow> response_item" where
  "called call_id = FunctionCall None ''shell'' None ''{}'' call_id"

definition sample_history :: "response_item list \<Rightarrow> unit context_manager" where
  "sample_history items = \<lparr>cm_items = items, cm_history_version = 0, cm_token_info = None, cm_reference_context_item = Some ()\<rparr>"

lemma prompt_example:
  "for_prompt (plain_host False)
     (sample_history [said ''user'' ''hi'', called ''a'', FunctionCallOutput ''b'' (payload_from_text ''x'')]) [TextInput] =
   Some [said ''user'' ''hi'', called ''a'', aborted_output ''a'']"
  by code_simp

definition two_turns :: "response_item list" where
  "two_turns = [said ''user'' ''one'', said ''assistant'' ''1'',
     Message None ''developer'' [InText '' <Model_Switch>'', InText ''x''] None None,
     said ''user'' ''<turn_aborted></turn_aborted>'', said ''user'' ''two'']"

text \<open>Rolling back one turn also takes out the updates before it, and with the mixed message the baseline.\<close>

lemma rollback_example:
  "map_option (\<lambda>cm. (cm_items cm, cm_reference_context_item cm))
     (drop_last_n_user_turns (plain_host False) (sample_history two_turns) 1) =
   Some ([said ''user'' ''one'', said ''assistant'' ''1''], None)"
proof -
  have "user_message_positions (plain_host False) two_turns = [0, 4]" by code_simp
  moreover have "trim_pre_turn_context_updates (plain_host False) (sample_history two_turns) two_turns 0 4 =
      ((sample_history two_turns)\<lparr>cm_reference_context_item := None\<rparr>, 2)" by code_simp
  ultimately show ?thesis
    by (simp add: drop_last_n_user_turns_def replace_items_def slice_def sample_history_def) (simp add: two_turns_def)
qed

text \<open>With two outputs for one id, removing the call leaves an output behind.\<close>

lemma repeated_id_left_behind:
  "let items = [called ''a'', aborted_output ''a'', aborted_output ''a'']
   in paired items \<and> map_option cm_items (remove_first_item (sample_history items)) = Some [aborted_output ''a''] \<and>
      \<not> paired [aborted_output ''a'']"
proof -
  have "remove_corresponding_for [aborted_output ''a'', aborted_output ''a''] (called ''a'') = Some [aborted_output ''a'']" by code_simp
  then show ?thesis
    by (simp add: remove_first_item_def sample_history_def well_paired_def asked_for_def called_def aborted_output_def)
qed

definition two_calls :: "response_item list" where
  "two_calls = [called ''a'', called ''b'', aborted_output ''b'', aborted_output ''a'']"

theorem removal_keeps_pairs_witness:
  "\<exists>first last. remove_first_item (sample_history two_calls) = Some first \<and> remove_last_item (sample_history two_calls) = Some (last, True) \<and>
    cm_items first = [called ''b'', aborted_output ''b''] \<and> cm_items last = [called ''b'', aborted_output ''b''] \<and>
    paired (cm_items first) \<and> single_ids (cm_items first) \<and> paired (cm_items last) \<and> single_ids (cm_items last)"
proof -
  have "paired two_calls" "single_ids two_calls" "two_calls \<noteq> []"
    by (simp_all add: two_calls_def called_def aborted_output_def well_paired_def asked_for_def one_each_def map_filter_simps)
  then have "\<exists>first last. remove_first_item (sample_history two_calls) = Some first \<and> remove_last_item (sample_history two_calls) = Some (last, True) \<and>
      cm_items first = filter (\<lambda>y. \<not> counterpart call_key output_key (hd two_calls) y) (tl two_calls) \<and>
      cm_items last = filter (\<lambda>y. \<not> counterpart call_key output_key (List.last two_calls) y) (butlast two_calls) \<and>
      paired (cm_items first) \<and> single_ids (cm_items first) \<and> paired (cm_items last) \<and> single_ids (cm_items last)"
    using removal_keeps_pairs [of "sample_history two_calls"] by (simp add: sample_history_def)
  then show ?thesis by (simp add: two_calls_def called_def aborted_output_def counterpart_def)
qed

end
