(* ===== verification/Policy_Builder.thy ===== *)
theory Policy_Builder
  imports Exec_Policy
begin

text \<open>
  \<open>codex-rs/execpolicy/src/parser.rs\<close> and the example checks of \<open>rule.rs\<close>: the builtins a policy file
  calls, the builder they fill, and the validation of the examples given with the rules.

  The Starlark evaluator runs the file and calls the builtins one after the other; here a file is the
  list of these calls, its values the strings and lists that the builtins inspect. The shell lexer
  (\<open>shlex\<close>) and the debug printing of rules, which only error messages show, are fields of a record.
\<close>

section \<open>Values and patterns\<close>

datatype starlark_value = StrV string | ListV "starlark_value list" | OtherV string

fun get_type :: "starlark_value \<Rightarrow> string" where
  "get_type (StrV _) = ''string''"
| "get_type (ListV _) = ''list''"
| "get_type (OtherV t) = t"

fun unpack_str :: "starlark_value \<Rightarrow> string option" where
  "unpack_str (StrV s) = Some s"
| "unpack_str _ = None"

text \<open>\<open>collect::<Result<Vec<_>>>\<close>: the first error ends it.\<close>

fun collect_results :: "('a \<Rightarrow> ('e, 'b) result) \<Rightarrow> 'a list \<Rightarrow> ('e, 'b list) result" where
  "collect_results f [] = Ok []"
| "collect_results f (x # xs) =
     (case f x of Err e \<Rightarrow> Err e | Ok y \<Rightarrow> map_sum id ((#) y) (collect_results f xs))"

definition strings_or :: "(string \<Rightarrow> policy_error) \<Rightarrow> starlark_value list \<Rightarrow> (policy_error, string list) result" where
  "strings_or err vs = collect_results (\<lambda>v. case unpack_str v of Some s \<Rightarrow> Ok s | None \<Rightarrow> Err (err (get_type v))) vs"

definition parse_pattern_token :: "starlark_value \<Rightarrow> (policy_error, pattern_token) result" where
  "parse_pattern_token v =
     (case v of
        StrV s \<Rightarrow> Ok (Single s)
      | ListV vs \<Rightarrow>
          (case strings_or (\<lambda>t. InvalidPattern (''pattern alternative must be a string (got '' @ t @ '')'')) vs of
             Err e \<Rightarrow> Err e
           | Ok [] \<Rightarrow> Err (InvalidPattern ''pattern alternatives cannot be empty'')
           | Ok [single] \<Rightarrow> Ok (Single single)
           | Ok tokens \<Rightarrow> Ok (Alts tokens))
      | OtherV t \<Rightarrow> Err (InvalidPattern (''pattern element must be a string or list of strings (got '' @ t @ '')'')))"

definition parse_pattern :: "starlark_value list \<Rightarrow> (policy_error, pattern_token list) result" where
  "parse_pattern vs =
     (case collect_results parse_pattern_token vs of
        Err e \<Rightarrow> Err e
      | Ok [] \<Rightarrow> Err (InvalidPattern ''pattern cannot be empty'')
      | Ok tokens \<Rightarrow> Ok tokens)"

text \<open>Code of other packages.\<close>

record shell_lexer =
  shlex_split :: "string \<Rightarrow> string list option"
  shlex_join :: "string list \<Rightarrow> string option"
  debug_rule :: "prefix_rule \<Rightarrow> string"
  debug_match :: "rule_match \<Rightarrow> string"

definition parse_string_example :: "shell_lexer \<Rightarrow> string \<Rightarrow> (policy_error, string list) result" where
  "parse_string_example lx raw =
     (case shlex_split lx raw of
        None \<Rightarrow> Err (InvalidExample ''example string has invalid shell syntax'')
      | Some [] \<Rightarrow> Err (InvalidExample ''example cannot be an empty string'')
      | Some tokens \<Rightarrow> Ok tokens)"

definition parse_list_example :: "starlark_value list \<Rightarrow> (policy_error, string list) result" where
  "parse_list_example vs =
     (case strings_or (\<lambda>t. InvalidExample (''example tokens must be strings (got '' @ t @ '')'')) vs of
        Err e \<Rightarrow> Err e
      | Ok [] \<Rightarrow> Err (InvalidExample ''example cannot be an empty list'')
      | Ok tokens \<Rightarrow> Ok tokens)"

definition parse_example :: "shell_lexer \<Rightarrow> starlark_value \<Rightarrow> (policy_error, string list) result" where
  "parse_example lx v =
     (case v of
        StrV raw \<Rightarrow> parse_string_example lx raw
      | ListV vs \<Rightarrow> parse_list_example vs
      | OtherV t \<Rightarrow> Err (InvalidExample (''example must be a string or list of strings (got '' @ t @ '')'')))"

definition parse_examples :: "shell_lexer \<Rightarrow> starlark_value list option \<Rightarrow> (policy_error, string list list) result" where
  "parse_examples lx vs = (case vs of None \<Rightarrow> Ok [] | Some vs \<Rightarrow> collect_results (parse_example lx) vs)"

section \<open>The builder\<close>

record pending_example_validation =
  pev_rules :: "prefix_rule list"
  pev_matches :: "string list list"
  pev_not_matches :: "string list list"
  pev_location :: "error_location option"

record policy_builder =
  b_rules :: multimap
  b_network_rules :: "network_rule list"
  b_host_executables :: "string \<Rightarrow> string list option"
  b_pending :: "pending_example_validation list"

definition new_builder :: policy_builder where
  "new_builder = \<lparr>b_rules = [], b_network_rules = [], b_host_executables = (\<lambda>_. None), b_pending = []\<rparr>"

definition add_rule :: "prefix_rule \<Rightarrow> policy_builder \<Rightarrow> policy_builder" where
  "add_rule r b = b\<lparr>b_rules := mm_insert (rule_program r) r (b_rules b)\<rparr>"

definition builder_add_network_rule :: "network_rule \<Rightarrow> policy_builder \<Rightarrow> policy_builder" where
  "builder_add_network_rule r b = b\<lparr>b_network_rules := b_network_rules b @ [r]\<rparr>"

definition add_host_executable :: "string \<Rightarrow> string list \<Rightarrow> policy_builder \<Rightarrow> policy_builder" where
  "add_host_executable name paths b = b\<lparr>b_host_executables := (b_host_executables b)(name \<mapsto> paths)\<rparr>"

definition add_pending_example_validation :: "pending_example_validation \<Rightarrow> policy_builder \<Rightarrow> policy_builder" where
  "add_pending_example_validation v b = b\<lparr>b_pending := b_pending b @ [v]\<rparr>"

definition build :: "policy_builder \<Rightarrow> policy" where
  "build b = \<lparr>rules_by_program = b_rules b, network_rules = b_network_rules b,
              host_executables_by_name = b_host_executables b\<rparr>"

section \<open>Examples\<close>

definition render_example :: "shell_lexer \<Rightarrow> string list \<Rightarrow> string" where
  "render_example lx example = (case shlex_join lx example of Some s \<Rightarrow> s | None \<Rightarrow> ''unable to render example'')"

definition resolving :: match_options where
  "resolving = \<lparr>resolve_host_executables = True\<rparr>"

definition validate_match_examples :: "shell_lexer \<Rightarrow> environment \<Rightarrow> policy \<Rightarrow> prefix_rule list \<Rightarrow> string list list \<Rightarrow>
    (policy_error, unit) result" where
  "validate_match_examples lx env p rules examples =
     (let unmatched = filter (\<lambda>example. matches_for_command_with_options env p example None resolving = []) examples in
      if unmatched = [] then Ok ()
      else Err (ExampleDidNotMatch (map (debug_rule lx) rules) (map (render_example lx) unmatched) None))"

fun validate_not_match_examples :: "shell_lexer \<Rightarrow> environment \<Rightarrow> policy \<Rightarrow> string list list \<Rightarrow>
    (policy_error, unit) result" where
  "validate_not_match_examples lx env p [] = Ok ()"
| "validate_not_match_examples lx env p (example # examples) =
     (case matches_for_command_with_options env p example None resolving of
        m # _ \<Rightarrow> Err (ExampleDidMatch (debug_match lx m) (render_example lx example) None)
      | [] \<Rightarrow> validate_not_match_examples lx env p examples)"

definition attach_validation_location :: "error_location option \<Rightarrow> policy_error \<Rightarrow> policy_error" where
  "attach_validation_location loc e = (case loc of Some l \<Rightarrow> with_location l e | None \<Rightarrow> e)"

text \<open>The policy of one validation: its own rules, and the host executables of the whole builder.\<close>

definition validation_policy :: "policy_builder \<Rightarrow> pending_example_validation \<Rightarrow> policy" where
  "validation_policy b v =
     \<lparr>rules_by_program = fold (\<lambda>r. mm_insert (rule_program r) r) (pev_rules v) [], network_rules = [],
      host_executables_by_name = b_host_executables b\<rparr>"

fun validate_loop :: "shell_lexer \<Rightarrow> environment \<Rightarrow> policy_builder \<Rightarrow> pending_example_validation list \<Rightarrow>
    (policy_error, unit) result" where
  "validate_loop lx env b [] = Ok ()"
| "validate_loop lx env b (v # vs) =
     (case validate_not_match_examples lx env (validation_policy b v) (pev_not_matches v) of
        Err e \<Rightarrow> Err (attach_validation_location (pev_location v) e)
      | Ok _ \<Rightarrow>
          (case validate_match_examples lx env (validation_policy b v) (pev_rules v) (pev_matches v) of
             Err e \<Rightarrow> Err (attach_validation_location (pev_location v) e)
           | Ok _ \<Rightarrow> validate_loop lx env b vs))"

definition validate_pending_examples_from :: "shell_lexer \<Rightarrow> environment \<Rightarrow> nat \<Rightarrow> policy_builder \<Rightarrow>
    (policy_error, unit) result" where
  "validate_pending_examples_from lx env start b = validate_loop lx env b (drop start (b_pending b))"

section \<open>The builtins\<close>

definition parse_justification :: "string option \<Rightarrow> (policy_error, string option) result" where
  "parse_justification j =
     (case j of
        Some raw \<Rightarrow> if trim raw = [] then Err (InvalidRule ''justification cannot be empty'') else Ok (Some raw)
      | None \<Rightarrow> Ok None)"

definition prefix_rule_builtin :: "shell_lexer \<Rightarrow> starlark_value list \<Rightarrow> string option \<Rightarrow> starlark_value list option \<Rightarrow>
    starlark_value list option \<Rightarrow> string option \<Rightarrow> error_location option \<Rightarrow> policy_builder \<Rightarrow>
    (policy_error, policy_builder) result" where
  "prefix_rule_builtin lx pattern d match not_match j loc b =
     (case (case d of Some raw \<Rightarrow> parse_decision raw | None \<Rightarrow> Ok Allow) of
        Err e \<Rightarrow> Err e
      | Ok d \<Rightarrow>
     (case parse_justification j of
        Err e \<Rightarrow> Err e
      | Ok j \<Rightarrow>
     (case parse_pattern pattern of
        Err e \<Rightarrow> Err e
      | Ok tokens \<Rightarrow>
     (case parse_examples lx match of
        Err e \<Rightarrow> Err e
      | Ok matches \<Rightarrow>
     (case parse_examples lx not_match of
        Err e \<Rightarrow> Err e
      | Ok not_matches \<Rightarrow>
     (case tokens of
        [] \<Rightarrow> Err (InvalidPattern ''pattern cannot be empty'')
      | first_token # rest \<Rightarrow>
          (let rules = map (\<lambda>head. \<lparr>rule_pattern = \<lparr>pat_first = head, pat_rest = rest\<rparr>,
                                    rule_decision = d, rule_justification = j\<rparr>) (alternatives first_token) in
           Ok (fold add_rule rules
                 (add_pending_example_validation
                   \<lparr>pev_rules = rules, pev_matches = matches, pev_not_matches = not_matches, pev_location = loc\<rparr> b)))))))))"

definition parse_network_rule_decision :: "string \<Rightarrow> (policy_error, decision) result" where
  "parse_network_rule_decision raw = (if raw = ''deny'' then Ok Forbidden else parse_decision raw)"

definition network_rule_builtin :: "string \<Rightarrow> string \<Rightarrow> string \<Rightarrow> string option \<Rightarrow> policy_builder \<Rightarrow>
    (policy_error, policy_builder) result" where
  "network_rule_builtin host protocol d j b =
     (case parse_protocol protocol of
        Err e \<Rightarrow> Err e
      | Ok protocol \<Rightarrow>
     (case parse_network_rule_decision d of
        Err e \<Rightarrow> Err e
      | Ok d \<Rightarrow>
     (case parse_justification j of
        Err e \<Rightarrow> Err e
      | Ok j \<Rightarrow>
     (case normalize_network_rule_host host of
        Err e \<Rightarrow> Err e
      | Ok host \<Rightarrow> Ok (builder_add_network_rule
          \<lparr>net_host = host, net_protocol = protocol, net_decision = d, net_justification = j\<rparr> b)))))"

definition parse_literal_absolute_path :: "environment \<Rightarrow> string \<Rightarrow> (policy_error, string) result" where
  "parse_literal_absolute_path env raw =
     (if \<not> is_absolute raw then Err (InvalidRule (''host_executable paths must be absolute (got '' @ raw @ '')''))
      else (case from_absolute_path (env_home env) (env_cwd env) raw of
              Ok p \<Rightarrow> Ok p
            | Err e \<Rightarrow> Err (InvalidRule (''invalid absolute path `'' @ raw @ ''`: '' @ e))))"

definition validate_host_executable_name :: "string \<Rightarrow> (policy_error, unit) result" where
  "validate_host_executable_name name =
     (if name = [] then Err (InvalidRule ''host_executable name cannot be empty'')
      else if length (components name) \<noteq> 1 \<or> file_name name \<noteq> Some name
      then Err (InvalidRule (''host_executable name must be a bare executable name (got '' @ name @ '')''))
      else Ok ())"

definition msg_basename :: "string \<Rightarrow> string \<Rightarrow> string" where
  "msg_basename raw name = ''host_executable path `'' @ raw @ ''` must have basename `'' @ name @ ''`''"

fun host_paths_loop :: "environment \<Rightarrow> string \<Rightarrow> starlark_value list \<Rightarrow> string list \<Rightarrow> (policy_error, string list) result" where
  "host_paths_loop env name [] parsed = Ok parsed"
| "host_paths_loop env name (v # vs) parsed =
     (case unpack_str v of
        None \<Rightarrow> Err (InvalidRule (''host_executable paths must be strings (got '' @ get_type v @ '')''))
      | Some raw \<Rightarrow>
          (case parse_literal_absolute_path env raw of
             Err e \<Rightarrow> Err e
           | Ok path \<Rightarrow>
               (case executable_path_lookup_key path of
                  None \<Rightarrow> Err (InvalidRule (msg_basename raw name))
                | Some path_name \<Rightarrow>
                    if path_name \<noteq> executable_lookup_key name then Err (InvalidRule (msg_basename raw name))
                    else host_paths_loop env name vs (if path \<in> set parsed then parsed else parsed @ [path]))))"

definition host_executable_builtin :: "environment \<Rightarrow> string \<Rightarrow> starlark_value list \<Rightarrow> policy_builder \<Rightarrow>
    (policy_error, policy_builder) result" where
  "host_executable_builtin env name paths b =
     (case validate_host_executable_name name of
        Err e \<Rightarrow> Err e
      | Ok _ \<Rightarrow>
          (case host_paths_loop env name paths [] of
             Err e \<Rightarrow> Err e
           | Ok parsed \<Rightarrow> Ok (add_host_executable (executable_lookup_key name) parsed b)))"

section \<open>A policy file\<close>

datatype builtin_call =
    PrefixRuleCall "starlark_value list" "string option" "starlark_value list option" "starlark_value list option"
      "string option" "error_location option"
  | NetworkRuleCall string string string "string option"
  | HostExecutableCall string "starlark_value list"

fun run_call :: "shell_lexer \<Rightarrow> environment \<Rightarrow> builtin_call \<Rightarrow> policy_builder \<Rightarrow> (policy_error, policy_builder) result" where
  "run_call lx env (PrefixRuleCall pattern d m n j loc) b = prefix_rule_builtin lx pattern d m n j loc b"
| "run_call lx env (NetworkRuleCall host protocol d j) b = network_rule_builtin host protocol d j b"
| "run_call lx env (HostExecutableCall name paths) b = host_executable_builtin env name paths b"

text \<open>The calls of a file in order; the builder keeps what was added before an error.\<close>

fun run_calls :: "shell_lexer \<Rightarrow> environment \<Rightarrow> builtin_call list \<Rightarrow> policy_builder \<Rightarrow> policy_builder \<times> (policy_error, unit) result" where
  "run_calls lx env [] b = (b, Ok ())"
| "run_calls lx env (c # cs) b =
     (case run_call lx env c b of Err e \<Rightarrow> (b, Err e) | Ok b' \<Rightarrow> run_calls lx env cs b')"

definition parse_policy :: "shell_lexer \<Rightarrow> environment \<Rightarrow> builtin_call list \<Rightarrow> policy_builder \<Rightarrow>
    policy_builder \<times> (policy_error, unit) result" where
  "parse_policy lx env calls b =
     (let pending_validation_count = length (b_pending b) in
      case run_calls lx env calls b of
        (b', Err e) \<Rightarrow> (b', Err e)
      | (b', Ok _) \<Rightarrow> (b', validate_pending_examples_from lx env pending_validation_count b'))"

section \<open>What every policy file leaves behind\<close>

text \<open>The rules under a program are rules of that program, and of nothing else.\<close>

definition keyed :: "multimap \<Rightarrow> bool" where
  "keyed m \<longleftrightarrow> (\<forall>k. \<forall>r \<in> set (mm_get m k). rule_program r = k)"

definition host_paths_ok :: "(string \<Rightarrow> string list option) \<Rightarrow> bool" where
  "host_paths_ok hosts \<longleftrightarrow>
     (\<forall>name paths. hosts name = Some paths \<longrightarrow>
        distinct paths \<and> (\<forall>p \<in> set paths. normalized_absolute p \<and> file_name p = Some name))"

definition host_normalized :: "string \<Rightarrow> bool" where
  "host_normalized h \<longleftrightarrow> (\<exists>raw. normalize_network_rule_host raw = Ok h)"

definition pending_kept :: "policy_builder \<Rightarrow> bool" where
  "pending_kept b \<longleftrightarrow> (\<forall>v \<in> set (b_pending b). \<forall>r \<in> set (pev_rules v). r \<in> set (mm_get (b_rules b) (rule_program r)))"

definition builder_ok :: "policy_builder \<Rightarrow> bool" where
  "builder_ok b \<longleftrightarrow> wf_multimap (b_rules b) \<and> keyed (b_rules b) \<and> host_paths_ok (b_host_executables b) \<and>
     (\<forall>r \<in> set (b_network_rules b). host_normalized (net_host r)) \<and> pending_kept b"

lemma builder_ok_new: "builder_ok new_builder"
  by (simp add: builder_ok_def new_builder_def wf_multimap_def keyed_def mm_get_def host_paths_ok_def pending_kept_def)

lemma keyed_insert: "keyed m \<Longrightarrow> keyed (mm_insert (rule_program r) r m)"
  by (auto simp: keyed_def mm.get_ins)

text \<open>Adding the rules of one call, and its validation.\<close>

lemma add_rule_fields [simp]:
  "b_host_executables (add_rule r b) = b_host_executables b"
  "b_network_rules (add_rule r b) = b_network_rules b"
  "b_pending (add_rule r b) = b_pending b"
  "b_rules (add_rule r b) = mm_insert (rule_program r) r (b_rules b)"
  by (simp_all add: add_rule_def)

lemma add_rules_fields [simp]:
  "b_host_executables (fold add_rule rs b) = b_host_executables b"
  "b_network_rules (fold add_rule rs b) = b_network_rules b"
  "b_pending (fold add_rule rs b) = b_pending b"
  "b_rules (fold add_rule rs b) = fold (\<lambda>r. mm_insert (rule_program r) r) rs (b_rules b)"
  by (induction rs arbitrary: b) simp_all

lemma insert_rules:
  "wf_multimap m \<Longrightarrow> keyed m \<Longrightarrow>
     wf_multimap (fold (\<lambda>r. mm_insert (rule_program r) r) rs m) \<and> keyed (fold (\<lambda>r. mm_insert (rule_program r) r) rs m)"
  by (induction rs arbitrary: m) (simp_all add: wf_mm_insert keyed_insert)

lemma insert_rules_get:
  "set (mm_get (fold (\<lambda>r. mm_insert (rule_program r) r) rs m) k) =
     set (mm_get m k) \<union> {r \<in> set rs. rule_program r = k}"
  by (induction rs arbitrary: m) (auto simp: mm.get_ins)

lemma builder_ok_rules:
  assumes "builder_ok b" "pev_rules v = rs"
  shows "builder_ok (fold add_rule rs (add_pending_example_validation v b))"
  using assms insert_rules [of "b_rules b" rs]
  by (auto simp: builder_ok_def add_pending_example_validation_def pending_kept_def insert_rules_get)

lemma prefix_rule_ok:
  assumes "builder_ok b" "prefix_rule_builtin lx pattern d m n j loc b = Ok b'"
  shows "builder_ok b'"
proof -
  from assms(2) obtain v rs where "b' = fold add_rule rs (add_pending_example_validation v b)" "pev_rules v = rs"
    by (force simp: prefix_rule_builtin_def Let_def split: sum.splits list.splits)
  with builder_ok_rules [OF assms(1), of v rs] show ?thesis by simp
qed

lemma network_rule_ok:
  assumes "builder_ok b" "network_rule_builtin host protocol d j b = Ok b'"
  shows "builder_ok b'"
proof -
  from assms(2) obtain r where r: "normalize_network_rule_host host = Ok (net_host r)"
      "b' = builder_add_network_rule r b"
    by (force simp: network_rule_builtin_def split: sum.splits)
  then have "host_normalized (net_host r)" unfolding host_normalized_def by blast
  with assms(1) r(2) show ?thesis
    by (auto simp: builder_ok_def builder_add_network_rule_def pending_kept_def)
qed

lemma literal_path_normalized:
  assumes "parse_literal_absolute_path env raw = Ok p"
  shows "normalized_absolute p"
proof -
  have abs: "is_absolute raw" using assms by (auto simp: parse_literal_absolute_path_def split: if_splits)
  then have "maybe_expand_home_directory (env_home env) raw = raw"
    by (auto simp: maybe_expand_home_directory_def is_absolute_def strip_prefix_def prefix_def split: option.splits)
  with assms abs show ?thesis
    by (simp add: parse_literal_absolute_path_def from_absolute_path_def absolutize_def)
      (metis normalize_path_absolute)
qed

lemma host_paths_loop_ok:
  assumes "host_paths_loop env name vs parsed = Ok paths"
    and "distinct parsed" "\<forall>p \<in> set parsed. normalized_absolute p \<and> file_name p = Some name"
  shows "distinct paths \<and> (\<forall>p \<in> set paths. normalized_absolute p \<and> file_name p = Some name)"
  using assms
proof (induction vs arbitrary: parsed)
  case (Cons v vs)
  from Cons.prems(1) obtain raw where raw: "unpack_str v = Some raw" by (simp split: option.splits)
  with Cons.prems(1) obtain path where lit: "parse_literal_absolute_path env raw = Ok path"
    by (simp split: sum.splits)
  with Cons.prems(1) raw have path: "file_name path = Some name"
      "host_paths_loop env name vs (if path \<in> set parsed then parsed else parsed @ [path]) = Ok paths"
    by (simp_all add: executable_path_lookup_key_def executable_lookup_key_def split: option.splits if_splits)
  have "distinct (if path \<in> set parsed then parsed else parsed @ [path])"
    using Cons.prems(2) by simp
  moreover have "\<forall>p \<in> set (if path \<in> set parsed then parsed else parsed @ [path]). normalized_absolute p \<and> file_name p = Some name"
    using Cons.prems(3) literal_path_normalized [OF lit] path(1) by simp
  ultimately show ?case by (rule Cons.IH [OF path(2)])
qed simp

lemma host_executable_ok:
  assumes "builder_ok b" "host_executable_builtin env name paths b = Ok b'"
  shows "builder_ok b'"
proof -
  from assms(2) obtain parsed where "host_paths_loop env name paths [] = Ok parsed"
      "b' = add_host_executable name parsed b"
    by (auto simp: host_executable_builtin_def executable_lookup_key_def split: sum.splits)
  with host_paths_loop_ok [OF this(1)] assms(1) show ?thesis
    by (simp add: builder_ok_def add_host_executable_def pending_kept_def host_paths_ok_def)
qed

lemma run_call_ok: "builder_ok b \<Longrightarrow> run_call lx env c b = Ok b' \<Longrightarrow> builder_ok b'"
  by (cases c) (auto intro: prefix_rule_ok network_rule_ok host_executable_ok)

lemma run_calls_ok: "builder_ok b \<Longrightarrow> builder_ok (fst (run_calls lx env cs b))"
  by (induction cs arbitrary: b) (auto split: sum.split dest: run_call_ok)

text \<open>
  C31 (policy_file_invariant). Whatever a policy file calls, and even when it fails half way, the policy
  built so far is well formed: each program has one entry whose rules are all for that program,
  every host of a network rule is normalised, and the paths of a host executable are distinct,
  absolute, free of dot components and end in the executable's name.
\<close>

theorem policy_file_invariant:
  assumes "builder_ok b"
  shows "builder_ok (fst (parse_policy lx env calls b))"
  using run_calls_ok [OF assms, of lx env calls]
  by (auto simp: parse_policy_def Let_def split: prod.split sum.split)

definition plain_lexer :: shell_lexer where
  "plain_lexer = \<lparr>shlex_split = (\<lambda>s. Some (split_on (CHR '' '') s)), shlex_join = (\<lambda>ts. Some (join '' '' ts)),
                  debug_rule = (\<lambda>_. ''rule''), debug_match = (\<lambda>_. ''match'')\<rparr>"

definition sample_env :: environment where
  "sample_env = \<lparr>env_home = None, env_cwd = Ok ''/work''\<rparr>"

text \<open>A file with a rule, its examples, and the one path where its program may be.\<close>

definition sample_calls :: "builtin_call list" where
  "sample_calls =
     [PrefixRuleCall [StrV ''git'', ListV [StrV ''status'', StrV ''diff'']] None
        (Some [StrV ''git status'', ListV [StrV ''/usr/bin/git'', StrV ''diff'']]) (Some [StrV ''git push'']) None None,
      HostExecutableCall ''git'' [StrV ''/usr/bin/git'']]"

theorem policy_file_invariant_witness: "builder_ok (fst (parse_policy plain_lexer sample_env sample_calls new_builder))"
  by (rule policy_file_invariant) (rule builder_ok_new)

section \<open>Examples hold in the finished policy\<close>

text \<open>Whether some rule matches, directly or through the base name of the program.\<close>

lemma host_matches_not_Nil:
  "match_host_executable_rules env p (first # args) \<noteq> [] \<longleftrightarrow>
     (\<exists>program basename r. from_absolute_path (env_home env) (env_cwd env) first = Ok program \<and>
        executable_path_lookup_key program = Some basename \<and>
        (\<forall>paths. host_executables_by_name p basename = Some paths \<longrightarrow> program \<in> set paths) \<and>
        r \<in> set (mm_get (rules_by_program p) basename) \<and> matches_prefix (rule_pattern r) (basename # args) \<noteq> None)"
  by (auto simp: match_host_executable_rules_def mm_get_def map_filter_rule_matches filter_empty_conv
      split: sum.splits option.splits)

lemma matches_not_Nil_iff:
  "matches_for_command_with_options env p cmd None resolving \<noteq> [] \<longleftrightarrow>
     applicable p cmd \<noteq> [] \<or> match_host_executable_rules env p cmd \<noteq> []"
proof (cases cmd)
  case Nil
  then show ?thesis
    by (simp add: matches_for_command_with_options_def match_exact_rules_def applicable_def resolving_def
        match_host_executable_rules_def)
next
  case (Cons c cs)
  then show ?thesis
    by (cases "applicable p cmd")
      (simp_all add: matches_for_command_with_options_def match_exact_applicable resolving_def)
qed

lemma matches_mono:
  assumes "matches_for_command_with_options env p cmd None resolving \<noteq> []"
    and "\<And>k. set (mm_get (rules_by_program p) k) \<subseteq> set (mm_get (rules_by_program q) k)"
    and "host_executables_by_name q = host_executables_by_name p"
  shows "matches_for_command_with_options env q cmd None resolving \<noteq> []"
proof (cases cmd)
  case Nil
  with assms(1) show ?thesis
    by (simp add: matches_not_Nil_iff applicable_def match_host_executable_rules_def)
next
  case (Cons c cs)
  have "applicable q cmd \<noteq> []" if "applicable p cmd \<noteq> []"
  proof -
    from that Cons obtain r where "r \<in> set (mm_get (rules_by_program p) (hd cmd))" "matches_prefix (rule_pattern r) cmd \<noteq> None"
      by (auto simp: applicable_def filter_empty_conv)
    with assms(2) have "r \<in> set (applicable q cmd)" using Cons by (auto simp: applicable_def)
    then show ?thesis by auto
  qed
  moreover have "match_host_executable_rules env q cmd \<noteq> []" if "match_host_executable_rules env p cmd \<noteq> []"
    using that assms(2,3) unfolding Cons host_matches_not_Nil by fastforce
  ultimately show ?thesis using assms(1) by (auto simp: matches_not_Nil_iff)
qed

lemma validation_policy_sub:
  assumes "builder_ok b" "v \<in> set (b_pending b)"
  shows "set (mm_get (rules_by_program (validation_policy b v)) k) \<subseteq> set (mm_get (rules_by_program (build b)) k)"
proof -
  have "mm_get [] k = []" by (simp add: mm_get_def)
  then show ?thesis
    using assms by (auto simp: validation_policy_def build_def insert_rules_get builder_ok_def pending_kept_def)
qed

lemma validation_policy_hosts:
  "host_executables_by_name (build b) = host_executables_by_name (validation_policy b v)"
  by (simp add: build_def validation_policy_def)

lemma validate_not_match_examples_Ok:
  "validate_not_match_examples lx env p examples = Ok () \<longleftrightarrow>
     (\<forall>ex \<in> set examples. matches_for_command_with_options env p ex None resolving = [])"
  by (induction examples) (simp_all split: list.split)

lemma validate_match_examples_Ok:
  "validate_match_examples lx env p rs examples = Ok () \<longleftrightarrow>
     (\<forall>ex \<in> set examples. matches_for_command_with_options env p ex None resolving \<noteq> [])"
  by (auto simp: validate_match_examples_def Let_def filter_empty_conv)

lemma validate_loop_Ok:
  "validate_loop lx env b vs = Ok () \<Longrightarrow> v \<in> set vs \<Longrightarrow>
     (\<forall>ex \<in> set (pev_not_matches v). matches_for_command_with_options env (validation_policy b v) ex None resolving = []) \<and>
     (\<forall>ex \<in> set (pev_matches v). matches_for_command_with_options env (validation_policy b v) ex None resolving \<noteq> [])"
proof (induction vs)
  case (Cons u vs)
  have ok: "validate_not_match_examples lx env (validation_policy b u) (pev_not_matches u) = Ok ()"
      "validate_match_examples lx env (validation_policy b u) (pev_rules u) (pev_matches u) = Ok ()"
      "validate_loop lx env b vs = Ok ()"
    using Cons.prems(1) by (simp_all split: sum.splits)
  show ?case
  proof (cases "v = u")
    case True
    with ok show ?thesis unfolding validate_not_match_examples_Ok validate_match_examples_Ok by blast
  next
    case False
    with Cons.IH [OF ok(3)] Cons.prems(2) show ?thesis by simp
  qed
qed simp

text \<open>
  C29 (examples_hold). When a policy file is accepted, the examples written in it hold: every example that
  a rule should match is matched by the finished policy, in whatever order rules and host
  executables were declared, and no example that a rule should not match is matched by a pattern of
  that rule.
\<close>

theorem examples_hold:
  assumes "parse_policy lx env calls new_builder = (b, Ok ())" "v \<in> set (b_pending b)"
  shows "(\<forall>ex \<in> set (pev_matches v). matches_for_command_with_options env (build b) ex None resolving \<noteq> []) \<and>
    (\<forall>ex \<in> set (pev_not_matches v). \<forall>r \<in> set (pev_rules v). matches_prefix (rule_pattern r) ex = None)"
proof -
  have run: "fst (run_calls lx env calls new_builder) = b" and valid: "validate_loop lx env b (b_pending b) = Ok ()"
    using assms(1)
    by (auto simp: parse_policy_def Let_def validate_pending_examples_from_def new_builder_def
        split: prod.splits sum.splits)
  have ok: "builder_ok b" using run_calls_ok [OF builder_ok_new, of lx env calls] run by simp
  note loop = validate_loop_Ok [OF valid assms(2)]
  have "matches_for_command_with_options env (build b) ex None resolving \<noteq> []" if "ex \<in> set (pev_matches v)" for ex
    using loop that matches_mono [OF _ validation_policy_sub [OF ok assms(2)] validation_policy_hosts] by blast
  moreover have "matches_prefix (rule_pattern r) ex = None"
    if "ex \<in> set (pev_not_matches v)" "r \<in> set (pev_rules v)" for ex r
  proof (cases "ex = [] \<or> hd ex \<noteq> rule_program r")
    case True
    then show ?thesis by (cases ex) (simp_all add: matches_prefix_def rule_program_def Let_def)
  next
    case False
    have "applicable (validation_policy b v) ex = []"
      using loop that(1) matches_not_Nil_iff by blast
    with False that(2) show ?thesis
      by (auto simp: applicable_def filter_empty_conv validation_policy_def insert_rules_get)
  qed
  ultimately show ?thesis by blast
qed

theorem examples_hold_witness:
  "matches_for_command_with_options sample_env
     (build (fst (parse_policy plain_lexer sample_env sample_calls new_builder)))
     [''/usr/bin/git'', ''diff''] None resolving \<noteq> []"
proof -
  let ?run = "parse_policy plain_lexer sample_env sample_calls new_builder"
  let ?v = "hd (b_pending (fst ?run))"
  have "snd ?run = Ok ()" by code_simp
  then have run: "?run = (fst ?run, Ok ())" by (metis prod.collapse)
  have v: "b_pending (fst ?run) \<noteq> []" "[''/usr/bin/git'', ''diff''] \<in> set (pev_matches ?v)" by code_simp+
  then have "?v \<in> set (b_pending (fst ?run))" by simp
  from examples_hold [OF run this] v(2) show ?thesis by blast
qed

end
