(* ===== verification/Policy_Amend.thy ===== *)
theory Policy_Amend
  imports Exec_Policy Patch_Apply
begin

text \<open>
  Adding a rule to a policy file (\<open>execpolicy/src/amend.rs\<close>): the rule is written as one line, under a lock of
  the file, unless the file already has that line. The file operations of the standard library are a
  record of functions on the state of the file system, each of which may fail; an open file is named by
  its path. The JSON encoder is another package and an argument.
\<close>

section \<open>Operations\<close>

record 'fs std_files =
  create_dir :: "'fs \<Rightarrow> string \<Rightarrow> 'fs \<times> (io_error, unit) result"
  open_append :: "'fs \<Rightarrow> string \<Rightarrow> 'fs \<times> (io_error, unit) result"
  lock_file :: "'fs \<Rightarrow> string \<Rightarrow> 'fs \<times> (io_error, unit) result"
  seek_start :: "'fs \<Rightarrow> string \<Rightarrow> 'fs \<times> (io_error, unit) result"
  read_to_string :: "'fs \<Rightarrow> string \<Rightarrow> (io_error, string) result"
  write_all :: "'fs \<Rightarrow> string \<Rightarrow> string \<Rightarrow> 'fs \<times> (io_error, unit) result"

type_synonym json_encoder = "string \<Rightarrow> (string, string) result"

datatype amend_error =
    EmptyPrefix
  | InvalidNetworkRule string
  | MissingParent string
  | CreatePolicyDir string io_error
  | SerializePrefix string
  | SerializeNetworkRule string
  | OpenPolicyFile string io_error
  | WritePolicyFile string io_error
  | LockPolicyFile string io_error
  | SeekPolicyFile string io_error
  | ReadPolicyFile string io_error
  | PolicyMetadata string io_error

text \<open>\<open>.map_err(wrap)?\<close> on an operation of the file system.\<close>

definition io_then :: "'fs \<times> (io_error, 'a) result \<Rightarrow> (io_error \<Rightarrow> 'e) \<Rightarrow> ('fs \<Rightarrow> 'a \<Rightarrow> 'fs \<times> ('e, 'b) result) \<Rightarrow>
    'fs \<times> ('e, 'b) result" where
  "io_then r wrap k = (case r of (st, Err e) \<Rightarrow> (st, Err (wrap e)) | (st, Ok a) \<Rightarrow> k st a)"

definition append_locked_line :: "'fs std_files \<Rightarrow> 'fs \<Rightarrow> string \<Rightarrow> string \<Rightarrow> 'fs \<times> (amend_error, unit) result" where
  "append_locked_line fs st path line =
     io_then (open_append fs st path) (OpenPolicyFile path) (\<lambda>st _.
     io_then (lock_file fs st path) (LockPolicyFile path) (\<lambda>st _.
     io_then (seek_start fs st path) (SeekPolicyFile path) (\<lambda>st _.
     io_then (st, read_to_string fs st path) (ReadPolicyFile path) (\<lambda>st contents.
       if line \<in> set (str_lines contents) then (st, Ok ())
       else
         io_then (if contents \<noteq> [] \<and> last contents \<noteq> nl then write_all fs st path [nl] else (st, Ok ()))
           (WritePolicyFile path) (\<lambda>st _.
         io_then (write_all fs st path (line @ [nl])) (WritePolicyFile path) (\<lambda>st _. (st, Ok ())))))))"

definition append_rule_line :: "'fs std_files \<Rightarrow> 'fs \<Rightarrow> string \<Rightarrow> string \<Rightarrow> 'fs \<times> (amend_error, unit) result" where
  "append_rule_line fs st path rule =
     (case path_parent path of
        None \<Rightarrow> (st, Err (MissingParent path))
      | Some dir \<Rightarrow>
          (case create_dir fs st dir of
             (st, Ok _) \<Rightarrow> append_locked_line fs st path rule
           | (st, Err e) \<Rightarrow>
               if err_kind e = AlreadyExists then append_locked_line fs st path rule
               else (st, Err (CreatePolicyDir dir e))))"

fun json_all :: "json_encoder \<Rightarrow> string list \<Rightarrow> (string, string list) result" where
  "json_all json [] = Ok []"
| "json_all json (s # ss) =
     (case json s of Err e \<Rightarrow> Err e | Ok t \<Rightarrow> (case json_all json ss of Err e \<Rightarrow> Err e | Ok ts \<Rightarrow> Ok (t # ts)))"

definition prefix_rule_line :: "string list \<Rightarrow> string" where
  "prefix_rule_line tokens = ''prefix_rule(pattern=['' @ join '', '' tokens @ ''], decision=\"allow\")''"

definition blocking_append_allow_prefix_rule :: "json_encoder \<Rightarrow> 'fs std_files \<Rightarrow> 'fs \<Rightarrow> string \<Rightarrow> string list \<Rightarrow>
    'fs \<times> (amend_error, unit) result" where
  "blocking_append_allow_prefix_rule json fs st path words =
     (if words = [] then (st, Err EmptyPrefix)
      else
        (case json_all json words of
           Err e \<Rightarrow> (st, Err (SerializePrefix e))
         | Ok tokens \<Rightarrow> append_rule_line fs st path (prefix_rule_line tokens)))"

text \<open>\<open>debug\<close> is the standard library's \<open>Debug\<close> format of a list of strings.\<close>

fun show_policy_error :: "(string list \<Rightarrow> string) \<Rightarrow> policy_error \<Rightarrow> string" where
  "show_policy_error debug (InvalidDecision s) = ''invalid decision: '' @ s"
| "show_policy_error debug (InvalidPattern s) = ''invalid pattern element: '' @ s"
| "show_policy_error debug (InvalidExample s) = ''invalid example: '' @ s"
| "show_policy_error debug (InvalidRule s) = ''invalid rule: '' @ s"
| "show_policy_error debug (ExampleDidNotMatch rules examples location) =
     ''expected every example to match at least one rule. rules: '' @ debug rules @ ''; unmatched examples: '' @ debug examples"
| "show_policy_error debug (ExampleDidMatch rule example location) =
     ''expected example to not match rule `'' @ rule @ ''`: '' @ example"

fun policy_word :: "decision \<Rightarrow> string" where
  "policy_word Allow = ''allow''"
| "policy_word Prompt = ''prompt''"
| "policy_word Forbidden = ''deny''"

definition network_rule_args :: "json_encoder \<Rightarrow> string \<Rightarrow> network_rule_protocol \<Rightarrow> decision \<Rightarrow> string option \<Rightarrow>
    (string, string list) result" where
  "network_rule_args json host protocol d j =
     (case json host of
        Err e \<Rightarrow> Err e
      | Ok host \<Rightarrow>
     (case json (as_policy_string protocol) of
        Err e \<Rightarrow> Err e
      | Ok protocol \<Rightarrow>
     (case json (policy_word d) of
        Err e \<Rightarrow> Err e
      | Ok d \<Rightarrow>
          (let args = [''host='' @ host, ''protocol='' @ protocol, ''decision='' @ d] in
           case j of
             None \<Rightarrow> Ok args
           | Some justification \<Rightarrow>
               (case json justification of
                  Err e \<Rightarrow> Err e
                | Ok justification \<Rightarrow> Ok (args @ [''justification='' @ justification]))))))"

definition blocking_append_network_rule :: "(string list \<Rightarrow> string) \<Rightarrow> json_encoder \<Rightarrow> 'fs std_files \<Rightarrow> 'fs \<Rightarrow> string \<Rightarrow> string \<Rightarrow>
    network_rule_protocol \<Rightarrow> decision \<Rightarrow> string option \<Rightarrow> 'fs \<times> (amend_error, unit) result" where
  "blocking_append_network_rule debug json fs st path host protocol d j =
     (case normalize_network_rule_host host of
        Err e \<Rightarrow> (st, Err (InvalidNetworkRule (show_policy_error debug e)))
      | Ok host \<Rightarrow>
          if (case j of Some raw \<Rightarrow> trim raw = [] | None \<Rightarrow> False)
          then (st, Err (InvalidNetworkRule ''justification cannot be empty''))
          else
            (case network_rule_args json host protocol d j of
               Err e \<Rightarrow> (st, Err (SerializeNetworkRule e))
             | Ok args \<Rightarrow> append_rule_line fs st path (''network_rule('' @ join '', '' args @ '')'')))"

section \<open>A rule is added once\<close>

text \<open>
  What the proofs use of the file operations; \<open>txt\<close> gives the text of a file. Opening creates an empty
  file, writing appends, and nothing else changes a text or touches another file.
\<close>

definition file_laws :: "'fs std_files \<Rightarrow> ('fs \<Rightarrow> string \<Rightarrow> string option) \<Rightarrow> bool" where
  "file_laws fs txt \<longleftrightarrow>
     (\<forall>st p. txt (fst (create_dir fs st p)) = txt st) \<and>
     (\<forall>st p. txt (fst (lock_file fs st p)) = txt st) \<and>
     (\<forall>st p. txt (fst (seek_start fs st p)) = txt st) \<and>
     (\<forall>st p st'. open_append fs st p = (st', Ok ()) \<longrightarrow> txt st' = (txt st)(p \<mapsto> case txt st p of Some t \<Rightarrow> t | None \<Rightarrow> [])) \<and>
     (\<forall>st p t. read_to_string fs st p = Ok t \<longrightarrow> txt st p = Some t) \<and>
     (\<forall>st p s st' t. write_all fs st p s = (st', Ok ()) \<longrightarrow> txt st p = Some t \<longrightarrow> txt st' = (txt st)(p \<mapsto> t @ s))"

text \<open>The text of a file, empty when there is none, and what adding a line makes of it.\<close>

definition contents_at :: "('fs \<Rightarrow> string \<Rightarrow> string option) \<Rightarrow> 'fs \<Rightarrow> string \<Rightarrow> string" where
  "contents_at txt st p = (case txt st p of Some t \<Rightarrow> t | None \<Rightarrow> [])"

definition with_line :: "string \<Rightarrow> string \<Rightarrow> string" where
  "with_line line old =
     (if line \<in> set (str_lines old) then old
      else old @ (if old \<noteq> [] \<and> last old \<noteq> nl then [nl] else []) @ line @ [nl])"

lemma io_then_Ok: "io_then r wrap k = (st, Ok b) \<longleftrightarrow> (\<exists>st' a. r = (st', Ok a) \<and> k st' a = (st, Ok b))"
  by (cases r; cases "snd r"; auto simp: io_then_def)

lemma append_locked_line_text:
  assumes "file_laws fs txt" "append_locked_line fs st p line = (st', Ok ())"
  shows "txt st' = (txt st)(p \<mapsto> with_line line (contents_at txt st p))"
proof -
  note laws = assms(1) [unfolded file_laws_def]
  from assms(2) obtain st1 st2 st3 contents where run:
    "open_append fs st p = (st1, Ok ())" "lock_file fs st1 p = (st2, Ok ())" "seek_start fs st2 p = (st3, Ok ())"
    "read_to_string fs st3 p = Ok contents"
    and rest: "(if line \<in> set (str_lines contents) then (st3, Ok ())
       else io_then (if contents \<noteq> [] \<and> last contents \<noteq> nl then write_all fs st3 p [nl] else (st3, Ok ()))
           (WritePolicyFile p) (\<lambda>st _.
         io_then (write_all fs st p (line @ [nl])) (WritePolicyFile p) (\<lambda>st _. (st, Ok ())))) = (st', Ok ())"
    unfolding append_locked_line_def io_then_Ok by auto
  have "txt st1 = (txt st)(p \<mapsto> contents_at txt st p)" using laws run(1) by (simp add: contents_at_def)
  moreover have "txt st2 = txt st1" "txt st3 = txt st2" using laws run(2,3) by (metis fst_conv)+
  ultimately have text3: "txt st3 = (txt st)(p \<mapsto> contents_at txt st p)" by simp
  with laws run(4) have contents: "contents = contents_at txt st p" by fastforce
  show ?thesis
  proof (cases "line \<in> set (str_lines contents)")
    case True
    with rest text3 contents show ?thesis by (simp add: with_line_def)
  next
    case False
    let ?sep = "if contents \<noteq> [] \<and> last contents \<noteq> nl then [nl] else []"
    from rest False obtain st4 where st4: "(if contents \<noteq> [] \<and> last contents \<noteq> nl then write_all fs st3 p [nl] else (st3, Ok ())) = (st4, Ok ())"
      "write_all fs st4 p (line @ [nl]) = (st', Ok ())" by (auto simp: io_then_Ok)
    have "txt st4 = (txt st)(p \<mapsto> contents @ ?sep)"
      using laws st4(1) text3 contents by (auto split: if_splits)
    with laws st4(2) have "txt st' = (txt st)(p \<mapsto> (contents @ ?sep) @ line @ [nl])" by fastforce
    with False contents show ?thesis by (simp add: with_line_def)
  qed
qed

lemma append_rule_line_text:
  assumes "file_laws fs txt" "append_rule_line fs st p line = (st', Ok ())"
  shows "txt st' = (txt st)(p \<mapsto> with_line line (contents_at txt st p))"
proof -
  from assms(2) obtain dir st1 r where dir: "path_parent p = Some dir" "create_dir fs st dir = (st1, r)"
    "append_locked_line fs st1 p line = (st', Ok ())"
    by (auto simp: append_rule_line_def split: option.splits prod.splits sum.splits if_splits)
  moreover have "txt st1 = txt st" using assms(1) dir(2) by (metis file_laws_def fst_conv)
  ultimately show ?thesis using append_locked_line_text [OF assms(1) dir(3)] by (simp add: contents_at_def)
qed


lemma str_lines_last:
  assumes "plain_line line" "a = [] \<or> last a = nl"
  shows "line \<in> set (str_lines (a @ line @ [nl]))"
proof -
  have line: "split_on nl (line @ [nl]) = [line, []]"
    using assms(1) split_on_append_sep [of nl line "[]"] by (simp add: plain_line_def split_on_no_sep)
  obtain ps where "split_on nl (a @ line @ [nl]) = ps @ [line, []]"
  proof (cases "a = []")
    case True
    with line show ?thesis by (intro that [of "[]"]) simp
  next
    case False
    then have "a = butlast a @ [nl]" using assms(2) append_butlast_last_id [of a] by simp
    then have "split_on nl (a @ line @ [nl]) = split_on nl (butlast a) @ split_on nl (line @ [nl])"
      using split_on_append [of nl "butlast a" "line @ [nl]"] by (metis append.assoc append_Cons append_Nil)
    with line show ?thesis by (intro that) simp
  qed
  then have "str_lines (a @ line @ [nl]) = map strip_cr ps @ [strip_cr line]"
    by (simp add: str_lines_def butlast_append)
  then show ?thesis using assms(1) by simp
qed

lemma with_line_has_line: "plain_line line \<Longrightarrow> line \<in> set (str_lines (with_line line old))"
  using str_lines_last [of line "old @ (if old \<noteq> [] \<and> last old \<noteq> nl then [nl] else [])"]
  by (auto simp: with_line_def)

lemma set_join: "set (join sep xs) \<subseteq> set sep \<union> \<Union> (set ` set xs)"
  by (induction sep xs rule: join.induct) auto

lemma prefix_rule_line_plain:
  assumes "\<forall>t \<in> set tokens. nl \<notin> set t"
  shows "plain_line (prefix_rule_line tokens)"
  using assms set_join [of "'', ''" tokens] by (auto simp: plain_line_def prefix_rule_line_def)

lemma json_all_members: "json_all json ss = Ok ts \<Longrightarrow> t \<in> set ts \<Longrightarrow> \<exists>s. json s = Ok t"
  by (induction ss arbitrary: ts) (auto split: sum.splits)

text \<open>
  Accepting a rule writes it once: after a successful call the policy file holds its
  former text and the line of the rule, added at its end on a line of its own unless the file had it;
  no other file changes, and accepting the same rule again changes nothing.
\<close>

lemma append_rule_once:
  assumes "file_laws fs txt" "\<forall>s t. json s = Ok t \<longrightarrow> nl \<notin> set t"
    and "blocking_append_allow_prefix_rule json fs st path words = (st', Ok ())"
  shows "\<exists>tokens. json_all json words = Ok tokens \<and>
    txt st' = (txt st)(path \<mapsto> with_line (prefix_rule_line tokens) (contents_at txt st path)) \<and>
    prefix_rule_line tokens \<in> set (str_lines (contents_at txt st' path)) \<and>
    (\<forall>st''. blocking_append_allow_prefix_rule json fs st' path words = (st'', Ok ()) \<longrightarrow> txt st'' = txt st')"
proof -
  from assms(3) obtain tokens where tokens: "words \<noteq> []" "json_all json words = Ok tokens"
    "append_rule_line fs st path (prefix_rule_line tokens) = (st', Ok ())"
    by (auto simp: blocking_append_allow_prefix_rule_def split: if_splits sum.splits)
  let ?line = "prefix_rule_line tokens"
  have after: "txt st' = (txt st)(path \<mapsto> with_line ?line (contents_at txt st path))"
    using append_rule_line_text [OF assms(1) tokens(3)] .
  have "plain_line ?line" using json_all_members [OF tokens(2)] assms(2) by (intro prefix_rule_line_plain) blast
  then have line: "?line \<in> set (str_lines (contents_at txt st' path))"
    using with_line_has_line after by (simp add: contents_at_def)
  have "txt st'' = txt st'" if "blocking_append_allow_prefix_rule json fs st' path words = (st'', Ok ())" for st''
  proof -
    from that tokens have "append_rule_line fs st' path ?line = (st'', Ok ())"
      by (simp add: blocking_append_allow_prefix_rule_def)
    from append_rule_line_text [OF assms(1) this] have "txt st'' = (txt st')(path \<mapsto> with_line ?line (contents_at txt st' path))" .
    also have "with_line ?line (contents_at txt st' path) = contents_at txt st' path" using line by (simp add: with_line_def)
    also have "(txt st')(path \<mapsto> contents_at txt st' path) = txt st'" using after by (auto simp: contents_at_def)
    finally show ?thesis .
  qed
  with after line tokens(2) show ?thesis by blast
qed

definition mem_files :: "(string \<Rightarrow> string option) std_files" where
  "mem_files = \<lparr>create_dir = (\<lambda>st p. (st, Ok ())), open_append = (\<lambda>st p. (st(p \<mapsto> case st p of Some t \<Rightarrow> t | None \<Rightarrow> []), Ok ())),
     lock_file = (\<lambda>st p. (st, Ok ())), seek_start = (\<lambda>st p. (st, Ok ())),
     read_to_string = (\<lambda>st p. case st p of Some t \<Rightarrow> Ok t | None \<Rightarrow> Err \<lparr>err_kind = NotFound, err_message = []\<rparr>),
     write_all = (\<lambda>st p s. (st(p \<mapsto> (case st p of Some t \<Rightarrow> t | None \<Rightarrow> []) @ s), Ok ()))\<rparr>"

lemma mem_files_laws: "file_laws mem_files id"
  by (auto simp: file_laws_def mem_files_def split: option.splits)

lemma append_rule_once_witness:
  "\<exists>st'. blocking_append_allow_prefix_rule (\<lambda>s. if nl \<in> set s then Err s else Ok s) mem_files (\<lambda>_. None) ''/r/d'' [''ls''] = (st', Ok ()) \<and>
     st' ''/r/d'' = Some (prefix_rule_line [''ls''] @ [nl])"
proof -
  let ?json = "\<lambda>s. if nl \<in> set s then Err s else Ok s"
  have parent: "path_parent ''/r/d'' = Some ''/r''" by code_simp
  have none: "prefix_rule_line [''ls''] \<notin> set (str_lines [])" by (simp add: str_lines_def)
  obtain st' where run: "blocking_append_allow_prefix_rule ?json mem_files (\<lambda>_. None) ''/r/d'' [''ls''] = (st', Ok ())"
    by (simp add: blocking_append_allow_prefix_rule_def append_rule_line_def parent append_locked_line_def io_then_def
        mem_files_def none)
  have "\<forall>s t. ?json s = Ok t \<longrightarrow> nl \<notin> set t" by auto
  from append_rule_once [OF mem_files_laws this run] have
    "st' ''/r/d'' = Some (with_line (prefix_rule_line [''ls'']) [])" by (auto simp: contents_at_def)
  with run none show ?thesis by (simp add: with_line_def)
qed

end
