(* ===== verification/Bash_Words.thy ===== *)
theory Bash_Words
  imports Absolute_Path "HOL-Library.Multiset"
begin

text \<open>
  \<open>codex-rs/shell-command/src/bash.rs\<close> and \<open>shell_detect.rs\<close>: the words of the plain commands in a
  \<open>bash -lc "..."\<close> invocation.

  Tree-sitter's bash grammar is a parameter: a function from a script to its syntax tree, or nothing.
  A node carries what the code reads of it: its kind, whether it is named, its text when that is
  UTF-8, its first byte and its children.
\<close>

section \<open>Syntax trees\<close>

datatype node = Node (kind: string) (is_named: bool) (utf8_text: "string option") (start_byte: nat) (children: "node list")

record syntax_tree =
  root_node :: node
  has_error :: bool

type_synonym bash_grammar = "string \<Rightarrow> syntax_tree option"

fun node_count :: "node \<Rightarrow> nat" where
  "node_count (Node k nm t s cs) = Suc (sum_list (map node_count cs))"

definition named_children :: "node \<Rightarrow> node list" where
  "named_children n = filter is_named (children n)"

section \<open>Word-only command sequences\<close>

definition ALLOWED_KINDS :: "string list" where
  "ALLOWED_KINDS = [''program'', ''list'', ''pipeline'', ''command'', ''command_name'', ''word'', ''string'',
     ''string_content'', ''raw_string'', ''number'', ''concatenation'']"

definition ALLOWED_PUNCT_TOKENS :: "string list" where
  "ALLOWED_PUNCT_TOKENS = [''&&'', ''||'', '';'', ''|'', [CHR 0x22], [CHR 0x27]]"

text \<open>Whether the walk goes on past a node.\<close>

definition allowed_node :: "node \<Rightarrow> bool" where
  "allowed_node n \<longleftrightarrow>
     (if is_named n then kind n \<in> set ALLOWED_KINDS
      else \<not> (list_ex (\<lambda>c. c \<in> {CHR ''&'', CHR '';'', CHR ''|''}) (kind n) \<and> kind n \<notin> set ALLOWED_PUNCT_TOKENS) \<and>
           (kind n \<in> set ALLOWED_PUNCT_TOKENS \<or> trim (kind n) = []))"

text \<open>The loop over the stack, whose top is the head of the list; the last child is popped first.\<close>

function walk :: "node list \<Rightarrow> node list \<Rightarrow> node list option" where
  "walk [] command_nodes = Some command_nodes"
| "walk (n # stack) command_nodes =
     (if \<not> allowed_node n then None
      else walk (rev (children n) @ stack)
             (if is_named n \<and> kind n = ''command'' then command_nodes @ [n] else command_nodes))"
  by pat_completeness auto
termination
proof (relation "measure (\<lambda>(stack, _). sum_list (map node_count stack))", goal_cases)
  case (2 n stack command_nodes)
  then show ?case by (cases n) (simp add: rev_map [symmetric])
qed simp

definition parse_raw_string :: "node \<Rightarrow> string option" where
  "parse_raw_string n =
     (if kind n \<noteq> ''raw_string'' then None
      else (case utf8_text n of
              None \<Rightarrow> None
            | Some raw \<Rightarrow>
                (case strip_prefix [CHR 0x27] raw of None \<Rightarrow> None | Some t \<Rightarrow> strip_suffix [CHR 0x27] t)))"

definition parse_double_quoted_string :: "node \<Rightarrow> string option" where
  "parse_double_quoted_string n =
     (if kind n \<noteq> ''string'' then None
      else if list_ex (\<lambda>part. kind part \<noteq> ''string_content'') (named_children n) then None
      else (case utf8_text n of
              None \<Rightarrow> None
            | Some raw \<Rightarrow>
                (case strip_prefix [CHR 0x22] raw of None \<Rightarrow> None | Some t \<Rightarrow> strip_suffix [CHR 0x22] t)))"

text \<open>The text of one piece of an argument.\<close>

definition parse_piece :: "node \<Rightarrow> string option" where
  "parse_piece n =
     (if kind n \<in> {''word'', ''number''} then utf8_text n
      else if kind n = ''string'' then parse_double_quoted_string n
      else if kind n = ''raw_string'' then parse_raw_string n
      else None)"

fun parse_pieces :: "node list \<Rightarrow> string option" where
  "parse_pieces [] = Some []"
| "parse_pieces (n # ns) =
     (case parse_piece n of None \<Rightarrow> None | Some s \<Rightarrow> map_option ((@) s) (parse_pieces ns))"

definition parse_argument :: "node \<Rightarrow> string option" where
  "parse_argument n =
     (if kind n = ''command_name'' then
        (case named_children n of
           [] \<Rightarrow> None
         | w # _ \<Rightarrow> if kind w \<noteq> ''word'' then None else utf8_text w)
      else if kind n = ''concatenation'' then
        (case parse_pieces (named_children n) of
           None \<Rightarrow> None
         | Some s \<Rightarrow> if s = [] then None else Some s)
      else parse_piece n)"

fun parse_arguments :: "node list \<Rightarrow> string list option" where
  "parse_arguments [] = Some []"
| "parse_arguments (n # ns) =
     (case parse_argument n of None \<Rightarrow> None | Some w \<Rightarrow> map_option ((#) w) (parse_arguments ns))"

definition parse_plain_command_from_node :: "node \<Rightarrow> string list option" where
  "parse_plain_command_from_node cmd =
     (if kind cmd \<noteq> ''command'' then None else parse_arguments (named_children cmd))"

fun parse_commands :: "node list \<Rightarrow> string list list option" where
  "parse_commands [] = Some []"
| "parse_commands (n # ns) =
     (case parse_plain_command_from_node n of
        None \<Rightarrow> None
      | Some ws \<Rightarrow> map_option ((#) ws) (parse_commands ns))"

definition try_parse_word_only_commands_sequence :: "syntax_tree \<Rightarrow> string list list option" where
  "try_parse_word_only_commands_sequence tree =
     (if has_error tree then None
      else (case walk [root_node tree] [] of
              None \<Rightarrow> None
            | Some command_nodes \<Rightarrow> parse_commands (sort_key start_byte command_nodes)))"

section \<open>The invocation\<close>

datatype shell_type = Zsh | Bash | PowerShellType | Sh | CmdType

text \<open>A shell named by itself; any other path is looked at again through its stem.\<close>

definition shell_by_name :: "string \<Rightarrow> shell_type option" where
  "shell_by_name p =
     (if p = ''zsh'' then Some Zsh else if p = ''sh'' then Some Sh else if p = ''cmd'' then Some CmdType
      else if p = ''bash'' then Some Bash else if p = ''pwsh'' then Some PowerShellType
      else if p = ''powershell'' then Some PowerShellType else None)"

function detect_shell_type :: "string \<Rightarrow> shell_type option" where
  "detect_shell_type p =
     (case shell_by_name p of
        Some t \<Rightarrow> Some t
      | None \<Rightarrow>
          (case file_stem p of
             None \<Rightarrow> None
           | Some n \<Rightarrow> if components n \<noteq> components p then detect_shell_type n else None))"
  by pat_completeness auto
termination
  by (relation "measure length") (auto intro: file_stem_shorter)

declare detect_shell_type.simps [simp del]

fun extract_bash_command :: "string list \<Rightarrow> (string \<times> string) option" where
  "extract_bash_command [shell, flag, script] =
     (if flag \<in> {''-lc'', ''-c''} \<and> detect_shell_type shell \<in> {Some Zsh, Some Bash, Some Sh}
      then Some (shell, script) else None)"
| "extract_bash_command _ = None"

definition parse_shell_lc_plain_commands :: "bash_grammar \<Rightarrow> string list \<Rightarrow> string list list option" where
  "parse_shell_lc_plain_commands grammar command =
     (case extract_bash_command command of
        None \<Rightarrow> None
      | Some (_, script) \<Rightarrow>
          (case grammar script of
             None \<Rightarrow> None
           | Some tree \<Rightarrow> try_parse_word_only_commands_sequence tree))"

section \<open>A single command with a here-document\<close>

definition is_literal_word_or_number :: "node \<Rightarrow> bool" where
  "is_literal_word_or_number n \<longleftrightarrow> kind n \<in> {''word'', ''number''} \<and> named_children n = []"

definition is_allowed_heredoc_attachment_kind :: "string \<Rightarrow> bool" where
  "is_allowed_heredoc_attachment_kind k \<longleftrightarrow>
     k \<in> {''heredoc_body'', ''simple_heredoc_body'', ''heredoc_redirect'', ''herestring_redirect'',
          ''file_redirect'', ''redirected_statement''}"

fun heredoc_words :: "node list \<Rightarrow> string list option" where
  "heredoc_words [] = Some []"
| "heredoc_words (n # ns) =
     (if kind n = ''command_name'' then
        (case named_children n of
           [] \<Rightarrow> None
         | w # _ \<Rightarrow>
             if \<not> is_literal_word_or_number w then None
             else (case utf8_text w of None \<Rightarrow> None | Some s \<Rightarrow> map_option ((#) s) (heredoc_words ns)))
      else if kind n \<in> {''word'', ''number''} then
        (if \<not> is_literal_word_or_number n then None
         else (case utf8_text n of None \<Rightarrow> None | Some s \<Rightarrow> map_option ((#) s) (heredoc_words ns)))
      else if kind n \<in> {''variable_assignment'', ''comment''} then heredoc_words ns
      else if is_allowed_heredoc_attachment_kind (kind n) then heredoc_words ns
      else None)"

definition parse_heredoc_command_words :: "node \<Rightarrow> string list option" where
  "parse_heredoc_command_words cmd =
     (if kind cmd \<noteq> ''command'' then None
      else (case heredoc_words (named_children cmd) of
              None \<Rightarrow> None
            | Some ws \<Rightarrow> if ws = [] then None else Some ws))"

lemma count_named_children: "sum_list (map node_count (named_children n)) < node_count n"
proof -
  have "sum_list (map f (filter P xs)) \<le> sum_list (map f xs)" for f :: "node \<Rightarrow> nat" and P xs
    by (induction xs) auto
  then show ?thesis by (cases n) (simp add: named_children_def le_imp_less_Suc)
qed

function find_single_loop :: "node list \<Rightarrow> node option \<Rightarrow> node option" where
  "find_single_loop [] single_command = single_command"
| "find_single_loop (n # stack) single_command =
     (if kind n = ''command'' \<and> single_command \<noteq> None then None
      else find_single_loop (rev (named_children n) @ stack)
             (if kind n = ''command'' then Some n else single_command))"
  by pat_completeness auto
termination
proof (relation "measure (\<lambda>(stack, _). sum_list (map node_count stack))", goal_cases)
  case (2 n stack single_command)
  then show ?case using count_named_children [of n] by (simp add: rev_map [symmetric])
qed simp

definition find_single_command_node :: "node \<Rightarrow> node option" where
  "find_single_command_node root = find_single_loop [root] None"

function has_kind_loop :: "string \<Rightarrow> node list \<Rightarrow> bool" where
  "has_kind_loop k [] = False"
| "has_kind_loop k (n # stack) = (if kind n = k then True else has_kind_loop k (rev (named_children n) @ stack))"
  by pat_completeness auto
termination
proof (relation "measure (\<lambda>(_, stack). sum_list (map node_count stack))", goal_cases)
  case (2 k n stack)
  then show ?case using count_named_children [of n] by (simp add: rev_map [symmetric])
qed simp

definition has_named_descendant_kind :: "node \<Rightarrow> string \<Rightarrow> bool" where
  "has_named_descendant_kind n k = has_kind_loop k [n]"

definition parse_shell_lc_single_command_prefix :: "bash_grammar \<Rightarrow> string list \<Rightarrow> string list option" where
  "parse_shell_lc_single_command_prefix grammar command =
     (case extract_bash_command command of
        None \<Rightarrow> None
      | Some (_, script) \<Rightarrow>
          (case grammar script of
             None \<Rightarrow> None
           | Some tree \<Rightarrow>
               if has_error tree then None
               else if \<not> has_named_descendant_kind (root_node tree) ''heredoc_redirect'' then None
               else (case find_single_command_node (root_node tree) of
                       None \<Rightarrow> None
                     | Some c \<Rightarrow> parse_heredoc_command_words c)))"

section \<open>What is accepted\<close>

text \<open>All nodes of a tree, and the commands among them.\<close>

fun all_nodes :: "node \<Rightarrow> node list" where
  "all_nodes (Node k nm t s cs) = Node k nm t s cs # concat (map all_nodes cs)"

definition is_command :: "node \<Rightarrow> bool" where
  "is_command n \<longleftrightarrow> is_named n \<and> kind n = ''command''"

definition forest_nodes :: "node list \<Rightarrow> node multiset" where
  "forest_nodes ns = mset (concat (map all_nodes ns))"

lemma forest_nodes_simps [simp]:
  "forest_nodes [] = {#}"
  "forest_nodes (xs @ ys) = forest_nodes xs + forest_nodes ys"
  "forest_nodes (rev xs) = forest_nodes xs"
  by (simp_all add: forest_nodes_def mset_concat sum_mset_sum_list [symmetric] rev_map [symmetric])

lemma forest_nodes_Cons [simp]: "forest_nodes (n # ns) = add_mset n (forest_nodes (children n) + forest_nodes ns)"
  by (cases n) (simp add: forest_nodes_def)

lemma walk_nodes:
  "case walk stack acc of
     None \<Rightarrow> \<exists>n \<in># forest_nodes stack. \<not> allowed_node n
   | Some ns \<Rightarrow> (\<forall>n \<in># forest_nodes stack. allowed_node n) \<and> mset ns = mset acc + filter_mset is_command (forest_nodes stack)"
proof (induction stack acc rule: walk.induct)
  case (2 n stack acc)
  then show ?case
    by (cases "allowed_node n"; cases "is_command n") (auto simp: is_command_def [symmetric] split: option.splits)
qed simp

lemma parse_commands_Some: "parse_commands ns = Some cmds \<longleftrightarrow> map parse_plain_command_from_node ns = map Some cmds"
proof (induction ns arbitrary: cmds)
  case (Cons n ns)
  then show ?case by (cases cmds) (auto split: option.splits)
qed auto

lemma parse_commands_None: "parse_commands ns = None \<longleftrightarrow> (\<exists>n \<in> set ns. parse_plain_command_from_node n = None)"
  by (induction ns) (auto split: option.splits)

text \<open>
  C4 (word_only_commands). A script is taken apart only when its whole syntax tree is harmless: it is
  rejected when it has a syntax error, a node of a kind that is not listed (a redirection, a
  substitution, a subshell, control flow), an operator that is not listed, or a command that is not
  made of plain words; otherwise the result has exactly one entry for each command of the tree, in
  the order of the source.
\<close>

theorem word_only_commands:
  "case try_parse_word_only_commands_sequence tree of
     None \<Rightarrow> has_error tree \<or> (\<exists>n \<in> set (all_nodes (root_node tree)). \<not> allowed_node n \<or>
               is_command n \<and> parse_plain_command_from_node n = None)
   | Some cmds \<Rightarrow> \<not> has_error tree \<and> (\<forall>n \<in> set (all_nodes (root_node tree)). allowed_node n) \<and>
       (\<exists>ns. mset ns = mset (filter is_command (all_nodes (root_node tree))) \<and> sorted (map start_byte ns) \<and>
             map parse_plain_command_from_node ns = map Some cmds)"
proof (cases "has_error tree")
  case True
  then show ?thesis by (simp add: try_parse_word_only_commands_sequence_def)
next
  case False
  have forest: "forest_nodes [root_node tree] = mset (all_nodes (root_node tree))" by (simp only: forest_nodes_def) simp
  show ?thesis
  proof (cases "walk [root_node tree] []")
    case None
    with walk_nodes [of "[root_node tree]" "[]"] forest False show ?thesis
      by (auto simp: try_parse_word_only_commands_sequence_def simp del: forest_nodes_Cons)
  next
    case (Some ns)
    then have ns: "\<forall>n \<in> set (all_nodes (root_node tree)). allowed_node n"
        "mset ns = mset (filter is_command (all_nodes (root_node tree)))"
      using walk_nodes [of "[root_node tree]" "[]"] forest by (auto simp del: forest_nodes_Cons)
    have members: "set ns = set (filter is_command (all_nodes (root_node tree)))" using ns(2) by (metis set_mset_mset)
    show ?thesis
    proof (cases "parse_commands (sort_key start_byte ns)")
      case None
      then have "\<exists>n \<in> set ns. parse_plain_command_from_node n = None" by (simp add: parse_commands_None)
      with members None Some False show ?thesis
        by (auto simp: try_parse_word_only_commands_sequence_def)
    next
      case (Some cmds)
      then have "map parse_plain_command_from_node (sort_key start_byte ns) = map Some cmds"
        by (simp add: parse_commands_Some)
      moreover have "mset (sort_key start_byte ns) = mset (filter is_command (all_nodes (root_node tree)))"
        using ns(2) by simp
      ultimately have "\<exists>ms. mset ms = mset (filter is_command (all_nodes (root_node tree))) \<and> sorted (map start_byte ms) \<and>
          map parse_plain_command_from_node ms = map Some cmds"
        by (intro exI [of _ "sort_key start_byte ns"]) simp
      with Some \<open>walk [root_node tree] [] = Some ns\<close> False ns(1) show ?thesis
        by (simp add: try_parse_word_only_commands_sequence_def)
    qed
  qed
qed


definition pwd_tree :: syntax_tree where
  "pwd_tree = \<lparr>root_node = Node ''program'' True (Some ''pwd'') 0
       [Node ''command'' True (Some ''pwd'') 0
         [Node ''command_name'' True (Some ''pwd'') 0 [Node ''word'' True (Some ''pwd'') 0 []]]],
     has_error = False\<rparr>"

theorem word_only_commands_witness:
  "try_parse_word_only_commands_sequence pwd_tree = Some [[''pwd'']] \<and>
   (\<exists>ns. mset ns = mset (filter is_command (all_nodes (root_node pwd_tree))) \<and> sorted (map start_byte ns) \<and>
         map parse_plain_command_from_node ns = [Some [''pwd'']])"
proof -
  have run: "try_parse_word_only_commands_sequence pwd_tree = Some [[''pwd'']]" by code_simp
  then show ?thesis using word_only_commands [of pwd_tree] by simp
qed

end
