(* ===== verification/Command_Safety.thy ===== *)
theory Command_Safety
  imports Bash_Words
begin

text \<open>
  \<open>codex-rs/shell-command/src/command_safety\<close>: the commands that run without asking
  (\<open>is_safe_command.rs\<close> and, for PowerShell on every platform, \<open>windows_safe_commands.rs\<close>) and those that always ask
  (\<open>is_dangerous_command.rs\<close>), on Unix.

  PowerShell's own parser, which runs in a process, and tree-sitter's bash grammar are parameters; \<open>linux\<close> says
  whether the target is Linux.
\<close>

section \<open>Git's global options\<close>

definition is_git_global_option_with_value :: "string \<Rightarrow> bool" where
  "is_git_global_option_with_value arg \<longleftrightarrow>
     arg \<in> {''-C'', ''-c'', ''--config-env'', ''--exec-path'', ''--git-dir'', ''--namespace'', ''--super-prefix'', ''--work-tree''}"

definition long_option_prefixes :: "string list" where
  "long_option_prefixes = [''--config-env='', ''--exec-path='', ''--git-dir='', ''--namespace='', ''--super-prefix='', ''--work-tree='']"

definition is_git_global_option_with_inline_value :: "string \<Rightarrow> bool" where
  "is_git_global_option_with_inline_value arg \<longleftrightarrow>
     list_ex (\<lambda>p. prefix p arg) long_option_prefixes \<or>
     (prefix ''-C'' arg \<or> prefix ''-c'' arg) \<and> length arg > 2"

definition git_global_option_requires_prompt :: "string \<Rightarrow> bool" where
  "git_global_option_requires_prompt arg \<longleftrightarrow>
     arg \<in> {''-c'', ''--config-env'', ''--exec-path'', ''--git-dir'', ''--namespace'', ''--super-prefix'', ''--work-tree''} \<or>
     (prefix ''-c'' arg \<and> length arg > 2) \<or> list_ex (\<lambda>p. prefix p arg) long_option_prefixes"

definition executable_name_lookup_key :: "string \<Rightarrow> string option" where
  "executable_name_lookup_key raw = file_name raw"

text \<open>The loop over the arguments, with the index of the next one.\<close>

fun git_subcommand_loop :: "string list \<Rightarrow> nat \<Rightarrow> bool \<Rightarrow> string list \<Rightarrow> (nat \<times> string) option" where
  "git_subcommand_loop subcommands idx skip_next [] = None"
| "git_subcommand_loop subcommands idx skip_next (arg # args) =
     (if skip_next then git_subcommand_loop subcommands (idx + 1) False args
      else if is_git_global_option_with_inline_value arg then git_subcommand_loop subcommands (idx + 1) False args
      else if is_git_global_option_with_value arg then git_subcommand_loop subcommands (idx + 1) True args
      else if arg = ''--'' \<or> prefix ''-'' arg then git_subcommand_loop subcommands (idx + 1) False args
      else if arg \<in> set subcommands then Some (idx, arg)
      else None)"

definition find_git_subcommand :: "string list \<Rightarrow> string list \<Rightarrow> (nat \<times> string) option" where
  "find_git_subcommand command subcommands =
     (case command of
        [] \<Rightarrow> None
      | cmd0 # args \<Rightarrow>
          if executable_name_lookup_key cmd0 \<noteq> Some ''git'' then None
          else git_subcommand_loop subcommands 1 False args)"

section \<open>Dangerous commands\<close>

fun is_dangerous_to_call_with_exec :: "string list \<Rightarrow> bool" where
  "is_dangerous_to_call_with_exec [] = False"
| "is_dangerous_to_call_with_exec (cmd0 # args) =
     (if cmd0 = ''rm'' then (case args of [] \<Rightarrow> False | a # _ \<Rightarrow> a \<in> {''-f'', ''-rf''})
      else if cmd0 = ''sudo'' then is_dangerous_to_call_with_exec args
      else False)"

definition command_might_be_dangerous :: "bash_grammar \<Rightarrow> string list \<Rightarrow> bool" where
  "command_might_be_dangerous grammar command \<longleftrightarrow>
     is_dangerous_to_call_with_exec command \<or>
     (case parse_shell_lc_plain_commands grammar command of
        None \<Rightarrow> False
      | Some all_commands \<Rightarrow> list_ex is_dangerous_to_call_with_exec all_commands)"

section \<open>PowerShell\<close>

text \<open>
  The answer of \<open>parse_with_powershell_ast\<close>, which asks a process of the PowerShell executable. The executable and
  the script are given.
\<close>

datatype powershell_parse_outcome = PowershellCommands "string list list" | PowershellUnsupported | PowershellFailed

type_synonym powershell_parser = "string \<Rightarrow> string \<Rightarrow> powershell_parse_outcome"

definition parse_powershell_script :: "powershell_parser \<Rightarrow> string \<Rightarrow> string \<Rightarrow> string list list option" where
  "parse_powershell_script pwsh executable script =
     (case pwsh executable script of PowershellCommands commands \<Rightarrow> Some commands | _ \<Rightarrow> None)"

definition is_powershell_executable :: "string \<Rightarrow> bool" where
  "is_powershell_executable exe \<longleftrightarrow>
     to_ascii_lowercase (case file_name exe of Some n \<Rightarrow> n | None \<Rightarrow> exe)
       \<in> {''powershell'', ''powershell.exe'', ''pwsh'', ''pwsh.exe''}"

definition quote_argument :: "string \<Rightarrow> string" where
  "quote_argument arg =
     (let q = CHR 0x27 in
      if arg = [] then [q, q]
      else if \<not> contains_whitespace arg then arg
      else q # concat (map (\<lambda>c. if c = q then [q, q] else [c]) arg) @ [q])"

definition join_arguments_as_script :: "string list \<Rightarrow> string" where
  "join_arguments_as_script args =
     join '' '' (case args of [] \<Rightarrow> [] | first # rest \<Rightarrow> first # map quote_argument rest)"

fun parse_powershell_invocation :: "powershell_parser \<Rightarrow> string \<Rightarrow> string list \<Rightarrow> string list list option" where
  "parse_powershell_invocation pwsh executable [] = None"
| "parse_powershell_invocation pwsh executable (arg # args) =
     (let lower = to_ascii_lowercase arg in
      if lower \<in> {''-command'', ''/command'', ''-c''} then
        (case args of [script] \<Rightarrow> parse_powershell_script pwsh executable script | _ \<Rightarrow> None)
      else if prefix ''-command:'' lower \<or> prefix ''/command:'' lower then
        (if args \<noteq> [] then None
         else case split_once (CHR '':'') arg of
           None \<Rightarrow> None
         | Some (_, script) \<Rightarrow> parse_powershell_script pwsh executable script)
      else if lower \<in> {''-nologo'', ''-noprofile'', ''-noninteractive'', ''-mta'', ''-sta''} then
        parse_powershell_invocation pwsh executable args
      else if lower \<in> {''-encodedcommand'', ''-ec'', ''-file'', ''/file'', ''-windowstyle'', ''-executionpolicy'', ''-workingdirectory''}
      then None
      else if prefix ''-'' lower then None
      else parse_powershell_script pwsh executable (join_arguments_as_script (arg # args)))"

definition try_parse_powershell_command_sequence :: "powershell_parser \<Rightarrow> string list \<Rightarrow> string list list option" where
  "try_parse_powershell_command_sequence pwsh command =
     (case command of
        [] \<Rightarrow> None
      | exe # rest \<Rightarrow> if is_powershell_executable exe then parse_powershell_invocation pwsh exe rest else None)"

definition powershell_word :: "string \<Rightarrow> string" where
  "powershell_word w =
     (let paren = (\<lambda>c. c = CHR ''('' \<or> c = CHR '')'') in
      to_ascii_lowercase (dropWhile (\<lambda>c. c = CHR ''-'') (rev (dropWhile paren (rev (dropWhile paren w))))))"

definition side_effect_cmdlets :: "string list" where
  "side_effect_cmdlets =
     [''set-content'', ''add-content'', ''out-file'', ''new-item'', ''remove-item'', ''move-item'', ''copy-item'', ''rename-item'',
      ''start-process'', ''stop-process'']"

definition read_only_cmdlets :: "string list" where
  "read_only_cmdlets =
     [''echo'', ''write-output'', ''write-host'', ''dir'', ''ls'', ''get-childitem'', ''gci'', ''cat'', ''type'', ''gc'', ''get-content'',
      ''select-string'', ''sls'', ''findstr'', ''measure-object'', ''measure'', ''get-location'', ''gl'', ''pwd'', ''test-path'', ''tp'',
      ''resolve-path'', ''rvpa'', ''select-object'', ''select'', ''get-item'']"

definition is_safe_ripgrep :: "string list \<Rightarrow> bool" where
  "is_safe_ripgrep words \<longleftrightarrow>
     \<not> list_ex (\<lambda>arg.
         (let arg_lc = to_ascii_lowercase arg in
          arg_lc \<in> {''--search-zip'', ''-z''} \<or>
          list_ex (\<lambda>opt. arg_lc = opt \<or> prefix (opt @ ''='') arg_lc) [''--pre'', ''--hostname-bin''])) (drop 1 words)"

fun safe_git_words :: "string list \<Rightarrow> bool" where
  "safe_git_words [] = False"
| "safe_git_words (arg # args) =
     (let arg_lc = to_ascii_lowercase arg in
      if prefix ''-'' arg then
        (if git_global_option_requires_prompt arg_lc \<or> arg_lc = ''--config'' \<or> prefix ''--config='' arg_lc then False
         else safe_git_words args)
      else arg_lc \<in> {''status'', ''log'', ''show'', ''diff'', ''cat-file''})"

definition is_safe_git_command :: "string list \<Rightarrow> bool" where
  "is_safe_git_command words = safe_git_words (drop 1 words)"

definition is_safe_powershell_command :: "string list \<Rightarrow> bool" where
  "is_safe_powershell_command words =
     (case words of
        [] \<Rightarrow> False
      | w # _ \<Rightarrow>
          if list_ex (\<lambda>w. powershell_word w \<in> set side_effect_cmdlets) words then False
          else if powershell_word w \<in> set read_only_cmdlets then True
          else if powershell_word w = ''git'' then is_safe_git_command words
          else if powershell_word w = ''rg'' then is_safe_ripgrep words
          else False)"

definition is_safe_command_windows :: "powershell_parser \<Rightarrow> string list \<Rightarrow> bool" where
  "is_safe_command_windows pwsh command =
     (case try_parse_powershell_command_sequence pwsh command of
        Some commands \<Rightarrow> list_all is_safe_powershell_command commands
      | None \<Rightarrow> False)"

section \<open>Safe commands\<close>

definition all_digits :: "string \<Rightarrow> bool" where
  "all_digits s \<longleftrightarrow> s \<noteq> [] \<and> list_all is_ascii_digit s"

definition is_valid_sed_n_arg :: "string option \<Rightarrow> bool" where
  "is_valid_sed_n_arg arg =
     (case arg of
        None \<Rightarrow> False
      | Some s \<Rightarrow>
          (case strip_suffix ''p'' s of
             None \<Rightarrow> False
           | Some core \<Rightarrow>
               (case split_on (CHR '','') core of
                  [num] \<Rightarrow> all_digits num
                | [a, b] \<Rightarrow> all_digits a \<and> all_digits b
                | _ \<Rightarrow> False)))"

definition branch_flags :: "string list" where
  "branch_flags = [''--list'', ''-l'', ''--show-current'', ''-a'', ''--all'', ''-r'', ''--remotes'', ''-v'', ''-vv'', ''--verbose'']"

fun branch_loop :: "bool \<Rightarrow> string list \<Rightarrow> bool" where
  "branch_loop saw_read_only_flag [] = saw_read_only_flag"
| "branch_loop saw_read_only_flag (arg # args) =
     (if arg \<in> set branch_flags then branch_loop True args
      else if prefix ''--format='' arg then branch_loop True args
      else False)"

definition git_branch_is_read_only :: "string list \<Rightarrow> bool" where
  "git_branch_is_read_only branch_args \<longleftrightarrow> (if branch_args = [] then True else branch_loop False branch_args)"

definition git_has_unsafe_global_option :: "string list \<Rightarrow> bool" where
  "git_has_unsafe_global_option command \<longleftrightarrow> list_ex git_global_option_requires_prompt (drop 1 command)"

definition UNSAFE_GIT_FLAGS :: "string list" where
  "UNSAFE_GIT_FLAGS = [''--output'', ''--ext-diff'', ''--textconv'', ''--exec'', ''--paginate'']"

definition git_subcommand_args_are_read_only :: "string list \<Rightarrow> bool" where
  "git_subcommand_args_are_read_only args \<longleftrightarrow>
     \<not> list_ex (\<lambda>arg. arg \<in> set UNSAFE_GIT_FLAGS \<or> prefix ''--output='' arg \<or> prefix ''--exec='' arg) args"

definition plain_safe_programs :: "string list" where
  "plain_safe_programs =
     [''cat'', ''cd'', ''cut'', ''echo'', ''expr'', ''false'', ''grep'', ''head'', ''id'', ''ls'', ''nl'', ''paste'',
      ''pwd'', ''rev'', ''seq'', ''stat'', ''tail'', ''tr'', ''true'', ''uname'', ''uniq'', ''wc'', ''which'', ''whoami'']"

definition UNSAFE_FIND_OPTIONS :: "string list" where
  "UNSAFE_FIND_OPTIONS = [''-exec'', ''-execdir'', ''-ok'', ''-okdir'', ''-delete'', ''-fls'', ''-fprint'', ''-fprint0'', ''-fprintf'']"

definition base64_arg_unsafe :: "string \<Rightarrow> bool" where
  "base64_arg_unsafe arg \<longleftrightarrow>
     arg \<in> {''-o'', ''--output''} \<or> prefix ''--output='' arg \<or> (prefix ''-o'' arg \<and> arg \<noteq> ''-o'')"

definition rg_arg_unsafe :: "string \<Rightarrow> bool" where
  "rg_arg_unsafe arg \<longleftrightarrow>
     arg \<in> {''--search-zip'', ''-z''} \<or>
     list_ex (\<lambda>opt. arg = opt \<or> prefix (opt @ ''='') arg) [''--pre'', ''--hostname-bin'']"

definition git_is_safe :: "string list \<Rightarrow> bool" where
  "git_is_safe command =
     (if git_has_unsafe_global_option command then False
      else
        (case find_git_subcommand command [''status'', ''log'', ''diff'', ''show'', ''branch''] of
           None \<Rightarrow> False
         | Some (subcommand_idx, subcommand) \<Rightarrow>
             (let subcommand_args = drop (subcommand_idx + 1) command in
              if subcommand \<in> {''status'', ''log'', ''diff'', ''show''} then git_subcommand_args_are_read_only subcommand_args
              else if subcommand = ''branch'' then
                git_subcommand_args_are_read_only subcommand_args \<and> git_branch_is_read_only subcommand_args
              else False)))"

definition is_safe_to_call_with_exec :: "bool \<Rightarrow> string list \<Rightarrow> bool" where
  "is_safe_to_call_with_exec linux command =
     (case command of
        [] \<Rightarrow> False
      | cmd0 # args \<Rightarrow>
          (case executable_name_lookup_key cmd0 of
             None \<Rightarrow> False
           | Some cmd \<Rightarrow>
               if linux \<and> cmd \<in> {''numfmt'', ''tac''} then True
               else if cmd \<in> set plain_safe_programs then True
               else if cmd = ''base64'' then \<not> list_ex base64_arg_unsafe args
               else if cmd = ''find'' then \<not> list_ex (\<lambda>arg. arg \<in> set UNSAFE_FIND_OPTIONS) command
               else if cmd = ''rg'' then \<not> list_ex rg_arg_unsafe command
               else if cmd = ''git'' then git_is_safe command
               else if cmd = ''sed'' then
                 length command \<le> 4 \<and> (case args of a # _ \<Rightarrow> a = ''-n'' | [] \<Rightarrow> False) \<and>
                 is_valid_sed_n_arg (case args of _ # b # _ \<Rightarrow> Some b | _ \<Rightarrow> None)
               else False))"

definition zsh_as_bash :: "string list \<Rightarrow> string list" where
  "zsh_as_bash command = map (\<lambda>s. if s = ''zsh'' then ''bash'' else s) command"

definition is_known_safe_command :: "powershell_parser \<Rightarrow> bool \<Rightarrow> bash_grammar \<Rightarrow> string list \<Rightarrow> bool" where
  "is_known_safe_command pwsh linux grammar command =
     (let command = zsh_as_bash command in
      if is_safe_command_windows pwsh command then True
      else if is_safe_to_call_with_exec linux command then True
      else (case parse_shell_lc_plain_commands grammar command of
              None \<Rightarrow> False
            | Some all_commands \<Rightarrow> all_commands \<noteq> [] \<and> list_all (is_safe_to_call_with_exec linux) all_commands))"

section \<open>Sed\<close>

text \<open>
  The check of sed's argument is the documented regular expression
  \<open>^(\d+,)?\d+p$\<close>: one number, or two numbers with a comma between them, and a final \<open>p\<close>.
\<close>

lemma sed_argument:
  "is_valid_sed_n_arg (Some s) \<longleftrightarrow>
     (\<exists>n. all_digits n \<and> (s = n @ ''p'' \<or> (\<exists>m. all_digits m \<and> s = m @ '','' @ n @ ''p'')))"
proof
  assume valid: "is_valid_sed_n_arg (Some s)"
  then obtain core where core: "s = core @ ''p''"
      "case split_on (CHR '','') core of [num] \<Rightarrow> all_digits num | [a, b] \<Rightarrow> all_digits a \<and> all_digits b | _ \<Rightarrow> False"
    by (auto simp: is_valid_sed_n_arg_def strip_suffix_Some split: option.splits)
  then consider (one) n where "split_on (CHR '','') core = [n]" "all_digits n"
    | (two) m n where "split_on (CHR '','') core = [m, n]" "all_digits m" "all_digits n"
    by (auto split: list.splits)
  then show "\<exists>n. all_digits n \<and> (s = n @ ''p'' \<or> (\<exists>m. all_digits m \<and> s = m @ '','' @ n @ ''p''))"
  proof cases
    case one
    with join_split_on [of "CHR '',''" core] core(1) show ?thesis by auto
  next
    case two
    with join_split_on [of "CHR '',''" core] core(1) show ?thesis by (intro exI [of _ n]) auto
  qed
next
  have no_comma: "CHR '','' \<notin> set n" if "all_digits n" for n
    using that by (auto simp: all_digits_def list_all_iff is_ascii_digit_def)
  assume "\<exists>n. all_digits n \<and> (s = n @ ''p'' \<or> (\<exists>m. all_digits m \<and> s = m @ '','' @ n @ ''p''))"
  then obtain n where n: "all_digits n" "s = n @ ''p'' \<or> (\<exists>m. all_digits m \<and> s = m @ '','' @ n @ ''p'')" by blast
  have strip: "strip_suffix ''p'' (core @ ''p'') = Some core" for core by (simp add: strip_suffix_Some)
  from n(2) show "is_valid_sed_n_arg (Some s)"
  proof
    assume "s = n @ ''p''"
    with n(1) no_comma strip show ?thesis by (simp add: is_valid_sed_n_arg_def split_on_no_sep)
  next
    assume "\<exists>m. all_digits m \<and> s = m @ '','' @ n @ ''p''"
    then obtain m where m: "all_digits m" "s = m @ '','' @ n @ ''p''" by blast
    with strip [of "m @ '','' @ n"] n(1) no_comma show ?thesis
      by (simp add: is_valid_sed_n_arg_def split_on_append_sep split_on_no_sep)
  qed
qed

section \<open>Safe is not dangerous\<close>

definition safe_programs :: "string list" where
  "safe_programs = plain_safe_programs @ [''numfmt'', ''tac'', ''base64'', ''find'', ''rg'', ''git'', ''sed'']"

lemma safe_program:
  assumes "is_safe_to_call_with_exec linux (cmd0 # args)"
  shows "\<exists>n. file_name cmd0 = Some n \<and> n \<in> set safe_programs"
  using assms
  by (auto simp: safe_programs_def is_safe_to_call_with_exec_def executable_name_lookup_key_def
      split: option.splits if_splits)

text \<open>No safe program is called like a shell or a dangerous command, whatever its directory.\<close>

lemma safe_names: "list_all (\<lambda>n. CHR ''.'' \<notin> set n \<and> shell_by_name n = None \<and> file_name n = Some n) safe_programs"
  by code_simp

lemma other_names: "list_all (\<lambda>n. file_name n = Some n \<and> n \<notin> set safe_programs) [''rm'', ''sudo'', ''zsh'', ''sh'', ''cmd'', ''bash'', ''pwsh'', ''powershell'']"
  by code_simp

lemma safe_not_shell:
  assumes "file_name p = Some n" "n \<in> set safe_programs"
  shows "detect_shell_type p = None"
proof -
  have n: "CHR ''.'' \<notin> set n" "shell_by_name n = None" "file_name n = Some n"
    using safe_names assms(2) by (auto simp: list_all_iff)
  have stem: "file_stem q = Some n" if "file_name q = Some n" for q
    using that n(1) by (simp add: file_stem_def split_on_no_sep)
  have "shell_by_name p = None"
  proof (rule ccontr)
    assume "shell_by_name p \<noteq> None"
    then have "p \<in> {''zsh'', ''sh'', ''cmd'', ''bash'', ''pwsh'', ''powershell''}"
      by (auto simp: shell_by_name_def split: if_splits)
    with other_names have "file_name p = Some p \<and> p \<notin> set safe_programs" by auto
    with assms show False by simp
  qed
  moreover have "detect_shell_type n = None"
    using n stem [OF n(3)] by (subst detect_shell_type.simps) simp
  ultimately show ?thesis using stem [OF assms(1)] by (subst detect_shell_type.simps) simp
qed

lemma safe_exec_not_dangerous:
  assumes "is_safe_to_call_with_exec linux cmd"
  shows "\<not> is_dangerous_to_call_with_exec cmd"
proof (cases cmd)
  case (Cons cmd0 args)
  obtain n where "file_name cmd0 = Some n" "n \<in> set safe_programs"
    using safe_program assms Cons by blast
  with other_names have "cmd0 \<noteq> ''rm''" "cmd0 \<noteq> ''sudo''" by auto
  with Cons show ?thesis by simp
qed simp

lemma detect_zsh_bash: "detect_shell_type ''zsh'' = Some Zsh" "detect_shell_type ''bash'' = Some Bash"
  by (simp_all add: detect_shell_type.simps shell_by_name_def)

lemma detect_not_shell: "detect_shell_type ''rm'' = None" "detect_shell_type ''sudo'' = None"
  by code_simp+

text \<open>Reading \<open>zsh\<close> as \<open>bash\<close> does not change which script is run, unless the script is that word.\<close>

lemma extract_zsh_as_bash:
  assumes "last c \<noteq> ''zsh''"
  shows "map_option snd (extract_bash_command (zsh_as_bash c)) = map_option snd (extract_bash_command c)"
  using assms
  by (cases c rule: extract_bash_command.cases) (auto simp: zsh_as_bash_def detect_zsh_bash)

lemma parse_zsh_as_bash:
  assumes "last c \<noteq> ''zsh''"
  shows "parse_shell_lc_plain_commands grammar (zsh_as_bash c) = parse_shell_lc_plain_commands grammar c"
  using extract_zsh_as_bash [OF assms]
  by (auto simp: parse_shell_lc_plain_commands_def split: option.splits prod.splits)

lemma parse_needs_shell:
  assumes "parse_shell_lc_plain_commands grammar (cmd0 # args) = Some cmds"
  shows "detect_shell_type cmd0 \<noteq> None"
  using assms
  by (cases "cmd0 # args" rule: extract_bash_command.cases)
    (auto simp: parse_shell_lc_plain_commands_def split: if_splits option.splits)

text \<open>A PowerShell executable is none of the shells whose scripts are taken apart.\<close>

lemma shell_names: "list_all (\<lambda>n. file_name n = Some n \<and> ascii_lower (hd n) \<noteq> CHR ''p'') [''zsh'', ''sh'', ''cmd'', ''bash'', ''rm'', ''sudo'']"
  by code_simp

lemma shell_by_name_p:
  assumes "ascii_lower (hd p) = CHR ''p''"
  shows "shell_by_name p \<in> {None, Some PowerShellType}"
proof (rule ccontr)
  assume "shell_by_name p \<notin> {None, Some PowerShellType}"
  then have "p \<in> set [''zsh'', ''sh'', ''cmd'', ''bash'', ''rm'', ''sudo'']" by (auto simp: shell_by_name_def split: if_splits)
  then have "ascii_lower (hd p) \<noteq> CHR ''p''" using shell_names unfolding list_all_iff by blast
  with assms show False by simp
qed

lemma detect_p_name:
  assumes "slash \<notin> set p" "p \<noteq> []" "ascii_lower (hd p) = CHR ''p''"
  shows "detect_shell_type p \<in> {None, Some PowerShellType}"
  using assms
proof (induction p rule: length_induct)
  case (1 p)
  have name: "shell_by_name p \<in> {None, Some PowerShellType}" using 1(4) by (rule shell_by_name_p)
  show ?case
  proof (cases "shell_by_name p = None \<and> (\<exists>n. file_stem p = Some n \<and> components n \<noteq> components p)")
    case True
    then obtain n where n: "file_stem p = Some n" "components n \<noteq> components p" by blast
    then obtain f where f: "file_name p = Some f" by (auto simp: file_stem_def)
    have "f = p" using file_name_piece [OF f] split_on_no_sep [OF 1(2)] by simp
    then obtain ext where ext: "p = n @ ''.'' @ ext" using file_stem_cases [OF f n(1)] n(2) by auto
    have "n \<noteq> []" using 1(4) ext by (cases n) (auto simp: ascii_lower_def)
    moreover have "slash \<notin> set n" "ascii_lower (hd n) = CHR ''p''" using 1(2,4) ext \<open>n \<noteq> []\<close> by auto
    ultimately have "detect_shell_type n \<in> {None, Some PowerShellType}" using 1(1) ext by simp
    moreover have "detect_shell_type p = detect_shell_type n" using True n by (subst detect_shell_type.simps) simp
    ultimately show ?thesis by simp
  next
    case False
    then show ?thesis using name by (subst detect_shell_type.simps) (auto split: option.splits)
  qed
qed

lemma powershell_not_shell:
  assumes "is_powershell_executable p"
  shows "detect_shell_type p \<in> {None, Some PowerShellType}" "p \<noteq> ''rm''" "p \<noteq> ''sudo''"
proof -
  have p: "ascii_lower (hd n) = CHR ''p'' \<and> n \<noteq> []" if "to_ascii_lowercase n \<in> {''powershell'', ''powershell.exe'', ''pwsh'', ''pwsh.exe''}" for n
    using that by (cases n) (auto simp: to_ascii_lowercase_def)
  have not_other: "p \<notin> set [''zsh'', ''sh'', ''cmd'', ''bash'', ''rm'', ''sudo'']"
  proof
    assume "p \<in> set [''zsh'', ''sh'', ''cmd'', ''bash'', ''rm'', ''sudo'']"
    then have other: "file_name p = Some p" "ascii_lower (hd p) \<noteq> CHR ''p''" using shell_names unfolding list_all_iff by blast+
    show False using assms p [of p] other(2) unfolding is_powershell_executable_def other(1) option.case by blast
  qed
  then show "p \<noteq> ''rm''" "p \<noteq> ''sudo''" by auto
  have name: "shell_by_name p \<in> {None, Some PowerShellType}" using not_other by (simp add: shell_by_name_def)
  show "detect_shell_type p \<in> {None, Some PowerShellType}"
  proof (cases "shell_by_name p = None \<and> (\<exists>n. file_stem p = Some n \<and> components n \<noteq> components p)")
    case True
    then obtain n where n: "file_stem p = Some n" "components n \<noteq> components p" by blast
    then obtain f where f: "file_name p = Some f" by (auto simp: file_stem_def)
    have hd: "ascii_lower (hd f) = CHR ''p''" "f \<noteq> []" using assms p [of f] f by (auto simp: is_powershell_executable_def)
    have slash: "slash \<notin> set f" using file_name_piece [OF f] by (simp add: wf_name_def)
    have "n \<noteq> [] \<and> ascii_lower (hd n) = CHR ''p'' \<and> slash \<notin> set n"
      using file_stem_cases [OF f n(1)] hd slash by (cases n) (auto simp: ascii_lower_def)
    then have "detect_shell_type n \<in> {None, Some PowerShellType}" using detect_p_name by blast
    moreover have "detect_shell_type p = detect_shell_type n" using True n by (subst detect_shell_type.simps) simp
    ultimately show ?thesis by simp
  next
    case False
    then show ?thesis using name by (subst detect_shell_type.simps) (auto split: option.splits)
  qed
qed

text \<open>The grammar reads the one word \<open>bash\<close> as the command of that name.\<close>

definition reads_bash_word :: "bash_grammar \<Rightarrow> bool" where
  "reads_bash_word grammar \<longleftrightarrow> parse_shell_lc_plain_commands grammar [''bash'', ''-c'', ''bash''] = Some [[''bash'']]"

lemma bash_not_safe: "\<not> is_safe_to_call_with_exec linux [''bash'']"
  using safe_program [of linux "''bash''" "[]"] other_names by auto

lemma safe_script:
  assumes "parse_shell_lc_plain_commands grammar (zsh_as_bash c) = Some cmds" "list_all (is_safe_to_call_with_exec linux) cmds"
    "last c \<noteq> ''zsh'' \<or> reads_bash_word grammar"
  shows "parse_shell_lc_plain_commands grammar c = Some cmds"
proof (cases "last c = ''zsh''")
  case False
  then show ?thesis using assms(1) parse_zsh_as_bash by simp
next
  case True
  obtain shell script where e: "extract_bash_command (zsh_as_bash c) = Some (shell, script)"
    using assms(1) by (auto simp: parse_shell_lc_plain_commands_def split: option.splits)
  then have "last (zsh_as_bash c) = script" "c \<noteq> []"
    by (cases "zsh_as_bash c" rule: extract_bash_command.cases; auto simp: zsh_as_bash_def split: if_splits)+
  then have "script = ''bash''" using True by (simp add: zsh_as_bash_def last_map)
  with e have "extract_bash_command (zsh_as_bash c) = Some (shell, ''bash'')" by simp
  then have "parse_shell_lc_plain_commands grammar (zsh_as_bash c) = parse_shell_lc_plain_commands grammar [''bash'', ''-c'', ''bash'']"
    by (simp add: parse_shell_lc_plain_commands_def detect_zsh_bash)
  then have "cmds = [[''bash'']]" using assms(1,3) True by (simp add: reads_bash_word_def)
  then show ?thesis using assms(2) bash_not_safe by simp
qed

lemma safe_excludes_danger:
  assumes "is_known_safe_command pwsh linux grammar c" "last c \<noteq> ''zsh'' \<or> reads_bash_word grammar"
  shows "\<not> command_might_be_dangerous grammar c"
proof -
  let ?m = "zsh_as_bash c"
  obtain cmd0 args where c: "c = cmd0 # args"
    using assms(1) by (cases c) (auto simp: is_known_safe_command_def Let_def zsh_as_bash_def is_safe_command_windows_def
        try_parse_powershell_command_sequence_def is_safe_to_call_with_exec_def parse_shell_lc_plain_commands_def)
  have m: "?m = (if cmd0 = ''zsh'' then ''bash'' else cmd0) # zsh_as_bash args" by (simp add: c zsh_as_bash_def)
  have harmless: ?thesis if "cmd0 \<noteq> ''rm''" "cmd0 \<noteq> ''sudo''" "detect_shell_type cmd0 \<notin> {Some Zsh, Some Bash, Some Sh}"
  proof -
    have "extract_bash_command c = None" using that(3) c by (cases c rule: extract_bash_command.cases) auto
    then show ?thesis using that(1,2) c by (simp add: command_might_be_dangerous_def parse_shell_lc_plain_commands_def)
  qed
  consider (powershell) "is_powershell_executable (hd ?m)"
    | (exec) "is_safe_to_call_with_exec linux ?m"
    | (script) cmds where "parse_shell_lc_plain_commands grammar ?m = Some cmds" "list_all (is_safe_to_call_with_exec linux) cmds"
    using assms(1) m by (auto simp: is_known_safe_command_def Let_def is_safe_command_windows_def
        try_parse_powershell_command_sequence_def split: option.splits if_splits)
  then show ?thesis
  proof cases
    case powershell
    then have "detect_shell_type (hd ?m) \<notin> {Some Zsh, Some Bash, Some Sh}" "hd ?m \<noteq> ''rm''" "hd ?m \<noteq> ''sudo''"
      using powershell_not_shell by fastforce+
    then show ?thesis using harmless m detect_zsh_bash by (cases "cmd0 = ''zsh''") auto
  next
    case exec
    then obtain n where n: "file_name (hd ?m) = Some n" "n \<in> set safe_programs"
      using safe_program m by (metis list.sel(1))
    have no_shell: "detect_shell_type (hd ?m) = None" by (rule safe_not_shell [OF n])
    then have cmd0: "cmd0 \<noteq> ''zsh''" "hd ?m = cmd0" using m detect_zsh_bash by auto
    then have "cmd0 \<noteq> ''rm''" "cmd0 \<noteq> ''sudo''" using n other_names by auto
    then show ?thesis using harmless no_shell cmd0(2) by simp
  next
    case script
    have parse: "parse_shell_lc_plain_commands grammar c = Some cmds" by (rule safe_script [OF script assms(2)])
    then have "cmd0 \<noteq> ''rm''" "cmd0 \<noteq> ''sudo''"
      using parse_needs_shell [of grammar cmd0 args cmds] c detect_not_shell by auto
    moreover have "\<not> list_ex is_dangerous_to_call_with_exec cmds"
      using script(2) safe_exec_not_dangerous by (auto simp: list_all_iff list_ex_iff)
    ultimately show ?thesis using parse by (simp add: command_might_be_dangerous_def c)
  qed
qed

text \<open>
  C32 (safe_not_dangerous). A command that runs without asking is never one that must ask: no command line, no shell script of
  plain commands and no PowerShell invocation is classified both as known to be safe and as possibly dangerous. The safe
  check reads the word \<open>zsh\<close> as \<open>bash\<close>; where that word is the script itself, the bash grammar has to read \<open>bash\<close> as
  one command.
\<close>

theorem safe_not_dangerous:
  assumes "is_known_safe_command pwsh linux grammar c" "last c \<noteq> ''zsh'' \<or> reads_bash_word grammar"
  shows "\<not> command_might_be_dangerous grammar c"
  using assms by (rule safe_excludes_danger)

text \<open>The tree of \<open>ls -l\<close>, the same for every script.\<close>

definition ls_grammar :: bash_grammar where
  "ls_grammar src = Some \<lparr>root_node =
      Node ''program'' True (Some src) 0
        [Node ''command'' True (Some src) 0
          [Node ''command_name'' True (Some ''ls'') 0 [Node ''word'' True (Some ''ls'') 0 []],
           Node ''word'' True (Some ''-l'') 3 []]],
      has_error = False\<rparr>"

definition no_powershell :: powershell_parser where
  "no_powershell = (\<lambda>_ _. PowershellFailed)"

theorem safe_not_dangerous_witness:
  "is_known_safe_command no_powershell True ls_grammar [''/bin/zsh'', ''-lc'', ''ls -l''] \<and>
   \<not> command_might_be_dangerous ls_grammar [''/bin/zsh'', ''-lc'', ''ls -l'']"
proof -
  have safe: "is_known_safe_command no_powershell True ls_grammar [''/bin/zsh'', ''-lc'', ''ls -l'']"
    by code_simp
  with safe_not_dangerous [OF safe] show ?thesis by simp
qed

section \<open>Git\<close>

text \<open>Options only: each starts with a hyphen or is the directory after \<open>-C\<close>.\<close>

fun options_only :: "bool \<Rightarrow> string list \<Rightarrow> bool" where
  "options_only skip [] \<longleftrightarrow> \<not> skip"
| "options_only True (arg # args) \<longleftrightarrow> options_only False args"
| "options_only False (arg # args) \<longleftrightarrow> prefix ''-'' arg \<and> options_only (arg = ''-C'') args"

lemma global_value_options:
  "is_git_global_option_with_value arg \<Longrightarrow> \<not> git_global_option_requires_prompt arg \<Longrightarrow> arg = ''-C''"
  by (auto simp: is_git_global_option_with_value_def git_global_option_requires_prompt_def)

lemma inline_value_hyphen: "is_git_global_option_with_inline_value arg \<Longrightarrow> prefix ''-'' arg \<and> arg \<noteq> ''-C''"
  by (auto simp: is_git_global_option_with_inline_value_def long_option_prefixes_def prefix_def)

lemma git_subcommand_loop_Some:
  assumes "git_subcommand_loop subs idx skip args = Some (i, sub)"
    and "\<not> list_ex git_global_option_requires_prompt args"
  shows "sub \<in> set subs \<and> (\<exists>pre post. args = pre @ sub # post \<and> i = idx + length pre \<and> options_only skip pre)"
  using assms
proof (induction subs idx skip args rule: git_subcommand_loop.induct)
  case (2 subs idx skip arg args)
  have step: ?case if "git_subcommand_loop subs (idx + 1) skip' args = Some (i, sub)"
      "sub \<in> set subs \<and> (\<exists>pre post. args = pre @ sub # post \<and> i = idx + 1 + length pre \<and> options_only skip' pre)"
      "\<And>pre. options_only skip' pre \<Longrightarrow> options_only skip (arg # pre)" for skip'
  proof -
    from that(2) obtain pre post where "sub \<in> set subs" "args = pre @ sub # post" "i = idx + 1 + length pre" "options_only skip' pre" by blast
    with that(3) show ?thesis by (intro conjI exI [of _ "arg # pre"] exI [of _ post]) auto
  qed
  have args_ok: "\<not> list_ex git_global_option_requires_prompt args" "\<not> git_global_option_requires_prompt arg"
    using 2(6) by auto
  show ?case
  proof (cases skip)
    case True
    with 2(1,5) args_ok show ?thesis by (intro step [of False]) auto
  next
    case False
    show ?thesis
    proof (cases "is_git_global_option_with_inline_value arg")
      case True
      with 2(2,5) False args_ok inline_value_hyphen [OF True] show ?thesis by (intro step [of False]) auto
    next
      case not_inline: False
      show ?thesis
      proof (cases "is_git_global_option_with_value arg")
        case True
        then have "arg = ''-C''" using global_value_options args_ok by blast
        with True 2(3,5) False not_inline args_ok show ?thesis by (intro step [of True]) auto
      next
        case not_value: False
        then have "arg \<noteq> ''-C''" by (auto simp: is_git_global_option_with_value_def)
        show ?thesis
        proof (cases "arg = ''--'' \<or> prefix ''-'' arg")
          case True
          then have "prefix ''-'' arg" by (auto simp: prefix_def)
          with True 2(4,5) False not_inline not_value args_ok \<open>arg \<noteq> ''-C''\<close> show ?thesis
            by (intro step [of False]) auto
        next
          case not_option: False
          with 2(5) False not_inline not_value show ?thesis
            by (auto split: if_splits intro!: exI [of _ "[]"])
        qed
      qed
    qed
  qed
qed simp

text \<open>
  A git command that runs without asking is a query: after options, none of which
  redirects the configuration, the repository or helper programs, comes one of the subcommands
  status, log, diff, show and branch; no argument of it writes a file or starts a program, and
  \<open>branch\<close> only gets listing flags.
\<close>

lemma git_safe_shape:
  assumes "is_safe_to_call_with_exec linux (cmd0 # args)" "file_name cmd0 = Some ''git''"
  shows "\<exists>pre sub post. args = pre @ sub # post \<and> options_only False pre \<and>
    sub \<in> {''status'', ''log'', ''diff'', ''show'', ''branch''} \<and>
    (\<forall>a \<in> set args. \<not> git_global_option_requires_prompt a) \<and>
    (\<forall>a \<in> set post. a \<notin> set UNSAFE_GIT_FLAGS \<and> \<not> prefix ''--output='' a \<and> \<not> prefix ''--exec='' a) \<and>
    (sub = ''branch'' \<longrightarrow> (\<forall>a \<in> set post. a \<in> set branch_flags \<or> prefix ''--format='' a))"
proof -
  have "git_is_safe (cmd0 # args)"
    using assms by (simp add: is_safe_to_call_with_exec_def executable_name_lookup_key_def plain_safe_programs_def)
  then obtain i sub where found: "git_subcommand_loop [''status'', ''log'', ''diff'', ''show'', ''branch''] 1 False args = Some (i, sub)"
    and global: "\<not> list_ex git_global_option_requires_prompt args"
    and ro: "git_subcommand_args_are_read_only (drop i args)"
    and branch: "sub = ''branch'' \<longrightarrow> git_branch_is_read_only (drop i args)"
    using assms(2)
    by (auto simp: git_is_safe_def find_git_subcommand_def git_has_unsafe_global_option_def Let_def
        executable_name_lookup_key_def split: if_splits option.splits)
  obtain pre post where sub: "sub \<in> {''status'', ''log'', ''diff'', ''show'', ''branch''}"
      "args = pre @ sub # post" "i = 1 + length pre" "options_only False pre"
    using git_subcommand_loop_Some [OF found global] by auto
  then have "drop i args = post" by simp
  moreover have "\<forall>a \<in> set as. a \<in> set branch_flags \<or> prefix ''--format='' a" if "branch_loop saw as" for saw as
    using that by (induction saw as rule: branch_loop.induct) (auto split: if_splits)
  ultimately have "sub = ''branch'' \<longrightarrow> (\<forall>a \<in> set post. a \<in> set branch_flags \<or> prefix ''--format='' a)"
    using branch by (auto simp: git_branch_is_read_only_def split: if_splits)
  moreover have "\<forall>a \<in> set args. \<not> git_global_option_requires_prompt a"
    using global by (simp add: list_ex_iff)
  moreover have "\<forall>a \<in> set post. a \<notin> set UNSAFE_GIT_FLAGS \<and> \<not> prefix ''--output='' a \<and> \<not> prefix ''--exec='' a"
    using ro \<open>drop i args = post\<close> by (simp only: git_subcommand_args_are_read_only_def list_ex_iff) blast
  ultimately show ?thesis
    by (intro exI [of _ pre] exI [of _ sub] exI [of _ post] conjI sub)
qed

lemma git_safe_shape_witness:
  "\<exists>pre sub post. [''-C'', ''dir'', ''branch'', ''--list''] = pre @ sub # post \<and> options_only False pre \<and>
     sub \<in> {''status'', ''log'', ''diff'', ''show'', ''branch''}"
proof -
  have "is_safe_to_call_with_exec True [''/usr/bin/git'', ''-C'', ''dir'', ''branch'', ''--list'']"
    "file_name ''/usr/bin/git'' = Some ''git''"
    by code_simp+
  from git_safe_shape [OF this] show ?thesis
    by (elim exE conjE) (intro exI conjI)
qed

text \<open>
  A flag listed as one that starts an external program is refused after
  the subcommand but accepted before it, the only place where git reads \<open>--paginate\<close>.
\<close>

lemma paginate_before_subcommand:
  "''--paginate'' \<in> set UNSAFE_GIT_FLAGS \<and>
   \<not> is_safe_to_call_with_exec linux [''git'', ''log'', ''--paginate''] \<and>
   is_safe_to_call_with_exec linux [''git'', ''--paginate'', ''log'']"
proof -
  have "is_safe_to_call_with_exec linux [''git'', ''log'', ''--paginate''] = git_is_safe [''git'', ''log'', ''--paginate'']"
    "is_safe_to_call_with_exec linux [''git'', ''--paginate'', ''log''] = git_is_safe [''git'', ''--paginate'', ''log'']"
  proof -
    have "file_name ''git'' = Some ''git''" by code_simp
    then show "is_safe_to_call_with_exec linux [''git'', ''log'', ''--paginate''] = git_is_safe [''git'', ''log'', ''--paginate'']"
      "is_safe_to_call_with_exec linux [''git'', ''--paginate'', ''log''] = git_is_safe [''git'', ''--paginate'', ''log'']"
      by (simp_all add: is_safe_to_call_with_exec_def executable_name_lookup_key_def plain_safe_programs_def)
  qed
  moreover have "''--paginate'' \<in> set UNSAFE_GIT_FLAGS" "\<not> git_is_safe [''git'', ''log'', ''--paginate'']"
    "git_is_safe [''git'', ''--paginate'', ''log'']"
    by code_simp+
  ultimately show ?thesis by simp
qed

text \<open>
  The check of PowerShell's git looks only at what comes before the subcommand: an option that writes a file is accepted after it, while
  the check of a plain command line refuses it.
\<close>

lemma powershell_git_writes:
  "is_safe_powershell_command [''git'', ''diff'', ''--output=x'']" "\<not> is_safe_to_call_with_exec linux [''git'', ''diff'', ''--output=x'']"
proof -
  show "is_safe_powershell_command [''git'', ''diff'', ''--output=x'']" by code_simp
  have "\<not> is_safe_to_call_with_exec True [''git'', ''diff'', ''--output=x'']" "\<not> is_safe_to_call_with_exec False [''git'', ''diff'', ''--output=x'']"
    by code_simp+
  then show "\<not> is_safe_to_call_with_exec linux [''git'', ''diff'', ''--output=x'']" by (cases linux) simp_all
qed

end
