(* ===== verification/Exec_Approval.thy ===== *)
theory Exec_Approval
  imports Policy_Builder Policy_Amend Command_Safety
begin

text \<open>
  What is asked before a command runs (\<open>core/src/exec_policy.rs\<close>): the command is taken apart, checked against
  the execution policy, and commands that no rule matches are judged by the classification of commands,
  the approval policy and the sandbox. The result says whether the command runs, needs an approval or
  is forbidden, and which rule might be added. Adding a rule updates the policy file and the policy in
  memory.

  Unix build: \<open>cfg!(windows)\<close> is false and the PowerShell classification accepts nothing. The shell lexer, the
  bash grammar and the environment of the process are arguments. The policies that this code only
  passes on or inspects by kind are declared as in \<open>protocol/src\<close>. \<open>None\<close> is a panic.
\<close>

section \<open>Requests\<close>

record granular_approval_config =
  sandbox_approval :: bool
  allow_rules :: bool
  skill_approval :: bool
  request_permissions :: bool
  mcp_elicitations :: bool

datatype ask_for_approval = UnlessTrusted | OnFailure | OnRequest | Granular granular_approval_config | Never

datatype read_only_access = RestrictedRead bool "string list" | FullAccess

datatype network_access = NetRestricted | NetEnabled

datatype sandbox_policy =
    DangerFullAccess
  | ReadOnly read_only_access bool
  | ExternalSandbox network_access
  | WorkspaceWrite "string list" read_only_access bool bool bool

datatype file_system_sandbox_kind = Restricted | Unrestricted | ExternalFs

datatype sandbox_permissions = UseDefault | RequireEscalated | WithAdditionalPermissions

definition requests_sandbox_override :: "sandbox_permissions \<Rightarrow> bool" where
  "requests_sandbox_override sp \<longleftrightarrow> sp \<noteq> UseDefault"

text \<open>\<open>req_fs_kind\<close> is the \<open>kind\<close> of the request's \<open>FileSystemSandboxPolicy\<close>, all that this code reads of it.\<close>

record exec_approval_request =
  req_command :: "string list"
  req_approval_policy :: ask_for_approval
  req_sandbox_policy :: sandbox_policy
  req_fs_kind :: file_system_sandbox_kind
  req_sandbox_permissions :: sandbox_permissions
  req_prefix_rule :: "string list option"

type_synonym execpolicy_amendment = "string list"

datatype exec_approval_requirement =
    Skip bool "execpolicy_amendment option"
  | NeedsApproval "string option" "execpolicy_amendment option"
  | ForbiddenBecause string

fun proposed_execpolicy_amendment :: "exec_approval_requirement \<Rightarrow> execpolicy_amendment option" where
  "proposed_execpolicy_amendment (NeedsApproval reason amendment) = amendment"
| "proposed_execpolicy_amendment (Skip bypass amendment) = amendment"
| "proposed_execpolicy_amendment (ForbiddenBecause reason) = None"

record approval_host =
  on_linux :: bool
  grammar :: bash_grammar
  env :: environment
  lexer :: shell_lexer
  powershell :: powershell_parser

section \<open>Judging unmatched commands\<close>

definition PROMPT_CONFLICT_REASON :: string where
  "PROMPT_CONFLICT_REASON = ''approval required by policy, but AskForApproval is set to Never''"

definition REJECT_SANDBOX_APPROVAL_REASON :: string where
  "REJECT_SANDBOX_APPROVAL_REASON =
     ''approval required by policy, but AskForApproval::Granular.sandbox_approval is false''"

definition REJECT_RULES_APPROVAL_REASON :: string where
  "REJECT_RULES_APPROVAL_REASON =
     ''approval required by policy rule, but AskForApproval::Granular.rules is false''"

fun is_policy_match :: "rule_match \<Rightarrow> bool" where
  "is_policy_match (PrefixRuleMatch matched_prefix d resolved_program justification) = True"
| "is_policy_match (HeuristicsRuleMatch command d) = False"

fun prompt_is_rejected_by_policy :: "ask_for_approval \<Rightarrow> bool \<Rightarrow> string option" where
  "prompt_is_rejected_by_policy Never prompt_is_rule = Some PROMPT_CONFLICT_REASON"
| "prompt_is_rejected_by_policy OnFailure prompt_is_rule = None"
| "prompt_is_rejected_by_policy OnRequest prompt_is_rule = None"
| "prompt_is_rejected_by_policy UnlessTrusted prompt_is_rule = None"
| "prompt_is_rejected_by_policy (Granular config) prompt_is_rule =
     (if prompt_is_rule then if \<not> allow_rules config then Some REJECT_RULES_APPROVAL_REASON else None
      else if \<not> sandbox_approval config then Some REJECT_SANDBOX_APPROVAL_REASON else None)"

definition sandbox_is_explicitly_disabled :: "sandbox_policy \<Rightarrow> bool" where
  "sandbox_is_explicitly_disabled p \<longleftrightarrow> (case p of DangerFullAccess \<Rightarrow> True | ExternalSandbox _ \<Rightarrow> True | _ \<Rightarrow> False)"

definition decide_by_sandbox :: "file_system_sandbox_kind \<Rightarrow> sandbox_permissions \<Rightarrow> decision" where
  "decide_by_sandbox k sp =
     (case k of
        Unrestricted \<Rightarrow> Allow
      | ExternalFs \<Rightarrow> Allow
      | Restricted \<Rightarrow> if requests_sandbox_override sp then Prompt else Allow)"

definition render_decision_for_unmatched_command :: "approval_host \<Rightarrow> exec_approval_request \<Rightarrow> bool \<Rightarrow> string list \<Rightarrow> decision" where
  "render_decision_for_unmatched_command host req used_complex_parsing command =
     (if is_known_safe_command (powershell host) (on_linux host) (grammar host) command \<and> \<not> used_complex_parsing then Allow
      else if command_might_be_dangerous (grammar host) command then
        (case req_approval_policy req of
           Never \<Rightarrow> if sandbox_is_explicitly_disabled (req_sandbox_policy req) then Allow else Forbidden
         | _ \<Rightarrow> Prompt)
      else
        (case req_approval_policy req of
           Never \<Rightarrow> Allow
         | OnFailure \<Rightarrow> Allow
         | UnlessTrusted \<Rightarrow> Prompt
         | OnRequest \<Rightarrow> decide_by_sandbox (req_fs_kind req) (req_sandbox_permissions req)
         | Granular _ \<Rightarrow> decide_by_sandbox (req_fs_kind req) (req_sandbox_permissions req)))"

definition commands_for_exec_policy :: "bash_grammar \<Rightarrow> string list \<Rightarrow> string list list \<times> bool" where
  "commands_for_exec_policy g command =
     (case parse_shell_lc_plain_commands g command of
        Some (c # cs) \<Rightarrow> (c # cs, False)
      | _ \<Rightarrow>
          (case parse_shell_lc_single_command_prefix g command of
             Some single_command \<Rightarrow> ([single_command], True)
           | None \<Rightarrow> ([command], False)))"

section \<open>Amendments and reasons\<close>

definition BANNED_PREFIX_SUGGESTIONS :: "string list list" where
  "BANNED_PREFIX_SUGGESTIONS =
     [[''python3''], [''python3'', ''-''], [''python3'', ''-c''], [''python''], [''python'', ''-''], [''python'', ''-c''],
      [''py''], [''py'', ''-3''], [''pythonw''], [''pyw''], [''pypy''], [''pypy3''], [''git''], [''bash''], [''bash'', ''-lc''],
      [''sh''], [''sh'', ''-c''], [''sh'', ''-lc''], [''zsh''], [''zsh'', ''-lc''], [''/bin/zsh''], [''/bin/zsh'', ''-lc''],
      [''/bin/bash''], [''/bin/bash'', ''-lc''], [''pwsh''], [''pwsh'', ''-Command''], [''pwsh'', ''-c''], [''powershell''],
      [''powershell'', ''-Command''], [''powershell'', ''-c''], [''powershell.exe''], [''powershell.exe'', ''-Command''],
      [''powershell.exe'', ''-c''], [''env''], [''sudo''], [''node''], [''node'', ''-e''], [''perl''], [''perl'', ''-e''],
      [''ruby''], [''ruby'', ''-e''], [''php''], [''php'', ''-r''], [''lua''], [''lua'', ''-e''], [''osascript'']]"

fun heuristics_command :: "decision \<Rightarrow> rule_match \<Rightarrow> execpolicy_amendment option" where
  "heuristics_command d (HeuristicsRuleMatch command d') = (if d' = d then Some command else None)"
| "heuristics_command d (PrefixRuleMatch matched_prefix d' resolved_program justification) = None"

text \<open>\<open>find_map\<close>.\<close>

fun find_map :: "('a \<Rightarrow> 'b option) \<Rightarrow> 'a list \<Rightarrow> 'b option" where
  "find_map f [] = None"
| "find_map f (x # xs) = (case f x of Some y \<Rightarrow> Some y | None \<Rightarrow> find_map f xs)"

definition try_derive_execpolicy_amendment_for_prompt_rules :: "rule_match list \<Rightarrow> execpolicy_amendment option" where
  "try_derive_execpolicy_amendment_for_prompt_rules ms =
     (if list_ex (\<lambda>m. is_policy_match m \<and> match_decision m = Prompt) ms then None
      else find_map (heuristics_command Prompt) ms)"

definition try_derive_execpolicy_amendment_for_allow_rules :: "rule_match list \<Rightarrow> execpolicy_amendment option" where
  "try_derive_execpolicy_amendment_for_allow_rules ms =
     (if list_ex is_policy_match ms then None else find_map (heuristics_command Allow) ms)"

definition decides_allow :: "evaluation option \<Rightarrow> bool" where
  "decides_allow ev \<longleftrightarrow> (case ev of Some ev \<Rightarrow> eval_decision ev = Allow | None \<Rightarrow> False)"

definition prefix_rule_would_approve_all_commands :: "environment \<Rightarrow> policy \<Rightarrow> string list \<Rightarrow> string list list \<Rightarrow>
    (string list \<Rightarrow> decision) \<Rightarrow> match_options \<Rightarrow> bool" where
  "prefix_rule_would_approve_all_commands e p words commands fallback options =
     (case add_prefix_rule words Allow p of
        Err _ \<Rightarrow> False
      | Ok p' \<Rightarrow> list_all (\<lambda>command. decides_allow (check_with_options e p' command fallback options)) commands)"

definition derive_requested_execpolicy_amendment_from_prefix_rule :: "environment \<Rightarrow> string list option \<Rightarrow> rule_match list \<Rightarrow>
    policy \<Rightarrow> string list list \<Rightarrow> (string list \<Rightarrow> decision) \<Rightarrow> match_options \<Rightarrow> execpolicy_amendment option" where
  "derive_requested_execpolicy_amendment_from_prefix_rule e prefix_rule ms p commands fallback options =
     (case prefix_rule of
        None \<Rightarrow> None
      | Some words \<Rightarrow>
          if words = [] then None
          else if words \<in> set BANNED_PREFIX_SUGGESTIONS then None
          else if list_ex is_policy_match ms then None
          else if prefix_rule_would_approve_all_commands e p words commands fallback options then Some words
          else None)"

definition render_shlex_command :: "shell_lexer \<Rightarrow> string list \<Rightarrow> string" where
  "render_shlex_command lx args = (case shlex_join lx args of Some s \<Rightarrow> s | None \<Rightarrow> join '' '' args)"

text \<open>\<open>max_by_key\<close> gives the last of the largest.\<close>

fun max_by_key :: "('a \<Rightarrow> 'k::linorder) \<Rightarrow> 'a list \<Rightarrow> 'a option" where
  "max_by_key f [] = None"
| "max_by_key f (x # xs) = Some (fold (\<lambda>y best. if f best \<le> f y then y else best) xs x)"

fun rule_reason :: "decision \<Rightarrow> rule_match \<Rightarrow> (string list \<times> string option) option" where
  "rule_reason d (PrefixRuleMatch matched_prefix d' resolved_program justification) =
     (if d' = d then Some (matched_prefix, justification) else None)"
| "rule_reason d (HeuristicsRuleMatch command d') = None"

definition most_specific :: "decision \<Rightarrow> evaluation \<Rightarrow> (string list \<times> string option) option" where
  "most_specific d ev = max_by_key (\<lambda>(matched_prefix, _). length matched_prefix) (List.map_filter (rule_reason d) (matched_rules ev))"

definition derive_prompt_reason :: "shell_lexer \<Rightarrow> string list \<Rightarrow> evaluation \<Rightarrow> string option" where
  "derive_prompt_reason lx command_args ev =
     (let command = render_shlex_command lx command_args in
      case most_specific Prompt ev of
        Some (_, Some justification) \<Rightarrow> Some (''`'' @ command @ ''` requires approval: '' @ justification)
      | Some (_, None) \<Rightarrow> Some (''`'' @ command @ ''` requires approval by policy'')
      | None \<Rightarrow> None)"

definition derive_forbidden_reason :: "shell_lexer \<Rightarrow> string list \<Rightarrow> evaluation \<Rightarrow> string" where
  "derive_forbidden_reason lx command_args ev =
     (let command = render_shlex_command lx command_args in
      case most_specific Forbidden ev of
        Some (_, Some justification) \<Rightarrow> ''`'' @ command @ ''` rejected: '' @ justification
      | Some (matched_prefix, None) \<Rightarrow>
          ''`'' @ command @ ''` rejected: policy forbids commands starting with `'' @ render_shlex_command lx matched_prefix @ ''`''
      | None \<Rightarrow> ''`'' @ command @ ''` rejected: blocked by policy'')"

section \<open>The requirement\<close>

definition allowed_by_rule :: "environment \<Rightarrow> policy \<Rightarrow> string list \<Rightarrow> bool" where
  "allowed_by_rule e p command \<longleftrightarrow>
     list_ex (\<lambda>m. is_policy_match m \<and> match_decision m = Allow) (matches_for_command_with_options e p command None resolving)"

definition requirement_for :: "approval_host \<Rightarrow> policy \<Rightarrow> exec_approval_request \<Rightarrow> string list list \<Rightarrow> bool \<Rightarrow> evaluation \<Rightarrow>
    exec_approval_requirement" where
  "requirement_for host p req commands used_complex_parsing ev =
     (let fallback = render_decision_for_unmatched_command host req used_complex_parsing;
          auto_amendment_allowed = \<not> used_complex_parsing;
          requested_amendment = derive_requested_execpolicy_amendment_from_prefix_rule (env host) (req_prefix_rule req)
            (matched_rules ev) p commands fallback resolving in
      case eval_decision ev of
        Forbidden \<Rightarrow> ForbiddenBecause (derive_forbidden_reason (lexer host) (req_command req) ev)
      | Prompt \<Rightarrow>
          (let prompt_is_rule = list_ex (\<lambda>m. is_policy_match m \<and> match_decision m = Prompt) (matched_rules ev) in
           case prompt_is_rejected_by_policy (req_approval_policy req) prompt_is_rule of
             Some reason \<Rightarrow> ForbiddenBecause reason
           | None \<Rightarrow>
               NeedsApproval (derive_prompt_reason (lexer host) (req_command req) ev)
                 (case requested_amendment of
                    Some amendment \<Rightarrow> Some amendment
                  | None \<Rightarrow>
                      if auto_amendment_allowed then try_derive_execpolicy_amendment_for_prompt_rules (matched_rules ev)
                      else None))
      | Allow \<Rightarrow>
          Skip (list_all (allowed_by_rule (env host) p) commands)
            (if auto_amendment_allowed then try_derive_execpolicy_amendment_for_allow_rules (matched_rules ev) else None))"

definition create_exec_approval_requirement_for_command :: "approval_host \<Rightarrow> policy \<Rightarrow> exec_approval_request \<Rightarrow>
    exec_approval_requirement option" where
  "create_exec_approval_requirement_for_command host p req =
     (case commands_for_exec_policy (grammar host) (req_command req) of
        (commands, used_complex_parsing) \<Rightarrow>
          map_option (requirement_for host p req commands used_complex_parsing)
            (check_multiple_with_options (env host) p commands
               (render_decision_for_unmatched_command host req used_complex_parsing) resolving))"

section \<open>Updating the policy\<close>

datatype exec_policy_update_error =
    AppendRule string amend_error
  | JoinBlockingTask string
  | AddRule policy_error

definition RULES_DIR_NAME :: string where "RULES_DIR_NAME = ''rules''"
definition DEFAULT_POLICY_FILE :: string where "DEFAULT_POLICY_FILE = ''default.rules''"

definition default_policy_path :: "string \<Rightarrow> string" where
  "default_policy_path codex_home = path_join (path_join codex_home RULES_DIR_NAME) DEFAULT_POLICY_FILE"

text \<open>
  The policy that is swapped, and the files. One update runs at a time (the semaphore has one permit and is
  never closed), so an update is one step. \<open>join\<close> is the error of the runtime when the blocking task
  did not end normally.
\<close>

record 'fs exec_policy_manager =
  current_policy :: policy
  policy_files :: 'fs

definition append_amendment_and_update :: "json_encoder \<Rightarrow> 'fs std_files \<Rightarrow> environment \<Rightarrow> string option \<Rightarrow> string \<Rightarrow>
    execpolicy_amendment \<Rightarrow> 'fs exec_policy_manager \<Rightarrow> 'fs exec_policy_manager \<times> (exec_policy_update_error, unit) result option" where
  "append_amendment_and_update json fs e join_error codex_home amendment mgr =
     (let policy_path = default_policy_path codex_home in
      case blocking_append_allow_prefix_rule json fs (policy_files mgr) policy_path amendment of
        (st, r) \<Rightarrow>
          (let mgr = mgr\<lparr>policy_files := st\<rparr> in
           case join_error of
             Some err \<Rightarrow> (mgr, Some (Err (JoinBlockingTask err)))
           | None \<Rightarrow>
               (case r of
                  Err err \<Rightarrow> (mgr, Some (Err (AppendRule policy_path err)))
                | Ok _ \<Rightarrow>
                    (case check_multiple_with_options e (current_policy mgr) [amendment] (\<lambda>_. Forbidden) resolving of
                       None \<Rightarrow> (mgr, None)
                     | Some existing \<Rightarrow>
                         if eval_decision existing = Allow \<and>
                            list_ex (\<lambda>m. is_policy_match m \<and> match_decision m = Allow) (matched_rules existing)
                         then (mgr, Some (Ok ()))
                         else
                           (case add_prefix_rule amendment Allow (current_policy mgr) of
                              Err err \<Rightarrow> (mgr, Some (Err (AddRule err)))
                            | Ok updated \<Rightarrow> (mgr\<lparr>current_policy := updated\<rparr>, Some (Ok ())))))))"

definition append_network_rule_and_update :: "(string list \<Rightarrow> string) \<Rightarrow> json_encoder \<Rightarrow> 'fs std_files \<Rightarrow> string option \<Rightarrow> string \<Rightarrow>
    string \<Rightarrow> network_rule_protocol \<Rightarrow> decision \<Rightarrow> string option \<Rightarrow> 'fs exec_policy_manager \<Rightarrow>
    'fs exec_policy_manager \<times> (exec_policy_update_error, unit) result" where
  "append_network_rule_and_update debug json fs join_error codex_home host protocol d justification mgr =
     (let policy_path = default_policy_path codex_home in
      case blocking_append_network_rule debug json fs (policy_files mgr) policy_path host protocol d justification of
        (st, r) \<Rightarrow>
          (let mgr = mgr\<lparr>policy_files := st\<rparr> in
           case join_error of
             Some err \<Rightarrow> (mgr, Err (JoinBlockingTask err))
           | None \<Rightarrow>
               (case r of
                  Err err \<Rightarrow> (mgr, Err (AppendRule policy_path err))
                | Ok _ \<Rightarrow>
                    (case add_network_rule host protocol d justification (current_policy mgr) of
                       Err err \<Rightarrow> (mgr, Err (AddRule err))
                     | Ok updated \<Rightarrow> (mgr\<lparr>current_policy := updated\<rparr>, Ok ())))))"

section \<open>The strictest command decides\<close>

text \<open>The rules that match a command, and the decision on one command.\<close>

definition rules_for :: "environment \<Rightarrow> policy \<Rightarrow> string list \<Rightarrow> rule_match list" where
  "rules_for e p c = matches_for_command_with_options e p c None resolving"

definition verdict :: "environment \<Rightarrow> policy \<Rightarrow> (string list \<Rightarrow> decision) \<Rightarrow> string list \<Rightarrow> decision" where
  "verdict e p fallback c =
     (if rules_for e p c = [] then fallback c else Max (match_decision ` set (rules_for e p c)))"

lemma matches_fallback:
  "matches_for_command_with_options e p c (Some fallback) resolving =
     (if rules_for e p c = [] then [HeuristicsRuleMatch c (fallback c)] else rules_for e p c)"
  by (simp add: rules_for_def matches_for_command_with_options_def Let_def)

lemma is_policy_match_resolved [simp]: "is_policy_match (with_resolved_program program m) = is_policy_match m"
  by (cases m) simp_all

lemma host_matches_policy: "m \<in> set (match_host_executable_rules e p c) \<Longrightarrow> is_policy_match m"
  by (auto simp: match_host_executable_rules_def map_filter_rule_matches
      split: list.splits sum.splits option.splits if_splits)

lemma rules_for_policy: "m \<in> set (rules_for e p c) \<Longrightarrow> is_policy_match m"
  by (auto simp: rules_for_def matches_for_command_with_options_def match_exact_applicable
      dest: host_matches_policy split: option.splits list.splits if_splits)

lemma Max_decisions_Allow: "finite D \<Longrightarrow> D \<noteq> {} \<Longrightarrow> Max D = Allow \<longleftrightarrow> (\<forall>d \<in> D. d = Allow)"
  using Allow_least by (metis Max_in Max_ge antisym)

lemma check_fallback:
  "check_with_options e p c fallback resolving =
     Some \<lparr>eval_decision = verdict e p fallback c,
           matched_rules = matches_for_command_with_options e p c (Some fallback) resolving\<rparr>"
  by (simp add: check_with_options_def from_matches_Some matches_not_Nil matches_fallback verdict_def)

lemma check_all:
  assumes "commands \<noteq> []"
  shows "check_multiple_with_options e p commands fallback resolving =
    Some \<lparr>eval_decision = Max (verdict e p fallback ` set commands),
          matched_rules = concat (map (\<lambda>c. matches_for_command_with_options e p c (Some fallback) resolving) commands)\<rparr>"
  using assms by (simp add: check_multiple_parts check_fallback)

lemma commands_not_Nil: "fst (commands_for_exec_policy g command) \<noteq> []"
  by (simp add: commands_for_exec_policy_def split: option.split list.split)

lemma requirement_of:
  assumes "commands_for_exec_policy (grammar host) (req_command req) = (commands, complex)"
  shows "create_exec_approval_requirement_for_command host p req =
    Some (requirement_for host p req commands complex
      \<lparr>eval_decision = Max (verdict (env host) p (render_decision_for_unmatched_command host req complex) ` set commands),
       matched_rules = concat (map (\<lambda>c. matches_for_command_with_options (env host) p c
         (Some (render_decision_for_unmatched_command host req complex)) resolving) commands)\<rparr>)"
proof -
  have "commands \<noteq> []" using commands_not_Nil [of "grammar host" "req_command req"] assms by simp
  then show ?thesis by (simp add: create_exec_approval_requirement_for_command_def assms check_all)
qed

fun is_skip :: "exec_approval_requirement \<Rightarrow> bool" where
  "is_skip (Skip bypass amendment) = True"
| "is_skip r = False"

fun is_forbidden :: "exec_approval_requirement \<Rightarrow> bool" where
  "is_forbidden (ForbiddenBecause reason) = True"
| "is_forbidden r = False"

lemma requirement_for_kind:
  "is_skip (requirement_for host p req commands complex ev) \<longleftrightarrow> eval_decision ev = Allow"
  "is_forbidden (requirement_for host p req commands complex ev) \<longleftrightarrow>
     eval_decision ev = Forbidden \<or> eval_decision ev = Prompt \<and>
       prompt_is_rejected_by_policy (req_approval_policy req)
         (list_ex (\<lambda>m. is_policy_match m \<and> match_decision m = Prompt) (matched_rules ev)) \<noteq> None"
  by (auto simp: requirement_for_def Let_def split: decision.splits option.splits)

lemma verdict_Allow:
  "verdict e p fallback c = Allow \<Longrightarrow> allowed_by_rule e p c \<longleftrightarrow> rules_for e p c \<noteq> []"
proof -
  assume allow: "verdict e p fallback c = Allow"
  have "\<forall>m \<in> set (rules_for e p c). is_policy_match m \<and> match_decision m = Allow"
    using allow Max_decisions_Allow [of "match_decision ` set (rules_for e p c)"] rules_for_policy
    by (fastforce simp: verdict_def split: if_splits)
  then show ?thesis by (cases "rules_for e p c") (auto simp: allowed_by_rule_def rules_for_def [symmetric])
qed

lemma Max_decisions_Forbidden: "finite D \<Longrightarrow> Forbidden \<in> D \<Longrightarrow> Max D = Forbidden"
  using Forbidden_greatest by (metis Max_ge antisym)

lemma requirement_skip:
  assumes "commands \<noteq> []" "eval_decision ev = Max (verdict (env host) p fallback ` set commands)"
  shows "is_skip (requirement_for host p req commands complex ev) \<longleftrightarrow> (\<forall>c \<in> set commands. verdict (env host) p fallback c = Allow)"
    and "requirement_for host p req commands complex ev = Skip bypass amendment \<Longrightarrow>
      bypass \<longleftrightarrow> (\<forall>c \<in> set commands. rules_for (env host) p c \<noteq> [])"
proof -
  show skip: "is_skip (requirement_for host p req commands complex ev) \<longleftrightarrow> (\<forall>c \<in> set commands. verdict (env host) p fallback c = Allow)"
    using assms by (simp add: requirement_for_kind Max_decisions_Allow)
  assume r: "requirement_for host p req commands complex ev = Skip bypass amendment"
  then have "\<forall>c \<in> set commands. verdict (env host) p fallback c = Allow" using skip by simp
  moreover have "bypass = list_all (allowed_by_rule (env host) p) commands"
    using r by (auto simp: requirement_for_def Let_def split: decision.splits option.splits)
  ultimately show "bypass \<longleftrightarrow> (\<forall>c \<in> set commands. rules_for (env host) p c \<noteq> [])"
    using verdict_Allow [of "env host" p fallback] by (metis list_all_iff)
qed

text \<open>
  C6 (requirement_strictest). Every request gets an answer, and the strictest verdict on a command of its
  script decides it: the script runs without a question exactly when each of its commands is allowed, by
  all rules that match it or, when none does, by the judgement on unmatched commands; one forbidden
  command forbids it. Only if a rule matches every command does the answer also lift the sandbox,
  and under the approval policy \<open>Never\<close> no question is asked.
\<close>

theorem requirement_strictest:
  assumes "commands_for_exec_policy (grammar host) (req_command req) = (commands, complex)"
    and "fallback = render_decision_for_unmatched_command host req complex"
  shows "\<exists>r. create_exec_approval_requirement_for_command host p req = Some r \<and>
    (is_skip r \<longleftrightarrow> (\<forall>c \<in> set commands. verdict (env host) p fallback c = Allow)) \<and>
    ((\<exists>c \<in> set commands. verdict (env host) p fallback c = Forbidden) \<longrightarrow> is_forbidden r) \<and>
    (\<forall>bypass amendment. r = Skip bypass amendment \<longrightarrow>
       (bypass \<longleftrightarrow> (\<forall>c \<in> set commands. rules_for (env host) p c \<noteq> []))) \<and>
    (req_approval_policy req = Never \<longrightarrow> is_skip r \<or> is_forbidden r)"
proof -
  let ?D = "verdict (env host) p fallback ` set commands"
  let ?ev = "\<lparr>eval_decision = Max ?D,
       matched_rules = concat (map (\<lambda>c. matches_for_command_with_options (env host) p c (Some fallback) resolving) commands)\<rparr>"
  let ?r = "requirement_for host p req commands complex ?ev"
  have "commands \<noteq> []" using commands_not_Nil [of "grammar host" "req_command req"] assms by simp
  then have skip: "is_skip ?r \<longleftrightarrow> (\<forall>c \<in> set commands. verdict (env host) p fallback c = Allow)"
    and bypass: "?r = Skip bypass amendment \<Longrightarrow> bypass \<longleftrightarrow> (\<forall>c \<in> set commands. rules_for (env host) p c \<noteq> [])" for bypass amendment
    by (rule requirement_skip; simp)+
  have forbidden: "is_forbidden ?r" if "\<exists>c \<in> set commands. verdict (env host) p fallback c = Forbidden"
  proof -
    from that have "Forbidden \<in> ?D" by (metis image_eqI)
    then show ?thesis by (simp add: requirement_for_kind Max_decisions_Forbidden)
  qed
  have never: "is_skip ?r \<or> is_forbidden ?r" if "req_approval_policy req = Never"
    using that by (cases "Max ?D") (simp_all add: requirement_for_kind)
  show ?thesis
    using requirement_of [OF assms(1), of p] skip bypass forbidden never by (auto simp: assms(2))
qed

text \<open>
  C7 (dangerous_asks). A command that may be dangerous and that no rule matches never runs without a question:
  the request is put to the user or, under \<open>Never\<close>, refused, unless \<open>Never\<close> is combined
  with a sandbox that is switched off. That holds for every command of a script. As in the safe check, the word \<open>zsh\<close> in the
  place of a script is read as \<open>bash\<close>, which the bash grammar then has to read as one command.
\<close>

theorem dangerous_asks:
  assumes "commands_for_exec_policy (grammar host) (req_command req) = (commands, complex)"
    and "c \<in> set commands" "rules_for (env host) p c = []"
    and "command_might_be_dangerous (grammar host) c" "last c \<noteq> ''zsh'' \<or> reads_bash_word (grammar host)"
    and "req_approval_policy req = Never \<Longrightarrow> \<not> sandbox_is_explicitly_disabled (req_sandbox_policy req)"
  shows "\<exists>r. create_exec_approval_requirement_for_command host p req = Some r \<and> \<not> is_skip r \<and>
    (req_approval_policy req = Never \<longrightarrow> is_forbidden r)"
proof -
  let ?fallback = "render_decision_for_unmatched_command host req complex"
  have judged: "?fallback c = (if req_approval_policy req = Never then Forbidden else Prompt)"
    using safe_excludes_danger [of "powershell host" "on_linux host" "grammar host" c] assms(4-6)
    by (auto simp: render_decision_for_unmatched_command_def split: ask_for_approval.splits)
  let ?D = "verdict (env host) p ?fallback ` set commands"
  have in_D: "?fallback c \<in> ?D" using assms(2,3) by (intro image_eqI [of _ _ c]) (simp_all add: verdict_def)
  have "Max ?D \<noteq> Allow"
    using Max_decisions_Allow [of ?D] in_D judged by (metis List.finite_set decision.distinct(1,3) emptyE finite_imageI)
  moreover have "Max ?D = Forbidden" if "req_approval_policy req = Never"
    using that in_D judged by (simp add: Max_decisions_Forbidden)
  ultimately show ?thesis
    by (simp add: requirement_of [OF assms(1)] requirement_for_kind)
qed

text \<open>A request to run \<open>rm -rf x\<close> without a script.\<close>

definition sample_host :: approval_host where
  "sample_host = \<lparr>on_linux = True, grammar = ls_grammar, env = sample_env, lexer = plain_lexer, powershell = no_powershell\<rparr>"

definition sample_request :: "string list \<Rightarrow> ask_for_approval \<Rightarrow> exec_approval_request" where
  "sample_request command approval =
     \<lparr>req_command = command, req_approval_policy = approval, req_sandbox_policy = ReadOnly FullAccess False,
      req_fs_kind = Restricted, req_sandbox_permissions = UseDefault, req_prefix_rule = None\<rparr>"

theorem requirement_strictest_witness:
  "\<exists>r. create_exec_approval_requirement_for_command sample_host empty_policy
      (sample_request [''/bin/bash'', ''-lc'', ''ls -l''] OnRequest) = Some r \<and> is_skip r"
proof -
  let ?req = "sample_request [''/bin/bash'', ''-lc'', ''ls -l''] OnRequest"
  have commands: "commands_for_exec_policy (grammar sample_host) (req_command ?req) = ([[''ls'', ''-l'']], False)"
    by code_simp
  have "verdict (env sample_host) empty_policy (render_decision_for_unmatched_command sample_host ?req False) [''ls'', ''-l''] = Allow"
    by code_simp
  with requirement_strictest [OF commands refl, of empty_policy] show ?thesis by auto
qed

theorem dangerous_asks_witness:
  "\<exists>r. create_exec_approval_requirement_for_command sample_host empty_policy
      (sample_request [''rm'', ''-rf'', ''x''] Never) = Some r \<and> is_forbidden r"
proof -
  let ?req = "sample_request [''rm'', ''-rf'', ''x''] Never"
  have commands: "commands_for_exec_policy (grammar sample_host) (req_command ?req) = ([[''rm'', ''-rf'', ''x'']], False)"
    and "rules_for (env sample_host) empty_policy [''rm'', ''-rf'', ''x''] = []"
    and "command_might_be_dangerous (grammar sample_host) [''rm'', ''-rf'', ''x'']"
    and "\<not> sandbox_is_explicitly_disabled (req_sandbox_policy ?req)" "req_approval_policy ?req = Never"
    by code_simp+
  with dangerous_asks [OF commands, of "[''rm'', ''-rf'', ''x'']" empty_policy] show ?thesis by auto
qed


section \<open>Accepting an amendment\<close>

lemma matches_prefix_extend: "matches_prefix pat ws \<noteq> None \<Longrightarrow> matches_prefix pat (ws @ args) \<noteq> None"
  by (cases ws) (auto simp: matches_prefix_def Let_def split: if_splits)

lemma zip_singles: "length ts \<le> length xs \<Longrightarrow> list_all (\<lambda>(t, c). token_matches t c) (zip (map Single ts) xs) \<longleftrightarrow> take (length ts) xs = ts"
proof (induction ts arbitrary: xs)
  case (Cons t ts)
  then show ?case by (cases xs) auto
qed simp

lemma matches_singles_prefix:
  assumes "matches_prefix \<lparr>pat_first = c, pat_rest = map Single rest\<rparr> cmd \<noteq> None" "cmd \<noteq> []"
  obtains args where "cmd = c # rest @ args"
proof -
  from assms(2) obtain y ys where cmd: "cmd = y # ys" by (cases cmd) auto
  with assms(1) have "y = c" "length rest \<le> length ys"
    "list_all (\<lambda>(t, c). token_matches t c) (zip (map Single rest) (take (length rest) ys))"
    by (auto simp: matches_prefix_def Let_def split: if_splits)
  then have "take (length rest) ys = rest" by (simp add: zip_singles)
  then have "ys = rest @ drop (length rest) ys" by (metis append_take_drop_id)
  with cmd \<open>y = c\<close> that show thesis by blast
qed

definition absolute_cwd :: "environment \<Rightarrow> bool" where
  "absolute_cwd e \<longleftrightarrow> (case env_cwd e of Ok dir \<Rightarrow> is_absolute dir | Err _ \<Rightarrow> True)"

lemma resolved_bare_name:
  assumes "absolute_cwd e" "file_name q = Some n" "n \<noteq> ''~''" "from_absolute_path (env_home e) (env_cwd e) n = Ok program"
  shows "file_name program = Some n"
proof -
  have n: "wf_name n" using file_name_piece [OF assms(2)] by simp
  then have "\<not> is_absolute n" by (cases n) (auto simp: wf_name_def is_absolute_def)
  moreover have "maybe_expand_home_directory (env_home e) n = n"
    using n assms(3)
    by (auto simp: wf_name_def maybe_expand_home_directory_def strip_prefix_def prefix_def split: option.splits if_splits)
  ultimately obtain dir where "env_cwd e = Ok dir"
    using assms(4) by (cases "env_cwd e") (auto simp: from_absolute_path_def absolutize_def)
  with assms n show ?thesis by (intro resolve_bare_name) (auto simp: absolute_cwd_def)
qed

text \<open>The spellings of a command under which its rules are looked up: as written, and with the base name of its program.\<close>

definition spellings :: "environment \<Rightarrow> policy \<Rightarrow> string list \<Rightarrow> string list set" where
  "spellings e p c = {cmd. cmd = c \<and> c \<noteq> [] \<or> (\<exists>first args program base. c = first # args \<and> cmd = base # args \<and>
     from_absolute_path (env_home e) (env_cwd e) first = Ok program \<and> executable_path_lookup_key program = Some base \<and>
     (\<forall>paths. host_executables_by_name p base = Some paths \<longrightarrow> program \<in> set paths))}"

lemma spellings_not_Nil: "cmd \<in> spellings e p c \<Longrightarrow> cmd \<noteq> [] \<and> c \<noteq> []"
  by (auto simp: spellings_def)

lemma spellings_Cons:
  "spellings e p (first # args) = insert (first # args) {base # args |program base.
     from_absolute_path (env_home e) (env_cwd e) first = Ok program \<and> executable_path_lookup_key program = Some base \<and>
     (\<forall>paths. host_executables_by_name p base = Some paths \<longrightarrow> program \<in> set paths)}"
  by (auto simp: spellings_def)

lemma rules_for_spellings:
  "rules_for e p c \<noteq> [] \<longleftrightarrow>
     (\<exists>cmd \<in> spellings e p c. \<exists>r \<in> set (mm_get (rules_by_program p) (hd cmd)). matches_prefix (rule_pattern r) cmd \<noteq> None)"
proof (cases c)
  case Nil
  then show ?thesis
    by (simp add: rules_for_def matches_not_Nil_iff applicable_def match_host_executable_rules_def spellings_def)
next
  case (Cons first args)
  have "applicable p c \<noteq> [] \<longleftrightarrow> (\<exists>r \<in> set (mm_get (rules_by_program p) first). matches_prefix (rule_pattern r) c \<noteq> None)"
    by (auto simp: Cons applicable_def filter_empty_conv)
  then show ?thesis
    unfolding rules_for_def matches_not_Nil_iff Cons host_matches_not_Nil spellings_Cons by fastforce
qed

text \<open>A longer command has the spellings of the shorter one, lengthened.\<close>

lemma spellings_append: "cmd \<in> spellings e p c \<Longrightarrow> cmd @ tail \<in> spellings e p (c @ tail)"
  by (auto simp: spellings_def)

text \<open>
  A rule for words that the policy already matches matches nothing more: whatever the new rule matches,
  some rule matched before.
\<close>

lemma covered_rule_adds_nothing:
  assumes "absolute_cwd e" "hd words \<noteq> ''~''"
    and new: "add_prefix_rule words Allow p = Ok p'"
    and covered: "rules_for e p words \<noteq> []"
    and match: "rules_for e p' c \<noteq> []"
  shows "rules_for e p c \<noteq> []"
proof -
  obtain w ws where words: "words = w # ws" using new by (cases words) (auto simp: add_prefix_rule_def)
  define r' where "r' = \<lparr>rule_pattern = \<lparr>pat_first = w, pat_rest = map Single ws\<rparr>, rule_decision = Allow, rule_justification = None\<rparr>"
  have p': "p' = p\<lparr>rules_by_program := mm_insert w r' (rules_by_program p)\<rparr>"
    using new by (simp add: add_prefix_rule_def words r'_def)
  have "spellings e p' c = spellings e p c" by (simp add: p' spellings_def)
  with match obtain cmd r where cmd: "cmd \<in> spellings e p c"
    and r: "r \<in> set (mm_get (rules_by_program p') (hd cmd))" "matches_prefix (rule_pattern r) cmd \<noteq> None"
    by (auto simp: rules_for_spellings)
  show ?thesis
  proof (cases "r \<in> set (mm_get (rules_by_program p) (hd cmd))")
    case True
    with cmd r show ?thesis by (auto simp: rules_for_spellings)
  next
    case False
    then have "r = r'" using r(1) by (auto simp: p' mm.get_ins split: if_splits)
    then obtain tail where tail: "cmd = words @ tail"
      using matches_singles_prefix [of w ws cmd] r(2) spellings_not_Nil [OF cmd] by (auto simp: r'_def words)
    from covered obtain cmd0 r0 where cmd0: "cmd0 \<in> spellings e p words"
      and r0: "r0 \<in> set (mm_get (rules_by_program p) (hd cmd0))" "matches_prefix (rule_pattern r0) cmd0 \<noteq> None"
      by (auto simp: rules_for_spellings)
    have "cmd0 @ tail \<in> spellings e p c"
    proof (cases "cmd = c \<or> cmd0 = words")
      case True
      then show ?thesis using spellings_append [OF cmd0, of tail] tail cmd by auto
    next
      case False
      from False cmd tail obtain program where program: "file_name program = Some w"
        by (auto simp: words spellings_def executable_path_lookup_key_def executable_lookup_key_def)
      from False cmd0 obtain program' base' where resolved: "cmd0 = base' # ws" "file_name program' = Some base'"
          "from_absolute_path (env_home e) (env_cwd e) w = Ok program'"
        by (auto simp: words spellings_def executable_path_lookup_key_def executable_lookup_key_def)
      then have "base' = w" using resolved_bare_name [OF assms(1) program _ resolved(3)] assms(2) words by simp
      with False resolved words show ?thesis by simp
    qed
    moreover have "matches_prefix (rule_pattern r0) (cmd0 @ tail) \<noteq> None" using r0(2) by (rule matches_prefix_extend)
    moreover have "hd (cmd0 @ tail) = hd cmd0" using spellings_not_Nil [OF cmd0] by simp
    ultimately show ?thesis using r0(1) unfolding rules_for_spellings by force
  qed
qed


lemma append_amendment_policy:
  assumes "append_amendment_and_update json fs e None codex_home words mgr = (mgr', Some (Ok ()))"
  shows "add_prefix_rule words Allow (current_policy mgr) = Ok (current_policy mgr') \<or>
    current_policy mgr' = current_policy mgr \<and> rules_for e (current_policy mgr) words \<noteq> []"
  using assms
  by (auto simp: append_amendment_and_update_def Let_def check_multiple_with_options_def matches_fallback from_matches_def
      split: prod.splits sum.splits option.splits if_splits list.splits)

lemma new_rule_verdict:
  assumes "add_prefix_rule words Allow p = Ok p'" "rules_for e p words = []"
  shows "verdict e p' fallback words = Allow"
proof -
  obtain w ws where words: "words = w # ws" using assms(1) by (cases words) (auto simp: add_prefix_rule_def)
  have "applicable p words = []" using assms(2) matches_not_Nil_iff [of e p words] by (simp add: rules_for_def)
  then obtain r where "applicable p' words = [r]" "rule_decision r = Allow"
    using assms(1) matches_prefix_singles [of w ws "[]"]
    by (auto simp: add_prefix_rule_def words applicable_def mm.get_ins split: if_splits)
  then show ?thesis
    by (simp add: verdict_def rules_for_def matches_for_command_with_options_def match_exact_applicable words)
qed

lemma find_map_Some: "find_map f xs = Some y \<Longrightarrow> \<exists>x \<in> set xs. f x = Some y"
  by (induction xs) (auto split: option.splits)

lemma heuristics_command_Some: "heuristics_command d m = Some words \<Longrightarrow> m = HeuristicsRuleMatch words d"
  by (cases "(d, m)" rule: heuristics_command.cases) (auto split: if_splits)

lemma heuristics_match:
  assumes "HeuristicsRuleMatch words d \<in> set (matches_for_command_with_options e p c (Some fallback) resolving)"
  shows "c = words \<and> rules_for e p words = []"
proof (cases "rules_for e p c = []")
  case True
  with assms show ?thesis by (auto simp: matches_fallback)
next
  case False
  with assms have "is_policy_match (HeuristicsRuleMatch words d)" by (simp only: matches_fallback if_False) (rule rules_for_policy)
  then show ?thesis by simp
qed

text \<open>An amendment is the rule that was asked for, which would approve everything, or one of the commands.\<close>

lemma amendment_origin:
  assumes "requirement_for host p req commands complex ev = NeedsApproval reason (Some words)"
    and "matched_rules ev = concat (map (\<lambda>c. matches_for_command_with_options (env host) p c (Some fallback) resolving) commands)"
    and "fallback = render_decision_for_unmatched_command host req complex"
  shows "(\<forall>c \<in> set commands. rules_for (env host) p c = []) \<and>
      prefix_rule_would_approve_all_commands (env host) p words commands fallback resolving \<or>
    words \<in> set commands \<and> rules_for (env host) p words = []"
proof -
  let ?ms = "matched_rules ev"
  consider (requested) "derive_requested_execpolicy_amendment_from_prefix_rule (env host) (req_prefix_rule req) ?ms p commands fallback resolving = Some words"
    | (auto) "try_derive_execpolicy_amendment_for_prompt_rules ?ms = Some words"
    using assms(1) by (auto simp: requirement_for_def Let_def assms(3) split: decision.splits option.splits if_splits)
  then show ?thesis
  proof cases
    case requested
    then have none: "\<not> list_ex is_policy_match ?ms"
      and all: "prefix_rule_would_approve_all_commands (env host) p words commands fallback resolving"
      by (auto simp: derive_requested_execpolicy_amendment_from_prefix_rule_def split: option.splits if_splits)
    have "rules_for (env host) p c = []" if "c \<in> set commands" for c
    proof (rule ccontr)
      assume "rules_for (env host) p c \<noteq> []"
      then obtain m where m: "m \<in> set (rules_for (env host) p c)" by (cases "rules_for (env host) p c") auto
      then have "m \<in> set (matches_for_command_with_options (env host) p c (Some fallback) resolving)"
        by (auto simp: matches_fallback)
      with that assms(2) have "m \<in> set ?ms" by auto
      with none m rules_for_policy show False by (auto simp: list_ex_iff)
    qed
    with all show ?thesis by blast
  next
    case auto
    then obtain m where "m \<in> set ?ms" "heuristics_command Prompt m = Some words"
      by (auto simp: try_derive_execpolicy_amendment_for_prompt_rules_def dest: find_map_Some split: if_splits)
    with assms(2) obtain c where "c \<in> set commands"
      "HeuristicsRuleMatch words Prompt \<in> set (matches_for_command_with_options (env host) p c (Some fallback) resolving)"
      by (auto dest: heuristics_command_Some)
    with heuristics_match show ?thesis by metis
  qed
qed

text \<open>
  C5 (amendment_silences). Accepting the rule that a question proposes settles what the question was about: once the rule is in the
  policy, the same request runs without asking, unless the rule is one of several commands of the script and another of them
  needs an approval of its own. The working directory of the process is absolute, as the system gives it, and the rule does not
  begin with the word \<open>~\<close>, which would be read as the home directory when a program is looked up.
\<close>

theorem amendment_silences:
  assumes "commands_for_exec_policy (grammar host) (req_command req) = (commands, complex)"
    and "create_exec_approval_requirement_for_command host (current_policy mgr) req = Some (NeedsApproval reason (Some words))"
    and "absolute_cwd (env host)" "hd words \<noteq> ''~''"
    and "append_amendment_and_update json fs (env host) None codex_home words mgr = (mgr', Some (Ok ()))"
  shows "\<exists>r. create_exec_approval_requirement_for_command host (current_policy mgr') req = Some r \<and>
    (is_skip r \<or> words \<in> set commands \<and>
       (\<exists>c \<in> set commands. c \<noteq> words \<and>
          verdict (env host) (current_policy mgr') (render_decision_for_unmatched_command host req complex) c \<noteq> Allow))"
proof -
  define fallback where "fallback = render_decision_for_unmatched_command host req complex"
  define p where "p = current_policy mgr"
  have updated: "add_prefix_rule words Allow p = Ok (current_policy mgr') \<or>
      current_policy mgr' = p \<and> rules_for (env host) p words \<noteq> []"
    using append_amendment_policy [OF assms(5)] by (simp add: p_def)
  have origin: "(\<forall>c \<in> set commands. rules_for (env host) p c = []) \<and>
      prefix_rule_would_approve_all_commands (env host) p words commands fallback resolving \<or>
      words \<in> set commands \<and> rules_for (env host) p words = []"
    unfolding p_def fallback_def
    by (rule amendment_origin [OF assms(2) [unfolded requirement_of [OF assms(1)] option.inject] _ refl])
      (rule evaluation.select_convs)
  let ?r = "requirement_for host (current_policy mgr') req commands complex
      \<lparr>eval_decision = Max (verdict (env host) (current_policy mgr') fallback ` set commands),
       matched_rules = concat (map (\<lambda>c. matches_for_command_with_options (env host) (current_policy mgr') c (Some fallback) resolving) commands)\<rparr>"
  have "commands \<noteq> []" using commands_not_Nil [of "grammar host" "req_command req"] assms(1) by simp
  then have skip: "is_skip ?r \<longleftrightarrow> (\<forall>c \<in> set commands. verdict (env host) (current_policy mgr') fallback c = Allow)"
    by (rule requirement_skip) simp
  have "(\<forall>c \<in> set commands. verdict (env host) (current_policy mgr') fallback c = Allow) \<or>
      words \<in> set commands \<and> (\<exists>c \<in> set commands. c \<noteq> words \<and> verdict (env host) (current_policy mgr') fallback c \<noteq> Allow)"
  proof (cases "words \<in> set commands \<and> rules_for (env host) p words = []")
    case True
    then have "add_prefix_rule words Allow p = Ok (current_policy mgr')" using updated by blast
    then have "verdict (env host) (current_policy mgr') fallback words = Allow" using new_rule_verdict True by blast
    then show ?thesis using True by metis
  next
    case False
    with origin obtain p' where p': "add_prefix_rule words Allow p = Ok p'"
      and unmatched: "\<forall>c \<in> set commands. rules_for (env host) p c = []"
      and approves: "\<forall>c \<in> set commands. verdict (env host) p' fallback c = Allow"
      by (auto simp: prefix_rule_would_approve_all_commands_def decides_allow_def check_fallback list_all_iff split: sum.splits)
    have "\<forall>c \<in> set commands. verdict (env host) (current_policy mgr') fallback c = Allow"
    proof (cases "current_policy mgr' = p'")
      case False
      then have same: "current_policy mgr' = p" "rules_for (env host) p words \<noteq> []" using updated p' by auto
      have "rules_for (env host) p' c = []" if "c \<in> set commands" for c
        using covered_rule_adds_nothing [OF assms(3,4) p' same(2)] unmatched that by blast
      with unmatched approves same(1) show ?thesis by (simp add: verdict_def)
    qed (use approves in simp)
    then show ?thesis by blast
  qed
  then show ?thesis using requirement_of [OF assms(1), of "current_policy mgr'"] skip by (auto simp: fallback_def [symmetric])
qed

theorem amendment_silences_witness:
  "\<exists>mgr' bypass amendment.
     append_amendment_and_update (\<lambda>s. if nl \<in> set s then Err s else Ok s) mem_files sample_env None ''/h'' [''rm'', ''-rf'', ''x'']
       \<lparr>current_policy = empty_policy, policy_files = (\<lambda>_. None)\<rparr> = (mgr', Some (Ok ())) \<and>
     create_exec_approval_requirement_for_command sample_host (current_policy mgr')
       (sample_request [''rm'', ''-rf'', ''x''] OnRequest) = Some (Skip bypass amendment)"
proof -
  let ?rm = "[''rm'', ''-rf'', ''x'']"
  let ?req = "sample_request ?rm OnRequest"
  let ?mgr = "\<lparr>current_policy = empty_policy, policy_files = (\<lambda>_. None)\<rparr> :: (string \<Rightarrow> string option) exec_policy_manager"
  let ?json = "\<lambda>s. if nl \<in> set s then Err s else Ok s"
  have commands: "commands_for_exec_policy (grammar sample_host) (req_command ?req) = ([?rm], False)"
    and ask: "create_exec_approval_requirement_for_command sample_host empty_policy ?req = Some (NeedsApproval None (Some ?rm))"
    and cwd: "absolute_cwd (env sample_host)"
    and none: "check_multiple_with_options sample_env empty_policy [?rm] (\<lambda>_. Forbidden) resolving =
      Some \<lparr>eval_decision = Forbidden, matched_rules = [HeuristicsRuleMatch ?rm Forbidden]\<rparr>"
    and parent: "path_parent (default_policy_path ''/h'') = Some ''/h/rules''"
    by code_simp+
  have "prefix_rule_line ?rm \<notin> set (str_lines [])" by (simp add: str_lines_def)
  then obtain st where "blocking_append_allow_prefix_rule ?json mem_files (\<lambda>_. None) (default_policy_path ''/h'') ?rm = (st, Ok ())"
    by (simp add: blocking_append_allow_prefix_rule_def append_rule_line_def parent append_locked_line_def io_then_def
        mem_files_def)
  then obtain mgr' where upd: "append_amendment_and_update ?json mem_files (env sample_host) None ''/h'' ?rm ?mgr = (mgr', Some (Ok ()))"
    using none by (simp add: append_amendment_and_update_def sample_host_def add_prefix_rule_def)
  have "create_exec_approval_requirement_for_command sample_host (current_policy ?mgr) ?req = Some (NeedsApproval None (Some ?rm))"
    using ask by simp
  from amendment_silences [OF commands this cwd _ upd] upd show ?thesis by (auto simp: sample_host_def elim: is_skip.elims)
qed

end
