(* ===== verification/Fs_Permissions.thy ===== *)
theory Fs_Permissions
  imports Exec_Approval "HOL-Library.Product_Lexorder"
begin

text \<open>
  File system permissions (\<open>protocol/src/permissions.rs\<close>, and the legacy sandbox policies of
  \<open>protocol/src/protocol.rs\<close>): entries give access to paths, the most specific one decides; from them come the
  roots that are handed to the sandbox of the operating system. An \<open>AbsolutePathBuf\<close> is a
  normalised path, so that equal paths are equal strings. What the code asks the operating system is the
  record of answers \<open>fs_probe\<close>: the state of the disk while one policy is evaluated. The glob compiler is an
  argument.
\<close>

section \<open>Access and entries\<close>

datatype network_sandbox_policy = NetworkRestricted | NetworkEnabled

fun network_is_enabled :: "network_sandbox_policy \<Rightarrow> bool" where
  "network_is_enabled NetworkEnabled = True"
| "network_is_enabled NetworkRestricted = False"

datatype file_system_access_mode = Read | Write | Deny

text \<open>The derived order of the modes: when entries conflict, \<open>none\<close> beats \<open>write\<close> beats \<open>read\<close>.\<close>

fun access_rank :: "file_system_access_mode \<Rightarrow> nat" where
  "access_rank Read = 0"
| "access_rank Write = 1"
| "access_rank Deny = 2"

definition can_read :: "file_system_access_mode \<Rightarrow> bool" where
  "can_read m \<longleftrightarrow> m \<noteq> Deny"

definition can_write :: "file_system_access_mode \<Rightarrow> bool" where
  "can_write m \<longleftrightarrow> m = Write"

datatype file_system_special_path =
    Root
  | Minimal
  | CurrentWorkingDirectory
  | ProjectRoots "string option"
  | Tmpdir
  | SlashTmp
  | UnknownSpecial string "string option"

datatype file_system_path =
    ExactPath string
  | GlobPattern string
  | Special file_system_special_path

record file_system_sandbox_entry =
  entry_path :: file_system_path
  entry_access :: file_system_access_mode

record file_system_sandbox_policy =
  fs_kind :: file_system_sandbox_kind
  glob_scan_max_depth :: "nat option"
  fs_entries :: "file_system_sandbox_entry list"

record resolved_file_system_entry =
  resolved_path :: string
  resolved_access :: file_system_access_mode

record writable_root =
  wr_root :: string
  wr_read_only_subpaths :: "string list"

definition default_fs_policy :: file_system_sandbox_policy where
  "default_fs_policy = \<lparr>fs_kind = Restricted, glob_scan_max_depth = None,
     fs_entries = [\<lparr>entry_path = Special Root, entry_access = Read\<rparr>]\<rparr>"

definition unrestricted :: file_system_sandbox_policy where
  "unrestricted = \<lparr>fs_kind = Unrestricted, glob_scan_max_depth = None, fs_entries = []\<rparr>"

definition external_sandbox :: file_system_sandbox_policy where
  "external_sandbox = \<lparr>fs_kind = ExternalFs, glob_scan_max_depth = None, fs_entries = []\<rparr>"

definition restricted :: "file_system_sandbox_entry list \<Rightarrow> file_system_sandbox_policy" where
  "restricted es = \<lparr>fs_kind = Restricted, glob_scan_max_depth = None, fs_entries = es\<rparr>"

section \<open>Paths and the disk\<close>

text \<open>\<open>link_metadata\<close> is \<open>symlink_metadata\<close>: nothing if it fails, else whether the path is a symbolic link.\<close>

record fs_probe =
  probe_env :: environment
  tmpdir_var :: "string option"
  is_dir :: "string \<Rightarrow> bool"
  is_file :: "string \<Rightarrow> bool"
  path_exists :: "string \<Rightarrow> bool"
  link_metadata :: "string \<Rightarrow> bool option"
  real_path :: "string \<Rightarrow> string option"
  read_text :: "string \<Rightarrow> string option"

definition to_absolute :: "fs_probe \<Rightarrow> string \<Rightarrow> string option" where
  "to_absolute pr p =
     (case from_absolute_path (env_home (probe_env pr)) (env_cwd (probe_env pr)) p of Ok q \<Rightarrow> Some q | Err _ \<Rightarrow> None)"

definition resolve_against :: "fs_probe \<Rightarrow> string \<Rightarrow> string \<Rightarrow> string" where
  "resolve_against pr p base = resolve_path_against_base (env_home (probe_env pr)) p base"

definition path_starts_with :: "string \<Rightarrow> string \<Rightarrow> bool" where
  "path_starts_with p base \<longleftrightarrow> prefix (components base) (components p)"

definition path_ancestors :: "string \<Rightarrow> string list" where
  "path_ancestors p = map render (rev (filter (\<lambda>cs. cs \<noteq> []) (prefixes (components p))))"

definition path_strip_prefix :: "string \<Rightarrow> string \<Rightarrow> string option" where
  "path_strip_prefix p base =
     (if path_starts_with p base then Some (render (drop (length (components base)) (components p))) else None)"

definition should_preserve_logical_path :: "fs_probe \<Rightarrow> string \<Rightarrow> bool" where
  "should_preserve_logical_path pr logical \<longleftrightarrow>
     list_ex (\<lambda>ancestor. link_metadata pr ancestor = Some True \<and>
       (case path_parent ancestor of None \<Rightarrow> False | Some parent \<Rightarrow> path_parent parent \<noteq> None))
       (path_ancestors logical)"

definition canonicalize_preserving_symlinks :: "fs_probe \<Rightarrow> string \<Rightarrow> string option" where
  "canonicalize_preserving_symlinks pr path =
     (case to_absolute pr path of
        None \<Rightarrow> None
      | Some logical \<Rightarrow>
          (case real_path pr path of
             Some canonical \<Rightarrow>
               if should_preserve_logical_path pr logical \<and> components canonical \<noteq> components logical then Some logical
               else Some canonical
           | None \<Rightarrow> Some logical))"

fun effective_loop :: "fs_probe \<Rightarrow> string \<Rightarrow> string list \<Rightarrow> string" where
  "effective_loop pr raw_path [] = raw_path"
| "effective_loop pr raw_path (ancestor # ancestors) =
     (if link_metadata pr ancestor = None then effective_loop pr raw_path ancestors
      else
        (case canonicalize_preserving_symlinks pr ancestor of
           None \<Rightarrow> effective_loop pr raw_path ancestors
         | Some normalized_ancestor \<Rightarrow>
             (case path_strip_prefix raw_path ancestor of
                None \<Rightarrow> effective_loop pr raw_path ancestors
              | Some rest \<Rightarrow>
                  (case to_absolute pr (path_join normalized_ancestor rest) of
                     Some normalized_path \<Rightarrow> normalized_path
                   | None \<Rightarrow> effective_loop pr raw_path ancestors))))"

definition normalize_effective_absolute_path :: "fs_probe \<Rightarrow> string \<Rightarrow> string" where
  "normalize_effective_absolute_path pr path = effective_loop pr path (path_ancestors path)"

text \<open>The first occurrence of every path stays.\<close>

fun dedup_loop :: "string list \<Rightarrow> string set \<Rightarrow> string list" where
  "dedup_loop [] seen = []"
| "dedup_loop (path # paths) seen =
     (if path \<in> seen then dedup_loop paths seen else path # dedup_loop paths (insert path seen))"

definition dedup_absolute_paths :: "fs_probe \<Rightarrow> string list \<Rightarrow> bool \<Rightarrow> string list" where
  "dedup_absolute_paths pr paths normalize_effective_paths =
     dedup_loop (if normalize_effective_paths then map (normalize_effective_absolute_path pr) paths else paths) {}"

definition absolute_root_path_for_cwd :: "string \<Rightarrow> string" where
  "absolute_root_path_for_cwd cwd = normalize_path (last (path_ancestors cwd))"

definition resolve_file_system_special_path :: "fs_probe \<Rightarrow> file_system_special_path \<Rightarrow> string option \<Rightarrow> string option" where
  "resolve_file_system_special_path pr v cwd =
     (case v of
        Root \<Rightarrow> None
      | Minimal \<Rightarrow> None
      | UnknownSpecial _ _ \<Rightarrow> None
      | CurrentWorkingDirectory \<Rightarrow> cwd
      | ProjectRoots subpath \<Rightarrow>
          (case cwd of
             None \<Rightarrow> None
           | Some cwd \<Rightarrow> (case subpath of Some subpath \<Rightarrow> Some (resolve_against pr subpath cwd) | None \<Rightarrow> Some cwd))
      | Tmpdir \<Rightarrow>
          (case tmpdir_var pr of None \<Rightarrow> None | Some tmpdir \<Rightarrow> if tmpdir = [] then None else to_absolute pr tmpdir)
      | SlashTmp \<Rightarrow> if is_dir pr ''/tmp'' then Some ''/tmp'' else None)"

definition resolve_file_system_path :: "fs_probe \<Rightarrow> file_system_path \<Rightarrow> string option \<Rightarrow> string option" where
  "resolve_file_system_path pr path cwd =
     (case path of
        ExactPath path \<Rightarrow> Some path
      | GlobPattern _ \<Rightarrow> None
      | Special v \<Rightarrow> resolve_file_system_special_path pr v cwd)"

definition resolve_entry_path :: "fs_probe \<Rightarrow> file_system_path \<Rightarrow> string option \<Rightarrow> string option" where
  "resolve_entry_path pr path cwd =
     (case path of
        Special Root \<Rightarrow> map_option absolute_root_path_for_cwd cwd
      | _ \<Rightarrow> resolve_file_system_path pr path cwd)"

definition resolve_candidate_path :: "fs_probe \<Rightarrow> string \<Rightarrow> string \<Rightarrow> string option" where
  "resolve_candidate_path pr path cwd =
     (if is_absolute path then to_absolute pr path else Some (resolve_against pr path cwd))"

fun special_paths_share_target :: "file_system_special_path \<Rightarrow> file_system_special_path \<Rightarrow> bool" where
  "special_paths_share_target Root Root = True"
| "special_paths_share_target Minimal Minimal = True"
| "special_paths_share_target CurrentWorkingDirectory CurrentWorkingDirectory = True"
| "special_paths_share_target Tmpdir Tmpdir = True"
| "special_paths_share_target SlashTmp SlashTmp = True"
| "special_paths_share_target CurrentWorkingDirectory (ProjectRoots None) = True"
| "special_paths_share_target (ProjectRoots None) CurrentWorkingDirectory = True"
| "special_paths_share_target (ProjectRoots left) (ProjectRoots right) = (left = right)"
| "special_paths_share_target (UnknownSpecial left left_subpath) (UnknownSpecial right right_subpath) =
     (left = right \<and> left_subpath = right_subpath)"
| "special_paths_share_target _ _ = False"

definition special_path_matches_absolute_path :: "file_system_special_path \<Rightarrow> string \<Rightarrow> bool" where
  "special_path_matches_absolute_path v path \<longleftrightarrow>
     (case v of
        Root \<Rightarrow> path_parent path = None
      | SlashTmp \<Rightarrow> components path = components ''/tmp''
      | _ \<Rightarrow> False)"

fun file_system_paths_share_target :: "file_system_path \<Rightarrow> file_system_path \<Rightarrow> bool" where
  "file_system_paths_share_target (ExactPath left) (ExactPath right) = (left = right)"
| "file_system_paths_share_target (Special left) (Special right) = special_paths_share_target left right"
| "file_system_paths_share_target (ExactPath path) (Special v) = special_path_matches_absolute_path v path"
| "file_system_paths_share_target (Special v) (ExactPath path) = special_path_matches_absolute_path v path"
| "file_system_paths_share_target (GlobPattern left) (GlobPattern right) = (left = right)"
| "file_system_paths_share_target _ _ = False"

section \<open>Resolving access\<close>

definition is_restricted :: "file_system_sandbox_policy \<Rightarrow> bool" where
  "is_restricted p \<longleftrightarrow> fs_kind p = Restricted"

definition has_root_access :: "(file_system_access_mode \<Rightarrow> bool) \<Rightarrow> file_system_sandbox_policy \<Rightarrow> bool" where
  "has_root_access predicate p \<longleftrightarrow>
     is_restricted p \<and> list_ex (\<lambda>entry. entry_path entry = Special Root \<and> predicate (entry_access entry)) (fs_entries p)"

definition has_denied_read_restrictions :: "file_system_sandbox_policy \<Rightarrow> bool" where
  "has_denied_read_restrictions p \<longleftrightarrow> is_restricted p \<and> list_ex (\<lambda>entry. entry_access entry = Deny) (fs_entries p)"

definition has_same_target_write_override :: "file_system_sandbox_policy \<Rightarrow> file_system_sandbox_entry \<Rightarrow> bool" where
  "has_same_target_write_override p entry \<longleftrightarrow>
     list_ex (\<lambda>candidate. can_write (entry_access candidate) \<and>
       access_rank (entry_access candidate) > access_rank (entry_access entry) \<and>
       file_system_paths_share_target (entry_path candidate) (entry_path entry)) (fs_entries p)"

definition narrows_write :: "file_system_sandbox_policy \<Rightarrow> file_system_sandbox_entry \<Rightarrow> bool" where
  "narrows_write p entry \<longleftrightarrow>
     \<not> can_write (entry_access entry) \<and>
     (case entry_path entry of
        ExactPath _ \<Rightarrow> \<not> has_same_target_write_override p entry
      | GlobPattern _ \<Rightarrow> True
      | Special v \<Rightarrow>
          (case v of
             Root \<Rightarrow> entry_access entry = Deny
           | Minimal \<Rightarrow> False
           | UnknownSpecial _ _ \<Rightarrow> False
           | _ \<Rightarrow> \<not> has_same_target_write_override p entry))"

definition has_write_narrowing_entries :: "file_system_sandbox_policy \<Rightarrow> bool" where
  "has_write_narrowing_entries p \<longleftrightarrow> is_restricted p \<and> list_ex (narrows_write p) (fs_entries p)"

definition fs_has_full_disk_read_access :: "file_system_sandbox_policy \<Rightarrow> bool" where
  "fs_has_full_disk_read_access p \<longleftrightarrow>
     (case fs_kind p of
        Restricted \<Rightarrow> has_root_access can_read p \<and> \<not> has_denied_read_restrictions p
      | _ \<Rightarrow> True)"

definition fs_has_full_disk_write_access :: "file_system_sandbox_policy \<Rightarrow> bool" where
  "fs_has_full_disk_write_access p \<longleftrightarrow>
     (case fs_kind p of
        Restricted \<Rightarrow> has_root_access can_write p \<and> \<not> has_write_narrowing_entries p
      | _ \<Rightarrow> True)"

definition fs_include_platform_defaults :: "file_system_sandbox_policy \<Rightarrow> bool" where
  "fs_include_platform_defaults p \<longleftrightarrow>
     \<not> fs_has_full_disk_read_access p \<and> is_restricted p \<and>
     list_ex (\<lambda>entry. entry_path entry = Special Minimal \<and> can_read (entry_access entry)) (fs_entries p)"

definition resolved_entries_with_cwd :: "fs_probe \<Rightarrow> file_system_sandbox_policy \<Rightarrow> string \<Rightarrow> resolved_file_system_entry list" where
  "resolved_entries_with_cwd pr p cwd =
     List.map_filter (\<lambda>entry.
       map_option (\<lambda>path. \<lparr>resolved_path = path, resolved_access = entry_access entry\<rparr>)
         (resolve_entry_path pr (entry_path entry) (to_absolute pr cwd))) (fs_entries p)"

definition resolved_entry_precedence :: "resolved_file_system_entry \<Rightarrow> nat \<times> nat" where
  "resolved_entry_precedence entry = (length (components (resolved_path entry)), access_rank (resolved_access entry))"

definition resolve_access_with_cwd :: "fs_probe \<Rightarrow> file_system_sandbox_policy \<Rightarrow> string \<Rightarrow> string \<Rightarrow> file_system_access_mode" where
  "resolve_access_with_cwd pr p path cwd =
     (if \<not> is_restricted p then Write
      else
        (case resolve_candidate_path pr path cwd of
           None \<Rightarrow> Deny
         | Some path \<Rightarrow>
             (case max_by_key resolved_entry_precedence
                 (filter (\<lambda>entry. path_starts_with path (resolved_path entry)) (resolved_entries_with_cwd pr p cwd)) of
                Some entry \<Rightarrow> resolved_access entry
              | None \<Rightarrow> Deny)))"

definition can_read_path_with_cwd :: "fs_probe \<Rightarrow> file_system_sandbox_policy \<Rightarrow> string \<Rightarrow> string \<Rightarrow> bool" where
  "can_read_path_with_cwd pr p path cwd \<longleftrightarrow> can_read (resolve_access_with_cwd pr p path cwd)"

definition can_write_path_with_cwd :: "fs_probe \<Rightarrow> file_system_sandbox_policy \<Rightarrow> string \<Rightarrow> string \<Rightarrow> bool" where
  "can_write_path_with_cwd pr p path cwd \<longleftrightarrow> can_write (resolve_access_with_cwd pr p path cwd)"

definition push_entry :: "string \<Rightarrow> file_system_access_mode \<Rightarrow> file_system_sandbox_policy \<Rightarrow> file_system_sandbox_policy" where
  "push_entry path access p = p\<lparr>fs_entries := fs_entries p @ [\<lparr>entry_path = ExactPath path, entry_access = access\<rparr>]\<rparr>"

definition with_additional_readable_roots :: "fs_probe \<Rightarrow> string \<Rightarrow> string list \<Rightarrow> file_system_sandbox_policy \<Rightarrow> file_system_sandbox_policy" where
  "with_additional_readable_roots pr cwd roots p =
     (if fs_has_full_disk_read_access p then p
      else fold (\<lambda>path p. if can_read_path_with_cwd pr p path cwd then p else push_entry path Read p) roots p)"

definition with_additional_writable_roots :: "fs_probe \<Rightarrow> string \<Rightarrow> string list \<Rightarrow> file_system_sandbox_policy \<Rightarrow> file_system_sandbox_policy" where
  "with_additional_writable_roots pr cwd roots p =
     fold (\<lambda>path p. if can_write_path_with_cwd pr p path cwd then p else push_entry path Write p) roots p"

section \<open>Protected subpaths\<close>

definition is_git_pointer_file :: "fs_probe \<Rightarrow> string \<Rightarrow> bool" where
  "is_git_pointer_file pr path \<longleftrightarrow> is_file pr path \<and> file_name path = Some ''.git''"

definition resolve_gitdir_from_file :: "fs_probe \<Rightarrow> string \<Rightarrow> string option" where
  "resolve_gitdir_from_file pr dot_git =
     (case read_text pr dot_git of
        None \<Rightarrow> None
      | Some contents \<Rightarrow>
          (case split_once (CHR '':'') (trim contents) of
             None \<Rightarrow> None
           | Some (_, gitdir_raw) \<Rightarrow>
               (let gitdir_raw = trim gitdir_raw in
                if gitdir_raw = [] then None
                else
                  (case path_parent dot_git of
                     None \<Rightarrow> None
                   | Some base \<Rightarrow>
                       (let gitdir_path = resolve_against pr gitdir_raw base in
                        if path_exists pr gitdir_path then Some gitdir_path else None)))))"

definition default_read_only_subpaths_for_writable_root :: "fs_probe \<Rightarrow> string \<Rightarrow> bool \<Rightarrow> string list" where
  "default_read_only_subpaths_for_writable_root pr writable_root protect_missing_dot_codex =
     (let join_root = abs_join (env_home (probe_env pr)) writable_root;
          top_level_git = join_root ''.git'';
          git_paths =
            (if is_dir pr top_level_git \<or> is_file pr top_level_git then
               (if is_file pr top_level_git \<and> is_git_pointer_file pr top_level_git then
                  (case resolve_gitdir_from_file pr top_level_git of Some gitdir \<Rightarrow> [gitdir] | None \<Rightarrow> [])
                else []) @ [top_level_git]
             else []);
          top_level_agents = join_root ''.agents'';
          top_level_codex = join_root ''.codex'' in
      dedup_absolute_paths pr
        (git_paths @ (if is_dir pr top_level_agents then [top_level_agents] else []) @
         (if protect_missing_dot_codex \<or> is_dir pr top_level_codex then [top_level_codex] else [])) False)"

definition has_explicit_resolved_path_entry :: "resolved_file_system_entry list \<Rightarrow> string \<Rightarrow> bool" where
  "has_explicit_resolved_path_entry es path \<longleftrightarrow> list_ex (\<lambda>entry. resolved_path entry = path) es"

definition append_path_entry_if_missing :: "file_system_sandbox_entry list \<Rightarrow> string \<Rightarrow> file_system_access_mode \<Rightarrow>
    file_system_sandbox_entry list" where
  "append_path_entry_if_missing es path access =
     (if list_ex (\<lambda>entry. entry_access entry = access \<and> entry_path entry = ExactPath path) es then es
      else es @ [\<lparr>entry_path = ExactPath path, entry_access = access\<rparr>])"

definition append_default_read_only_path_if_no_explicit_rule :: "string \<Rightarrow> file_system_sandbox_entry list \<Rightarrow>
    file_system_sandbox_entry list" where
  "append_default_read_only_path_if_no_explicit_rule path es =
     (if list_ex (\<lambda>entry. entry_path entry = ExactPath path) es then es else append_path_entry_if_missing es path Read)"

section \<open>Roots for the sandbox\<close>

definition get_readable_roots_with_cwd :: "fs_probe \<Rightarrow> file_system_sandbox_policy \<Rightarrow> string \<Rightarrow> string list" where
  "get_readable_roots_with_cwd pr p cwd =
     (if fs_has_full_disk_read_access p then []
      else dedup_absolute_paths pr
        (map resolved_path (filter (\<lambda>entry. can_read_path_with_cwd pr p (resolved_path entry) cwd)
          (filter (\<lambda>entry. can_read (resolved_access entry)) (resolved_entries_with_cwd pr p cwd)))) True)"

text \<open>The path under which one entry is carved out of a writable root.\<close>

definition raw_carveout_path :: "fs_probe \<Rightarrow> string \<Rightarrow> string list \<Rightarrow> string \<Rightarrow> string option" where
  "raw_carveout_path pr root raw_writable_roots path =
     (if path_parent root = None then None
      else if path = root then None
      else if path_starts_with path root then Some path
      else find_map (\<lambda>raw_root.
        case path_strip_prefix path raw_root of
          None \<Rightarrow> None
        | Some rest \<Rightarrow> if rest = [] then None else Some (abs_join (env_home (probe_env pr)) root rest)) raw_writable_roots)"

definition carveout_path :: "fs_probe \<Rightarrow> string \<Rightarrow> string list \<Rightarrow> string \<Rightarrow> string option" where
  "carveout_path pr root raw_writable_roots path =
     (case raw_carveout_path pr root raw_writable_roots path of
        Some carveout \<Rightarrow> Some carveout
      | None \<Rightarrow>
          (let effective_path = normalize_effective_absolute_path pr path in
           if effective_path = root \<or> \<not> path_starts_with effective_path root then None else Some effective_path))"

definition writable_root_for :: "fs_probe \<Rightarrow> file_system_sandbox_policy \<Rightarrow> string \<Rightarrow> string list \<Rightarrow> string \<Rightarrow> writable_root" where
  "writable_root_for pr p cwd writable_entries root =
     (let resolved_entries = resolved_entries_with_cwd pr p cwd;
          raw_writable_roots = filter (\<lambda>path. normalize_effective_absolute_path pr path = root) writable_entries;
          protect_missing_dot_codex =
            (case to_absolute pr cwd of None \<Rightarrow> False | Some cwd \<Rightarrow> normalize_effective_absolute_path pr cwd = root);
          defaults = filter (\<lambda>path. \<not> has_explicit_resolved_path_entry resolved_entries path)
            (default_read_only_subpaths_for_writable_root pr root protect_missing_dot_codex);
          carveouts = List.map_filter (\<lambda>entry. carveout_path pr root raw_writable_roots (resolved_path entry))
            (filter (\<lambda>entry. \<not> can_write_path_with_cwd pr p (resolved_path entry) cwd)
              (filter (\<lambda>entry. \<not> can_write (resolved_access entry)) resolved_entries)) in
      \<lparr>wr_root = root, wr_read_only_subpaths = dedup_absolute_paths pr (defaults @ carveouts) False\<rparr>)"

definition get_writable_roots_with_cwd :: "fs_probe \<Rightarrow> file_system_sandbox_policy \<Rightarrow> string \<Rightarrow> writable_root list" where
  "get_writable_roots_with_cwd pr p cwd =
     (if fs_has_full_disk_write_access p then []
      else
        (let writable_entries = map resolved_path (filter (\<lambda>entry. can_write_path_with_cwd pr p (resolved_path entry) cwd)
               (filter (\<lambda>entry. can_write (resolved_access entry)) (resolved_entries_with_cwd pr p cwd))) in
         map (writable_root_for pr p cwd writable_entries) (dedup_absolute_paths pr writable_entries True)))"

definition is_path_writable :: "writable_root \<Rightarrow> string \<Rightarrow> bool" where
  "is_path_writable r path \<longleftrightarrow>
     path_starts_with path (wr_root r) \<and> \<not> list_ex (path_starts_with path) (wr_read_only_subpaths r)"

definition get_unreadable_roots_with_cwd :: "fs_probe \<Rightarrow> file_system_sandbox_policy \<Rightarrow> string \<Rightarrow> string list" where
  "get_unreadable_roots_with_cwd pr p cwd =
     (if \<not> is_restricted p then []
      else
        (let root = map_option absolute_root_path_for_cwd (to_absolute pr cwd) in
         dedup_absolute_paths pr
           (map resolved_path (filter (\<lambda>entry. root \<noteq> Some (resolved_path entry))
             (filter (\<lambda>entry. \<not> can_read_path_with_cwd pr p (resolved_path entry) cwd)
               (filter (\<lambda>entry. resolved_access entry = Deny) (resolved_entries_with_cwd pr p cwd))))) True))"

definition get_unreadable_globs_with_cwd :: "fs_probe \<Rightarrow> file_system_sandbox_policy \<Rightarrow> string \<Rightarrow> string list" where
  "get_unreadable_globs_with_cwd pr p cwd =
     (if \<not> is_restricted p then []
      else remdups_adj (sort (List.map_filter
        (\<lambda>entry. case entry_path entry of GlobPattern pattern \<Rightarrow> Some (resolve_against pr pattern cwd) | _ \<Rightarrow> None)
        (filter (\<lambda>entry. entry_access entry = Deny) (fs_entries p)))))"

section \<open>Matching denied reads\<close>

type_synonym glob_compiler = "string \<Rightarrow> (string \<Rightarrow> bool) option"

record read_deny_matcher =
  denied_candidates :: "string list list"
  deny_read_matchers :: "(string \<Rightarrow> bool) list"
  invalid_pattern :: bool

definition push_unique :: "string list \<Rightarrow> string \<Rightarrow> string list" where
  "push_unique cands candidate =
     (if list_ex (\<lambda>existing. components existing = components candidate) cands then cands else cands @ [candidate])"

definition normalized_and_canonical_candidates :: "fs_probe \<Rightarrow> string \<Rightarrow> string list" where
  "normalized_and_canonical_candidates pr path =
     (let cands = push_unique [] (case to_absolute pr path of Some normalized \<Rightarrow> normalized | None \<Rightarrow> path) in
      case real_path pr path of
        None \<Rightarrow> cands
      | Some canonical \<Rightarrow>
          (case to_absolute pr canonical of None \<Rightarrow> cands | Some canonical_absolute \<Rightarrow> push_unique cands canonical_absolute))"

definition new_read_deny_matcher :: "fs_probe \<Rightarrow> glob_compiler \<Rightarrow> file_system_sandbox_policy \<Rightarrow> string \<Rightarrow> read_deny_matcher option" where
  "new_read_deny_matcher pr build_glob_matcher p cwd =
     (if \<not> has_denied_read_restrictions p then None
      else
        (let globs = map build_glob_matcher (get_unreadable_globs_with_cwd pr p cwd) in
         Some \<lparr>denied_candidates = map (normalized_and_canonical_candidates pr) (get_unreadable_roots_with_cwd pr p cwd),
               deny_read_matchers = List.map_filter id globs, invalid_pattern = list_ex (\<lambda>g. Option.is_none g) globs\<rparr>))"

definition is_read_denied :: "fs_probe \<Rightarrow> read_deny_matcher \<Rightarrow> string \<Rightarrow> bool" where
  "is_read_denied pr m path \<longleftrightarrow>
     invalid_pattern m \<or>
     (let path_candidates = normalized_and_canonical_candidates pr path in
      list_ex (\<lambda>denied. list_ex (\<lambda>candidate. list_ex (\<lambda>denied_candidate.
          components candidate = components denied_candidate \<or> path_starts_with candidate denied_candidate) denied)
        path_candidates) (denied_candidates m) \<or>
      list_ex (\<lambda>matcher. list_ex matcher path_candidates) (deny_read_matchers m))"

section \<open>Legacy sandbox policies\<close>

definition network_access_is_enabled :: "network_access \<Rightarrow> bool" where
  "network_access_is_enabled a \<longleftrightarrow> a = NetEnabled"

fun has_full_network_access :: "sandbox_policy \<Rightarrow> bool" where
  "has_full_network_access DangerFullAccess = True"
| "has_full_network_access (ExternalSandbox a) = network_access_is_enabled a"
| "has_full_network_access (ReadOnly access net) = net"
| "has_full_network_access (WorkspaceWrite roots access net exclude_tmpdir exclude_slash_tmp) = net"

definition network_policy_of :: "sandbox_policy \<Rightarrow> network_sandbox_policy" where
  "network_policy_of v = (if has_full_network_access v then NetworkEnabled else NetworkRestricted)"

abbreviation entry_of :: "file_system_path \<Rightarrow> file_system_access_mode \<Rightarrow> file_system_sandbox_entry" where
  "entry_of path access \<equiv> \<lparr>entry_path = path, entry_access = access\<rparr>"

definition read_entries :: "bool \<Rightarrow> read_only_access \<Rightarrow> file_system_sandbox_entry list" where
  "read_entries with_cwd access =
     (case access of
        FullAccess \<Rightarrow> [entry_of (Special Root) Read]
      | RestrictedRead defaults readable_roots \<Rightarrow>
          (if with_cwd then [entry_of (Special CurrentWorkingDirectory) Read] else []) @
          (if defaults then [entry_of (Special Minimal) Read] else []) @
          map (\<lambda>path. entry_of (ExactPath path) Read) readable_roots)"

fun from_sandbox_policy :: "sandbox_policy \<Rightarrow> file_system_sandbox_policy" where
  "from_sandbox_policy DangerFullAccess = unrestricted"
| "from_sandbox_policy (ExternalSandbox a) = external_sandbox"
| "from_sandbox_policy (ReadOnly access net) = restricted (read_entries True access)"
| "from_sandbox_policy (WorkspaceWrite writable_roots access net exclude_tmpdir_env_var exclude_slash_tmp) =
     restricted (read_entries False access @ [entry_of (Special CurrentWorkingDirectory) Write] @
       (if \<not> exclude_slash_tmp then [entry_of (Special SlashTmp) Write] else []) @
       (if \<not> exclude_tmpdir_env_var then [entry_of (Special Tmpdir) Write] else []) @
       map (\<lambda>path. entry_of (ExactPath path) Write) writable_roots)"

definition legacy_writable_roots :: "fs_probe \<Rightarrow> sandbox_policy \<Rightarrow> string \<Rightarrow> writable_root list" where
  "legacy_writable_roots pr v cwd =
     (case v of
        WorkspaceWrite writable_roots _ _ exclude_tmpdir_env_var exclude_slash_tmp \<Rightarrow>
          (let roots = writable_roots @
                 (case to_absolute pr cwd of Some cwd \<Rightarrow> [cwd] | None \<Rightarrow> []) @
                 (if \<not> exclude_slash_tmp \<and> is_dir pr ''/tmp'' then [''/tmp''] else []) @
                 (if exclude_tmpdir_env_var then []
                  else (case tmpdir_var pr of
                          None \<Rightarrow> []
                        | Some tmpdir \<Rightarrow>
                            if tmpdir = [] then []
                            else (case to_absolute pr tmpdir of Some t \<Rightarrow> [t] | None \<Rightarrow> []))) in
           map (\<lambda>root. \<lparr>wr_root = root,
               wr_read_only_subpaths = default_read_only_subpaths_for_writable_root pr root (to_absolute pr cwd = Some root)\<rparr>) roots)
      | _ \<Rightarrow> [])"

definition from_legacy_sandbox_policy :: "fs_probe \<Rightarrow> sandbox_policy \<Rightarrow> string \<Rightarrow> file_system_sandbox_policy" where
  "from_legacy_sandbox_policy pr v cwd =
     (let p = from_sandbox_policy v in
      case v of
        WorkspaceWrite writable_roots _ _ _ _ \<Rightarrow>
          (let legacy = legacy_writable_roots pr v cwd;
               kept = filter (\<lambda>entry. entry_access entry \<noteq> Read \<or>
                 (case entry_path entry of
                    ExactPath path \<Rightarrow> \<not> list_ex (\<lambda>root. is_path_writable root path) legacy
                  | _ \<Rightarrow> True)) (fs_entries p);
               with_cwd =
                 (case to_absolute pr cwd of
                    None \<Rightarrow> kept
                  | Some cwd_root \<Rightarrow> fold append_default_read_only_path_if_no_explicit_rule
                      (default_read_only_subpaths_for_writable_root pr cwd_root True) kept) in
           p\<lparr>fs_entries := fold (\<lambda>writable_root. fold append_default_read_only_path_if_no_explicit_rule
               (default_read_only_subpaths_for_writable_root pr writable_root False)) writable_roots with_cwd\<rparr>)
      | _ \<Rightarrow> p)"

definition from_legacy_sandbox_policy_preserving_deny_entries :: "fs_probe \<Rightarrow> sandbox_policy \<Rightarrow> string \<Rightarrow>
    file_system_sandbox_policy \<Rightarrow> file_system_sandbox_policy" where
  "from_legacy_sandbox_policy_preserving_deny_entries pr v cwd existing =
     (let rebuilt = from_legacy_sandbox_policy pr v cwd in
      if \<not> is_restricted rebuilt then rebuilt
      else
        rebuilt\<lparr>glob_scan_max_depth := glob_scan_max_depth existing,
          fs_entries := fold (\<lambda>deny_entry es. if deny_entry \<in> set es then es else es @ [deny_entry])
            (filter (\<lambda>entry. entry_access entry = Deny) (fs_entries existing)) (fs_entries rebuilt)\<rparr>)"


text \<open>What the loop over the entries collects.\<close>

record legacy_scan =
  ls_platform_defaults :: bool
  ls_workspace_writable :: bool
  ls_writable_roots :: "string list"
  ls_readable_roots :: "string list"
  ls_tmpdir_writable :: bool
  ls_slash_tmp_writable :: bool
  ls_root_write :: bool

definition push_readable :: "string option \<Rightarrow> legacy_scan \<Rightarrow> legacy_scan" where
  "push_readable path s = (case path of None \<Rightarrow> s | Some path \<Rightarrow> s\<lparr>ls_readable_roots := ls_readable_roots s @ [path]\<rparr>)"

definition push_writable :: "string \<Rightarrow> legacy_scan \<Rightarrow> legacy_scan" where
  "push_writable path s = s\<lparr>ls_writable_roots := ls_writable_roots s @ [path]\<rparr>"

definition scan_entry :: "fs_probe \<Rightarrow> bool \<Rightarrow> string option \<Rightarrow> file_system_sandbox_entry \<Rightarrow> legacy_scan \<Rightarrow> legacy_scan" where
  "scan_entry pr full_read cwd_absolute entry s =
     (let access = entry_access entry;
          resolved = (\<lambda>v. resolve_file_system_special_path pr v cwd_absolute) in
      case entry_path entry of
        GlobPattern _ \<Rightarrow> s
      | ExactPath path \<Rightarrow>
          if can_write access then
            if cwd_absolute = Some path then s\<lparr>ls_workspace_writable := True\<rparr> else push_writable path s
          else if can_read access then push_readable (Some path) s
          else s
      | Special v \<Rightarrow>
          (case v of
             Root \<Rightarrow>
               (case access of
                  Deny \<Rightarrow> s
                | Read \<Rightarrow> if \<not> full_read then push_readable (map_option absolute_root_path_for_cwd cwd_absolute) s else s
                | Write \<Rightarrow> s\<lparr>ls_root_write := True\<rparr>)
           | Minimal \<Rightarrow> if can_read access then s\<lparr>ls_platform_defaults := True\<rparr> else s
           | CurrentWorkingDirectory \<Rightarrow>
               if can_write access then s\<lparr>ls_workspace_writable := True\<rparr>
               else if can_read access then push_readable (resolved v) s else s
           | ProjectRoots subpath \<Rightarrow>
               if subpath = None \<and> can_write access then s\<lparr>ls_workspace_writable := True\<rparr>
               else
                 (case resolved v of
                    None \<Rightarrow> s
                  | Some path \<Rightarrow>
                      if can_write access then push_writable path s
                      else if can_read access then push_readable (Some path) s else s)
           | Tmpdir \<Rightarrow>
               if can_write access then s\<lparr>ls_tmpdir_writable := True\<rparr>
               else if can_read access then push_readable (resolved v) s else s
           | SlashTmp \<Rightarrow>
               if can_write access then s\<lparr>ls_slash_tmp_writable := True\<rparr>
               else if can_read access then push_readable (resolved v) s else s
           | UnknownSpecial _ _ \<Rightarrow> s))"

definition full_write_policy :: "network_sandbox_policy \<Rightarrow> sandbox_policy" where
  "full_write_policy net = (if network_is_enabled net then DangerFullAccess else ExternalSandbox NetRestricted)"

definition msg_unbridgeable :: string where
  "msg_unbridgeable = ''permissions profile requests filesystem writes outside the workspace root, which is not supported until the runtime enforces FileSystemSandboxPolicy directly''"

definition to_legacy_sandbox_policy :: "fs_probe \<Rightarrow> file_system_sandbox_policy \<Rightarrow> network_sandbox_policy \<Rightarrow> string \<Rightarrow>
    (string, sandbox_policy) result" where
  "to_legacy_sandbox_policy pr p net cwd =
     (case fs_kind p of
        ExternalFs \<Rightarrow> Ok (ExternalSandbox (if network_is_enabled net then NetEnabled else NetRestricted))
      | Unrestricted \<Rightarrow> Ok (full_write_policy net)
      | Restricted \<Rightarrow>
          (let full_read = fs_has_full_disk_read_access p;
               s = fold (scan_entry pr full_read (to_absolute pr cwd)) (fs_entries p)
                 \<lparr>ls_platform_defaults = False, ls_workspace_writable = False, ls_writable_roots = [], ls_readable_roots = [],
                  ls_tmpdir_writable = False, ls_slash_tmp_writable = False, ls_root_write = False\<rparr> in
           if fs_has_full_disk_write_access p then Ok (full_write_policy net)
           else
             (let access =
                (if full_read then FullAccess
                 else RestrictedRead (ls_platform_defaults s) (dedup_absolute_paths pr (ls_readable_roots s) False)) in
              if ls_workspace_writable s then
                Ok (WorkspaceWrite (dedup_absolute_paths pr (ls_writable_roots s) False) access (network_is_enabled net)
                     (\<not> ls_tmpdir_writable s) (\<not> ls_slash_tmp_writable s))
              else if ls_root_write s \<or> ls_writable_roots s \<noteq> [] \<or> ls_tmpdir_writable s \<or> ls_slash_tmp_writable s
              then Err msg_unbridgeable
              else Ok (ReadOnly access (network_is_enabled net)))))"

record file_system_semantic_signature =
  sig_full_read :: bool
  sig_full_write :: bool
  sig_platform_defaults :: bool
  sig_readable_roots :: "string list"
  sig_writable_roots :: "writable_root list"
  sig_unreadable_roots :: "string list"
  sig_unreadable_globs :: "string list"

definition semantic_signature :: "fs_probe \<Rightarrow> file_system_sandbox_policy \<Rightarrow> string \<Rightarrow> file_system_semantic_signature" where
  "semantic_signature pr p cwd =
     \<lparr>sig_full_read = fs_has_full_disk_read_access p, sig_full_write = fs_has_full_disk_write_access p,
      sig_platform_defaults = fs_include_platform_defaults p, sig_readable_roots = get_readable_roots_with_cwd pr p cwd,
      sig_writable_roots = get_writable_roots_with_cwd pr p cwd, sig_unreadable_roots = get_unreadable_roots_with_cwd pr p cwd,
      sig_unreadable_globs = get_unreadable_globs_with_cwd pr p cwd\<rparr>"

definition needs_direct_runtime_enforcement :: "fs_probe \<Rightarrow> file_system_sandbox_policy \<Rightarrow> network_sandbox_policy \<Rightarrow> string \<Rightarrow> bool" where
  "needs_direct_runtime_enforcement pr p net cwd \<longleftrightarrow>
     is_restricted p \<and>
     (case to_legacy_sandbox_policy pr p net cwd of
        Err _ \<Rightarrow> True
      | Ok legacy_policy \<Rightarrow>
          semantic_signature pr p cwd \<noteq> semantic_signature pr (from_legacy_sandbox_policy pr legacy_policy cwd) cwd)"

end
