(* ===== verification/Permission_Rules.thy ===== *)
theory Permission_Rules
  imports Fs_Permissions
begin

text \<open>
  What the file system permissions guarantee: the most specific entry decides, full access means access to
  every path, the roots handed to the sandbox allow exactly what the policy allows, less the protected
  subpaths, and the metadata folder of the workspace stays read-only.
\<close>

section \<open>The most specific entry decides\<close>

lemma max_by_key_None: "max_by_key f xs = None \<longleftrightarrow> xs = []"
  by (cases xs) simp_all

lemma max_by_key_Some:
  assumes "max_by_key f xs = Some m"
  shows "m \<in> set xs \<and> (\<forall>x \<in> set xs. f x \<le> f m)"
proof -
  have "fold (\<lambda>y best. if f best \<le> f y then y else best) ys b = b' \<Longrightarrow> b' \<in> insert b (set ys) \<and> (\<forall>x \<in> insert b (set ys). f x \<le> f b')" for ys b b'
  proof (induction ys arbitrary: b)
    case (Cons y ys)
    define c where "c = (if f b \<le> f y then y else b)"
    have c: "f b \<le> f c" "f y \<le> f c" "c \<in> {b, y}" by (auto simp: c_def)
    have "b' \<in> insert c (set ys) \<and> (\<forall>x \<in> insert c (set ys). f x \<le> f b')"
      using Cons by (simp add: c_def)
    with c show ?case by (auto intro: order_trans)
  qed simp
  with assms show ?thesis by (cases xs) auto
qed

definition matching :: "fs_probe \<Rightarrow> file_system_sandbox_policy \<Rightarrow> string \<Rightarrow> string \<Rightarrow> resolved_file_system_entry set" where
  "matching pr p cwd q = {e \<in> set (resolved_entries_with_cwd pr p cwd). path_starts_with q (resolved_path e)}"

definition deciding :: "fs_probe \<Rightarrow> file_system_sandbox_policy \<Rightarrow> string \<Rightarrow> string \<Rightarrow> resolved_file_system_entry \<Rightarrow> bool" where
  "deciding pr p cwd q e \<longleftrightarrow> e \<in> matching pr p cwd q \<and>
     (\<forall>e' \<in> matching pr p cwd q. resolved_entry_precedence e' \<le> resolved_entry_precedence e)"

lemma resolve_access_cases:
  assumes "is_restricted p" "resolve_candidate_path pr path cwd = Some q"
  obtains "matching pr p cwd q = {}" "resolve_access_with_cwd pr p path cwd = Deny"
    | e where "deciding pr p cwd q e" "resolve_access_with_cwd pr p path cwd = resolved_access e"
proof (cases "max_by_key resolved_entry_precedence
    (filter (\<lambda>entry. path_starts_with q (resolved_path entry)) (resolved_entries_with_cwd pr p cwd))")
  case None
  with assms that(1) show ?thesis
    by (simp add: resolve_access_with_cwd_def matching_def max_by_key_None filter_empty_conv)
next
  case (Some e)
  with assms that(2) [of e] max_by_key_Some [OF Some] show ?thesis
    by (simp add: resolve_access_with_cwd_def deciding_def matching_def)
qed

lemma precedence_le:
  "resolved_entry_precedence e \<le> resolved_entry_precedence e' \<longleftrightarrow>
     length (components (resolved_path e)) < length (components (resolved_path e')) \<or>
     length (components (resolved_path e)) = length (components (resolved_path e')) \<and>
       access_rank (resolved_access e) \<le> access_rank (resolved_access e')"
  by (auto simp: resolved_entry_precedence_def less_eq_prod_def)

text \<open>Entries that match one path lie on one line.\<close>

lemma matching_comparable:
  assumes "path_starts_with q a" "path_starts_with q b" "length (components a) \<le> length (components b)"
  shows "path_starts_with b a"
  using assms prefix_length_prefix unfolding path_starts_with_def by blast

lemma path_starts_with_trans: "path_starts_with q b \<Longrightarrow> path_starts_with b a \<Longrightarrow> path_starts_with q a"
  unfolding path_starts_with_def by (rule prefix_order.trans)

lemma path_starts_with_refl [simp]: "path_starts_with q q"
  by (simp add: path_starts_with_def)

text \<open>The entry that decides on a path decides on its own path too.\<close>

lemma deciding_own_path:
  assumes "deciding pr p cwd q e"
  shows "deciding pr p cwd (resolved_path e) e"
  using assms path_starts_with_trans unfolding deciding_def matching_def by auto

text \<open>What decides is determined up to the access.\<close>

lemma deciding_access:
  assumes "deciding pr p cwd q e" "deciding pr p cwd q e'"
  shows "resolved_access e = resolved_access e'"
proof -
  have "access_rank (resolved_access e) = access_rank (resolved_access e')"
    using assms unfolding deciding_def precedence_le by fastforce
  then show ?thesis by (cases "resolved_access e"; cases "resolved_access e'") simp_all
qed

section \<open>Normalised paths\<close>

definition wf_fs_policy :: "file_system_sandbox_policy \<Rightarrow> bool" where
  "wf_fs_policy p \<longleftrightarrow> (\<forall>entry \<in> set (fs_entries p). \<forall>path. entry_path entry = ExactPath path \<longrightarrow> normalized_absolute path)"

lemma no_home_in_absolute: "is_absolute p \<Longrightarrow> maybe_expand_home_directory home p = p"
  by (cases p) (auto simp: maybe_expand_home_directory_def is_absolute_def strip_prefix_def split: option.split)

lemma to_absolute_absolute: "is_absolute p \<Longrightarrow> to_absolute pr p = Some (normalize_path p)"
  by (simp add: to_absolute_def from_absolute_path_def absolutize_def no_home_in_absolute)

lemma to_absolute_normalized: "normalized_absolute p \<Longrightarrow> to_absolute pr p = Some p"
  by (simp add: to_absolute_absolute normalized_absolute_is_absolute normalize_path_normalized)

lemma candidate_normalized:
  assumes "is_absolute cwd"
  obtains q where "resolve_candidate_path pr path cwd = Some q" "normalized_absolute q"
proof (cases "is_absolute path")
  case True
  then show ?thesis using that by (simp add: resolve_candidate_path_def to_absolute_absolute normalize_path_absolute)
next
  case False
  have "normalized_absolute (resolve_against pr path cwd)"
    using assms unfolding resolve_against_def resolve_path_against_base_def absolutize_from_def
    by (intro normalize_path_absolute is_absolute_join)
  with False that show ?thesis by (simp add: resolve_candidate_path_def)
qed

lemma candidate_self: "normalized_absolute q \<Longrightarrow> resolve_candidate_path pr q cwd = Some q"
  by (simp add: resolve_candidate_path_def normalized_absolute_is_absolute to_absolute_normalized)

lemma components_inject: "normalized_absolute p \<Longrightarrow> normalized_absolute q \<Longrightarrow> components p = components q \<Longrightarrow> p = q"
  using inj_map_eq_map [of Normal] by (auto simp: normalized_absolute_def components_normalized inj_def)

lemma normalized_root: "normalized_absolute ''/''"
  unfolding normalized_absolute_def by (rule exI [of _ "[]"]) simp

lemma normalized_components:
  assumes "normalized_absolute p"
  obtains ns where "components p = RootDir # map Normal ns" "list_all wf_name ns" "p = slash # join [slash] ns"
  using assms components_normalized by (auto simp: normalized_absolute_def)

lemma components_root [simp]: "components ''/'' = [RootDir]"
  by code_simp

lemma root_of_cwd: "normalized_absolute cwd \<Longrightarrow> absolute_root_path_for_cwd cwd = ''/''"
proof -
  assume "normalized_absolute cwd"
  then obtain ns where "components cwd = RootDir # map Normal ns" by (rule normalized_components)
  then have "last (path_ancestors cwd) = render [RootDir]"
    by (cases ns) (simp_all add: path_ancestors_def last_map last_rev)
  then show ?thesis by (simp add: absolute_root_path_for_cwd_def render_def) code_simp
qed

lemma root_matches: "normalized_absolute q \<Longrightarrow> path_starts_with q ''/''"
  by (erule normalized_components) (simp add: path_starts_with_def)


section \<open>Full access\<close>

lemma resolved_entry:
  assumes "entry \<in> set (fs_entries p)" "to_absolute pr cwd = Some c"
    and "resolve_entry_path pr (entry_path entry) (Some c) = Some path"
  shows "\<lparr>resolved_path = path, resolved_access = entry_access entry\<rparr> \<in> set (resolved_entries_with_cwd pr p cwd)"
  using assms by (force simp: resolved_entries_with_cwd_def List.map_filter_def)

lemma resolved_entry_source:
  assumes "e \<in> set (resolved_entries_with_cwd pr p cwd)" "to_absolute pr cwd = Some c"
  obtains entry where "entry \<in> set (fs_entries p)" "resolve_entry_path pr (entry_path entry) (Some c) = Some (resolved_path e)"
    "entry_access entry = resolved_access e"
  using assms by (force simp: resolved_entries_with_cwd_def List.map_filter_def)

lemma root_entry_resolves:
  "normalized_absolute c \<Longrightarrow> resolve_entry_path pr (Special Root) (Some c) = Some ''/''"
  by (simp add: resolve_entry_path_def root_of_cwd)

lemma normalized_tmp: "normalized_absolute ''/tmp''"
  unfolding normalized_absolute_def by (rule exI [of _ "[''tmp'']"]) (simp add: wf_name_def)

lemma no_parent_root:
  assumes "normalized_absolute path" "path_parent path = None"
  shows "path = ''/''"
proof -
  obtain ns where ns: "components path = RootDir # map Normal ns" "path = slash # join [slash] ns"
    using assms(1) by (rule normalized_components)
  with assms(2) have "ns = []" by (cases ns rule: rev_cases) (auto simp: path_parent_def Let_def)
  with ns show ?thesis by simp
qed

text \<open>Entries with the same target resolve to the same path.\<close>

lemma same_target_resolves:
  assumes "file_system_paths_share_target a b" "resolve_entry_path pr b (Some c) = Some path"
    and "normalized_absolute c" "is_dir pr ''/tmp''"
    and "\<And>x. a = ExactPath x \<Longrightarrow> normalized_absolute x" "\<And>x. b = ExactPath x \<Longrightarrow> normalized_absolute x"
  shows "resolve_entry_path pr a (Some c) = Some path"
proof (cases "(a, b)" rule: file_system_paths_share_target.cases)
  case (2 left right)
  with assms(1,2) show ?thesis
    by (cases "(left, right)" rule: special_paths_share_target.cases)
      (auto simp: resolve_entry_path_def resolve_file_system_path_def resolve_file_system_special_path_def)
next
  case (3 x v)
  then show ?thesis
    using assms normalized_tmp components_inject [of x "''/tmp''"] no_parent_root [of x]
    by (cases v) (auto simp: special_path_matches_absolute_path_def resolve_entry_path_def resolve_file_system_path_def
        resolve_file_system_special_path_def root_of_cwd)
next
  case (4 v x)
  then show ?thesis
    using assms normalized_tmp components_inject [of x "''/tmp''"] no_parent_root [of x]
    by (cases v) (auto simp: special_path_matches_absolute_path_def resolve_entry_path_def resolve_file_system_path_def
        resolve_file_system_special_path_def root_of_cwd)
qed (use assms in \<open>auto simp: resolve_entry_path_def resolve_file_system_path_def\<close>)

text \<open>An entry that neither writes nor narrows is overridden by a write entry for the same path.\<close>

lemma not_narrowing_overridden:
  assumes "wf_fs_policy p" "normalized_absolute c" "is_dir pr ''/tmp''"
    and "has_root_access can_write p" "\<not> narrows_write p entry" "entry \<in> set (fs_entries p)"
    and "\<not> can_write (entry_access entry)" "resolve_entry_path pr (entry_path entry) (Some c) = Some path"
  shows "entry_access entry = Read \<and>
    (\<exists>o' \<in> set (fs_entries p). entry_access o' = Write \<and> resolve_entry_path pr (entry_path o') (Some c) = Some path)"
proof (cases "entry_path entry = Special Root")
  case True
  then have "entry_access entry = Read" using assms(5,7) by (cases "entry_access entry") (auto simp: narrows_write_def can_write_def)
  moreover obtain o' where "o' \<in> set (fs_entries p)" "entry_path o' = Special Root" "entry_access o' = Write"
    using assms(4) by (auto simp: has_root_access_def can_write_def list_ex_iff)
  ultimately show ?thesis using assms(8) True by metis
next
  case False
  have "has_same_target_write_override p entry"
  proof (cases "entry_path entry")
    case (Special v)
    with False assms(5,7,8) show ?thesis
      by (cases v) (auto simp: narrows_write_def resolve_entry_path_def resolve_file_system_path_def resolve_file_system_special_path_def)
  qed (use assms(5,7) in \<open>auto simp: narrows_write_def\<close>)
  then obtain o' where o': "o' \<in> set (fs_entries p)" "entry_access o' = Write" "access_rank (entry_access entry) < 1"
    "file_system_paths_share_target (entry_path o') (entry_path entry)"
    by (auto simp: has_same_target_write_override_def can_write_def list_ex_iff)
  then have "resolve_entry_path pr (entry_path o') (Some c) = Some path"
    using assms(1,6) unfolding wf_fs_policy_def by (intro same_target_resolves [OF o'(4) assms(8,2,3)]) blast+
  moreover have "entry_access entry = Read" using o'(3) by (cases "entry_access entry") simp_all
  ultimately show ?thesis using o' by blast
qed

lemma full_write_allows:
  assumes "wf_fs_policy p" "is_absolute cwd" "is_dir pr ''/tmp''" "fs_has_full_disk_write_access p"
  shows "can_write_path_with_cwd pr p path cwd"
proof (cases "is_restricted p")
  case True
  define c where "c = normalize_path cwd"
  have c: "to_absolute pr cwd = Some c" "normalized_absolute c"
    using assms(2) by (simp_all add: c_def to_absolute_absolute normalize_path_absolute)
  from True assms(4) have root: "has_root_access can_write p" and none: "\<not> has_write_narrowing_entries p"
    by (simp_all add: fs_has_full_disk_write_access_def is_restricted_def)
  obtain q where q: "resolve_candidate_path pr path cwd = Some q" "normalized_absolute q"
    using candidate_normalized [OF assms(2)] .
  obtain r where "r \<in> set (fs_entries p)" "entry_path r = Special Root" "entry_access r = Write"
    using root by (auto simp: has_root_access_def can_write_def list_ex_iff)
  then have "\<lparr>resolved_path = ''/'', resolved_access = Write\<rparr> \<in> matching pr p cwd q"
    using resolved_entry [OF _ c(1), of r p "''/''"] root_entry_resolves [OF c(2)] root_matches [OF q(2)] by (simp add: matching_def)
  then obtain e where e: "deciding pr p cwd q e" "resolve_access_with_cwd pr p path cwd = resolved_access e"
    using resolve_access_cases [OF True q(1)] by (metis empty_iff)
  have "e \<in> set (resolved_entries_with_cwd pr p cwd)" "path_starts_with q (resolved_path e)"
    using e(1) by (auto simp: deciding_def matching_def)
  then obtain entry where entry: "entry \<in> set (fs_entries p)"
    "resolve_entry_path pr (entry_path entry) (Some c) = Some (resolved_path e)" "entry_access entry = resolved_access e"
    using resolved_entry_source c(1) by metis
  have "can_write (resolved_access e)"
  proof (rule ccontr)
    assume "\<not> can_write (resolved_access e)"
    moreover have "\<not> narrows_write p entry" using none True entry(1) by (auto simp: has_write_narrowing_entries_def list_ex_iff)
    ultimately obtain o' where o': "resolved_access e = Read" "o' \<in> set (fs_entries p)" "entry_access o' = Write"
      "resolve_entry_path pr (entry_path o') (Some c) = Some (resolved_path e)"
      using not_narrowing_overridden [OF assms(1) c(2) assms(3) root _ entry(1) _ entry(2)] entry(3) by auto
    then have "\<lparr>resolved_path = resolved_path e, resolved_access = Write\<rparr> \<in> matching pr p cwd q"
      using resolved_entry [OF o'(2) c(1) o'(4)] \<open>path_starts_with q (resolved_path e)\<close> by (simp add: matching_def)
    then have "resolved_entry_precedence \<lparr>resolved_path = resolved_path e, resolved_access = Write\<rparr> \<le> resolved_entry_precedence e"
      using e(1) unfolding deciding_def by blast
    with o'(1) show False by (simp add: precedence_le)
  qed
  with e(2) show ?thesis by (simp add: can_write_path_with_cwd_def)
qed (simp add: can_write_path_with_cwd_def resolve_access_with_cwd_def can_write_def)

lemma full_read_allows:
  assumes "is_absolute cwd" "fs_has_full_disk_read_access p"
  shows "can_read_path_with_cwd pr p path cwd"
proof (cases "is_restricted p")
  case True
  define c where "c = normalize_path cwd"
  have c: "to_absolute pr cwd = Some c" "normalized_absolute c"
    using assms(1) by (simp_all add: c_def to_absolute_absolute normalize_path_absolute)
  from True assms(2) have root: "has_root_access can_read p" and none: "\<not> has_denied_read_restrictions p"
    by (simp_all add: fs_has_full_disk_read_access_def is_restricted_def)
  obtain q where q: "resolve_candidate_path pr path cwd = Some q" "normalized_absolute q"
    using candidate_normalized [OF assms(1)] .
  obtain r where "r \<in> set (fs_entries p)" "entry_path r = Special Root"
    using root by (auto simp: has_root_access_def list_ex_iff)
  then have "\<lparr>resolved_path = ''/'', resolved_access = entry_access r\<rparr> \<in> matching pr p cwd q"
    using resolved_entry [OF _ c(1), of r p "''/''"] root_entry_resolves [OF c(2)] root_matches [OF q(2)] by (simp add: matching_def)
  then obtain e where e: "deciding pr p cwd q e" "resolve_access_with_cwd pr p path cwd = resolved_access e"
    using resolve_access_cases [OF True q(1)] by (metis empty_iff)
  then have "e \<in> set (resolved_entries_with_cwd pr p cwd)" by (simp add: deciding_def matching_def)
  then obtain entry where "entry \<in> set (fs_entries p)" "entry_access entry = resolved_access e"
    using resolved_entry_source c(1) by metis
  with none True have "resolved_access e \<noteq> Deny" by (auto simp: has_denied_read_restrictions_def list_ex_iff)
  with e(2) show ?thesis by (simp add: can_read_path_with_cwd_def can_read_def)
qed (simp add: can_read_path_with_cwd_def resolve_access_with_cwd_def can_read_def)


text \<open>
  A policy that reports full access to the disk gives it: if it says that reads, or writes,
  are unrestricted, then every path, absolute or relative to the working directory, may be read,
  or written.
\<close>

lemma full_access_honest:
  assumes "wf_fs_policy p" "is_absolute cwd" "is_dir pr ''/tmp''"
  shows "(fs_has_full_disk_read_access p \<longrightarrow> can_read_path_with_cwd pr p path cwd) \<and>
    (fs_has_full_disk_write_access p \<longrightarrow> can_write_path_with_cwd pr p path cwd)"
  using full_read_allows [OF assms(2)] full_write_allows [OF assms] by blast

text \<open>A disk without links on which nothing but the temporary directory is known.\<close>

definition plain_probe :: "bool \<Rightarrow> fs_probe" where
  "plain_probe tmp = \<lparr>probe_env = sample_env, tmpdir_var = None, is_dir = (\<lambda>d. tmp \<and> d = ''/tmp''), is_file = (\<lambda>_. False),
     path_exists = (\<lambda>_. False), link_metadata = (\<lambda>_. None), real_path = (\<lambda>_. None), read_text = (\<lambda>_. None)\<rparr>"

lemma full_access_honest_witness:
  "can_write_path_with_cwd (plain_probe True)
     (restricted [entry_of (Special Root) Write, entry_of (ExactPath ''/tmp'') Read, entry_of (Special SlashTmp) Write]) ''/tmp/x'' ''/work''"
proof -
  let ?p = "restricted [entry_of (Special Root) Write, entry_of (ExactPath ''/tmp'') Read, entry_of (Special SlashTmp) Write]"
  have "wf_fs_policy ?p" using normalized_tmp by (auto simp: wf_fs_policy_def restricted_def)
  moreover have "is_absolute ''/work''" "is_dir (plain_probe True) ''/tmp''" "fs_has_full_disk_write_access ?p" by code_simp+
  ultimately show ?thesis using full_access_honest [of ?p "''/work''" "plain_probe True" "''/tmp/x''"] by blast
qed

text \<open>
  Without a directory \<open>/tmp\<close> the report is wrong: the entry that should override a read-only \<open>/tmp\<close> does not resolve.
\<close>

lemma full_access_without_tmp:
  "let p = restricted [entry_of (Special Root) Write, entry_of (ExactPath ''/tmp'') Read, entry_of (Special SlashTmp) Write] in
   fs_has_full_disk_write_access p \<and> \<not> can_write_path_with_cwd (plain_probe False) p ''/tmp/x'' ''/work''"
  by code_simp

section \<open>The roots of the sandbox\<close>

definition no_links :: "fs_probe \<Rightarrow> bool" where
  "no_links pr \<longleftrightarrow> (\<forall>q. normalized_absolute q \<longrightarrow> normalize_effective_absolute_path pr q = q)"

lemma set_dedup_loop: "set (dedup_loop xs seen) = set xs - seen"
  by (induction xs seen rule: dedup_loop.induct) auto

lemma set_dedup [simp]: "set (dedup_absolute_paths pr xs False) = set xs"
  by (simp add: dedup_absolute_paths_def set_dedup_loop)

lemma set_dedup_effective:
  assumes "no_links pr" "\<And>x. x \<in> set xs \<Longrightarrow> normalized_absolute x"
  shows "set (dedup_absolute_paths pr xs True) = set xs"
  using assms by (force simp: dedup_absolute_paths_def set_dedup_loop no_links_def)

lemma to_absolute_result: "absolute_cwd (probe_env pr) \<Longrightarrow> to_absolute pr x = Some y \<Longrightarrow> normalized_absolute y"
  by (auto simp: to_absolute_def from_absolute_path_def absolutize_def absolutize_from_def absolute_cwd_def
      intro: normalize_path_absolute is_absolute_join split: sum.splits if_splits)

lemma resolved_normalized:
  assumes "wf_fs_policy p" "is_absolute cwd" "absolute_cwd (probe_env pr)" "e \<in> set (resolved_entries_with_cwd pr p cwd)"
  shows "normalized_absolute (resolved_path e)"
proof -
  define c where "c = normalize_path cwd"
  have c: "to_absolute pr cwd = Some c" "normalized_absolute c"
    using assms(2) by (simp_all add: c_def to_absolute_absolute normalize_path_absolute)
  obtain entry where entry: "entry \<in> set (fs_entries p)"
    "resolve_entry_path pr (entry_path entry) (Some c) = Some (resolved_path e)"
    using resolved_entry_source [OF assms(4) c(1)] .
  have sub: "normalized_absolute (resolve_against pr x c)" for x
    using normalized_absolute_is_absolute [OF c(2)] unfolding resolve_against_def resolve_path_against_base_def absolutize_from_def
    by (intro normalize_path_absolute is_absolute_join)
  show ?thesis
  proof (cases "entry_path entry")
    case (ExactPath x)
    with entry assms(1) show ?thesis by (auto simp: wf_fs_policy_def resolve_entry_path_def resolve_file_system_path_def)
  next
    case (Special v)
    with entry(2) c(2) sub normalized_tmp normalized_root to_absolute_result [OF assms(3)] show ?thesis
      by (auto simp: resolve_entry_path_def resolve_file_system_path_def resolve_file_system_special_path_def root_of_cwd
          split: file_system_special_path.splits option.splits if_splits) (metis sub)
  qed (use entry in \<open>simp add: resolve_entry_path_def resolve_file_system_path_def\<close>)
qed

lemma can_write_deciding:
  assumes "is_restricted p" "normalized_absolute q"
  shows "can_write_path_with_cwd pr p q cwd \<longleftrightarrow> (\<exists>e. deciding pr p cwd q e \<and> resolved_access e = Write)"
  using resolve_access_cases [OF assms(1) candidate_self [OF assms(2)], of pr cwd]
proof cases
  case 1
  then show ?thesis by (auto simp: can_write_path_with_cwd_def can_write_def deciding_def)
next
  case (2 e)
  have "can_write_path_with_cwd pr p q cwd \<longleftrightarrow> resolved_access e = Write"
    by (simp add: can_write_path_with_cwd_def can_write_def 2(2))
  with deciding_access [OF 2(1)] 2(1) show ?thesis by metis
qed

lemma default_subpaths_mono:
  "set (default_read_only_subpaths_for_writable_root pr root b) \<subseteq> set (default_read_only_subpaths_for_writable_root pr root True)"
  unfolding default_read_only_subpaths_for_writable_root_def Let_def set_dedup set_append
  by (intro Un_mono subset_refl) auto

definition carved :: "fs_probe \<Rightarrow> file_system_sandbox_policy \<Rightarrow> string \<Rightarrow> resolved_file_system_entry \<Rightarrow> bool" where
  "carved pr p cwd e \<longleftrightarrow> e \<in> set (resolved_entries_with_cwd pr p cwd) \<and> \<not> can_write (resolved_access e) \<and>
     \<not> can_write_path_with_cwd pr p (resolved_path e) cwd"

lemma writable_root_for_root [simp]: "wr_root (writable_root_for pr p cwd ws root) = root"
  by (simp add: writable_root_for_def Let_def)

lemma carveout_member:
  assumes "carved pr p cwd e" "no_links pr" "normalized_absolute (resolved_path e)"
    and "path_starts_with (resolved_path e) root" "resolved_path e \<noteq> root"
  shows "resolved_path e \<in> set (wr_read_only_subpaths (writable_root_for pr p cwd ws root))"
proof -
  have "carveout_path pr root raws (resolved_path e) = Some (resolved_path e)" for raws
    using assms(2-5) by (auto simp: carveout_path_def raw_carveout_path_def no_links_def Let_def)
  with assms(1) show ?thesis by (force simp: writable_root_for_def Let_def carved_def List.map_filter_def)
qed

lemma subpath_cases:
  assumes "s \<in> set (wr_read_only_subpaths (writable_root_for pr p cwd ws root))" "no_links pr"
    and "\<And>x. x \<in> set ws \<Longrightarrow> normalized_absolute x"
    and "\<And>e. e \<in> set (resolved_entries_with_cwd pr p cwd) \<Longrightarrow> normalized_absolute (resolved_path e)"
  obtains "s \<in> set (default_read_only_subpaths_for_writable_root pr root True)"
    | e where "carved pr p cwd e" "s = resolved_path e" "path_starts_with s root" "s \<noteq> root"
proof -
  let ?raws = "filter (\<lambda>path. normalize_effective_absolute_path pr path = root) ws"
  have raws: "set ?raws \<subseteq> {root}" using assms(2,3) by (auto simp: no_links_def)
  have strip: "path_strip_prefix x root = None" if "\<not> path_starts_with x root" for x
    using that by (simp add: path_strip_prefix_def)
  have none: "find_map f rs = None" if "set rs \<subseteq> {root}" "f root = None" for f :: "string \<Rightarrow> string option" and rs
    using that by (induction rs) auto
  from assms(1) consider "\<exists>b. s \<in> set (default_read_only_subpaths_for_writable_root pr root b)"
    | e where "carved pr p cwd e" "carveout_path pr root ?raws (resolved_path e) = Some s"
    by (force simp: writable_root_for_def Let_def carved_def List.map_filter_def)
  then show ?thesis
  proof cases
    case 1
    then show ?thesis using that(1) default_subpaths_mono by blast
  next
    case (2 e)
    have norm: "normalized_absolute (resolved_path e)" using 2(1) assms(4) by (simp add: carved_def)
    have "s = resolved_path e \<and> path_starts_with s root \<and> s \<noteq> root"
      using 2(2) norm assms(2) strip none [OF raws]
      by (auto simp: carveout_path_def raw_carveout_path_def no_links_def Let_def split: if_splits option.splits)
    with 2(1) that(2) show ?thesis by blast
  qed
qed

lemma writable_entry_root:
  assumes "wf_fs_policy p" "is_absolute cwd" "absolute_cwd (probe_env pr)" "no_links pr" "\<not> fs_has_full_disk_write_access p"
  defines "ws \<equiv> map resolved_path (filter (\<lambda>entry. can_write_path_with_cwd pr p (resolved_path entry) cwd)
      (filter (\<lambda>entry. can_write (resolved_access entry)) (resolved_entries_with_cwd pr p cwd)))"
  shows "set (get_writable_roots_with_cwd pr p cwd) = writable_root_for pr p cwd ws ` set ws"
    and "x \<in> set ws \<Longrightarrow> normalized_absolute x"
proof -
  show norm: "normalized_absolute x" if "x \<in> set ws" for x
    using that resolved_normalized [OF assms(1-3)] by (auto simp: ws_def)
  show "set (get_writable_roots_with_cwd pr p cwd) = writable_root_for pr p cwd ws ` set ws"
    unfolding get_writable_roots_with_cwd_def Let_def
    using set_dedup_effective [OF assms(4) norm] assms(5) by (simp only: if_False set_map flip: ws_def)
qed

lemma roots_sound:
  assumes "wf_fs_policy p" "is_absolute cwd" "absolute_cwd (probe_env pr)" "no_links pr" "\<not> fs_has_full_disk_write_access p"
    and "normalized_absolute q" "r \<in> set (get_writable_roots_with_cwd pr p cwd)" "is_path_writable r q"
  shows "can_write_path_with_cwd pr p q cwd"
proof -
  have restricted: "is_restricted p"
    using assms(5) by (auto simp: fs_has_full_disk_write_access_def is_restricted_def split: file_system_sandbox_kind.splits)
  note roots = writable_entry_root [OF assms(1-5)]
  obtain e0 ws where e0: "e0 \<in> set (resolved_entries_with_cwd pr p cwd)" "can_write_path_with_cwd pr p (resolved_path e0) cwd"
    and r: "r = writable_root_for pr p cwd ws (resolved_path e0)"
    using assms(7) unfolding roots(1) by auto
  have q: "path_starts_with q (resolved_path e0)" using assms(8) r by (simp add: is_path_writable_def)
  then have "e0 \<in> matching pr p cwd q" using e0(1) by (simp add: matching_def)
  then obtain e where e: "deciding pr p cwd q e" "resolve_access_with_cwd pr p q cwd = resolved_access e"
    using resolve_access_cases [OF restricted candidate_self [OF assms(6)]] by (metis empty_iff)
  have member: "e \<in> set (resolved_entries_with_cwd pr p cwd)" "path_starts_with q (resolved_path e)"
    using e(1) by (auto simp: deciding_def matching_def)
  note norm = resolved_normalized [OF assms(1-3)]
  have "length (components (resolved_path e0)) \<le> length (components (resolved_path e))"
    using e(1) \<open>e0 \<in> matching pr p cwd q\<close> unfolding deciding_def precedence_le by fastforce
  then have below: "path_starts_with (resolved_path e) (resolved_path e0)" using matching_comparable [OF q member(2)] by blast
  have "resolved_access e = Write"
  proof (rule ccontr)
    assume no: "resolved_access e \<noteq> Write"
    have own: "\<not> can_write_path_with_cwd pr p (resolved_path e) cwd"
      using can_write_deciding [OF restricted norm [OF member(1)]] deciding_access [OF deciding_own_path [OF e(1)]] no by metis
    with e0(2) have "resolved_path e \<noteq> resolved_path e0" by auto
    moreover have "carved pr p cwd e" using member(1) no own by (simp add: carved_def can_write_def)
    ultimately have "resolved_path e \<in> set (wr_read_only_subpaths r)"
      unfolding r using carveout_member [OF _ assms(4) norm [OF member(1)] below] by blast
    with assms(8) member(2) show False by (auto simp: is_path_writable_def list_ex_iff)
  qed
  with e(2) show ?thesis by (simp add: can_write_path_with_cwd_def can_write_def)
qed

lemma roots_complete:
  assumes "wf_fs_policy p" "is_absolute cwd" "absolute_cwd (probe_env pr)" "no_links pr" "\<not> fs_has_full_disk_write_access p"
    and "normalized_absolute q" "can_write_path_with_cwd pr p q cwd"
  shows "\<exists>r \<in> set (get_writable_roots_with_cwd pr p cwd). is_path_writable r q \<or>
    path_starts_with q (wr_root r) \<and> (\<exists>d \<in> set (default_read_only_subpaths_for_writable_root pr (wr_root r) True). path_starts_with q d)"
proof -
  have restricted: "is_restricted p"
    using assms(5) by (auto simp: fs_has_full_disk_write_access_def is_restricted_def split: file_system_sandbox_kind.splits)
  note norm = resolved_normalized [OF assms(1-3)]
  define ws where "ws = map resolved_path (filter (\<lambda>entry. can_write_path_with_cwd pr p (resolved_path entry) cwd)
      (filter (\<lambda>entry. can_write (resolved_access entry)) (resolved_entries_with_cwd pr p cwd)))"
  obtain e where e: "deciding pr p cwd q e" "resolved_access e = Write"
    using assms(7) can_write_deciding [OF restricted assms(6)] by blast
  have member: "e \<in> set (resolved_entries_with_cwd pr p cwd)" "path_starts_with q (resolved_path e)"
    using e(1) by (auto simp: deciding_def matching_def)
  have "can_write_path_with_cwd pr p (resolved_path e) cwd"
    using can_write_deciding [OF restricted norm [OF member(1)]] deciding_own_path [OF e(1)] e(2) by blast
  then have "resolved_path e \<in> set ws" using member(1) e(2) by (auto simp: ws_def can_write_def)
  let ?r = "writable_root_for pr p cwd ws (resolved_path e)"
  have "?r \<in> set (get_writable_roots_with_cwd pr p cwd)"
    using writable_entry_root(1) [OF assms(1-5)] \<open>resolved_path e \<in> set ws\<close> by (simp add: ws_def)
  moreover have "\<exists>d \<in> set (default_read_only_subpaths_for_writable_root pr (resolved_path e) True). path_starts_with q d"
    if no: "\<not> is_path_writable ?r q"
  proof -
    obtain s where s: "s \<in> set (wr_read_only_subpaths ?r)" "path_starts_with q s"
      using no member(2) by (auto simp: is_path_writable_def list_ex_iff)
    have ws_norm: "normalized_absolute x" if "x \<in> set ws" for x
      using writable_entry_root(2) [OF assms(1-5)] that by (simp add: ws_def)
    from s(1) assms(4) ws_norm norm show ?thesis
    proof (rule subpath_cases)
      fix e2
      assume e2: "carved pr p cwd e2" "s = resolved_path e2" "path_starts_with s (resolved_path e)" "s \<noteq> resolved_path e"
      then have "e2 \<in> matching pr p cwd q" using s(2) by (simp add: carved_def matching_def)
      then have "length (components s) \<le> length (components (resolved_path e))"
        using e(1) e2(2) unfolding deciding_def precedence_le by fastforce
      then have "components s = components (resolved_path e)"
        using e2(3) unfolding path_starts_with_def by (metis Sublist.prefix_def append_eq_append_conv append_Nil2 prefix_length_le le_antisym)
      then have "s = resolved_path e"
        using components_inject norm member(1) e2(1,2) by (auto simp: carved_def)
      with e2(4) show ?thesis by blast
    qed (use s(2) in blast)+
  qed
  ultimately show ?thesis using member(2) by (intro bexI [of _ ?r]) auto
qed

text \<open>
  C9 (writable_roots_refine). The writable roots that are handed to the operating system's sandbox implement the
  policy: on a disk without symbolic links, a path that some root allows is one that the policy allows to
  write, and every path that the policy allows to write is allowed by a root, unless it lies in a protected
  subpath of the root such as \<open>.git\<close> or \<open>.codex\<close>.
\<close>

theorem writable_roots_refine:
  assumes "wf_fs_policy p" "is_absolute cwd" "absolute_cwd (probe_env pr)" "no_links pr" "\<not> fs_has_full_disk_write_access p"
    and "normalized_absolute q"
  shows "((\<exists>r \<in> set (get_writable_roots_with_cwd pr p cwd). is_path_writable r q) \<longrightarrow> can_write_path_with_cwd pr p q cwd) \<and>
    (can_write_path_with_cwd pr p q cwd \<longrightarrow>
      (\<exists>r \<in> set (get_writable_roots_with_cwd pr p cwd). is_path_writable r q \<or>
        path_starts_with q (wr_root r) \<and> (\<exists>d \<in> set (default_read_only_subpaths_for_writable_root pr (wr_root r) True). path_starts_with q d)))"
  using roots_sound [OF assms] roots_complete [OF assms] by blast

lemma plain_probe_no_links: "no_links (plain_probe tmp)"
proof -
  have "effective_loop (plain_probe tmp) q as = q" for q as by (induction as) (simp_all add: plain_probe_def)
  then show ?thesis by (simp add: no_links_def normalize_effective_absolute_path_def)
qed

theorem writable_roots_refine_witness:
  "can_write_path_with_cwd (plain_probe True) (restricted [entry_of (Special CurrentWorkingDirectory) Write]) ''/work/a'' ''/work''"
proof -
  let ?p = "restricted [entry_of (Special CurrentWorkingDirectory) Write]"
  have "wf_fs_policy ?p" by (simp add: wf_fs_policy_def restricted_def)
  moreover have "is_absolute ''/work''" "absolute_cwd (probe_env (plain_probe True))" "\<not> fs_has_full_disk_write_access ?p"
    and "list_ex (\<lambda>r. is_path_writable r ''/work/a'') (get_writable_roots_with_cwd (plain_probe True) ?p ''/work'')"
    by code_simp+
  moreover have "normalized_absolute ''/work/a''"
    unfolding normalized_absolute_def by (rule exI [of _ "[''work'', ''a'']"]) (simp add: wf_name_def)
  ultimately show ?thesis
    using writable_roots_refine [of ?p "''/work''" "plain_probe True" "''/work/a''"] plain_probe_no_links by (auto simp: list_ex_iff)
qed


section \<open>Workspace policies\<close>

text \<open>Appending default rules only adds read-only entries, and leaves each of the paths with an entry of its own.\<close>

lemma append_default_set:
  "set (append_default_read_only_path_if_no_explicit_rule path es) =
     (if \<exists>access. entry_of (ExactPath path) access \<in> set es then set es else insert (entry_of (ExactPath path) Read) (set es))"
proof -
  have "list_ex (\<lambda>entry. entry_path entry = ExactPath path) es \<longleftrightarrow> (\<exists>access. entry_of (ExactPath path) access \<in> set es)"
    unfolding list_ex_iff by (metis (full_types) file_system_sandbox_entry.surjective old.unit.exhaust file_system_sandbox_entry.select_convs(1))
  then show ?thesis by (auto simp: append_default_read_only_path_if_no_explicit_rule_def append_path_entry_if_missing_def list_ex_iff)
qed

lemma append_default_bounds:
  "set es \<subseteq> set (append_default_read_only_path_if_no_explicit_rule path es)"
  "entry_access entry = Write \<Longrightarrow> entry \<in> set (append_default_read_only_path_if_no_explicit_rule path es) \<Longrightarrow> entry \<in> set es"
  "\<exists>access. entry_of (ExactPath path) access \<in> set (append_default_read_only_path_if_no_explicit_rule path es)"
  unfolding append_default_set by (auto split: if_splits)

lemma append_defaults_mono: "set es \<subseteq> set (fold append_default_read_only_path_if_no_explicit_rule paths es)"
  by (induction paths arbitrary: es) (use append_default_bounds(1) in fastforce)+

lemma append_defaults_write:
  "entry_access entry = Write \<Longrightarrow> entry \<in> set (fold append_default_read_only_path_if_no_explicit_rule paths es) \<Longrightarrow> entry \<in> set es"
  by (induction paths arbitrary: es) (auto dest: append_default_bounds(2))

lemma append_defaults_present:
  "path \<in> set paths \<Longrightarrow> \<exists>access. entry_of (ExactPath path) access \<in> set (fold append_default_read_only_path_if_no_explicit_rule paths es)"
proof (induction paths arbitrary: es)
  case (Cons x xs)
  show ?case
  proof (cases "path = x")
    case True
    then show ?thesis
      using append_default_bounds(3) append_defaults_mono by (metis fold_simps(2) subsetD)
  qed (use Cons in simp)
qed simp

lemma append_all_mono: "set es \<subseteq> set (fold (\<lambda>w. fold append_default_read_only_path_if_no_explicit_rule (f w)) ws es)"
  by (induction ws arbitrary: es) (use append_defaults_mono in fastforce)+

lemma append_all_write:
  "entry_access entry = Write \<Longrightarrow> entry \<in> set (fold (\<lambda>w. fold append_default_read_only_path_if_no_explicit_rule (f w)) ws es) \<Longrightarrow> entry \<in> set es"
  by (induction ws arbitrary: es) (auto dest: append_defaults_write)

lemma workspace_restricted: "is_restricted (from_legacy_sandbox_policy pr (WorkspaceWrite roots access net no_tmpdir no_slash_tmp) cwd)"
  by (simp add: from_legacy_sandbox_policy_def Let_def is_restricted_def restricted_def)

lemma workspace_entries:
  assumes "to_absolute pr cwd = Some c"
  obtains kept where "set kept \<subseteq> set (fs_entries (from_sandbox_policy (WorkspaceWrite roots access net no_tmpdir no_slash_tmp)))"
    "fs_entries (from_legacy_sandbox_policy pr (WorkspaceWrite roots access net no_tmpdir no_slash_tmp) cwd) =
       fold (\<lambda>root. fold append_default_read_only_path_if_no_explicit_rule (default_read_only_subpaths_for_writable_root pr root False)) roots
         (fold append_default_read_only_path_if_no_explicit_rule (default_read_only_subpaths_for_writable_root pr c True) kept)"
proof -
  have "fs_entries (p\<lparr>fs_entries := es\<rparr>) = es" for p es by simp
  then show ?thesis
    by (intro that [OF filter_is_subset])
      (simp only: from_legacy_sandbox_policy_def Let_def sandbox_policy.case assms option.case)
qed

lemma workspace_protected_entry:
  assumes "to_absolute pr cwd = Some c" "d \<in> set (default_read_only_subpaths_for_writable_root pr c True)"
  shows "\<exists>a. entry_of (ExactPath d) a \<in>
    set (fs_entries (from_legacy_sandbox_policy pr (WorkspaceWrite roots access net no_tmpdir no_slash_tmp) cwd))"
  using workspace_entries [OF assms(1)] append_defaults_present [OF assms(2)] append_all_mono by (metis subsetD)

lemma legacy_roots:
  assumes "to_absolute pr cwd = Some c"
  shows "map wr_root (legacy_writable_roots pr (WorkspaceWrite roots access net no_tmpdir no_slash_tmp) cwd) = roots @ [c] @
    (if \<not> no_slash_tmp \<and> is_dir pr ''/tmp'' then [''/tmp''] else []) @
    (if no_tmpdir then [] else case resolve_file_system_special_path pr Tmpdir (Some c) of Some t \<Rightarrow> [t] | None \<Rightarrow> [])"
  using assms by (simp add: legacy_writable_roots_def Let_def comp_def resolve_file_system_special_path_def split: option.split)

text \<open>The entries that allow writes resolve to the roots of the legacy policy.\<close>

lemma workspace_write_entry:
  assumes "to_absolute pr cwd = Some c" "entry_access entry = Write"
    and "entry \<in> set (fs_entries (from_legacy_sandbox_policy pr (WorkspaceWrite roots access net no_tmpdir no_slash_tmp) cwd))"
    and "resolve_entry_path pr (entry_path entry) (Some c) = Some path"
  shows "path \<in> wr_root ` set (legacy_writable_roots pr (WorkspaceWrite roots access net no_tmpdir no_slash_tmp) cwd)"
proof -
  let ?v = "WorkspaceWrite roots access net no_tmpdir no_slash_tmp"
  have "entry \<in> set (fs_entries (from_sandbox_policy ?v))"
    using workspace_entries [OF assms(1)] assms(3) append_all_write [OF assms(2)] append_defaults_write [OF assms(2)]
    by (metis subsetD)
  moreover have "entry_access e = Read" if "e \<in> set (read_entries b access)" for e b
    using that by (auto simp: read_entries_def split: read_only_access.splits if_splits)
  ultimately have "entry \<in> {entry_of (Special CurrentWorkingDirectory) Write} \<union>
      (if no_slash_tmp then {} else {entry_of (Special SlashTmp) Write}) \<union>
      (if no_tmpdir then {} else {entry_of (Special Tmpdir) Write}) \<union> (\<lambda>path. entry_of (ExactPath path) Write) ` set roots"
    using assms(2) by (auto simp: restricted_def)
  moreover have "resolve_file_system_special_path pr SlashTmp (Some c) = (if is_dir pr ''/tmp'' then Some ''/tmp'' else None)"
    "resolve_file_system_special_path pr CurrentWorkingDirectory (Some c) = Some c"
    by (simp_all add: resolve_file_system_special_path_def)
  ultimately show ?thesis
    using assms(4) unfolding set_map [symmetric] legacy_roots [OF assms(1)]
    by (auto simp: resolve_entry_path_def resolve_file_system_path_def split: if_splits)
qed

text \<open>
  C10 (workspace_protects). What a workspace policy allows to write lies under one of its writable roots: the listed ones,
  the working directory and the temporary directories. And inside a protected subpath of the working directory, such as its \<open>.git\<close>,
  \<open>.agents\<close> or \<open>.codex\<close> (also when that does not exist yet), nothing is writable, unless a writable root was placed there.
\<close>

theorem workspace_protects:
  fixes pr cwd roots access net no_tmpdir no_slash_tmp
  defines "v \<equiv> WorkspaceWrite roots access net no_tmpdir no_slash_tmp"
  assumes "is_absolute cwd" "normalized_absolute q"
    and "can_write_path_with_cwd pr (from_legacy_sandbox_policy pr v cwd) q cwd"
  shows "\<exists>w \<in> wr_root ` set (legacy_writable_roots pr v cwd). path_starts_with q w \<and>
    (\<forall>d \<in> set (default_read_only_subpaths_for_writable_root pr (normalize_path cwd) True).
      path_starts_with q d \<longrightarrow> path_starts_with w d)"
proof -
  let ?p = "from_legacy_sandbox_policy pr v cwd"
  have c: "to_absolute pr cwd = Some (normalize_path cwd)" by (rule to_absolute_absolute [OF assms(2)])
  obtain e where e: "deciding pr ?p cwd q e" "resolved_access e = Write"
    using assms(4) can_write_deciding [OF workspace_restricted assms(3)] unfolding v_def by blast
  have member: "e \<in> set (resolved_entries_with_cwd pr ?p cwd)" "path_starts_with q (resolved_path e)"
    using e(1) by (auto simp: deciding_def matching_def)
  obtain entry where "entry \<in> set (fs_entries ?p)" "entry_access entry = Write"
      "resolve_entry_path pr (entry_path entry) (Some (normalize_path cwd)) = Some (resolved_path e)"
    using resolved_entry_source [OF member(1) c] e(2) by metis
  then have "resolved_path e \<in> wr_root ` set (legacy_writable_roots pr v cwd)"
    using workspace_write_entry [OF c] unfolding v_def by blast
  moreover have "path_starts_with (resolved_path e) d"
    if d: "d \<in> set (default_read_only_subpaths_for_writable_root pr (normalize_path cwd) True)" "path_starts_with q d" for d
  proof -
    obtain a where "entry_of (ExactPath d) a \<in> set (fs_entries ?p)"
      using workspace_protected_entry [OF c d(1)] unfolding v_def by blast
    then have "\<lparr>resolved_path = d, resolved_access = a\<rparr> \<in> matching pr ?p cwd q"
      using resolved_entry [OF _ c, of "entry_of (ExactPath d) a" ?p d] d(2)
      by (simp add: matching_def resolve_entry_path_def resolve_file_system_path_def)
    then have "length (components d) \<le> length (components (resolved_path e))"
      using e(1) unfolding deciding_def precedence_le by fastforce
    then show ?thesis by (rule matching_comparable [OF d(2) member(2)])
  qed
  ultimately show ?thesis using member(2) by blast
qed

theorem workspace_protects_witness:
  "\<not> can_write_path_with_cwd (plain_probe True)
     (from_legacy_sandbox_policy (plain_probe True) (WorkspaceWrite [''/data''] FullAccess False True False) ''/work'') ''/work/.codex/a'' ''/work''"
proof
  let ?v = "WorkspaceWrite [''/data''] FullAccess False True False"
  assume "can_write_path_with_cwd (plain_probe True) (from_legacy_sandbox_policy (plain_probe True) ?v ''/work'') ''/work/.codex/a'' ''/work''"
  moreover have "is_absolute ''/work''" by code_simp
  moreover have "normalized_absolute ''/work/.codex/a''"
    unfolding normalized_absolute_def by (rule exI [of _ "[''work'', ''.codex'', ''a'']"]) (simp add: wf_name_def)
  ultimately have "\<exists>w \<in> wr_root ` set (legacy_writable_roots (plain_probe True) ?v ''/work''). path_starts_with ''/work/.codex/a'' w \<and>
      (\<forall>d \<in> set (default_read_only_subpaths_for_writable_root (plain_probe True) (normalize_path ''/work'') True).
        path_starts_with ''/work/.codex/a'' d \<longrightarrow> path_starts_with w d)"
    by (rule workspace_protects [rotated 2])
  moreover have "map wr_root (legacy_writable_roots (plain_probe True) ?v ''/work'') = [''/data'', ''/work'', ''/tmp'']"
    "default_read_only_subpaths_for_writable_root (plain_probe True) (normalize_path ''/work'') True = [''/work/.codex'']"
    by code_simp+
  moreover have "path_starts_with ''/work/.codex/a'' ''/work/.codex''" "\<not> path_starts_with ''/work/.codex/a'' ''/data''"
    "\<not> path_starts_with ''/work/.codex/a'' ''/tmp''" "\<not> path_starts_with ''/work'' ''/work/.codex''"
    by code_simp+
  ultimately show False unfolding set_map [symmetric] by (simp only: list.set bex_simps ball_simps simp_thms)
qed

end
