(* ===== verification/Patch_Safety.thy ===== *)
theory Patch_Safety
  imports Permission_Rules Patch_Invocation
begin

text \<open>
  \<open>codex-rs/core/src/safety.rs\<close> and \<open>core/src/apply_patch.rs\<close>: whether a verified patch may be applied without a question.
  The paths of the previewed changes are looked up in the file system permissions; this is where the patch theories and the
  permissions meet.

  A hash map is iterated in an order of its own: \<open>keys\<close> lists the keys of the changes in that order.
  The operating system the program was compiled for (\<open>cfg!(target_os)\<close>) is an argument.
\<close>

section \<open>Sandboxes of the platforms\<close>

datatype target_os = MacOS | Linux | Windows | OtherOs

datatype windows_sandbox_level = DisabledLevel | RestrictedToken | Elevated

datatype sandbox_type = NoSandbox | MacosSeatbelt | LinuxSeccomp | WindowsRestrictedToken

definition get_platform_sandbox :: "target_os \<Rightarrow> bool \<Rightarrow> sandbox_type option" where
  "get_platform_sandbox os windows_sandbox_enabled =
     (if os = MacOS then Some MacosSeatbelt
      else if os = Linux then Some LinuxSeccomp
      else if os = Windows then (if windows_sandbox_enabled then Some WindowsRestrictedToken else None)
      else None)"

section \<open>The assessment\<close>

datatype safety_check = AutoApprove sandbox_type bool | AskUser | Reject string

definition PATCH_REJECTED_OUTSIDE_PROJECT_REASON :: string where
  "PATCH_REJECTED_OUTSIDE_PROJECT_REASON = ''writing outside of the project; rejected by user approval settings''"

definition PATCH_REJECTED_READ_ONLY_REASON :: string where
  "PATCH_REJECTED_READ_ONLY_REASON = ''writing is blocked by read-only sandbox; rejected by user approval settings''"

fun patch_rejection_reason :: "sandbox_policy \<Rightarrow> string" where
  "patch_rejection_reason (ReadOnly _ _) = PATCH_REJECTED_READ_ONLY_REASON"
| "patch_rejection_reason _ = PATCH_REJECTED_OUTSIDE_PROJECT_REASON"

text \<open>\<open>util::resolve_path\<close>, and the lexical normalisation of \<open>is_write_patch_constrained_to_writable_paths\<close>.\<close>

definition resolve_path_at :: "string \<Rightarrow> string \<Rightarrow> string" where
  "resolve_path_at base path = (if is_absolute path then path else path_join base path)"

definition normalize_lexically :: "string \<Rightarrow> string" where
  "normalize_lexically path = render (foldl normalize_step [] (components path))"

definition patch_path_writable :: "fs_probe \<Rightarrow> file_system_sandbox_policy \<Rightarrow> string \<Rightarrow> string \<Rightarrow> bool" where
  "patch_path_writable pr p cwd path = can_write_path_with_cwd pr p (normalize_lexically (resolve_path_at cwd path)) cwd"

fun change_writable :: "fs_probe \<Rightarrow> file_system_sandbox_policy \<Rightarrow> string \<Rightarrow> string \<Rightarrow> apply_patch_file_change \<Rightarrow> bool" where
  "change_writable pr p cwd path (Add _) = patch_path_writable pr p cwd path"
| "change_writable pr p cwd path (Delete _) = patch_path_writable pr p cwd path"
| "change_writable pr p cwd path (Update _ move_path _) =
     (patch_path_writable pr p cwd path \<and> (case move_path of None \<Rightarrow> True | Some dest \<Rightarrow> patch_path_writable pr p cwd dest))"

definition is_write_patch_constrained_to_writable_paths ::
    "fs_probe \<Rightarrow> string list \<Rightarrow> apply_patch_action \<Rightarrow> file_system_sandbox_policy \<Rightarrow> string \<Rightarrow> bool" where
  "is_write_patch_constrained_to_writable_paths pr keys action p cwd =
     list_all (\<lambda>path. case changes action path of None \<Rightarrow> True | Some change \<Rightarrow> change_writable pr p cwd path change) keys"

fun rejects_sandbox_approval :: "ask_for_approval \<Rightarrow> bool" where
  "rejects_sandbox_approval Never = True"
| "rejects_sandbox_approval (Granular granular_config) = (\<not> sandbox_approval granular_config)"
| "rejects_sandbox_approval _ = False"

definition assess_patch_safety :: "fs_probe \<Rightarrow> target_os \<Rightarrow> string list \<Rightarrow> apply_patch_action \<Rightarrow> ask_for_approval \<Rightarrow>
    sandbox_policy \<Rightarrow> file_system_sandbox_policy \<Rightarrow> string \<Rightarrow> windows_sandbox_level \<Rightarrow> safety_check" where
  "assess_patch_safety pr os keys action policy sandbox_policy p cwd windows_sandbox_level =
     (if keys = [] then Reject ''empty patch''
      else if policy = UnlessTrusted then AskUser
      else if is_write_patch_constrained_to_writable_paths pr keys action p cwd \<or> policy = OnFailure then
        (case sandbox_policy of
           DangerFullAccess \<Rightarrow> AutoApprove NoSandbox False
         | ExternalSandbox _ \<Rightarrow> AutoApprove NoSandbox False
         | _ \<Rightarrow>
             (case get_platform_sandbox os (windows_sandbox_level \<noteq> DisabledLevel) of
                Some sandbox_type \<Rightarrow> AutoApprove sandbox_type False
              | None \<Rightarrow>
                  if rejects_sandbox_approval policy then Reject (patch_rejection_reason sandbox_policy) else AskUser))
      else if rejects_sandbox_approval policy then Reject (patch_rejection_reason sandbox_policy)
      else AskUser)"

section \<open>The call of the tool\<close>

record apply_patch_runtime_invocation =
  inv_action :: apply_patch_action
  auto_approved :: bool
  inv_exec_approval_requirement :: exec_approval_requirement

datatype internal_apply_patch_invocation =
    OutputError string
  | DelegateToRuntime apply_patch_runtime_invocation

definition apply_patch_call :: "fs_probe \<Rightarrow> target_os \<Rightarrow> string list \<Rightarrow> ask_for_approval \<Rightarrow> sandbox_policy \<Rightarrow> string \<Rightarrow>
    windows_sandbox_level \<Rightarrow> file_system_sandbox_policy \<Rightarrow> apply_patch_action \<Rightarrow> internal_apply_patch_invocation" where
  "apply_patch_call pr os keys approval_policy sandbox_policy cwd windows_sandbox_level p action =
     (case assess_patch_safety pr os keys action approval_policy sandbox_policy p cwd windows_sandbox_level of
        AutoApprove _ user_explicitly_approved \<Rightarrow>
          DelegateToRuntime \<lparr>inv_action = action, auto_approved = \<not> user_explicitly_approved,
            inv_exec_approval_requirement = Skip False None\<rparr>
      | AskUser \<Rightarrow>
          DelegateToRuntime \<lparr>inv_action = action, auto_approved = False, inv_exec_approval_requirement = NeedsApproval None None\<rparr>
      | Reject reason \<Rightarrow> OutputError (''patch rejected: '' @ reason))"

datatype file_change = FileAdd string | FileDelete string | FileUpdate string "string option"

fun convert_change :: "apply_patch_file_change \<Rightarrow> file_change" where
  "convert_change (Add text) = FileAdd text"
| "convert_change (Delete text) = FileDelete text"
| "convert_change (Update diff move_path _) = FileUpdate diff move_path"

definition convert_apply_patch_to_protocol :: "string list \<Rightarrow> apply_patch_action \<Rightarrow> string \<Rightarrow> file_change option" where
  "convert_apply_patch_to_protocol keys action =
     fold (\<lambda>path res. case changes action path of None \<Rightarrow> res | Some change \<Rightarrow> res(path \<mapsto> convert_change change)) keys (\<lambda>_. None)"


section \<open>What is approved without a question\<close>

lemma normalize_lexically_normalized: "normalized_absolute p \<Longrightarrow> normalize_lexically p = p"
  using normalize_path_normalized [of p] normalized_absolute_is_absolute [of p] components_absolute [of p]
  by (auto simp: normalize_lexically_def normalize_path_def Let_def normalized_absolute_def components_normalized foldl_normalized)

lemma resolve_normalized: "is_absolute cwd \<Longrightarrow> normalized_absolute (resolve_path_against_base home p cwd)"
  unfolding resolve_path_against_base_def absolutize_from_def by (intro normalize_path_absolute is_absolute_join)

lemma touched_normalized: "is_absolute cwd \<Longrightarrow> q \<in> set (touched home cwd h) \<Longrightarrow> normalized_absolute q"
  by (cases "(home, cwd, h)" rule: touched.cases) (auto simp: resolved_def resolve_path_def resolve_normalized)

lemma patch_path_writable_normalized:
  "normalized_absolute q \<Longrightarrow> patch_path_writable pr p cwd q = can_write_path_with_cwd pr p q cwd"
  by (simp add: patch_path_writable_def resolve_path_at_def normalized_absolute_is_absolute normalize_lexically_normalized)

lemma change_covers_touched:
  assumes "preview_hunk diff fs st home cwd h = Some (Ok c)" "is_absolute cwd" "q \<in> set (touched home cwd h)"
    and "change_writable pr p turn_cwd (resolved home cwd h) c"
  shows "can_write_path_with_cwd pr p q turn_cwd"
proof -
  note norm = touched_normalized [OF assms(2,3)]
  have "patch_path_writable pr p turn_cwd q"
    using assms(1,3,4)
    by (cases "(home, cwd, h)" rule: touched.cases)
      (auto simp: Let_def abs_join_def elim!: map_sum_OkE split: sum.splits)
  then show ?thesis by (simp add: patch_path_writable_normalized [OF norm])
qed

lemma auto_approve_cases:
  assumes "assess_patch_safety pr os keys action policy sandbox_policy p cwd level = AutoApprove s u" "policy \<noteq> OnFailure"
  shows "is_write_patch_constrained_to_writable_paths pr keys action p cwd"
    and "s = NoSandbox \<Longrightarrow> sandbox_policy = DangerFullAccess \<or> (\<exists>net. sandbox_policy = ExternalSandbox net)"
  using assms by (auto simp: assess_patch_safety_def get_platform_sandbox_def split: if_splits sandbox_policy.splits option.splits)

text \<open>
  C8 (approved_patch_contained). A verified patch that the assessment approves without asking stays within the permissions, under four conditions. The
  approval policy is not the one that asks on failure only, which approves any patch it can sandbox; no two hunks have the same path, since a
  change shown later replaces an earlier one; the text that is applied parses to the hunks that were previewed, since it
  is parsed again; and a file has one path only, as the laws of the file system say, so links and other aliases are left out. Then
  every file whose text the patch changes, be it applied fully or half way, is one that the permissions allow to write, and no sandbox is
  chosen only when the sandbox policy asks for none. The examples after the theorem show that the first three are needed.
\<close>

theorem approved_patch_contained:
  assumes "fs_laws fs" "is_absolute (action_cwd action)"
    and "maybe_parse_apply_patch_verified query diff fs (files w) home argv cwd = Some (VerifiedBody action)"
    and "maybe_parse_apply_patch query argv = Some (Body source)" "distinct (map (resolved home (action_cwd action)) (hunks source))"
    and "set keys = dom (changes action)" "policy \<noteq> OnFailure"
    and "assess_patch_safety pr os keys action policy sandbox_policy p turn_cwd level = AutoApprove s u"
    and "parse_patch (action_patch action) = Some (Ok applied)" "hunks applied = hunks source"
    and "apply_patch fs wr home (action_patch action) (action_cwd action) w = (w', r)"
    and "text_at fs (files w') q \<noteq> text_at fs (files w) q"
  shows "can_write_path_with_cwd pr p q turn_cwd \<and>
    (s = NoSandbox \<longrightarrow> sandbox_policy = DangerFullAccess \<or> (\<exists>net. sandbox_policy = ExternalSandbox net))"
proof -
  obtain h where h: "h \<in> set (hunks source)" "q \<in> set (touched home (action_cwd action) h)"
    using apply_patch_untouched [OF assms(1,11), of q] assms(9,10,12) by auto
  obtain c where c: "preview_hunk diff fs (files w) home (action_cwd action) h = Some (Ok c)"
      "changes action (resolved home (action_cwd action) h) = Some c"
    using preview_loop_shows [OF verified_preview [OF assms(3,4)] assms(5) h(1)] by blast
  then have "change_writable pr p turn_cwd (resolved home (action_cwd action) h) c"
    using auto_approve_cases(1) [OF assms(8,7)] assms(6)
    by (force simp: is_write_patch_constrained_to_writable_paths_def list_all_iff)
  from change_covers_touched [OF c(1) assms(2) h(2) this] auto_approve_cases(2) [OF assms(8,7)] show ?thesis by blast
qed


definition sample_policy :: file_system_sandbox_policy where
  "sample_policy = restricted [entry_of (Special Root) Read, entry_of (ExactPath ''/w'') Write]"

definition sample_workspace :: sandbox_policy where
  "sample_workspace = WorkspaceWrite [''/w''] FullAccess False True True"

definition sample_action :: apply_patch_action where
  "sample_action = \<lparr>changes = sample_changes, action_patch = sample_patch_text, action_cwd = ''/w''\<rparr>"

theorem approved_patch_contained_witness:
  "can_write_path_with_cwd (plain_probe False) sample_policy ''/w/b'' ''/w''"
proof -
  let ?w' = "fst (apply_patch mem_fs buffer None sample_patch_text ''/w'' sample_world)"
  let ?keys = "[''/w/a'', ''/w/d/c'']"
  have verified: "maybe_parse_apply_patch_verified (\<lambda>_. Ok []) sample_differ mem_fs (files sample_world) None sample_argv ''/w'' =
      Some (VerifiedBody sample_action)"
    by (simp add: sample_verified sample_action_def)
  have source: "maybe_parse_apply_patch (\<lambda>_. Ok []) sample_argv =
      Some (Body \<lparr>patch = sample_patch_text, hunks = sample_hunks, workdir = None\<rparr>)"
    by (rule sample_args)
  have act: "action_patch sample_action = sample_patch_text" "action_cwd sample_action = ''/w''"
    by (simp_all add: sample_action_def)
  have dom: "set ?keys = dom (changes sample_action)" by (auto simp: sample_action_def sample_changes_def)
  have path: "is_absolute (action_cwd sample_action)" "distinct (map (resolved None (action_cwd sample_action)) sample_hunks)"
    unfolding act by code_simp+
  have auto: "assess_patch_safety (plain_probe False) Linux ?keys sample_action OnRequest sample_workspace sample_policy ''/w'' DisabledLevel =
      AutoApprove LinuxSeccomp False"
    by code_simp
  have run: "apply_patch mem_fs buffer None (action_patch sample_action) (action_cwd sample_action) sample_world =
      (?w', snd (apply_patch mem_fs buffer None sample_patch_text ''/w'' sample_world))"
    by (simp add: act)
  have changed: "text_at mem_fs (files ?w') ''/w/b'' \<noteq> text_at mem_fs (files sample_world) ''/w/b''" by code_simp
  have parsed: "parse_patch (action_patch sample_action) = Some (Ok \<lparr>patch = sample_patch_text, hunks = sample_hunks, workdir = None\<rparr>)"
    by (simp add: act sample_patch_parses)
  have "hunks \<lparr>patch = sample_patch_text, hunks = sample_hunks, workdir = None\<rparr> = sample_hunks" by (rule apply_patch_args.select_convs)
  then show ?thesis
    by (intro approved_patch_contained [THEN conjunct1, OF mem_fs_laws path(1) verified source _ dom _ auto parsed _ run changed])
      (use path(2) in simp_all)
qed


text \<open>
  Two hunks for one file are different: the changes are kept by path, so the destination of a move is lost when a later hunk
  writes the moved file again, and the patch is approved although it writes outside of the permissions.
\<close>

definition shadowed_patch_text :: string where
  "shadowed_patch_text = join [nl]
     [''*** Begin Patch'', ''*** Update File: a'', ''*** Move to: /etc/b'', ''@@'', ''-x'', ''+y'',
      ''*** Add File: a'', ''+z'', ''*** End Patch'']"

lemma shadowed_move_approved:
  "\<exists>source action. parse_patch shadowed_patch_text = Some (Ok source) \<and>
     preview_loop sample_differ mem_fs (files sample_world) None ''/w'' (hunks source) (\<lambda>_. None) = Some (Ok (changes action)) \<and>
     dom (changes action) = {''/w/a''} \<and>
     assess_patch_safety (plain_probe False) Linux [''/w/a''] action OnRequest sample_workspace sample_policy ''/w'' DisabledLevel =
       AutoApprove LinuxSeccomp False \<and>
     text_at mem_fs (files (fst (apply_patch mem_fs buffer None shadowed_patch_text ''/w'' sample_world))) ''/etc/b'' = Some (''y'' @ [nl]) \<and>
     \<not> can_write_path_with_cwd (plain_probe False) sample_policy ''/etc/b'' ''/w''"
proof -
  let ?h1 = "UpdateFile ''a'' (Some ''/etc/b'') [\<lparr>change_context = None, old_lines = [''x''], new_lines = [''y''], is_end_of_file = False\<rparr>]"
  let ?h2 = "AddFile ''a'' (''z'' @ [nl])"
  let ?source = "\<lparr>patch = shadowed_patch_text, hunks = [?h1, ?h2], workdir = None\<rparr>"
  let ?action = "\<lparr>changes = [''/w/a'' \<mapsto> Add (''z'' @ [nl])], action_patch = shadowed_patch_text, action_cwd = ''/w''\<rparr>"
  have "parse_patch shadowed_patch_text = Some (Ok ?source)" by code_simp
  moreover have "resolved None ''/w'' ?h1 = ''/w/a''" "resolved None ''/w'' ?h2 = ''/w/a''"
    "preview_hunk sample_differ mem_fs (files sample_world) None ''/w'' ?h1 = Some (Ok (Update (''x'' @ [nl] @ ''|y'' @ [nl]) (Some ''/etc/b'') (''y'' @ [nl])))"
    "preview_hunk sample_differ mem_fs (files sample_world) None ''/w'' ?h2 = Some (Ok (Add (''z'' @ [nl])))"
    by code_simp+
  then have "preview_loop sample_differ mem_fs (files sample_world) None ''/w'' [?h1, ?h2] (\<lambda>_. None) = Some (Ok (changes ?action))"
    by (simp del: preview_hunk.simps)
  moreover have "assess_patch_safety (plain_probe False) Linux [''/w/a''] ?action OnRequest sample_workspace sample_policy ''/w'' DisabledLevel =
       AutoApprove LinuxSeccomp False"
    "text_at mem_fs (files (fst (apply_patch mem_fs buffer None shadowed_patch_text ''/w'' sample_world))) ''/etc/b'' = Some (''y'' @ [nl])"
    "\<not> can_write_path_with_cwd (plain_probe False) sample_policy ''/etc/b'' ''/w''"
    by code_simp+
  ultimately show ?thesis by (intro exI [of _ ?source] exI [of _ ?action]) simp
qed

text \<open>Nor is the kept text always the previewed one: a line that ends in two carriage returns loses one each time it is read.\<close>

lemma reparsed_text_differs:
  "let cr = [CHR 0x0D]; t = join [nl] [''*** Begin Patch'', ''*** Update File: a'', ''*** Move to: b'' @ cr @ cr, ''@@'', ''-x'', ''+y'', ''*** End Patch''] in
   \<exists>source again. parse_patch t = Some (Ok source) \<and> parse_patch (patch source) = Some (Ok again) \<and>
     touched None ''/w'' (hd (hunks source)) = [''/w/a'', ''/w/b'' @ cr] \<and> touched None ''/w'' (hd (hunks again)) = [''/w/a'', ''/w/b'']"
proof -
  define cr where "cr = [CHR 0x0D]"
  define t where "t = join [nl] [''*** Begin Patch'', ''*** Update File: a'', ''*** Move to: b'' @ cr @ cr, ''@@'', ''-x'', ''+y'', ''*** End Patch'']"
  let ?chunk = "\<lparr>change_context = None, old_lines = [''x''], new_lines = [''y''], is_end_of_file = False\<rparr>"
  let ?t1 = "join [nl] [''*** Begin Patch'', ''*** Update File: a'', ''*** Move to: b'' @ cr, ''@@'', ''-x'', ''+y'', ''*** End Patch'']"
  let ?t2 = "join [nl] [''*** Begin Patch'', ''*** Update File: a'', ''*** Move to: b'', ''@@'', ''-x'', ''+y'', ''*** End Patch'']"
  have "parse_patch t = Some (Ok \<lparr>patch = ?t1, hunks = [UpdateFile ''a'' (Some (''b'' @ cr)) [?chunk]], workdir = None\<rparr>)"
    "parse_patch ?t1 = Some (Ok \<lparr>patch = ?t2, hunks = [UpdateFile ''a'' (Some ''b'') [?chunk]], workdir = None\<rparr>)"
    "touched None ''/w'' (UpdateFile ''a'' (Some (''b'' @ cr)) [?chunk]) = [''/w/a'', ''/w/b'' @ cr]"
    "touched None ''/w'' (UpdateFile ''a'' (Some ''b'') [?chunk]) = [''/w/a'', ''/w/b'']"
    unfolding t_def cr_def by code_simp+
  then show ?thesis unfolding Let_def cr_def [symmetric] t_def [symmetric] by auto
qed

end
