(* ===== verification/Network_Approval.thy ===== *)
theory Network_Approval
  imports Exec_Approval "HOL-Library.Word" "HOL-Library.AList"
begin

text \<open>
  \<open>codex-rs/core/src/tools/network_approval.rs\<close>: requests of sandboxed processes for hosts that no rule settles. Many requests
  are handled at once; the first one for a host owns the question and the others wait for its answer, and answers may be kept
  for the session.

  The service is a record of its locked fields. A pending approval is an object shared by the tasks that wait for it: the map
  of pending approvals holds its address, and the objects are a store. Each step of the system is what one task does under one
  lock, so every interleaving of the source is a run. What the session answers (the turn, the hooks, the reviewer) is arbitrary,
  and so are requests and the calls of other components.
\<close>

section \<open>Requests and decisions\<close>

datatype network_protocol = ProtoHttp | ProtoHttpsConnect | ProtoSocks5Tcp | ProtoSocks5Udp

datatype network_approval_protocol = ApproveHttp | ApproveHttps | ApproveSocks5Tcp | ApproveSocks5Udp

record network_policy_request =
  nr_protocol :: network_protocol
  nr_host :: string
  nr_port :: "16 word"

datatype network_decision_source = BaselinePolicy | ModeGuard | ProxyState | Decider

datatype network_policy_decision = PolicyDeny | PolicyAsk

datatype network_decision = NetworkAllow | NetworkDeny string network_decision_source network_policy_decision

definition REASON_POLICY_DENIED :: string where
  "REASON_POLICY_DENIED = ''policy_denied''"

definition network_deny :: "string \<Rightarrow> network_decision" where
  "network_deny reason = NetworkDeny (if reason = [] then REASON_POLICY_DENIED else reason) Decider PolicyDeny"

definition network_ask :: "string \<Rightarrow> network_decision" where
  "network_ask reason = NetworkDeny (if reason = [] then REASON_POLICY_DENIED else reason) Decider PolicyAsk"

record host_approval_key =
  key_host :: string
  key_protocol :: string
  key_port :: "16 word"

fun protocol_key_label :: "network_approval_protocol \<Rightarrow> string" where
  "protocol_key_label ApproveHttp = ''http''"
| "protocol_key_label ApproveHttps = ''https''"
| "protocol_key_label ApproveSocks5Tcp = ''socks5-tcp''"
| "protocol_key_label ApproveSocks5Udp = ''socks5-udp''"

fun approval_protocol :: "network_protocol \<Rightarrow> network_approval_protocol" where
  "approval_protocol ProtoHttp = ApproveHttp"
| "approval_protocol ProtoHttpsConnect = ApproveHttps"
| "approval_protocol ProtoSocks5Tcp = ApproveSocks5Tcp"
| "approval_protocol ProtoSocks5Udp = ApproveSocks5Udp"

definition key_from_request :: "network_policy_request \<Rightarrow> network_approval_protocol \<Rightarrow> host_approval_key" where
  "key_from_request request protocol =
     \<lparr>key_host = to_ascii_lowercase (nr_host request), key_protocol = protocol_key_label protocol, key_port = nr_port request\<rparr>"

datatype pending_approval_decision = AllowOnce | AllowForSession | DenyRequest

fun to_network_decision :: "pending_approval_decision \<Rightarrow> network_decision" where
  "to_network_decision AllowOnce = NetworkAllow"
| "to_network_decision AllowForSession = NetworkAllow"
| "to_network_decision DenyRequest = network_deny ''not_allowed''"

datatype network_approval_outcome = DeniedByUser | DeniedByPolicy string

definition allows_network_approval_flow :: "ask_for_approval \<Rightarrow> bool" where
  "allows_network_approval_flow policy \<longleftrightarrow> policy \<noteq> Never"

fun sandbox_policy_allows_network_approval_flow :: "sandbox_policy \<Rightarrow> bool" where
  "sandbox_policy_allows_network_approval_flow (ReadOnly _ _) = True"
| "sandbox_policy_allows_network_approval_flow (WorkspaceWrite _ _ _ _ _) = True"
| "sandbox_policy_allows_network_approval_flow _ = False"

text \<open>The answer of a user or reviewer (\<open>protocol.rs\<close>).\<close>

datatype network_policy_rule_action = RuleAllow | RuleDeny

record network_policy_amendment =
  na_host :: string
  na_action :: network_policy_rule_action

datatype review_decision =
    Approved
  | ApprovedExecpolicyAmendment execpolicy_amendment
  | ApprovedForSession
  | NetworkPolicyAmendment network_policy_amendment
  | Denied
  | TimedOut
  | Abort

datatype permission_request_decision = HookAllow | HookDeny string

section \<open>The service\<close>

record active_network_approval_call =
  call_registration_id :: string
  call_turn_id :: string
  call_command :: string

record network_service =
  active_calls :: "(string \<times> active_network_approval_call) list"
  call_outcomes :: "string \<Rightarrow> network_approval_outcome option"
  pending_host_approvals :: "host_approval_key \<Rightarrow> nat option"
  session_approved_hosts :: "host_approval_key set"
  session_denied_hosts :: "host_approval_key set"
  pending_objects :: "nat \<Rightarrow> pending_approval_decision option"
  next_object :: nat

definition default_service :: network_service where
  "default_service = \<lparr>active_calls = [], call_outcomes = (\<lambda>_. None), pending_host_approvals = (\<lambda>_. None),
     session_approved_hosts = {}, session_denied_hosts = {}, pending_objects = (\<lambda>_. None), next_object = 0\<rparr>"

definition sync_session_approved_hosts_to :: "network_service \<Rightarrow> network_service \<Rightarrow> network_service" where
  "sync_session_approved_hosts_to self other = other\<lparr>session_approved_hosts := session_approved_hosts self\<rparr>"

text \<open>\<open>IndexMap::insert\<close> replaces in place or appends; \<open>shift_remove\<close> keeps the order.\<close>

definition register_call :: "string \<Rightarrow> string \<Rightarrow> string \<Rightarrow> network_service \<Rightarrow> network_service" where
  "register_call registration_id turn_id command s =
     s\<lparr>active_calls := AList.update registration_id
        \<lparr>call_registration_id = registration_id, call_turn_id = turn_id, call_command = command\<rparr> (active_calls s)\<rparr>"

definition unregister_call :: "string \<Rightarrow> network_service \<Rightarrow> network_service" where
  "unregister_call registration_id s =
     s\<lparr>active_calls := AList.delete registration_id (active_calls s),
       call_outcomes := (call_outcomes s)(registration_id := None)\<rparr>"

definition resolve_single_active_call :: "network_service \<Rightarrow> active_network_approval_call option" where
  "resolve_single_active_call s = (case active_calls s of [(_, call)] \<Rightarrow> Some call | _ \<Rightarrow> None)"

definition get_or_create_pending_approval :: "host_approval_key \<Rightarrow> network_service \<Rightarrow> network_service \<times> nat \<times> bool" where
  "get_or_create_pending_approval key s =
     (case pending_host_approvals s key of
        Some existing \<Rightarrow> (s, existing, False)
      | None \<Rightarrow>
          (let created = next_object s in
           (s\<lparr>pending_host_approvals := (pending_host_approvals s)(key \<mapsto> created),
              pending_objects := (pending_objects s)(created := None), next_object := created + 1\<rparr>, created, True)))"

definition record_call_outcome :: "string \<Rightarrow> network_approval_outcome \<Rightarrow> network_service \<Rightarrow> network_service" where
  "record_call_outcome registration_id outcome s =
     (if call_outcomes s registration_id = Some DeniedByUser then s
      else s\<lparr>call_outcomes := (call_outcomes s)(registration_id \<mapsto> outcome)\<rparr>)"

definition record_outcome_for_single_active_call :: "network_approval_outcome \<Rightarrow> network_service \<Rightarrow> network_service" where
  "record_outcome_for_single_active_call outcome s =
     (case resolve_single_active_call s of
        None \<Rightarrow> s
      | Some owner_call \<Rightarrow> record_call_outcome (call_registration_id owner_call) outcome s)"

definition take_call_outcome :: "string \<Rightarrow> network_service \<Rightarrow> network_service \<times> network_approval_outcome option" where
  "take_call_outcome registration_id s =
     (s\<lparr>call_outcomes := (call_outcomes s)(registration_id := None)\<rparr>, call_outcomes s registration_id)"

definition set_decision :: "nat \<Rightarrow> pending_approval_decision \<Rightarrow> network_service \<Rightarrow> network_service" where
  "set_decision object decision s = s\<lparr>pending_objects := (pending_objects s)(object \<mapsto> decision)\<rparr>"

definition remove_pending :: "host_approval_key \<Rightarrow> network_service \<Rightarrow> network_service" where
  "remove_pending key s = s\<lparr>pending_host_approvals := (pending_host_approvals s)(key := None)\<rparr>"

text \<open>A request that the proxy has blocked (\<open>network_policy_decision.rs\<close>).\<close>

record blocked_request =
  br_host :: string
  br_reason :: string
  br_decision :: "string option"

definition parse_network_policy_decision :: "string \<Rightarrow> network_policy_decision option" where
  "parse_network_policy_decision v =
     (if v = ''deny'' then Some PolicyDeny else if v = ''ask'' then Some PolicyAsk else None)"

definition blocked_detail :: "string \<Rightarrow> string" where
  "blocked_detail reason =
     (if reason = ''denied'' then ''domain is explicitly denied by policy and cannot be approved from this prompt''
      else if reason = ''not_allowed'' then ''domain is not on the allowlist for the current sandbox mode''
      else if reason = ''not_allowed_local'' then ''local/private network addresses are blocked by the sandbox policy''
      else if reason = ''method_not_allowed'' then ''request method is blocked by the current network mode''
      else if reason = ''proxy_disabled'' then ''network proxy is disabled''
      else ''request is blocked by network policy'')"

definition dquote :: string where
  "dquote = [CHR 0x22]"

definition denied_network_policy_message :: "blocked_request \<Rightarrow> string option" where
  "denied_network_policy_message blocked =
     (if (case br_decision blocked of None \<Rightarrow> None | Some d \<Rightarrow> parse_network_policy_decision d) \<noteq> Some PolicyDeny then None
      else
        (let host = trim (br_host blocked) in
         if host = [] then Some ''Network access was blocked by policy.''
         else Some (''Network access to '' @ dquote @ host @ dquote @ '' was blocked: '' @ blocked_detail (br_reason blocked) @ ''.'')))"

definition record_blocked_request :: "blocked_request \<Rightarrow> network_service \<Rightarrow> network_service" where
  "record_blocked_request blocked s =
     (case denied_network_policy_message blocked of
        None \<Rightarrow> s
      | Some message \<Rightarrow> record_outcome_for_single_active_call (DeniedByPolicy message) s)"


section \<open>One request\<close>

definition REASON_NOT_ALLOWED :: string where
  "REASON_NOT_ALLOWED = ''not_allowed''"

definition format_network_target :: "string \<Rightarrow> string \<Rightarrow> 16 word \<Rightarrow> string" where
  "format_network_target protocol host port = protocol @ ''://'' @ host @ '':'' @ show_nat (unat port)"

definition approval_id_for_key :: "host_approval_key \<Rightarrow> string" where
  "approval_id_for_key key = ''network#'' @ key_protocol key @ ''#'' @ key_host key @ ''#'' @ show_nat (unat (key_port key))"

definition policy_denial_message :: "host_approval_key \<Rightarrow> string \<Rightarrow> string" where
  "policy_denial_message key host =
     ''Network access to '' @ dquote @ format_network_target (key_protocol key) host (key_port key) @ dquote @ '' was blocked by policy.''"

text \<open>What the session says when the owner of a request asks: the turn's policies, a hook, the reviewer.\<close>

record approval_answers =
  ans_turn :: "(sandbox_policy \<times> ask_for_approval) option"
  ans_hook :: "permission_request_decision option"
  ans_guardian_review_id :: "string option"
  ans_review :: review_decision
  ans_rejection_message :: string
  ans_timeout_message :: string

text \<open>What remains to be done by the owner, each under one lock.\<close>

datatype owner_action =
    RecordOutcome string network_approval_outcome
  | RecordForSingleCall network_approval_outcome
  | ForgetDenied
  | CacheApproved
  | ForgetApproved
  | CacheDenied
  | SetDecision pending_approval_decision
  | RemovePending

definition record_owner_outcome :: "active_network_approval_call option \<Rightarrow> network_approval_outcome \<Rightarrow> owner_action list" where
  "record_owner_outcome owner_call outcome =
     (case owner_call of None \<Rightarrow> [] | Some call \<Rightarrow> [RecordOutcome (call_registration_id call) outcome])"

text \<open>The outcome to record, the decision, and whether a denial is kept for the session.\<close>

fun resolve_review :: "approval_answers \<Rightarrow> active_network_approval_call option \<Rightarrow> review_decision \<Rightarrow>
    owner_action list \<times> pending_approval_decision \<times> bool" where
  "resolve_review ans owner_call Approved = ([], AllowOnce, False)"
| "resolve_review ans owner_call (ApprovedExecpolicyAmendment _) = ([], AllowOnce, False)"
| "resolve_review ans owner_call ApprovedForSession = ([], AllowForSession, False)"
| "resolve_review ans owner_call (NetworkPolicyAmendment amendment) =
     (case na_action amendment of
        RuleAllow \<Rightarrow> ([], AllowForSession, False)
      | RuleDeny \<Rightarrow> (record_owner_outcome owner_call DeniedByUser, DenyRequest, True))"
| "resolve_review ans owner_call TimedOut =
     (record_owner_outcome owner_call (DeniedByPolicy (ans_timeout_message ans)), DenyRequest, False)"
| "resolve_review ans owner_call _ =
     (record_owner_outcome owner_call
        (if ans_guardian_review_id ans = None then DeniedByUser else DeniedByPolicy (ans_rejection_message ans)), DenyRequest, False)"

definition owner_actions :: "approval_answers \<Rightarrow> host_approval_key \<Rightarrow> string \<Rightarrow> active_network_approval_call option \<Rightarrow>
    owner_action list \<times> network_decision" where
  "owner_actions ans key host owner_call =
     (let refused = ([SetDecision DenyRequest, RemovePending, RecordForSingleCall (DeniedByPolicy (policy_denial_message key host))],
            network_deny REASON_NOT_ALLOWED) in
      case ans_turn ans of
        None \<Rightarrow> refused
      | Some (sandbox_policy, approval_policy) \<Rightarrow>
          if \<not> sandbox_policy_allows_network_approval_flow sandbox_policy then refused
          else if \<not> allows_network_approval_flow approval_policy then refused
          else
            (case ans_hook ans of
               Some HookAllow \<Rightarrow> ([SetDecision AllowOnce, RemovePending], NetworkAllow)
             | Some (HookDeny message) \<Rightarrow>
                 (record_owner_outcome owner_call (DeniedByPolicy message) @ [SetDecision DenyRequest, RemovePending],
                  network_deny REASON_NOT_ALLOWED)
             | None \<Rightarrow>
                 (let (recorded, resolved, cache_session_deny) = resolve_review ans owner_call (ans_review ans) in
                  (recorded @ (if resolved = AllowForSession then [ForgetDenied, CacheApproved] else []) @
                     (if cache_session_deny then [ForgetApproved, CacheDenied] else []) @ [SetDecision resolved, RemovePending],
                   to_network_decision resolved))))"

text \<open>One of these actions; recording for the single active call looks the call up first.\<close>

fun perform :: "host_approval_key \<Rightarrow> nat \<Rightarrow> owner_action \<Rightarrow> network_service \<Rightarrow> network_service \<times> owner_action list" where
  "perform key object (RecordOutcome registration_id outcome) s = (record_call_outcome registration_id outcome s, [])"
| "perform key object (RecordForSingleCall outcome) s = (s, record_owner_outcome (resolve_single_active_call s) outcome)"
| "perform key object ForgetDenied s = (s\<lparr>session_denied_hosts := session_denied_hosts s - {key}\<rparr>, [])"
| "perform key object CacheApproved s = (s\<lparr>session_approved_hosts := insert key (session_approved_hosts s)\<rparr>, [])"
| "perform key object ForgetApproved s = (s\<lparr>session_approved_hosts := session_approved_hosts s - {key}\<rparr>, [])"
| "perform key object CacheDenied s = (s\<lparr>session_denied_hosts := insert key (session_denied_hosts s)\<rparr>, [])"
| "perform key object (SetDecision decision) s = (set_decision object decision s, [])"
| "perform key object RemovePending s = (remove_pending key s, [])"

section \<open>Many requests\<close>

datatype phase =
    CheckDenied
  | CheckApproved
  | GetPending
  | WaitForDecision nat
  | Asking nat
  | Acting nat "owner_action list" network_decision
  | Finished network_decision

record request_task =
  task_key :: host_approval_key
  task_host :: string
  task_phase :: phase

record network_system =
  service :: network_service
  tasks :: "request_task list"

definition new_task :: "network_policy_request \<Rightarrow> request_task" where
  "new_task request =
     \<lparr>task_key = key_from_request request (approval_protocol (nr_protocol request)), task_host = nr_host request, task_phase = CheckDenied\<rparr>"

text \<open>What one task does next, with the answers it would get; \<open>None\<close> when it has to wait or has finished.\<close>

fun advance :: "approval_answers \<Rightarrow> request_task \<Rightarrow> network_service \<Rightarrow> (network_service \<times> phase) option" where
  "advance ans task s =
     (case task_phase task of
        CheckDenied \<Rightarrow>
          Some (s, if task_key task \<in> session_denied_hosts s then Finished (network_deny REASON_NOT_ALLOWED) else CheckApproved)
      | CheckApproved \<Rightarrow> Some (s, if task_key task \<in> session_approved_hosts s then Finished NetworkAllow else GetPending)
      | GetPending \<Rightarrow>
          (let (s, object, is_owner) = get_or_create_pending_approval (task_key task) s in
           Some (s, if is_owner then Asking object else WaitForDecision object))
      | WaitForDecision object \<Rightarrow> map_option (\<lambda>decision. (s, Finished (to_network_decision decision))) (pending_objects s object)
      | Asking object \<Rightarrow>
          (let (actions, decision) = owner_actions ans (task_key task) (task_host task) (resolve_single_active_call s) in
           Some (s, Acting object actions decision))
      | Acting object [] decision \<Rightarrow> Some (s, Finished decision)
      | Acting object (action # actions) decision \<Rightarrow>
          (let (s, further) = perform (task_key task) object action s in Some (s, Acting object (further @ actions) decision))
      | Finished _ \<Rightarrow> None)"

declare advance.simps [simp del]

text \<open>Calls of other components, which leave hosts and pending approvals alone.\<close>

datatype service_call =
    RegisterCall string string string
  | UnregisterCall string
  | TakeCallOutcome string
  | RecordBlockedRequest blocked_request

fun serve :: "service_call \<Rightarrow> network_service \<Rightarrow> network_service" where
  "serve (RegisterCall registration_id turn_id command) s = register_call registration_id turn_id command s"
| "serve (UnregisterCall registration_id) s = unregister_call registration_id s"
| "serve (TakeCallOutcome registration_id) s = fst (take_call_outcome registration_id s)"
| "serve (RecordBlockedRequest blocked) s = record_blocked_request blocked s"

inductive progress :: "network_system \<Rightarrow> network_system \<Rightarrow> bool" where
  "i < length (tasks sys) \<Longrightarrow> advance ans (tasks sys ! i) (service sys) = Some (s, ph) \<Longrightarrow>
     progress sys \<lparr>service = s, tasks = (tasks sys)[i := (tasks sys ! i)\<lparr>task_phase := ph\<rparr>]\<rparr>"

inductive system_step :: "network_system \<Rightarrow> network_system \<Rightarrow> bool" where
  request_arrives: "system_step sys (sys\<lparr>tasks := tasks sys @ [new_task request]\<rparr>)"
| task_advances: "progress sys sys' \<Longrightarrow> system_step sys sys'"
| call_served: "system_step sys (sys\<lparr>service := serve c (service sys)\<rparr>)"

definition initial_system :: network_system where
  "initial_system = \<lparr>service = default_service, tasks = []\<rparr>"

text \<open>
  The systems that can be reached, with the hosts that were ever taken over from another session: a review session gets the
  approved hosts of the session it reviews (\<open>guardian/review_session.rs\<close>).
\<close>

inductive reachable :: "host_approval_key set \<Rightarrow> network_system \<Rightarrow> bool" where
  reachable_start: "reachable {} initial_system"
| reachable_step: "reachable taken sys \<Longrightarrow> system_step sys sys' \<Longrightarrow> reachable taken sys'"
| reachable_sync: "reachable taken sys \<Longrightarrow>
    reachable (taken \<union> session_approved_hosts other) (sys\<lparr>service := sync_session_approved_hosts_to other (service sys)\<rparr>)"

inductive_cases progressE: "progress sys sys'"
inductive_cases system_stepE: "system_step sys sys'"


section \<open>Ownership\<close>

text \<open>The pending approval that a task owns, as long as it has not been removed from the map, and the one it will decide.\<close>

fun owned :: "phase \<Rightarrow> nat option" where
  "owned (Asking p) = Some p"
| "owned (Acting p acts d) = (if RemovePending \<in> set acts then Some p else None)"
| "owned _ = None"

fun will_decide :: "phase \<Rightarrow> nat \<Rightarrow> bool" where
  "will_decide (Asking p) q \<longleftrightarrow> p = q"
| "will_decide (Acting p acts d) q \<longleftrightarrow> p = q \<and> (\<exists>r. SetDecision r \<in> set acts)"
| "will_decide _ q \<longleftrightarrow> False"

text \<open>The shapes of what remains to be done.\<close>

fun reports :: "owner_action list \<Rightarrow> bool" where
  "reports [] = True"
| "reports [RecordOutcome _ _] = True"
| "reports [RecordForSingleCall _] = True"
| "reports _ = False"

fun closing :: "owner_action list \<Rightarrow> bool" where
  "closing (SetDecision _ # RemovePending # acts) = reports acts"
| "closing _ = False"

fun pending_actions :: "owner_action list \<Rightarrow> bool" where
  "pending_actions (RecordOutcome _ _ # acts) = (acts = [] \<or> pending_actions acts \<and> hd acts \<noteq> CacheApproved \<and> hd acts \<noteq> CacheDenied)"
| "pending_actions (ForgetDenied # CacheApproved # acts) = closing acts"
| "pending_actions (ForgetApproved # CacheDenied # acts) = closing acts"
| "pending_actions (CacheApproved # acts) = closing acts"
| "pending_actions (CacheDenied # acts) = closing acts"
| "pending_actions (RemovePending # acts) = reports acts"
| "pending_actions (SetDecision r # acts) = closing (SetDecision r # acts)"
| "pending_actions acts = reports acts"

lemma reports_pending: "reports acts \<Longrightarrow> pending_actions acts \<and> RemovePending \<notin> set acts"
  by (cases acts rule: reports.cases) auto

lemma closing_pending: "closing acts \<Longrightarrow> pending_actions acts \<and> RemovePending \<in> set acts \<and> (\<exists>r. SetDecision r \<in> set acts)"
  by (cases acts rule: closing.cases) auto

lemma owner_actions_shape:
  assumes "owner_actions ans key host owner_call = (acts, d)"
  shows "pending_actions acts \<and> RemovePending \<in> set acts \<and> (\<exists>r. SetDecision r \<in> set acts) \<and>
    (\<forall>rest. acts \<noteq> CacheApproved # rest) \<and> (\<forall>rest. acts \<noteq> CacheDenied # rest)"
proof -
  have "resolve_review ans owner_call r = (recorded, resolved, cache) \<Longrightarrow>
      (recorded = [] \<or> (\<exists>i out. recorded = [RecordOutcome i out])) \<and> (cache \<longrightarrow> resolved = DenyRequest)" for r recorded resolved cache
    by (cases "(ans, owner_call, r)" rule: resolve_review.cases)
      (auto simp: record_owner_outcome_def split: network_policy_rule_action.splits option.splits)
  with assms show ?thesis
    by (fastforce simp: owner_actions_def Let_def record_owner_outcome_def
        split: option.splits prod.splits if_splits permission_request_decision.splits)
qed

section \<open>The invariant\<close>

text \<open>Between forgetting one answer and caching the other, the first stays forgotten, unless it is taken over from another session.\<close>

definition acting_ok :: "host_approval_key set \<Rightarrow> network_service \<Rightarrow> request_task \<Rightarrow> bool" where
  "acting_ok taken s t \<longleftrightarrow> (\<forall>p acts d. task_phase t = Acting p acts d \<longrightarrow> pending_actions acts \<and>
     (\<forall>rest. acts = CacheApproved # rest \<longrightarrow> task_key t \<notin> session_denied_hosts s) \<and>
     (\<forall>rest. acts = CacheDenied # rest \<longrightarrow> task_key t \<notin> session_approved_hosts s - taken))"

definition single_owner :: "network_system \<Rightarrow> bool" where
  "single_owner sys \<longleftrightarrow> (\<forall>i < length (tasks sys). \<forall>p. owned (task_phase (tasks sys ! i)) = Some p \<longrightarrow>
     pending_host_approvals (service sys) (task_key (tasks sys ! i)) = Some p \<and>
     (\<forall>j < length (tasks sys). owned (task_phase (tasks sys ! j)) = Some p \<longrightarrow> i = j))"

definition answers_coming :: "network_system \<Rightarrow> bool" where
  "answers_coming sys \<longleftrightarrow> (\<forall>p < next_object (service sys). pending_objects (service sys) p = None \<longrightarrow>
     (\<exists>t \<in> set (tasks sys). will_decide (task_phase t) p))"

definition objects_known :: "network_system \<Rightarrow> bool" where
  "objects_known sys \<longleftrightarrow> (\<forall>k p. pending_host_approvals (service sys) k = Some p \<longrightarrow> p < next_object (service sys)) \<and>
     (\<forall>t \<in> set (tasks sys). \<forall>p. task_phase t = WaitForDecision p \<longrightarrow> p < next_object (service sys))"

definition system_ok :: "host_approval_key set \<Rightarrow> network_system \<Rightarrow> bool" where
  "system_ok taken sys \<longleftrightarrow> single_owner sys \<and> (\<forall>t \<in> set (tasks sys). acting_ok taken (service sys) t) \<and> answers_coming sys \<and>
     objects_known sys \<and> session_approved_hosts (service sys) \<inter> session_denied_hosts (service sys) \<subseteq> taken"

text \<open>Two owners of one host are the same task.\<close>

lemma same_host_owner:
  assumes "single_owner sys" "i < length (tasks sys)" "j < length (tasks sys)"
    and "owned (task_phase (tasks sys ! i)) = Some p" "owned (task_phase (tasks sys ! j)) = Some q"
    and "task_key (tasks sys ! i) = task_key (tasks sys ! j)"
  shows "i = j"
  using assms unfolding single_owner_def by (metis option.inject)

lemma unowned: "single_owner sys \<Longrightarrow> objects_known sys \<Longrightarrow> i < length (tasks sys) \<Longrightarrow>
    owned (task_phase (tasks sys ! i)) \<noteq> Some (next_object (service sys))"
  unfolding single_owner_def objects_known_def by (metis less_irrefl)


section \<open>Every step keeps it\<close>

abbreviation moved :: "network_system \<Rightarrow> nat \<Rightarrow> network_service \<Rightarrow> phase \<Rightarrow> network_system" where
  "moved sys i s ph \<equiv> \<lparr>service = s, tasks = (tasks sys)[i := (tasks sys ! i)\<lparr>task_phase := ph\<rparr>]\<rparr>"

text \<open>The four kinds of moves: reading, creating a pending approval, asking, and one action of an owner.\<close>

lemma advance_cases:
  assumes "advance ans t s = Some (s', ph)"
  obtains (look) "s' = s" "owned (task_phase t) = None" "\<And>q. \<not> will_decide (task_phase t) q"
      "owned ph = None" "\<And>p acts d. ph \<noteq> Acting p acts d"
      "\<And>p. ph = WaitForDecision p \<Longrightarrow> pending_host_approvals s (task_key t) = Some p"
    | (create) "task_phase t = GetPending" "pending_host_approvals s (task_key t) = None" "ph = Asking (next_object s)"
      "s' = s\<lparr>pending_host_approvals := (pending_host_approvals s)(task_key t \<mapsto> next_object s),
         pending_objects := (pending_objects s)(next_object s := None), next_object := next_object s + 1\<rparr>"
    | (ask) p acts d where "s' = s" "task_phase t = Asking p" "ph = Acting p acts d"
      "owner_actions ans (task_key t) (task_host t) (resolve_single_active_call s) = (acts, d)"
    | (act) p a acts d further where "task_phase t = Acting p (a # acts) d" "ph = Acting p (further @ acts) d"
      "perform (task_key t) p a s = (s', further)"
proof (cases "task_phase t")
  case CheckDenied
  with assms show ?thesis by (intro look) (auto simp: advance.simps split: if_splits)
next
  case CheckApproved
  with assms show ?thesis by (intro look) (auto simp: advance.simps split: if_splits)
next
  case GetPending
  show ?thesis
  proof (cases "pending_host_approvals s (task_key t)")
    case None
    with assms GetPending show ?thesis by (intro create) (auto simp: advance.simps get_or_create_pending_approval_def Let_def)
  next
    case (Some p)
    with assms GetPending show ?thesis by (intro look) (auto simp: advance.simps get_or_create_pending_approval_def Let_def)
  qed
next
  case (WaitForDecision p)
  with assms show ?thesis by (intro look) (auto simp: advance.simps)
next
  case (Asking p)
  obtain acts d where "owner_actions ans (task_key t) (task_host t) (resolve_single_active_call s) = (acts, d)" by fastforce
  with assms Asking show ?thesis by (intro ask) (auto simp: advance.simps)
next
  case (Acting p acts d)
  show ?thesis
  proof (cases acts)
    case Nil
    with assms Acting show ?thesis by (intro look) (auto simp: advance.simps)
  next
    case (Cons a rest)
    obtain s2 further where "perform (task_key t) p a s = (s2, further)" by fastforce
    with assms Acting Cons show ?thesis by (intro act) (auto simp: advance.simps)
  qed
qed (use assms in \<open>simp add: advance.simps\<close>)

lemma pending_actions_tail:
  assumes "pending_actions (a # acts)" "perform key p a s = (s', further)"
  shows "pending_actions (further @ acts)"
proof (cases a)
  case (RecordForSingleCall out)
  with assms have "acts = []" by (cases acts) auto
  with RecordForSingleCall assms show ?thesis by (auto simp: record_owner_outcome_def split: option.splits)
next
  case ForgetDenied
  with assms show ?thesis by (cases acts rule: list.exhaust; cases "hd acts") auto
next
  case ForgetApproved
  with assms show ?thesis by (cases acts rule: list.exhaust; cases "hd acts") auto
next
  case (SetDecision r)
  with assms show ?thesis by (cases acts rule: list.exhaust; cases "hd acts") auto
qed (use assms reports_pending closing_pending in auto)

lemma before_cache:
  assumes "pending_actions (a # acts)" "perform key p a s = (s', further)"
  shows "further @ acts = CacheApproved # rest \<Longrightarrow> a = ForgetDenied" "further @ acts = CacheDenied # rest \<Longrightarrow> a = ForgetApproved"
proof -
  have "further = [] \<or> (\<exists>i out. further = [RecordOutcome i out])"
    using assms(2) by (cases a) (auto simp: record_owner_outcome_def split: option.splits)
  then show "further @ acts = CacheApproved # rest \<Longrightarrow> a = ForgetDenied" "further @ acts = CacheDenied # rest \<Longrightarrow> a = ForgetApproved"
    using assms(1) by (cases a; force)+
qed

lemma pending_actions_owner:
  "pending_actions (ForgetDenied # acts) \<Longrightarrow> RemovePending \<in> set acts"
  "pending_actions (ForgetApproved # acts) \<Longrightarrow> RemovePending \<in> set acts"
  "pending_actions (CacheApproved # acts) \<Longrightarrow> RemovePending \<in> set acts"
  "pending_actions (CacheDenied # acts) \<Longrightarrow> RemovePending \<in> set acts"
  "pending_actions (SetDecision r # acts) \<Longrightarrow> RemovePending \<in> set acts"
  "pending_actions (RemovePending # acts) \<Longrightarrow> RemovePending \<notin> set acts \<and> (\<forall>r. SetDecision r \<notin> set acts)"
proof -
  show "pending_actions (ForgetDenied # acts) \<Longrightarrow> RemovePending \<in> set acts"
    by (cases acts; cases "hd acts") (auto dest: closing_pending)
  show "pending_actions (ForgetApproved # acts) \<Longrightarrow> RemovePending \<in> set acts"
    by (cases acts; cases "hd acts") (auto dest: closing_pending)
  show "pending_actions (RemovePending # acts) \<Longrightarrow> RemovePending \<notin> set acts \<and> (\<forall>r. SetDecision r \<notin> set acts)"
    by (cases acts rule: reports.cases) auto
  show "pending_actions (SetDecision r # acts) \<Longrightarrow> RemovePending \<in> set acts"
    by (cases acts; cases "hd acts") auto
qed (auto dest: closing_pending)

lemma further_no_removal: "perform key p a s = (s', further) \<Longrightarrow> RemovePending \<notin> set further \<and> (\<forall>r. SetDecision r \<notin> set further)"
  by (cases a) (auto simp: record_owner_outcome_def split: option.splits)

lemma perform_pending:
  "perform key p a s = (s', further) \<Longrightarrow>
     pending_host_approvals s' = (if a = RemovePending then (pending_host_approvals s)(key := None) else pending_host_approvals s) \<and>
     next_object s' = next_object s"
  by (cases a) (auto simp: record_call_outcome_def set_decision_def remove_pending_def)

lemma perform_objects:
  "perform key p a s = (s', further) \<Longrightarrow>
     pending_objects s' = (case a of SetDecision r \<Rightarrow> (pending_objects s)(p \<mapsto> r) | _ \<Rightarrow> pending_objects s)"
  by (cases a) (auto simp: record_call_outcome_def set_decision_def remove_pending_def)

lemma perform_hosts:
  "perform key p a s = (s', further) \<Longrightarrow>
     session_approved_hosts s' = (if a = CacheApproved then insert key (session_approved_hosts s)
       else if a = ForgetApproved then session_approved_hosts s - {key} else session_approved_hosts s) \<and>
     session_denied_hosts s' = (if a = CacheDenied then insert key (session_denied_hosts s)
       else if a = ForgetDenied then session_denied_hosts s - {key} else session_denied_hosts s)"
  by (cases a) (auto simp: record_call_outcome_def set_decision_def remove_pending_def split: if_splits)

lemma owned_step:
  assumes "pending_actions (a # acts)" "perform key p a s = (s', further)"
  shows "owned (Acting p (further @ acts) d) = (if a = RemovePending then None else owned (Acting p (a # acts) d))"
  using further_no_removal [OF assms(2)] pending_actions_owner(6) assms(1) by auto

lemma single_owner_moved:
  assumes "single_owner sys" "i < length (tasks sys)"
    and "\<And>j q. j < length (tasks sys) \<Longrightarrow> j \<noteq> i \<Longrightarrow> owned (task_phase (tasks sys ! j)) = Some q \<Longrightarrow>
      pending_host_approvals s' (task_key (tasks sys ! j)) = Some q"
    and "\<And>p. owned ph = Some p \<Longrightarrow> pending_host_approvals s' (task_key (tasks sys ! i)) = Some p \<and>
      (\<forall>j < length (tasks sys). j \<noteq> i \<longrightarrow> owned (task_phase (tasks sys ! j)) \<noteq> Some p)"
  shows "single_owner (moved sys i s' ph)"
proof -
  have "pending_host_approvals s' (task_key (tasks (moved sys i s' ph) ! k)) = Some p \<and>
      (\<forall>j < length (tasks sys). owned (task_phase (tasks (moved sys i s' ph) ! j)) = Some p \<longrightarrow> k = j)"
    if "k < length (tasks sys)" "owned (task_phase (tasks (moved sys i s' ph) ! k)) = Some p" for k p
  proof (cases "k = i")
    case True
    with that assms(2) assms(4) [of p] show ?thesis by (auto simp: nth_list_update)
  next
    case False
    with that have k: "owned (task_phase (tasks sys ! k)) = Some p" by simp
    with that False assms(1,2,4) assms(3) [OF that(1) False k] show ?thesis
      unfolding single_owner_def by (auto simp: nth_list_update)
  qed
  then show ?thesis unfolding single_owner_def by simp
qed

lemma progress_single_owner:
  assumes "system_ok taken sys" "i < length (tasks sys)" "advance ans (tasks sys ! i) (service sys) = Some (s', ph)"
  shows "single_owner (moved sys i s' ph)"
proof -
  have ok: "single_owner sys" "objects_known sys" "acting_ok taken (service sys) (tasks sys ! i)"
    using assms(1,2) by (auto simp: system_ok_def)
  have owns: "pending_host_approvals (service sys) (task_key (tasks sys ! j)) = Some q"
    "\<And>k. k < length (tasks sys) \<Longrightarrow> k \<noteq> j \<Longrightarrow> owned (task_phase (tasks sys ! k)) \<noteq> Some q"
    if "j < length (tasks sys)" "owned (task_phase (tasks sys ! j)) = Some q" for j q
    using ok(1) that unfolding single_owner_def by blast+
  note goal = single_owner_moved [OF ok(1) assms(2), of s' ph]
  from assms(3) show ?thesis
  proof (cases rule: advance_cases)
    case look
    then show ?thesis by (intro goal) (use owns(1) in auto)
  next
    case create
    have "task_key (tasks sys ! j) \<noteq> task_key (tasks sys ! i)"
      if "j < length (tasks sys)" "owned (task_phase (tasks sys ! j)) = Some q" for j q
      using owns(1) [OF that] create(2) by auto
    moreover have "\<forall>j < length (tasks sys). j \<noteq> i \<longrightarrow> owned (task_phase (tasks sys ! j)) \<noteq> Some p"
      if "next_object (service sys) = p" for p
      using unowned [OF ok(1,2)] that by blast
    ultimately show ?thesis by (intro goal) (simp_all add: create owns(1))
  next
    case (ask p acts d)
    then have "owned ph = owned (task_phase (tasks sys ! i))" using owner_actions_shape by auto
    with owns(1) [OF assms(2)] owns(2) [OF assms(2)]
    have "\<And>q. owned ph = Some q \<Longrightarrow> pending_host_approvals (service sys) (task_key (tasks sys ! i)) = Some q \<and>
        (\<forall>j < length (tasks sys). j \<noteq> i \<longrightarrow> owned (task_phase (tasks sys ! j)) \<noteq> Some q)"
      by metis
    then show ?thesis by (intro goal) (simp_all add: ask(1) owns(1))
  next
    case (act p a acts d further)
    have shape: "pending_actions (a # acts)" using ok(3) act(1) by (simp add: acting_ok_def)
    note own = owned_step [OF shape act(3), of d, folded act(1,2)] and pend = perform_pending [OF act(3)]
    have apart: "task_key (tasks sys ! j) \<noteq> task_key (tasks sys ! i)"
      if "j < length (tasks sys)" "j \<noteq> i" "owned (task_phase (tasks sys ! j)) = Some q" "a = RemovePending" for j q
      using same_host_owner [OF ok(1) that(1) assms(2) that(3), of p] act(1) that by auto
    show ?thesis
    proof (rule goal)
      fix j q
      assume j: "j < length (tasks sys)" "j \<noteq> i" "owned (task_phase (tasks sys ! j)) = Some q"
      then show "pending_host_approvals s' (task_key (tasks sys ! j)) = Some q"
        using apart [OF j] owns(1) [OF j(1,3)] pend by simp
    next
      fix q
      assume "owned ph = Some q"
      then have "a \<noteq> RemovePending" "owned (task_phase (tasks sys ! i)) = Some q" using own by (auto split: if_splits)
      then show "pending_host_approvals s' (task_key (tasks sys ! i)) = Some q \<and>
          (\<forall>j < length (tasks sys). j \<noteq> i \<longrightarrow> owned (task_phase (tasks sys ! j)) \<noteq> Some q)"
        using owns [OF assms(2)] pend by auto
    qed
  qed
qed


lemma progress_acting_ok:
  assumes "system_ok taken sys" "i < length (tasks sys)" "advance ans (tasks sys ! i) (service sys) = Some (s', ph)"
  shows "\<forall>t \<in> set (tasks (moved sys i s' ph)). acting_ok taken s' t"
proof -
  have ok: "single_owner sys" "\<And>j. j < length (tasks sys) \<Longrightarrow> acting_ok taken (service sys) (tasks sys ! j)"
    "session_approved_hosts (service sys) \<inter> session_denied_hosts (service sys) \<subseteq> taken"
    using assms(1) by (auto simp: system_ok_def)
  have goal: ?thesis if "acting_ok taken s' ((tasks sys ! i)\<lparr>task_phase := ph\<rparr>)"
      "\<And>j. j < length (tasks sys) \<Longrightarrow> j \<noteq> i \<Longrightarrow> acting_ok taken s' (tasks sys ! j)"
    using that assms(2) unfolding all_set_conv_all_nth by (auto simp: nth_list_update)
  from assms(3) show ?thesis
  proof (cases rule: advance_cases)
    case look
    then show ?thesis using ok(2) by (intro goal) (simp_all add: acting_ok_def)
  next
    case create
    then show ?thesis using ok(2) by (intro goal) (simp_all add: acting_ok_def)
  next
    case (ask p acts d)
    then show ?thesis using ok(2) owner_actions_shape [OF ask(4)] by (intro goal) (simp_all add: acting_ok_def)
  next
    case (act p a acts d further)
    note mine = ok(2) [OF assms(2)] and hosts = perform_hosts [OF act(3)]
    have shape: "pending_actions (a # acts)" using mine act(1) by (simp add: acting_ok_def)
    show ?thesis
    proof (rule goal)
      show "acting_ok taken s' ((tasks sys ! i)\<lparr>task_phase := ph\<rparr>)"
        using pending_actions_tail [OF shape act(3)] before_cache [OF shape act(3)] act(2) hosts by (auto simp: acting_ok_def)
    next
      fix j
      assume j: "j < length (tasks sys)" "j \<noteq> i"
      have apart: "task_key (tasks sys ! j) \<noteq> task_key (tasks sys ! i)"
        if "a \<in> {CacheApproved, CacheDenied}" "task_phase (tasks sys ! j) = Acting q (b # rest) e" "b \<in> {CacheApproved, CacheDenied}" for q b rest e
      proof -
        have "pending_actions (b # rest)" using ok(2) [OF j(1)] that(2) by (simp add: acting_ok_def)
        then have "owned (task_phase (tasks sys ! j)) = Some q" using that(2,3) pending_actions_owner(3,4) by auto
        moreover have "owned (task_phase (tasks sys ! i)) = Some p"
          using that(1) shape act(1) pending_actions_owner(3,4) by auto
        ultimately show ?thesis using same_host_owner [OF ok(1) j(1) assms(2)] j(2) by blast
      qed
      show "acting_ok taken s' (tasks sys ! j)"
        using ok(2) [OF j(1)] hosts apart unfolding acting_ok_def by auto
    qed
  qed
qed

lemma progress_disjoint:
  assumes "system_ok taken sys" "i < length (tasks sys)" "advance ans (tasks sys ! i) (service sys) = Some (s', ph)"
  shows "session_approved_hosts s' \<inter> session_denied_hosts s' \<subseteq> taken"
proof -
  have ok: "acting_ok taken (service sys) (tasks sys ! i)" "session_approved_hosts (service sys) \<inter> session_denied_hosts (service sys) \<subseteq> taken"
    using assms(1,2) by (auto simp: system_ok_def)
  from assms(3) show ?thesis
  proof (cases rule: advance_cases)
    case (act p a acts d further)
    then show ?thesis using perform_hosts [OF act(3)] ok by (auto simp: acting_ok_def)
  qed (use ok in auto)
qed

lemma progress_objects:
  assumes "system_ok taken sys" "i < length (tasks sys)" "advance ans (tasks sys ! i) (service sys) = Some (s', ph)"
  shows "objects_known (moved sys i s' ph)"
proof -
  have ok: "objects_known sys" using assms(1) by (simp add: system_ok_def)
  have goal: ?thesis if "\<And>k p. pending_host_approvals s' k = Some p \<Longrightarrow> p < next_object s'"
    "\<And>p. ph = WaitForDecision p \<Longrightarrow> p < next_object s'" "next_object (service sys) \<le> next_object s'"
    using that ok set_update_subset_insert [of "tasks sys" i] unfolding objects_known_def by fastforce
  from assms(3) show ?thesis
  proof (cases rule: advance_cases)
    case look
    with ok show ?thesis by (intro goal) (auto simp: objects_known_def)
  next
    case create
    with ok show ?thesis by (intro goal) (auto simp: objects_known_def less_Suc_eq split: if_splits)
  next
    case (ask p acts d)
    with ok show ?thesis by (intro goal) (auto simp: objects_known_def)
  next
    case (act p a acts d further)
    with ok perform_pending [OF act(3)] show ?thesis by (intro goal) (auto simp: objects_known_def split: if_splits)
  qed
qed

lemma progress_answers:
  assumes "system_ok taken sys" "i < length (tasks sys)" "advance ans (tasks sys ! i) (service sys) = Some (s', ph)"
  shows "answers_coming (moved sys i s' ph)"
proof -
  let ?old = "task_phase (tasks sys ! i)"
  have ok: "answers_coming sys" "acting_ok taken (service sys) (tasks sys ! i)" using assms(1,2) by (auto simp: system_ok_def)
  have goal: ?thesis if any: "\<And>q. q < next_object s' \<Longrightarrow> pending_objects s' q = None \<Longrightarrow>
      will_decide ph q \<or> \<not> will_decide ?old q \<and> q < next_object (service sys) \<and> pending_objects (service sys) q = None"
    unfolding answers_coming_def
  proof (intro allI impI)
    fix q
    assume "q < next_object (service (moved sys i s' ph))" "pending_objects (service (moved sys i s' ph)) q = None"
    then consider "will_decide ph q"
      | "\<not> will_decide ?old q" "q < next_object (service sys)" "pending_objects (service sys) q = None"
      using any [of q] by auto
    then show "\<exists>t \<in> set (tasks (moved sys i s' ph)). will_decide (task_phase t) q"
    proof cases
      case 1
      then show ?thesis using set_update_memI [OF assms(2)]
        by (intro bexI [of _ "(tasks sys ! i)\<lparr>task_phase := ph\<rparr>"]) simp_all
    next
      case 2
      then obtain j where j: "j < length (tasks sys)" "will_decide (task_phase (tasks sys ! j)) q"
        using ok(1) unfolding answers_coming_def by (metis in_set_conv_nth)
      with 2 have "j \<noteq> i" by auto
      with j have "tasks sys ! j \<in> set (tasks (moved sys i s' ph))" by (metis nth_list_update_neq nth_mem length_list_update network_system.select_convs(2))
      with j show ?thesis by blast
    qed
  qed
  from assms(3) show ?thesis
  proof (cases rule: advance_cases)
    case look
    then show ?thesis by (intro goal) auto
  next
    case create
    then show ?thesis by (intro goal) (auto simp: less_Suc_eq split: if_splits)
  next
    case (ask p acts d)
    then show ?thesis using owner_actions_shape [OF ask(4)] by (intro goal) auto
  next
    case (act p a acts d further)
    show ?thesis
      using act perform_pending [OF act(3)] perform_objects [OF act(3)]
      by (intro goal) (auto split: owner_action.splits if_splits)
  qed
qed


lemma progressD:
  assumes "progress sys sys'"
  obtains i ans s ph where "i < length (tasks sys)" "advance ans (tasks sys ! i) (service sys) = Some (s, ph)" "sys' = moved sys i s ph"
  using assms by (rule progressE) (rule that)

lemma progress_ok:
  assumes "progress sys sys'" "system_ok taken sys"
  shows "system_ok taken sys'"
proof -
  obtain i ans s ph where m: "i < length (tasks sys)" "advance ans (tasks sys ! i) (service sys) = Some (s, ph)"
    and sys': "sys' = moved sys i s ph"
    using assms(1) by (rule progressD)
  note prems = assms(2) m
  show ?thesis
    unfolding system_ok_def sys'
    using progress_single_owner [OF prems] progress_acting_ok [OF prems] progress_disjoint [OF prems] progress_objects [OF prems]
      progress_answers [OF prems]
    by simp
qed

lemma new_task_ok: "system_ok taken sys \<Longrightarrow> system_ok taken (sys\<lparr>tasks := tasks sys @ [new_task request]\<rparr>)"
  unfolding system_ok_def
proof (elim conjE, intro conjI)
  assume "single_owner sys"
  moreover have "owned (task_phase ((tasks sys @ [new_task request]) ! i)) = Some p \<Longrightarrow> i < length (tasks sys @ [new_task request]) \<Longrightarrow>
      i < length (tasks sys) \<and> owned (task_phase (tasks sys ! i)) = Some p" for i p
    by (cases "i = length (tasks sys)") (auto simp: new_task_def nth_append)
  moreover have "task_key ((tasks sys @ [new_task request]) ! i) = task_key (tasks sys ! i)" if "i < length (tasks sys)" for i
    using that by (simp add: nth_append)
  ultimately show "single_owner (sys\<lparr>tasks := tasks sys @ [new_task request]\<rparr>)"
    unfolding single_owner_def by simp
qed (auto simp: acting_ok_def answers_coming_def objects_known_def new_task_def)

lemma serve_fields [simp]:
  "pending_host_approvals (serve c s) = pending_host_approvals s" "session_approved_hosts (serve c s) = session_approved_hosts s"
  "session_denied_hosts (serve c s) = session_denied_hosts s" "pending_objects (serve c s) = pending_objects s"
  "next_object (serve c s) = next_object s"
  by (cases c; auto simp: register_call_def unregister_call_def take_call_outcome_def record_blocked_request_def
      record_outcome_for_single_active_call_def record_call_outcome_def split: option.split)+

lemma served_ok: "system_ok taken sys \<Longrightarrow> system_ok taken (sys\<lparr>service := serve c (service sys)\<rparr>)"
  by (simp add: system_ok_def single_owner_def acting_ok_def answers_coming_def objects_known_def)

lemma synced_ok:
  assumes "system_ok taken sys"
  shows "system_ok (taken \<union> session_approved_hosts other) (sys\<lparr>service := sync_session_approved_hosts_to other (service sys)\<rparr>)"
proof -
  have "acting_ok (taken \<union> session_approved_hosts other) (sync_session_approved_hosts_to other (service sys)) t" if "t \<in> set (tasks sys)" for t
    using assms that by (auto simp: system_ok_def acting_ok_def sync_session_approved_hosts_to_def)
  then show ?thesis
    using assms by (auto simp: system_ok_def single_owner_def answers_coming_def objects_known_def sync_session_approved_hosts_to_def)
qed

lemma system_step_ok: "system_step sys sys' \<Longrightarrow> system_ok taken sys \<Longrightarrow> system_ok taken sys'"
  by (erule system_stepE) (auto intro: progress_ok new_task_ok served_ok)

lemma reachable_ok: "reachable taken sys \<Longrightarrow> system_ok taken sys"
proof (induction rule: reachable.induct)
  case reachable_start
  show ?case
    by (simp add: initial_system_def default_service_def system_ok_def single_owner_def answers_coming_def objects_known_def)
next
  case (reachable_sync taken sys other)
  then show ?case using synced_ok by blast
qed (rule system_step_ok)

text \<open>A schedule of the system, to reach concrete states.\<close>

datatype system_event = Arrive network_policy_request | Move nat approval_answers | Call service_call

fun occur :: "system_event \<Rightarrow> network_system \<Rightarrow> network_system" where
  "occur (Arrive request) sys = sys\<lparr>tasks := tasks sys @ [new_task request]\<rparr>"
| "occur (Move i ans) sys =
     (if i < length (tasks sys) then
        (case advance ans (tasks sys ! i) (service sys) of None \<Rightarrow> sys | Some (s, ph) \<Rightarrow> moved sys i s ph)
      else sys)"
| "occur (Call c) sys = sys\<lparr>service := serve c (service sys)\<rparr>"

lemma occur_reachable: "reachable taken sys \<Longrightarrow> reachable taken (occur e sys)"
  by (cases "(e, sys)" rule: occur.cases)
    (auto split: option.split intro: reachable_step request_arrives call_served task_advances progress.intros)

lemma schedule_reachable: "reachable taken sys \<Longrightarrow> reachable taken (fold occur es sys)"
  by (induction es arbitrary: sys) (auto intro: occur_reachable)

section \<open>What the service guarantees\<close>


definition sample_network_request :: network_policy_request where
  "sample_network_request = \<lparr>nr_protocol = ProtoHttpsConnect, nr_host = ''Example.com'', nr_port = 443\<rparr>"

definition sample_answers :: "review_decision \<Rightarrow> approval_answers" where
  "sample_answers r = \<lparr>ans_turn = Some (WorkspaceWrite [] FullAccess False False False, OnRequest), ans_hook = None,
     ans_guardian_review_id = None, ans_review = r, ans_rejection_message = [], ans_timeout_message = []\<rparr>"

text \<open>
  Two requests for one host have passed the checks; the first is approved for the session, then the second arrives at the map.
  The user is asked again, and now denies the host for good.
\<close>

definition two_requests :: "system_event list" where
  "two_requests = [Arrive sample_network_request, Arrive sample_network_request] @
     replicate 2 (Move 1 (sample_answers Approved)) @ replicate 9 (Move 0 (sample_answers ApprovedForSession)) @
     replicate 9 (Move 1 (sample_answers (NetworkPolicyAmendment \<lparr>na_host = ''example.com'', na_action = RuleDeny\<rparr>)))"

lemma asked_again_after_approval:
  "map task_phase (tasks (fold occur two_requests initial_system)) = [Finished NetworkAllow, Finished (network_deny REASON_NOT_ALLOWED)]"
  by code_simp

text \<open>A host is denied for the session and then taken over as approved: it is in both sets, and the next request for it is denied.\<close>

definition denied_then_taken :: network_system where
  "denied_then_taken =
     (let sys = fold occur (Arrive sample_network_request # replicate 9 (Move 0
          (sample_answers (NetworkPolicyAmendment \<lparr>na_host = ''example.com'', na_action = RuleDeny\<rparr>)))) initial_system;
        key = key_from_request sample_network_request ApproveHttps
      in fold occur [Arrive sample_network_request, Move 1 (sample_answers Approved)]
           (sys\<lparr>service := sync_session_approved_hosts_to (default_service\<lparr>session_approved_hosts := {key}\<rparr>) (service sys)\<rparr>))"

lemma denied_then_taken_is_denied:
  "key_from_request sample_network_request ApproveHttps \<in> session_approved_hosts (service denied_then_taken) \<inter> session_denied_hosts (service denied_then_taken)"
  "map task_phase (tasks denied_then_taken) = [Finished (network_deny REASON_NOT_ALLOWED), Finished (network_deny REASON_NOT_ALLOWED)]"
  by code_simp+


section \<open>Every request is answered\<close>

fun action_weight :: "owner_action \<Rightarrow> nat" where
  "action_weight (RecordForSingleCall _) = 2"
| "action_weight _ = 1"

fun phase_weight :: "phase \<Rightarrow> nat" where
  "phase_weight CheckDenied = 11"
| "phase_weight CheckApproved = 10"
| "phase_weight GetPending = 9"
| "phase_weight (Asking _) = 8"
| "phase_weight (Acting _ acts _) = 1 + sum_list (map action_weight acts)"
| "phase_weight (WaitForDecision _) = 1"
| "phase_weight (Finished _) = 0"

lemma owner_actions_weight: "sum_list (map action_weight (fst (owner_actions ans key host owner_call))) \<le> 5"
proof -
  have recorded_weight: "sum_list (map action_weight (record_owner_outcome owner_call out)) \<le> 1" for out
    by (simp add: record_owner_outcome_def split: option.split)
  have review: "resolve_review ans owner_call r = (recorded, resolved, cache) \<Longrightarrow>
      sum_list (map action_weight recorded) \<le> 1 \<and> (cache \<longrightarrow> resolved \<noteq> AllowForSession)" for r recorded resolved cache
    using recorded_weight by (cases "(ans, owner_call, r)" rule: resolve_review.cases) (auto split: network_policy_rule_action.splits)
  have hook: "sum_list (map action_weight (record_owner_outcome owner_call out)) \<le> 3" for out
    using recorded_weight [of out] by simp
  show ?thesis
    using hook by (auto simp: owner_actions_def Let_def split: option.split prod.split permission_request_decision.split dest!: review)
qed

lemma advance_weight:
  assumes "advance ans t s = Some (s', ph)"
  shows "phase_weight ph < phase_weight (task_phase t)"
proof (cases "task_phase t")
  case (Acting p acts d)
  have "perform key p a s = (s2, further) \<Longrightarrow> sum_list (map action_weight further) < action_weight a" for a s2 further key
    by (cases a) (auto simp: record_owner_outcome_def split: option.splits)
  with Acting assms show ?thesis by (cases acts) (auto simp: advance.simps split: prod.splits)
next
  case (Asking p)
  with assms owner_actions_weight [of ans "task_key t" "task_host t" "resolve_single_active_call s"] show ?thesis
    by (auto simp: advance.simps split: prod.splits)
qed (use assms in \<open>auto simp: advance.simps get_or_create_pending_approval_def Let_def split: if_splits option.splits\<close>)

definition unfinished :: "network_system \<Rightarrow> nat" where
  "unfinished sys = sum_list (map (\<lambda>t. phase_weight (task_phase t)) (tasks sys))"

lemma progress_weight:
  assumes "progress sys sys'"
  shows "unfinished sys' < unfinished sys"
proof -
  obtain i ans s ph where 1: "sys' = moved sys i s ph" "i < length (tasks sys)" "advance ans (tasks sys ! i) (service sys) = Some (s, ph)"
    using assms by (rule progressD)
  let ?ws = "map (\<lambda>t. phase_weight (task_phase t)) (tasks sys)"
  have "phase_weight ph < ?ws ! i" using advance_weight [OF 1(3)] 1(2) by simp
  moreover have "?ws ! i \<le> sum_list ?ws" using 1(2) by (intro member_le_sum_list) simp_all
  ultimately show ?thesis using 1(1,2) by (simp add: unfinished_def map_update sum_list_update)
qed

lemma unfinished_bound: "unfinished sys' + n \<le> unfinished sys" if "(progress ^^ n) sys sys'"
  using that by (induction n arbitrary: sys') (auto dest!: progress_weight, fastforce)

lemma phases_bounded:
  assumes "reachable taken sys" "t \<in> set (tasks sys)"
  shows "phase_weight (task_phase t) \<le> 11"
  using assms
proof (induction arbitrary: t rule: reachable.induct)
  case (reachable_step taken sys sys')
  from reachable_step(2) show ?case
  proof (cases rule: system_step.cases)
    case task_advances
    then obtain i ans s ph where i: "i < length (tasks sys)" "advance ans (tasks sys ! i) (service sys) = Some (s, ph)"
        "sys' = moved sys i s ph"
      by (auto elim: progressD)
    then have "t \<in> set (tasks sys) \<or> t = (tasks sys ! i)\<lparr>task_phase := ph\<rparr>"
      using reachable_step(4) set_update_subset_insert [of "tasks sys" i] by auto
    then show ?thesis
    proof
      assume "t = (tasks sys ! i)\<lparr>task_phase := ph\<rparr>"
      then show ?thesis using advance_weight [OF i(2)] reachable_step(3) [of "tasks sys ! i"] i(1) by simp
    qed (rule reachable_step(3))
  qed (use reachable_step in \<open>auto simp: new_task_def\<close>)
next
  case (reachable_sync taken sys other)
  then show ?case by simp
qed (simp add: initial_system_def)

lemma can_move:
  assumes "t \<in> set (tasks sys)" "advance ans t (service sys) \<noteq> None"
  shows "\<exists>sys'. progress sys sys'"
  using assms by (auto simp: in_set_conv_nth intro!: progress.intros)

lemma not_stuck:
  assumes "system_ok taken sys" "t \<in> set (tasks sys)" "\<And>d. task_phase t \<noteq> Finished d"
  shows "\<exists>sys'. progress sys sys'"
proof (cases "\<exists>p. task_phase t = WaitForDecision p \<and> pending_objects (service sys) p = None")
  case True
  then obtain p where "p < next_object (service sys)" "pending_objects (service sys) p = None"
    using assms(1,2) by (auto simp: system_ok_def objects_known_def)
  then obtain u where u: "u \<in> set (tasks sys)" "will_decide (task_phase u) p"
    using assms(1) by (auto simp: system_ok_def answers_coming_def)
  have "advance (sample_answers Denied) u (service sys) \<noteq> None"
  proof (cases "task_phase u")
    case (Acting q acts d)
    then show ?thesis by (cases acts) (auto simp: advance.simps split: prod.splits)
  qed (use u(2) in \<open>auto simp: advance.simps split: prod.splits\<close>)
  with u(1) show ?thesis by (rule can_move)
next
  case False
  have "advance (sample_answers Denied) t (service sys) \<noteq> None"
  proof (cases "task_phase t")
    case (Acting p acts d)
    then show ?thesis by (cases acts) (auto simp: advance.simps split: prod.splits)
  qed (use False assms(3) in \<open>auto simp: advance.simps split: prod.splits\<close>)
  with assms(2) show ?thesis by (rule can_move)
qed


text \<open>
  C17 (every_request_answered). No request waits for ever: from every reachable state, whatever the users and hooks answer, the tasks
  together make at most eleven moves per request, and as long as some request has no answer, some task can move. A request that waits
  for the answer to another one is included: whoever owns the question settles it.
\<close>

theorem every_request_answered:
  assumes "reachable taken sys" "(progress ^^ n) sys sys'"
  shows "n \<le> 11 * length (tasks sys) \<and>
    ((\<exists>sys''. progress sys' sys'') \<or> (\<forall>t \<in> set (tasks sys'). \<exists>d. task_phase t = Finished d))"
proof -
  have "unfinished sys \<le> sum_list (map (\<lambda>t. 11) (tasks sys))"
    unfolding unfinished_def by (rule sum_list_mono) (rule phases_bounded [OF assms(1)])
  then have "n \<le> 11 * length (tasks sys)" using unfinished_bound [OF assms(2)] by (simp add: sum_list_triv mult.commute)
  moreover have "system_ok taken sys'"
    using assms(2) reachable_ok [OF assms(1)] by (induction n arbitrary: sys') (auto intro: progress_ok)
  then have "(\<exists>sys''. progress sys' sys'') \<or> (\<forall>t \<in> set (tasks sys'). \<exists>d. task_phase t = Finished d)"
    using not_stuck by blast
  ultimately show ?thesis ..
qed

theorem every_request_answered_witness:
  "\<exists>sys'. progress (fold occur [Arrive sample_network_request] initial_system) sys'"
proof -
  let ?sys = "fold occur [Arrive sample_network_request] initial_system"
  have "\<exists>t \<in> set (tasks ?sys). task_phase t = CheckDenied" by (simp add: initial_system_def new_task_def)
  moreover have "reachable {} ?sys" by (rule schedule_reachable [OF reachable_start])
  ultimately show ?thesis using every_request_answered [of "{}" ?sys 0 ?sys] by fastforce
qed

end
