(* ===== verification/Exec_Output.thy ===== *)
theory Exec_Output
  imports Patch_Safety Network_Approval
begin

text \<open>
  What an execution leaves behind: \<open>codex-rs/protocol/src/exec_output.rs\<close>, the errors of \<open>protocol/src/error.rs\<close> that the
  tools tell apart, and from \<open>core/src/exec.rs\<close> the joining of the two output streams and the judgement whether a failure looks
  like a denial by the sandbox. The detection of text encodings and \<open>str::to_lowercase\<close> (which follows the tables of Unicode) are
  arguments.
\<close>

section \<open>Outputs and errors\<close>

record 'a stream_output =
  out_text :: 'a
  truncated_after_lines :: "32 word option"

definition stream_new :: "string \<Rightarrow> string stream_output" where
  "stream_new text = \<lparr>out_text = text, truncated_after_lines = None\<rparr>"

definition from_utf8_lossy :: "(string \<Rightarrow> string) \<Rightarrow> string stream_output \<Rightarrow> string stream_output" where
  "from_utf8_lossy bytes_to_string_smart s =
     \<lparr>out_text = bytes_to_string_smart (out_text s), truncated_after_lines = truncated_after_lines s\<rparr>"

record exec_tool_call_output =
  exit_code :: int
  exec_stdout :: "string stream_output"
  exec_stderr :: "string stream_output"
  aggregated_output :: "string stream_output"
  duration :: nat
  timed_out :: bool

record network_policy_decision_payload =
  pd_decision :: network_policy_decision
  pd_source :: network_decision_source
  pd_protocol :: "network_approval_protocol option"
  pd_host :: "string option"
  pd_reason :: "string option"
  pd_port :: "16 word option"

datatype sandbox_err =
    SandboxDenied exec_tool_call_output "network_policy_decision_payload option"
  | SeccompError string
  | SandboxTimeout exec_tool_call_output
  | SandboxSignal int
  | LandlockRestrict

text \<open>Of the errors of the program only those of the sandbox are told apart here.\<close>

datatype codex_err = SandboxError sandbox_err | OtherCodexErr string

section \<open>Joining the streams\<close>

definition append_capped :: "string \<Rightarrow> string \<Rightarrow> nat \<Rightarrow> string" where
  "append_capped dst src max_bytes =
     (if max_bytes \<le> length dst then dst else dst @ take (min (max_bytes - length dst) (length src)) src)"

definition aggregate_output :: "string stream_output \<Rightarrow> string stream_output \<Rightarrow> nat option \<Rightarrow> string stream_output" where
  "aggregate_output so se limit =
     (let out = out_text so; err = out_text se
      in case limit of
           None \<Rightarrow> stream_new (out @ err)
         | Some max_bytes \<Rightarrow>
             if length out + length err \<le> max_bytes then stream_new (out @ err)
             else
               let want_stdout = min (length out) (max_bytes div 3);
                   want_stderr = length err;
                   stderr_take = min want_stderr (max_bytes - want_stdout);
                   remaining = max_bytes - (want_stdout + stderr_take);
                   stdout_take = want_stdout + min remaining (length out - want_stdout)
               in stream_new (take stdout_take out @ take stderr_take err))"

section \<open>Denials by the sandbox\<close>

text \<open>\<open>str::contains\<close> on bytes.\<close>

fun str_contains :: "string \<Rightarrow> string \<Rightarrow> bool" where
  "str_contains needle [] \<longleftrightarrow> needle = []"
| "str_contains needle (c # s) \<longleftrightarrow> take (length needle) (c # s) = needle \<or> str_contains needle s"

definition SANDBOX_DENIED_KEYWORDS :: "string list" where
  "SANDBOX_DENIED_KEYWORDS = [''operation not permitted'', ''permission denied'', ''read-only file system'', ''seccomp'', ''sandbox'',
     ''landlock'', ''failed to write file'']"

definition QUICK_REJECT_EXIT_CODES :: "int list" where
  "QUICK_REJECT_EXIT_CODES = [2, 126, 127]"

definition EXIT_CODE_SIGNAL_BASE :: int where "EXIT_CODE_SIGNAL_BASE = 128"

definition TIMEOUT_CODE :: int where "TIMEOUT_CODE = 64"

definition EXEC_TIMEOUT_EXIT_CODE :: int where "EXEC_TIMEOUT_EXIT_CODE = 124"

text \<open>The number of the signal \<open>SIGSYS\<close> belongs to the C library and is an argument.\<close>

definition is_likely_sandbox_denied :: "(string \<Rightarrow> string) \<Rightarrow> int \<Rightarrow> sandbox_type \<Rightarrow> exec_tool_call_output \<Rightarrow> bool" where
  "is_likely_sandbox_denied to_lowercase sigsys sandbox output =
     (if sandbox = NoSandbox \<or> exit_code output = 0 then False
      else if list_ex (\<lambda>section. list_ex (\<lambda>needle. str_contains needle (to_lowercase section)) SANDBOX_DENIED_KEYWORDS)
             [out_text (exec_stderr output), out_text (exec_stdout output), out_text (aggregated_output output)] then True
      else if exit_code output \<in> set QUICK_REJECT_EXIT_CODES then False
      else if sandbox = LinuxSeccomp \<and> exit_code output = EXIT_CODE_SIGNAL_BASE + sigsys then True
      else False)"

record exit_status =
  status_code :: "int option"
  status_signal :: "int option"

record raw_exec_tool_call_output =
  raw_exit_status :: exit_status
  raw_stdout :: "string stream_output"
  raw_stderr :: "string stream_output"
  raw_aggregated_output :: "string stream_output"
  raw_timed_out :: bool

definition judge_exec_output ::
  "(string \<Rightarrow> string) \<Rightarrow> int \<Rightarrow> sandbox_type \<Rightarrow> exec_tool_call_output \<Rightarrow> (codex_err, exec_tool_call_output) result" where
  "judge_exec_output to_lowercase sigsys sandbox output =
     (if timed_out output then Err (SandboxError (SandboxTimeout output))
      else if is_likely_sandbox_denied to_lowercase sigsys sandbox output then Err (SandboxError (SandboxDenied output None))
      else Ok output)"

definition finalize_exec_result ::
  "(string \<Rightarrow> string) \<Rightarrow> (string \<Rightarrow> string) \<Rightarrow> int \<Rightarrow> (codex_err, raw_exec_tool_call_output) result \<Rightarrow> sandbox_type \<Rightarrow> nat \<Rightarrow>
   (codex_err, exec_tool_call_output) result" where
  "finalize_exec_result bytes_to_string_smart to_lowercase sigsys raw_output_result sandbox elapsed =
     (case raw_output_result of
        Err err \<Rightarrow> Err err
      | Ok raw \<Rightarrow>
          let signal = status_signal (raw_exit_status raw);
              timeout = (raw_timed_out raw \<or> signal = Some TIMEOUT_CODE);
              code = (case status_code (raw_exit_status raw) of Some c \<Rightarrow> c | None \<Rightarrow> - 1)
          in if signal \<noteq> None \<and> signal \<noteq> Some TIMEOUT_CODE then Err (SandboxError (SandboxSignal (the signal)))
             else judge_exec_output to_lowercase sigsys sandbox
               \<lparr>exit_code = (if timeout then EXEC_TIMEOUT_EXIT_CODE else code),
                exec_stdout = from_utf8_lossy bytes_to_string_smart (raw_stdout raw),
                exec_stderr = from_utf8_lossy bytes_to_string_smart (raw_stderr raw),
                aggregated_output = from_utf8_lossy bytes_to_string_smart (raw_aggregated_output raw),
                duration = elapsed, timed_out = timeout\<rparr>)"

section \<open>Properties\<close>

text \<open>The joined output is as long as the limit allows and consists of a prefix of each stream; the error stream is cut only
  after it has two thirds of the room, and the output only after it has one third.\<close>

lemma share_out:
  fixes limit n m w i j :: nat
  assumes "t \<le> limit" "limit < n + m" "w = min n t" "j = min m (limit - w)" "i = w + min (limit - (w + j)) (n - w)"
  shows "i \<le> n \<and> j \<le> m \<and> i + j = limit \<and> (j < m \<longrightarrow> limit - t \<le> j) \<and> (i < n \<longrightarrow> t \<le> i)"
  using assms by (cases "n \<le> t"; cases "m \<le> limit - w") (auto simp: min_def)

lemma aggregate_output_shape:
  assumes "out_text (aggregate_output so se (Some limit)) = joined"
  obtains i j where "joined = take i (out_text so) @ take j (out_text se)" "i \<le> length (out_text so)"
    "j \<le> length (out_text se)" "i + j = min limit (length (out_text so) + length (out_text se))"
    "j < length (out_text se) \<Longrightarrow> limit - limit div 3 \<le> j" "i < length (out_text so) \<Longrightarrow> limit div 3 \<le> i"
proof -
  define out err where out_err_def: "out = out_text so" "err = out_text se"
  show thesis
  proof (cases "length out + length err \<le> limit")
    case True
    then have "joined = take (length out) out @ take (length err) err"
      using assms by (simp add: aggregate_output_def stream_new_def Let_def out_err_def)
    with True show thesis by (intro that) (auto simp: out_err_def)
  next
    case False
    define i where "i = min (length out) (limit div 3)
      + min (limit - (min (length out) (limit div 3) + min (length err) (limit - min (length out) (limit div 3))))
            (length out - min (length out) (limit div 3))"
    define j where "j = min (length err) (limit - min (length out) (limit div 3))"
    have "joined = take i out @ take j err"
      using False unfolding assms [symmetric] i_def j_def
      by (simp only: aggregate_output_def Let_def option.case if_False stream_new_def stream_output.simps out_err_def)
    moreover have "limit div 3 \<le> limit" "limit < length out + length err" using False by simp_all
    note share_out [OF this refl j_def i_def [folded j_def]]
    moreover have "min limit (length out + length err) = limit" using False by simp
    ultimately show thesis by (intro that [of i j]) (simp_all add: out_err_def [symmetric])
  qed
qed

lemma append_capped_length: "length (append_capped dst src limit) = max (length dst) (min limit (length dst + length src))"
  by (auto simp: append_capped_def)

text \<open>A process that was not in a sandbox is never reported as denied by one.\<close>

lemma unsandboxed_never_denied:
  "finalize_exec_result decode to_lowercase sigsys raw NoSandbox elapsed \<noteq> Err (SandboxError (SandboxDenied output decision))"
  if "raw \<noteq> Err (SandboxError (SandboxDenied output decision))"
  using that
  by (auto simp: finalize_exec_result_def judge_exec_output_def is_likely_sandbox_denied_def Let_def split: sum.splits)

end
