(* ===== verification/Permission_Profiles.thy ===== *)
theory Permission_Profiles
  imports Permission_Rules "HOL-Library.Multiset"
begin

text \<open>
  \<open>codex-rs/sandboxing/src/policy_transforms.rs\<close> and the permission profiles of \<open>protocol/src/models.rs\<close>: permissions that are
  requested for one command or granted for a turn, how they are merged into the policies of the turn and intersected with what was asked for.
  A \<open>NonZeroUsize\<close> is a natural number that is not zero.
\<close>

section \<open>Profiles\<close>

record file_system_permissions =
  perm_entries :: "file_system_sandbox_entry list"
  perm_glob_depth :: "nat option"

record network_permissions =
  net_enabled :: "bool option"

record permission_profile =
  prof_network :: "network_permissions option"
  prof_file_system :: "file_system_permissions option"

definition non_zero :: "nat option \<Rightarrow> nat option" where
  "non_zero d = (case d of Some 0 \<Rightarrow> None | _ \<Rightarrow> d)"

definition fs_perm_is_empty :: "file_system_permissions \<Rightarrow> bool" where
  "fs_perm_is_empty f \<longleftrightarrow> perm_entries f = []"

definition net_perm_is_empty :: "network_permissions \<Rightarrow> bool" where
  "net_perm_is_empty n \<longleftrightarrow> net_enabled n = None"

definition profile_is_empty :: "permission_profile \<Rightarrow> bool" where
  "profile_is_empty p \<longleftrightarrow> prof_network p = None \<and> prof_file_system p = None"

definition from_read_write_roots :: "string list option \<Rightarrow> string list option \<Rightarrow> file_system_permissions" where
  "from_read_write_roots read write =
     \<lparr>perm_entries = (case read of None \<Rightarrow> [] | Some ps \<Rightarrow> map (\<lambda>path. entry_of (ExactPath path) Read) ps) @
        (case write of None \<Rightarrow> [] | Some ps \<Rightarrow> map (\<lambda>path. entry_of (ExactPath path) Write) ps), perm_glob_depth = None\<rparr>"

definition explicit_path_entries :: "file_system_permissions \<Rightarrow> (string \<times> file_system_access_mode) list" where
  "explicit_path_entries f =
     List.map_filter (\<lambda>entry. case entry_path entry of ExactPath path \<Rightarrow> Some (path, entry_access entry) | _ \<Rightarrow> None) (perm_entries f)"

fun legacy_entries :: "file_system_sandbox_entry list \<Rightarrow> string list \<Rightarrow> string list \<Rightarrow> (string list \<times> string list) option" where
  "legacy_entries [] read write = Some (read, write)"
| "legacy_entries (entry # es) read write =
     (case entry_path entry of
        ExactPath path \<Rightarrow>
          (case entry_access entry of
             Read \<Rightarrow> legacy_entries es (read @ [path]) write
           | Write \<Rightarrow> legacy_entries es read (write @ [path])
           | Deny \<Rightarrow> None)
      | _ \<Rightarrow> None)"

definition as_legacy_permissions :: "file_system_permissions \<Rightarrow> (string list option \<times> string list option) option" where
  "as_legacy_permissions f =
     (if perm_glob_depth f \<noteq> None then None
      else map_option (\<lambda>(read, write). (if read = [] then None else Some read, if write = [] then None else Some write))
        (legacy_entries (perm_entries f) [] []))"

text \<open>The object a profile is written to: the fields that are present.\<close>

record fs_permissions_object =
  obj_read :: "string list option"
  obj_write :: "string list option"
  obj_entries :: "file_system_sandbox_entry list option"
  obj_glob_scan_max_depth :: "nat option"

definition serialize_fs :: "file_system_permissions \<Rightarrow> fs_permissions_object" where
  "serialize_fs f =
     (case as_legacy_permissions f of
        Some (read, write) \<Rightarrow> \<lparr>obj_read = read, obj_write = write, obj_entries = None, obj_glob_scan_max_depth = None\<rparr>
      | None \<Rightarrow> \<lparr>obj_read = None, obj_write = None, obj_entries = (if perm_entries f = [] then None else Some (perm_entries f)),
          obj_glob_scan_max_depth = perm_glob_depth f\<rparr>)"

text \<open>The canonical form is tried first, then the legacy form; both refuse fields they do not know, and zero is no depth.\<close>

definition deserialize_fs :: "fs_permissions_object \<Rightarrow> file_system_permissions option" where
  "deserialize_fs obj =
     (if obj_read obj = None \<and> obj_write obj = None \<and> obj_glob_scan_max_depth obj \<noteq> Some 0 then
        Some \<lparr>perm_entries = (case obj_entries obj of None \<Rightarrow> [] | Some es \<Rightarrow> es), perm_glob_depth = obj_glob_scan_max_depth obj\<rparr>
      else if obj_entries obj = None \<and> obj_glob_scan_max_depth obj = None then Some (from_read_write_roots (obj_read obj) (obj_write obj))
      else None)"

definition fs_permissions_of :: "file_system_sandbox_policy \<Rightarrow> file_system_permissions" where
  "fs_permissions_of p =
     \<lparr>perm_entries = (if fs_kind p = Restricted then fs_entries p else [entry_of (Special Root) Write]),
      perm_glob_depth = non_zero (glob_scan_max_depth p)\<rparr>"

definition fs_policy_of :: "file_system_permissions \<Rightarrow> file_system_sandbox_policy" where
  "fs_policy_of f = (restricted (perm_entries f))\<lparr>glob_scan_max_depth := perm_glob_depth f\<rparr>"

definition from_runtime_permissions :: "file_system_sandbox_policy \<Rightarrow> network_sandbox_policy \<Rightarrow> permission_profile" where
  "from_runtime_permissions p net =
     \<lparr>prof_network = Some \<lparr>net_enabled = Some (network_is_enabled net)\<rparr>, prof_file_system = Some (fs_permissions_of p)\<rparr>"

definition profile_fs_policy :: "permission_profile \<Rightarrow> file_system_sandbox_policy" where
  "profile_fs_policy profile = (case prof_file_system profile of None \<Rightarrow> restricted [] | Some f \<Rightarrow> fs_policy_of f)"

definition network_grants :: "network_permissions option \<Rightarrow> bool" where
  "network_grants n = (case n of Some net \<Rightarrow> net_enabled net = Some True | None \<Rightarrow> False)"

definition profile_network_policy :: "permission_profile \<Rightarrow> network_sandbox_policy" where
  "profile_network_policy profile = (if network_grants (prof_network profile) then NetworkEnabled else NetworkRestricted)"

section \<open>Additional permissions\<close>

definition msg_glob_only_deny :: string where
  "msg_glob_only_deny = ''glob file system permissions only support deny-read entries''"

definition canonical_entry :: "fs_probe \<Rightarrow> file_system_sandbox_entry \<Rightarrow> file_system_sandbox_entry" where
  "canonical_entry pr entry =
     (case entry_path entry of
        ExactPath path \<Rightarrow>
          entry_of (ExactPath (case canonicalize_preserving_symlinks pr path of
              None \<Rightarrow> path
            | Some canonical \<Rightarrow> (case to_absolute pr canonical of None \<Rightarrow> path | Some q \<Rightarrow> q))) (entry_access entry)
      | path \<Rightarrow> entry_of path (entry_access entry))"

fun normalize_entries :: "fs_probe \<Rightarrow> file_system_sandbox_entry list \<Rightarrow> file_system_sandbox_entry list \<Rightarrow>
    (string, file_system_sandbox_entry list) result" where
  "normalize_entries pr [] acc = Ok acc"
| "normalize_entries pr (entry # es) acc =
     (if (case entry_path entry of GlobPattern _ \<Rightarrow> True | _ \<Rightarrow> False) \<and> entry_access entry \<noteq> Deny then Err msg_glob_only_deny
      else
        (let normalized_entry = canonical_entry pr entry in
         normalize_entries pr es (if normalized_entry \<in> set acc then acc else acc @ [normalized_entry])))"

definition normalize_additional_permissions :: "fs_probe \<Rightarrow> permission_profile \<Rightarrow> (string, permission_profile) result" where
  "normalize_additional_permissions pr profile =
     (let network = (case prof_network profile of Some n \<Rightarrow> if net_perm_is_empty n then None else Some n | None \<Rightarrow> None) in
      case prof_file_system profile of
        None \<Rightarrow> Ok \<lparr>prof_network = network, prof_file_system = None\<rparr>
      | Some f \<Rightarrow>
          map_sum id (\<lambda>es.
            let normalized = \<lparr>perm_entries = es, perm_glob_depth = perm_glob_depth f\<rparr> in
            \<lparr>prof_network = network, prof_file_system = (if fs_perm_is_empty normalized then None else Some normalized)\<rparr>)
            (normalize_entries pr (perm_entries f) []))"

text \<open>How deep globs are scanned: a bound only when all entries that need one have one.\<close>

datatype glob_scan_depth = Bounded nat | Unbounded

definition effective_glob_scan_depth :: "file_system_sandbox_entry list \<Rightarrow> nat option \<Rightarrow> glob_scan_depth option" where
  "effective_glob_scan_depth es depth =
     (if list_ex (\<lambda>entry. entry_access entry = Deny \<and> (case entry_path entry of GlobPattern _ \<Rightarrow> True | _ \<Rightarrow> False)) es
      then Some (case depth of Some d \<Rightarrow> Bounded d | None \<Rightarrow> Unbounded) else None)"

definition merge_glob_scan_max_depth :: "file_system_sandbox_entry list \<Rightarrow> nat option \<Rightarrow> file_system_sandbox_entry list \<Rightarrow>
    nat option \<Rightarrow> nat option" where
  "merge_glob_scan_max_depth left_entries left_depth right_entries right_depth =
     (case (effective_glob_scan_depth left_entries left_depth, effective_glob_scan_depth right_entries right_depth) of
        (Some Unbounded, _) \<Rightarrow> None
      | (_, Some Unbounded) \<Rightarrow> None
      | (Some (Bounded left), Some (Bounded right)) \<Rightarrow> Some (max left right)
      | (Some (Bounded depth), None) \<Rightarrow> Some depth
      | (None, Some (Bounded depth)) \<Rightarrow> Some depth
      | (None, None) \<Rightarrow> None)"

definition append_missing :: "'a list \<Rightarrow> 'a list \<Rightarrow> 'a list" where
  "append_missing es acc = fold (\<lambda>entry acc. if entry \<in> set acc then acc else acc @ [entry]) es acc"

definition merge_permission_entries :: "file_system_sandbox_entry list \<Rightarrow> file_system_sandbox_entry list \<Rightarrow> file_system_sandbox_entry list" where
  "merge_permission_entries base permissions = append_missing (base @ permissions) []"

definition merge_permission_profiles :: "permission_profile option \<Rightarrow> permission_profile option \<Rightarrow> permission_profile option" where
  "merge_permission_profiles base permissions =
     (case permissions of
        None \<Rightarrow> base
      | Some permissions \<Rightarrow>
          (let nonempty = (\<lambda>p. if profile_is_empty p then None else Some p) in
           case base of
             None \<Rightarrow> nonempty permissions
           | Some base \<Rightarrow>
               nonempty
                 \<lparr>prof_network = (if network_grants (prof_network base) \<or> network_grants (prof_network permissions)
                    then Some \<lparr>net_enabled = Some True\<rparr> else None),
                  prof_file_system =
                    (case (prof_file_system base, prof_file_system permissions) of
                       (Some base, Some permissions) \<Rightarrow>
                         (let merged =
                            \<lparr>perm_entries = merge_permission_entries (perm_entries base) (perm_entries permissions),
                             perm_glob_depth = non_zero (merge_glob_scan_max_depth (perm_entries base) (perm_glob_depth base)
                               (perm_entries permissions) (perm_glob_depth permissions))\<rparr> in
                          if fs_perm_is_empty merged then None else Some merged)
                     | (Some base, None) \<Rightarrow> Some base
                     | (None, Some permissions) \<Rightarrow> Some permissions
                     | (None, None) \<Rightarrow> None)\<rparr>))"

section \<open>Grants within a request\<close>

fun access_covers :: "file_system_access_mode \<Rightarrow> file_system_access_mode \<Rightarrow> bool" where
  "access_covers requested Read = can_read requested"
| "access_covers requested Write = can_write requested"
| "access_covers requested Deny = False"

definition resolve_permission_path :: "fs_probe \<Rightarrow> file_system_path \<Rightarrow> string \<Rightarrow> string option" where
  "resolve_permission_path pr path cwd =
     (case path of
        ExactPath path \<Rightarrow> Some path
      | GlobPattern _ \<Rightarrow> None
      | Special v \<Rightarrow>
          (case v of
             Root \<Rightarrow> (case path_ancestors cwd of [] \<Rightarrow> None | as \<Rightarrow> to_absolute pr (last as))
           | CurrentWorkingDirectory \<Rightarrow> to_absolute pr cwd
           | ProjectRoots subpath \<Rightarrow>
               (case to_absolute pr cwd of
                  None \<Rightarrow> None
                | Some cwd \<Rightarrow> Some (case subpath of Some subpath \<Rightarrow> resolve_against pr subpath cwd | None \<Rightarrow> cwd))
           | Tmpdir \<Rightarrow>
               (case tmpdir_var pr of None \<Rightarrow> None | Some tmpdir \<Rightarrow> if tmpdir = [] then None else to_absolute pr tmpdir)
           | SlashTmp \<Rightarrow> if is_dir pr ''/tmp'' then Some ''/tmp'' else None
           | Minimal \<Rightarrow> None
           | UnknownSpecial _ _ \<Rightarrow> None))"

definition materialize_cwd_dependent_entry :: "fs_probe \<Rightarrow> string \<Rightarrow> file_system_sandbox_entry \<Rightarrow> file_system_sandbox_entry" where
  "materialize_cwd_dependent_entry pr cwd entry =
     (let at_cwd = (case resolve_permission_path pr (entry_path entry) cwd of
          Some path \<Rightarrow> entry_of (ExactPath path) (entry_access entry) | None \<Rightarrow> entry) in
      case entry_path entry of
        Special CurrentWorkingDirectory \<Rightarrow> at_cwd
      | Special (ProjectRoots _) \<Rightarrow> at_cwd
      | GlobPattern pattern \<Rightarrow> entry_of (GlobPattern (resolve_against pr pattern cwd)) (entry_access entry)
      | _ \<Rightarrow> entry)"

definition paths_overlap :: "string \<Rightarrow> string \<Rightarrow> bool" where
  "paths_overlap left right \<longleftrightarrow> path_starts_with left right \<or> path_starts_with right left"

text \<open>The directory in front of the first glob character.\<close>

definition glob_static_prefix_path :: "fs_probe \<Rightarrow> string \<Rightarrow> string \<Rightarrow> string option" where
  "glob_static_prefix_path pr pattern cwd =
     (let resolved_pattern = resolve_against pr pattern cwd;
          before = takeWhile (\<lambda>c. c \<notin> {CHR ''*'', CHR ''?'', CHR ''['', CHR '']''}) resolved_pattern in
      if before = resolved_pattern then to_absolute pr resolved_pattern
      else if before = [] then None
      else if last before = slash \<or> last before = CHR 0x5C then to_absolute pr before
      else (case path_parent before of None \<Rightarrow> None | Some parent \<Rightarrow> to_absolute pr parent))"

definition deny_entry_constrains_accepted_grant :: "fs_probe \<Rightarrow> file_system_sandbox_entry \<Rightarrow> file_system_sandbox_entry list \<Rightarrow> string \<Rightarrow> bool" where
  "deny_entry_constrains_accepted_grant pr deny_entry accepted_entries cwd =
     list_ex (\<lambda>entry.
       case resolve_permission_path pr (entry_path entry) cwd of
         None \<Rightarrow> False
       | Some grant_path \<Rightarrow>
           (case (case entry_path deny_entry of
                    GlobPattern pattern \<Rightarrow> glob_static_prefix_path pr pattern cwd
                  | path \<Rightarrow> resolve_permission_path pr path cwd) of
              None \<Rightarrow> False
            | Some deny_path \<Rightarrow> paths_overlap deny_path grant_path))
       (filter (\<lambda>entry. can_read (entry_access entry)) accepted_entries)"

definition retain_constraining_deny_entries :: "fs_probe \<Rightarrow> file_system_sandbox_entry list \<Rightarrow> file_system_sandbox_entry list \<Rightarrow> string \<Rightarrow>
    file_system_sandbox_entry list \<Rightarrow> file_system_sandbox_entry list \<times> file_system_sandbox_entry list" where
  "retain_constraining_deny_entries pr source_entries accepted_entries cwd output_entries =
     (let retained = map (materialize_cwd_dependent_entry pr cwd)
            (filter (\<lambda>entry. deny_entry_constrains_accepted_grant pr entry accepted_entries cwd)
              (filter (\<lambda>entry. entry_access entry = Deny) source_entries)) in
      (append_missing retained output_entries, retained))"

definition granted_file_system_entry_within_request :: "fs_probe \<Rightarrow> file_system_permissions \<Rightarrow> file_system_sandbox_policy \<Rightarrow>
    read_deny_matcher option \<Rightarrow> file_system_sandbox_entry \<Rightarrow> string \<Rightarrow> bool" where
  "granted_file_system_entry_within_request pr requested requested_policy matcher granted_entry cwd \<longleftrightarrow>
     can_read (entry_access granted_entry) \<and>
     (case resolve_permission_path pr (entry_path granted_entry) cwd of
        Some path \<Rightarrow>
          \<not> (case matcher of None \<Rightarrow> False | Some m \<Rightarrow> is_read_denied pr m path) \<and>
          access_covers (resolve_access_with_cwd pr requested_policy path cwd) (entry_access granted_entry)
      | None \<Rightarrow>
          list_ex (\<lambda>requested_entry. access_covers (entry_access requested_entry) (entry_access granted_entry) \<and>
            entry_path requested_entry = entry_path granted_entry) (perm_entries requested))"

definition accepted_entries :: "fs_probe \<Rightarrow> glob_compiler \<Rightarrow> file_system_permissions \<Rightarrow> file_system_permissions \<Rightarrow> string \<Rightarrow>
    file_system_sandbox_entry list" where
  "accepted_entries pr glob requested granted cwd =
     (let requested_policy = restricted (perm_entries requested);
          matcher = new_read_deny_matcher pr glob requested_policy cwd in
      append_missing (map (materialize_cwd_dependent_entry pr cwd)
        (filter (\<lambda>entry. granted_file_system_entry_within_request pr requested requested_policy matcher entry cwd) (perm_entries granted))) [])"

definition intersect_file_system :: "fs_probe \<Rightarrow> glob_compiler \<Rightarrow> file_system_permissions \<Rightarrow> file_system_permissions \<Rightarrow> string \<Rightarrow>
    file_system_permissions" where
  "intersect_file_system pr glob requested granted cwd =
     (let accepted = accepted_entries pr glob requested granted cwd;
          (es, requested_retained) = retain_constraining_deny_entries pr (perm_entries requested) accepted cwd accepted;
          (es, granted_retained) = retain_constraining_deny_entries pr (perm_entries granted) accepted cwd es in
      \<lparr>perm_entries = es,
       perm_glob_depth = non_zero (merge_glob_scan_max_depth requested_retained (perm_glob_depth requested)
         granted_retained (perm_glob_depth granted))\<rparr>)"

definition intersect_permission_profiles :: "fs_probe \<Rightarrow> glob_compiler \<Rightarrow> permission_profile \<Rightarrow> permission_profile \<Rightarrow> string \<Rightarrow>
    permission_profile" where
  "intersect_permission_profiles pr glob requested granted cwd =
     \<lparr>prof_network = (if network_grants (prof_network requested) \<and> network_grants (prof_network granted)
        then Some \<lparr>net_enabled = Some True\<rparr> else None),
      prof_file_system =
        (case prof_file_system requested of
           None \<Rightarrow> None
         | Some requested \<Rightarrow>
             (let granted = (case prof_file_system granted of Some f \<Rightarrow> f | None \<Rightarrow> \<lparr>perm_entries = [], perm_glob_depth = None\<rparr>);
                  f = intersect_file_system pr glob requested granted cwd in
              if fs_perm_is_empty f then None else Some f))\<rparr>"


section \<open>Effective policies\<close>

definition merge_file_system_policy_with_additional_permissions :: "file_system_sandbox_policy \<Rightarrow> file_system_permissions \<Rightarrow>
    file_system_sandbox_policy" where
  "merge_file_system_policy_with_additional_permissions p additional =
     (if fs_kind p = Restricted then
        p\<lparr>fs_entries := append_missing (perm_entries additional) (fs_entries p),
          glob_scan_max_depth := merge_glob_scan_max_depth (fs_entries p) (glob_scan_max_depth p)
            (perm_entries additional) (perm_glob_depth additional)\<rparr>
      else p)"

definition effective_file_system_sandbox_policy :: "file_system_sandbox_policy \<Rightarrow> permission_profile option \<Rightarrow> file_system_sandbox_policy" where
  "effective_file_system_sandbox_policy p additional =
     (case additional of
        None \<Rightarrow> p
      | Some profile \<Rightarrow>
          (case prof_file_system profile of
             None \<Rightarrow> p
           | Some f \<Rightarrow> if fs_perm_is_empty f then p else merge_file_system_policy_with_additional_permissions p f))"

definition merge_network_access :: "bool \<Rightarrow> permission_profile \<Rightarrow> bool" where
  "merge_network_access base additional \<longleftrightarrow> base \<or> network_grants (prof_network additional)"

definition effective_network_sandbox_policy :: "network_sandbox_policy \<Rightarrow> permission_profile option \<Rightarrow> network_sandbox_policy" where
  "effective_network_sandbox_policy net additional =
     (case additional of
        Some permissions \<Rightarrow> if merge_network_access (network_is_enabled net) permissions then NetworkEnabled else NetworkRestricted
      | None \<Rightarrow> net)"

definition additional_permission_roots :: "fs_probe \<Rightarrow> permission_profile \<Rightarrow> string list \<times> string list" where
  "additional_permission_roots pr profile =
     (let explicit = (case prof_file_system profile of None \<Rightarrow> [] | Some f \<Rightarrow> explicit_path_entries f) in
      (dedup_absolute_paths pr (map fst (filter (\<lambda>(_, access). can_read access) explicit)) False,
       dedup_absolute_paths pr (map fst (filter (\<lambda>(_, access). can_write access) explicit)) False))"

definition merge_read_only_access_with_additional_reads :: "fs_probe \<Rightarrow> read_only_access \<Rightarrow> string list \<Rightarrow> read_only_access" where
  "merge_read_only_access_with_additional_reads pr access extra_reads =
     (case access of
        FullAccess \<Rightarrow> FullAccess
      | RestrictedRead defaults readable_roots \<Rightarrow> RestrictedRead defaults (dedup_absolute_paths pr (readable_roots @ extra_reads) False))"

definition sandbox_policy_with_additional_permissions :: "fs_probe \<Rightarrow> sandbox_policy \<Rightarrow> permission_profile \<Rightarrow> sandbox_policy" where
  "sandbox_policy_with_additional_permissions pr sandbox_policy additional =
     (if profile_is_empty additional then sandbox_policy
      else
        (let (extra_reads, extra_writes) = additional_permission_roots pr additional in
         case sandbox_policy of
           DangerFullAccess \<Rightarrow> DangerFullAccess
         | ExternalSandbox network_access \<Rightarrow>
             ExternalSandbox (if merge_network_access (network_access_is_enabled network_access) additional then NetEnabled else NetRestricted)
         | WorkspaceWrite writable_roots read_only_access network_access exclude_tmpdir_env_var exclude_slash_tmp \<Rightarrow>
             WorkspaceWrite (dedup_absolute_paths pr (writable_roots @ extra_writes) False)
               (merge_read_only_access_with_additional_reads pr read_only_access extra_reads)
               (merge_network_access network_access additional) exclude_tmpdir_env_var exclude_slash_tmp
         | ReadOnly access network_access \<Rightarrow>
             (if extra_writes = [] then
                ReadOnly (merge_read_only_access_with_additional_reads pr access extra_reads) (merge_network_access network_access additional)
              else
                WorkspaceWrite (dedup_absolute_paths pr extra_writes False)
                  (merge_read_only_access_with_additional_reads pr access extra_reads)
                  (merge_network_access network_access additional) False False)))"

definition effective_sandbox_policy :: "fs_probe \<Rightarrow> sandbox_policy \<Rightarrow> permission_profile option \<Rightarrow> sandbox_policy" where
  "effective_sandbox_policy pr sandbox_policy additional =
     (case additional of None \<Rightarrow> sandbox_policy | Some permissions \<Rightarrow> sandbox_policy_with_additional_permissions pr sandbox_policy permissions)"

definition should_require_platform_sandbox :: "file_system_sandbox_policy \<Rightarrow> network_sandbox_policy \<Rightarrow> bool \<Rightarrow> bool" where
  "should_require_platform_sandbox p net has_managed_network_requirements =
     (if has_managed_network_requirements then True
      else if \<not> network_is_enabled net then fs_kind p \<noteq> ExternalFs
      else fs_kind p = Restricted \<and> \<not> fs_has_full_disk_write_access p)"

section \<open>What an intersection grants\<close>

lemma set_append_missing [simp]: "set (append_missing es acc) = set acc \<union> set es"
proof -
  have "set (fold (\<lambda>entry acc. if entry \<in> set acc then acc else acc @ [entry]) es acc) = set acc \<union> set es"
    by (induction es arbitrary: acc) auto
  then show ?thesis by (simp add: append_missing_def)
qed

lemma last_ancestor: "is_absolute p \<Longrightarrow> path_ancestors p \<noteq> [] \<and> last (path_ancestors p) = ''/''"
proof -
  assume "is_absolute p"
  then obtain cs where "components p = RootDir # cs" using components_absolute by blast
  moreover have "render [RootDir] = ''/''" by (simp add: render_def)
  ultimately show ?thesis by (cases cs) (simp_all add: path_ancestors_def last_map last_rev)
qed

text \<open>Permissions resolve paths the way policies do.\<close>

lemma resolve_permission_path_policy:
  assumes "is_absolute cwd"
  shows "resolve_permission_path pr path cwd = resolve_entry_path pr path (to_absolute pr cwd)"
proof -
  have c: "to_absolute pr cwd = Some (normalize_path cwd)" "normalized_absolute (normalize_path cwd)"
    using assms by (simp_all add: to_absolute_absolute normalize_path_absolute)
  have root: "(case path_ancestors cwd of [] \<Rightarrow> None | as \<Rightarrow> to_absolute pr (last as)) = Some ''/''"
    using last_ancestor [OF assms] to_absolute_normalized [OF normalized_root, of pr] by (cases "path_ancestors cwd") simp_all
  show ?thesis
  proof (cases path)
    case (Special v)
    with c root root_of_cwd [OF c(2)] show ?thesis
      by (cases v) (simp_all add: resolve_permission_path_def resolve_entry_path_def resolve_file_system_path_def
          resolve_file_system_special_path_def split: option.split)
  qed (simp_all add: resolve_permission_path_def resolve_entry_path_def resolve_file_system_path_def)
qed

lemma materialize_resolves:
  assumes "is_absolute cwd"
  shows "resolve_entry_path pr (entry_path (materialize_cwd_dependent_entry pr cwd entry)) (to_absolute pr cwd) =
      resolve_entry_path pr (entry_path entry) (to_absolute pr cwd)"
    and "entry_access (materialize_cwd_dependent_entry pr cwd entry) = entry_access entry"
proof -
  have fix_path: "resolve_entry_path pr (ExactPath q) c = Some q" "resolve_entry_path pr (GlobPattern g) c = None" for q g c
    by (simp_all add: resolve_entry_path_def resolve_file_system_path_def)
  show "resolve_entry_path pr (entry_path (materialize_cwd_dependent_entry pr cwd entry)) (to_absolute pr cwd) =
      resolve_entry_path pr (entry_path entry) (to_absolute pr cwd)"
    by (auto simp: materialize_cwd_dependent_entry_def Let_def resolve_permission_path_policy [OF assms] fix_path
        split: file_system_path.split file_system_special_path.split option.split)
  show "entry_access (materialize_cwd_dependent_entry pr cwd entry) = entry_access entry"
    by (auto simp: materialize_cwd_dependent_entry_def Let_def split: file_system_path.split file_system_special_path.split option.split)
qed


text \<open>Where the entries of the intersection come from: accepted grants and retained denials.\<close>

lemma intersect_entry_cases:
  assumes "e \<in> set (perm_entries (intersect_file_system pr glob requested granted cwd))"
  obtains (grant) g where "g \<in> set (perm_entries granted)" "e = materialize_cwd_dependent_entry pr cwd g"
      "granted_file_system_entry_within_request pr requested (restricted (perm_entries requested))
        (new_read_deny_matcher pr glob (restricted (perm_entries requested)) cwd) g cwd"
    | (denial) g where "entry_access g = Deny" "e = materialize_cwd_dependent_entry pr cwd g"
  using assms
  by (auto simp: intersect_file_system_def retain_constraining_deny_entries_def accepted_entries_def Let_def)

lemma intersect_keeps_denial:
  assumes "g \<in> set (perm_entries requested)" "entry_access g = Deny"
    and "deny_entry_constrains_accepted_grant pr g (accepted_entries pr glob requested granted cwd) cwd"
  shows "materialize_cwd_dependent_entry pr cwd g \<in> set (perm_entries (intersect_file_system pr glob requested granted cwd))"
  using assms by (auto simp: intersect_file_system_def retain_constraining_deny_entries_def Let_def)

lemma fs_policy_of_fields [simp]: "fs_entries (fs_policy_of f) = perm_entries f" "is_restricted (fs_policy_of f)"
  by (simp_all add: fs_policy_of_def restricted_def is_restricted_def)

lemma restricted_fields [simp]: "fs_entries (restricted es) = es" "is_restricted (restricted es)"
  by (simp_all add: restricted_def is_restricted_def)

lemma readable_deciding:
  assumes "is_restricted p" "normalized_absolute q" "deciding pr p cwd q e"
  shows "resolve_access_with_cwd pr p q cwd = resolved_access e"
  using resolve_access_cases [OF assms(1) candidate_self [OF assms(2)], of pr cwd]
proof cases
  case 1
  with assms(3) show ?thesis by (simp add: deciding_def)
next
  case (2 e')
  with deciding_access [OF assms(3) 2(1)] show ?thesis by simp
qed

lemma decided_or_denied:
  assumes "is_restricted p" "normalized_absolute q"
  obtains "resolve_access_with_cwd pr p q cwd = Deny"
    | e where "deciding pr p cwd q e" "resolve_access_with_cwd pr p q cwd = resolved_access e"
  using resolve_access_cases [OF assms(1) candidate_self [OF assms(2)], of pr cwd] that by metis

text \<open>
  What the request says about a path below an accepted grant: what it says about the grant, unless a more specific entry
  of the request is in between. A denial in between is retained in the intersection, so only a read-only entry can be. The
  grant itself is within the request at the path of its entry.
\<close>

lemma grant_bounded:
  fixes requested :: file_system_permissions
  defines "rp \<equiv> restricted (perm_entries requested)" and "ip f \<equiv> fs_policy_of f"
  assumes "is_absolute cwd" "normalized_absolute q" "wf_fs_policy (restricted (perm_entries granted))" "absolute_cwd (probe_env pr)"
    and e: "deciding pr (ip (intersect_file_system pr glob requested granted cwd)) cwd q e" "can_read (resolved_access e)"
  shows "(\<exists>g \<in> set (perm_entries granted). entry_access g = resolved_access e \<and>
      resolve_permission_path pr (entry_path g) cwd = Some (resolved_path e)) \<and>
    path_starts_with q (resolved_path e) \<and> access_covers (resolve_access_with_cwd pr rp (resolved_path e) cwd) (resolved_access e) \<and>
    (access_covers (resolve_access_with_cwd pr rp q cwd) (resolved_access e) \<or>
      (\<exists>r. deciding pr rp cwd q r \<and> resolved_access r = Read \<and> path_starts_with (resolved_path r) (resolved_path e) \<and>
        resolved_path r \<noteq> resolved_path e))"
proof -
  let ?c = "normalize_path cwd" and ?i = "intersect_file_system pr glob requested granted cwd"
  have c: "to_absolute pr cwd = Some ?c" by (rule to_absolute_absolute [OF assms(3)])
  have member: "e \<in> set (resolved_entries_with_cwd pr (ip ?i) cwd)" "path_starts_with q (resolved_path e)"
    using e(1) by (auto simp: deciding_def matching_def)
  obtain entry where entry: "entry \<in> set (perm_entries ?i)" "entry_access entry = resolved_access e"
      "resolve_entry_path pr (entry_path entry) (Some ?c) = Some (resolved_path e)"
    using resolved_entry_source [OF member(1) c] by (auto simp: ip_def)
  from entry(1) obtain g where g: "g \<in> set (perm_entries granted)" "entry = materialize_cwd_dependent_entry pr cwd g"
      "granted_file_system_entry_within_request pr requested rp (new_read_deny_matcher pr glob rp cwd) g cwd"
  proof (cases rule: intersect_entry_cases)
    case (denial g)
    with entry(2) e(2) materialize_resolves(2) [OF assms(3)] show ?thesis by (simp add: can_read_def)
  qed (auto simp: rp_def intro: that)
  have path: "resolve_permission_path pr (entry_path g) cwd = Some (resolved_path e)"
    using entry(3) g(2) materialize_resolves(1) [OF assms(3), of pr g] resolve_permission_path_policy [OF assms(3)] c by simp
  have access: "entry_access g = resolved_access e" using entry(2) g(2) materialize_resolves(2) [OF assms(3)] by simp
  then have covers: "access_covers (resolve_access_with_cwd pr rp (resolved_path e) cwd) (resolved_access e)"
    using g(3) path by (simp add: granted_file_system_entry_within_request_def)
  have norm: "normalized_absolute (resolved_path e)"
  proof -
    have "\<lparr>resolved_path = resolved_path e, resolved_access = entry_access g\<rparr> \<in>
        set (resolved_entries_with_cwd pr (restricted (perm_entries granted)) cwd)"
      using resolved_entry [OF _ c, of g "restricted (perm_entries granted)"] g(1) path resolve_permission_path_policy [OF assms(3)] c
      by simp
    from resolved_normalized [OF assms(5,3,6) this] show ?thesis by simp
  qed
  have taken: "entry \<in> set (accepted_entries pr glob requested granted cwd)"
    using g by (auto simp: accepted_entries_def Let_def rp_def)
  have restricted: "is_restricted rp" by (simp add: rp_def)
  obtain r0 where r0: "deciding pr rp cwd (resolved_path e) r0"
    using covers e(2) by (rule_tac decided_or_denied [OF restricted norm, of pr cwd])
      (auto simp: can_read_def can_write_def split: file_system_access_mode.splits, cases "resolved_access e", auto simp: can_read_def can_write_def)
  have r0': "r0 \<in> set (resolved_entries_with_cwd pr rp cwd)" "path_starts_with (resolved_path e) (resolved_path r0)"
    using r0 by (auto simp: deciding_def matching_def)
  then have "r0 \<in> matching pr rp cwd q" using path_starts_with_trans [OF member(2)] by (simp add: matching_def)
  then obtain r where r: "deciding pr rp cwd q r" "resolve_access_with_cwd pr rp q cwd = resolved_access r"
    using resolve_access_cases [OF restricted candidate_self [OF assms(4)], of pr cwd] by (metis empty_iff)
  have r': "r \<in> set (resolved_entries_with_cwd pr rp cwd)" "path_starts_with q (resolved_path r)"
    using r(1) by (auto simp: deciding_def matching_def)
  have "access_covers (resolve_access_with_cwd pr rp q cwd) (resolved_access e) \<or>
      (\<exists>r. deciding pr rp cwd q r \<and> resolved_access r = Read \<and> path_starts_with (resolved_path r) (resolved_path e) \<and>
        resolved_path r \<noteq> resolved_path e)"
  proof (cases "path_starts_with (resolved_path e) (resolved_path r)")
    case True
    then have "deciding pr rp cwd (resolved_path e) r"
      using r(1) r'(1) path_starts_with_trans [OF member(2)] by (auto simp: deciding_def matching_def)
    then show ?thesis using readable_deciding [OF restricted norm] covers r(2) by simp
  next
    case False
    have long: "\<not> length (components (resolved_path r)) \<le> length (components (resolved_path e))"
      using False matching_comparable [OF r'(2) member(2)] by blast
    then have below: "path_starts_with (resolved_path r) (resolved_path e)" using matching_comparable [OF member(2) r'(2)] by simp
    have "resolved_access r \<noteq> Deny"
    proof
      assume deny: "resolved_access r = Deny"
      obtain d where d: "d \<in> set (perm_entries requested)" "entry_access d = Deny"
          "resolve_entry_path pr (entry_path d) (Some ?c) = Some (resolved_path r)"
        using resolved_entry_source [OF r'(1) c] deny by (auto simp: rp_def)
      have dpath: "resolve_permission_path pr (entry_path d) cwd = Some (resolved_path r)"
        using d(3) resolve_permission_path_policy [OF assms(3)] c by simp
      have epath: "resolve_permission_path pr (entry_path entry) cwd = Some (resolved_path e)"
        using entry(3) resolve_permission_path_policy [OF assms(3)] c by simp
      have blocked: "(case entry_path d of GlobPattern pattern \<Rightarrow> glob_static_prefix_path pr pattern cwd
          | path \<Rightarrow> resolve_permission_path pr path cwd) = Some (resolved_path r)"
        using dpath by (cases "entry_path d") (simp_all add: resolve_permission_path_def [of _ "GlobPattern _"])
      have "deny_entry_constrains_accepted_grant pr d (accepted_entries pr glob requested granted cwd) cwd"
        unfolding deny_entry_constrains_accepted_grant_def list_ex_iff
        using taken entry(2) e(2) below by (intro bexI [of _ entry]) (simp_all add: blocked epath paths_overlap_def)
      from intersect_keeps_denial [OF d(1,2) this]
      have "\<lparr>resolved_path = resolved_path r, resolved_access = Deny\<rparr> \<in> set (resolved_entries_with_cwd pr (ip ?i) cwd)"
        using resolved_entry [OF _ c, of "materialize_cwd_dependent_entry pr cwd d" "ip ?i" "resolved_path r"] d(2,3)
          materialize_resolves [OF assms(3), of pr d] c by (simp add: ip_def)
      then have "\<lparr>resolved_path = resolved_path r, resolved_access = Deny\<rparr> \<in> matching pr (ip ?i) cwd q"
        using r'(2) by (simp add: matching_def)
      then show False using e(1) long unfolding deciding_def precedence_le by fastforce
    qed
    moreover have "resolved_path r \<noteq> resolved_path e" using False by auto
    ultimately show ?thesis
      using r below e(2) by (cases "resolved_access r"; cases "resolved_access e") (auto simp: can_read_def can_write_def)
  qed
  then show ?thesis using g(1) access path member(2) covers by blast
qed


lemma access_of_same_entries:
  assumes "set (fs_entries p) = set (fs_entries p')" "is_restricted p" "is_restricted p'"
  shows "resolve_access_with_cwd pr p path cwd = resolve_access_with_cwd pr p' path cwd"
proof (cases "resolve_candidate_path pr path cwd")
  case None
  with assms show ?thesis by (simp add: resolve_access_with_cwd_def)
next
  case (Some q)
  have "set (resolved_entries_with_cwd pr p cwd) = set (resolved_entries_with_cwd pr p' cwd)"
    using assms(1) by (simp add: resolved_entries_with_cwd_def List.map_filter_def)
  then have same: "matching pr p cwd q = matching pr p' cwd q" by (simp add: matching_def)
  then have "deciding pr p cwd q = deciding pr p' cwd q" by (simp add: deciding_def fun_eq_iff)
  with same show ?thesis
    using resolve_access_cases [OF assms(2) Some] resolve_access_cases [OF assms(3) Some] deciding_access
    by (metis deciding_def empty_iff)
qed

text \<open>An access in the intersection comes from an entry of the grant, and an entry that decides is one of the request.\<close>

lemma intersection_bounded:
  assumes "is_absolute cwd" "absolute_cwd (probe_env pr)" "normalized_absolute q"
    and "prof_file_system requested = Some rf" "prof_file_system granted = Some gf" "wf_fs_policy (fs_policy_of gf)"
    and "intersect_permission_profiles pr glob requested granted cwd = both"
    and "resolve_access_with_cwd pr (profile_fs_policy both) q cwd = a" "can_read a"
  shows "\<exists>g \<in> set (perm_entries gf). \<exists>path. entry_access g = a \<and> resolve_permission_path pr (entry_path g) cwd = Some path \<and>
      path_starts_with q path \<and> access_covers (resolve_access_with_cwd pr (restricted (perm_entries rf)) path cwd) a \<and>
      (access_covers (resolve_access_with_cwd pr (restricted (perm_entries rf)) q cwd) a \<or>
        (\<exists>r. deciding pr (restricted (perm_entries rf)) cwd q r \<and> resolved_access r = Read \<and>
          path_starts_with (resolved_path r) path \<and> resolved_path r \<noteq> path))"
proof -
  let ?i = "intersect_file_system pr glob rf gf cwd"
  have wf: "wf_fs_policy (restricted (perm_entries gf))" using assms(6) by (simp add: wf_fs_policy_def)
  have "prof_file_system both = (if fs_perm_is_empty ?i then None else Some ?i)"
    using assms(4,5,7) by (auto simp: intersect_permission_profiles_def Let_def)
  moreover have "resolve_access_with_cwd pr (restricted []) q cwd = Deny"
    using candidate_self [OF assms(3)] by (simp add: resolve_access_with_cwd_def resolved_entries_with_cwd_def List.map_filter_simps)
  ultimately have "resolve_access_with_cwd pr (fs_policy_of ?i) q cwd = a"
    using assms(8,9) by (auto simp: profile_fs_policy_def can_read_def split: if_splits)
  with assms(9) obtain e where "deciding pr (fs_policy_of ?i) cwd q e" "resolved_access e = a"
    by (rule_tac decided_or_denied [OF fs_policy_of_fields(2) assms(3), of pr ?i cwd]) (auto simp: can_read_def)
  then show ?thesis using grant_bounded [OF assms(1,3) wf assms(2), of glob rf e] assms(9) by blast
qed

lemma read_only_entry:
  assumes "is_absolute cwd" "deciding pr (restricted entries) cwd q r" "resolved_access r = Read"
  shows "\<exists>entry \<in> set entries. entry_access entry = Read \<and>
      resolve_permission_path pr (entry_path entry) cwd = Some (resolved_path r) \<and> path_starts_with q (resolved_path r)"
proof -
  have c: "to_absolute pr cwd = Some (normalize_path cwd)" by (rule to_absolute_absolute [OF assms(1)])
  have r: "r \<in> set (resolved_entries_with_cwd pr (restricted entries) cwd)" "path_starts_with q (resolved_path r)"
    using assms(2) by (auto simp: deciding_def matching_def)
  obtain entry where "entry \<in> set entries" "entry_access entry = Read"
      "resolve_entry_path pr (entry_path entry) (Some (normalize_path cwd)) = Some (resolved_path r)"
    using resolved_entry_source [OF r(1) c] assms(3) by auto
  then show ?thesis using resolve_permission_path_policy [OF assms(1)] c r(2) by auto
qed

text \<open>
  C20 (grant_within_request). What is granted of a request stays within both: a path that the intersection of a grant with a request allows
  to read, the request allows to read, and it lies at or below a path that the grant names for reading. A path it allows to write
  lies at or below a path that the grant names for writing and the request allows to write; and the request allows to write the
  path itself, unless it has a read-only entry strictly below that granted path and at or above the path. The network is
  enabled only if both enable it. The entries of the grant are well formed.
\<close>

theorem grant_within_request:
  assumes "is_absolute cwd" "absolute_cwd (probe_env pr)" "normalized_absolute q"
    and "prof_file_system requested = Some rf" "prof_file_system granted = Some gf" "wf_fs_policy (fs_policy_of gf)"
    and "intersect_permission_profiles pr glob requested granted cwd = both"
  shows "(can_read_path_with_cwd pr (profile_fs_policy both) q cwd \<longrightarrow> can_read_path_with_cwd pr (profile_fs_policy requested) q cwd \<and>
      (\<exists>g \<in> set (perm_entries gf). can_read (entry_access g) \<and>
        (\<exists>path. resolve_permission_path pr (entry_path g) cwd = Some path \<and> path_starts_with q path))) \<and>
    (can_write_path_with_cwd pr (profile_fs_policy both) q cwd \<longrightarrow>
      (\<exists>g \<in> set (perm_entries gf). \<exists>path. entry_access g = Write \<and> resolve_permission_path pr (entry_path g) cwd = Some path \<and>
        path_starts_with q path \<and> can_write_path_with_cwd pr (profile_fs_policy requested) path cwd \<and>
        (can_write_path_with_cwd pr (profile_fs_policy requested) q cwd \<or>
          (\<exists>entry \<in> set (perm_entries rf). entry_access entry = Read \<and>
            (\<exists>inner. resolve_permission_path pr (entry_path entry) cwd = Some inner \<and> path_starts_with q inner \<and>
              path_starts_with inner path \<and> inner \<noteq> path))))) \<and>
    (profile_network_policy both = NetworkEnabled \<longrightarrow>
      profile_network_policy requested = NetworkEnabled \<and> profile_network_policy granted = NetworkEnabled)"
proof -
  let ?rp = "restricted (perm_entries rf)"
  have same: "resolve_access_with_cwd pr (profile_fs_policy requested) p cwd = resolve_access_with_cwd pr ?rp p cwd" for p
    using assms(4) by (intro access_of_same_entries) (simp_all add: profile_fs_policy_def)
  have bounded: "\<exists>g \<in> set (perm_entries gf). \<exists>path. entry_access g = a \<and> resolve_permission_path pr (entry_path g) cwd = Some path \<and>
      path_starts_with q path \<and> access_covers (resolve_access_with_cwd pr ?rp path cwd) a \<and>
      (access_covers (resolve_access_with_cwd pr ?rp q cwd) a \<or>
        (\<exists>r. deciding pr ?rp cwd q r \<and> resolved_access r = Read \<and> path_starts_with (resolved_path r) path \<and> resolved_path r \<noteq> path))"
    if "resolve_access_with_cwd pr (profile_fs_policy both) q cwd = a" "can_read a" for a
    using intersection_bounded [OF assms that] .
  note carveout = read_only_entry [OF assms(1)]
  have reads: "can_read (resolve_access_with_cwd pr ?rp q cwd)" if "deciding pr ?rp cwd q r" "resolved_access r = Read" for r
    using readable_deciding [OF restricted_fields(2) assms(3) that(1)] that(2) by (simp add: can_read_def)
  have covers_reads: "can_read b" if "access_covers b a" "can_read a" for a b
    using that by (cases a; cases b) (auto simp: can_read_def can_write_def)
  have "can_read (resolve_access_with_cwd pr ?rp q cwd) \<and> (\<exists>g \<in> set (perm_entries gf). can_read (entry_access g) \<and>
      (\<exists>path. resolve_permission_path pr (entry_path g) cwd = Some path \<and> path_starts_with q path))"
    if "can_read_path_with_cwd pr (profile_fs_policy both) q cwd"
  proof -
    define a where "a = resolve_access_with_cwd pr (profile_fs_policy both) q cwd"
    have a: "can_read a" using that by (simp add: a_def can_read_path_with_cwd_def)
    from bounded [OF a_def [symmetric] a] obtain g path where g: "g \<in> set (perm_entries gf)" "entry_access g = a"
        "resolve_permission_path pr (entry_path g) cwd = Some path" "path_starts_with q path"
        "access_covers (resolve_access_with_cwd pr ?rp q cwd) a \<or> (\<exists>r. deciding pr ?rp cwd q r \<and> resolved_access r = Read)"
      by blast
    then have "can_read (resolve_access_with_cwd pr ?rp q cwd)" using reads covers_reads a by blast
    then show ?thesis using g a by blast
  qed
  moreover have "\<exists>g \<in> set (perm_entries gf). \<exists>path. entry_access g = Write \<and> resolve_permission_path pr (entry_path g) cwd = Some path \<and>
      path_starts_with q path \<and> can_write (resolve_access_with_cwd pr ?rp path cwd) \<and>
      (can_write (resolve_access_with_cwd pr ?rp q cwd) \<or>
        (\<exists>entry \<in> set (perm_entries rf). entry_access entry = Read \<and>
          (\<exists>inner. resolve_permission_path pr (entry_path entry) cwd = Some inner \<and> path_starts_with q inner \<and>
            path_starts_with inner path \<and> inner \<noteq> path)))"
    if "can_write_path_with_cwd pr (profile_fs_policy both) q cwd"
  proof -
    have a: "resolve_access_with_cwd pr (profile_fs_policy both) q cwd = Write"
      using that by (cases "resolve_access_with_cwd pr (profile_fs_policy both) q cwd") (auto simp: can_write_path_with_cwd_def can_write_def)
    show ?thesis using bounded [OF a] carveout by (auto simp: can_read_def) blast
  qed
  moreover have "profile_network_policy both = NetworkEnabled \<longrightarrow>
      profile_network_policy requested = NetworkEnabled \<and> profile_network_policy granted = NetworkEnabled"
    using assms(7) by (auto simp: intersect_permission_profiles_def profile_network_policy_def network_grants_def split: if_splits)
  ultimately show ?thesis
    unfolding can_read_path_with_cwd_def can_write_path_with_cwd_def same by blast
qed

definition sample_profile :: "file_system_sandbox_entry list \<Rightarrow> permission_profile" where
  "sample_profile es = \<lparr>prof_network = Some \<lparr>net_enabled = Some True\<rparr>, prof_file_system = Some \<lparr>perm_entries = es, perm_glob_depth = None\<rparr>\<rparr>"

theorem grant_within_request_witness:
  "\<not> can_read_path_with_cwd (plain_probe True)
     (profile_fs_policy (intersect_permission_profiles (plain_probe True) (\<lambda>_. None)
       (sample_profile [entry_of (ExactPath ''/tmp'') Write, entry_of (ExactPath ''/tmp/x'') Deny])
       (sample_profile [entry_of (ExactPath ''/tmp'') Write]) ''/work'')) ''/tmp/x/y'' ''/work''"
proof
  let ?r = "sample_profile [entry_of (ExactPath ''/tmp'') Write, entry_of (ExactPath ''/tmp/x'') Deny]"
    and ?g = "sample_profile [entry_of (ExactPath ''/tmp'') Write]"
  let ?both = "intersect_permission_profiles (plain_probe True) (\<lambda>_. None) ?r ?g ''/work''"
  let ?gf = "\<lparr>perm_entries = [entry_of (ExactPath ''/tmp'') Write], perm_glob_depth = None\<rparr>"
  assume "can_read_path_with_cwd (plain_probe True) (profile_fs_policy ?both) ''/tmp/x/y'' ''/work''"
  moreover have "is_absolute ''/work''" "absolute_cwd (probe_env (plain_probe True))" by code_simp+
  moreover have "normalized_absolute ''/tmp/x/y''"
    unfolding normalized_absolute_def by (rule exI [of _ "[''tmp'', ''x'', ''y'']"]) (simp add: wf_name_def)
  moreover have "wf_fs_policy (fs_policy_of ?gf)" using normalized_tmp by (simp add: wf_fs_policy_def)
  ultimately have "can_read_path_with_cwd (plain_probe True) (profile_fs_policy ?r) ''/tmp/x/y'' ''/work''"
    using grant_within_request [of "''/work''" "plain_probe True" "''/tmp/x/y''" ?r _ ?g ?gf] by (simp add: sample_profile_def)
  moreover have "\<not> can_read_path_with_cwd (plain_probe True) (profile_fs_policy ?r) ''/tmp/x/y'' ''/work''" by code_simp
  ultimately show False by blast
qed

text \<open>The exception is real: a read-only entry of the request below a writable one is lost in the intersection.\<close>

lemma read_only_carveout_lost:
  "let requested = sample_profile [entry_of (ExactPath ''/a'') Write, entry_of (ExactPath ''/a/ro'') Read];
       both = intersect_permission_profiles (plain_probe True) (\<lambda>_. None) requested (sample_profile [entry_of (ExactPath ''/a'') Write]) ''/work'' in
   can_write_path_with_cwd (plain_probe True) (profile_fs_policy both) ''/a/ro/x'' ''/work'' \<and>
   \<not> can_write_path_with_cwd (plain_probe True) (profile_fs_policy requested) ''/a/ro/x'' ''/work''"
  by code_simp

text \<open>And permissions that are added for a command can take some away: reading a folder makes it read-only.\<close>

lemma additional_read_narrows:
  "let p = restricted [entry_of (ExactPath ''/a'') Write];
       wider = effective_file_system_sandbox_policy p (Some (sample_profile [entry_of (ExactPath ''/a/b'') Read])) in
   can_write_path_with_cwd (plain_probe True) p ''/a/b/x'' ''/work'' \<and> \<not> can_write_path_with_cwd (plain_probe True) wider ''/a/b/x'' ''/work''"
  by code_simp

section \<open>Written and read back\<close>

lemma legacy_entries_mset:
  assumes "legacy_entries es rd wr = Some (rd', wr')"
  shows "mset (map (\<lambda>path. entry_of (ExactPath path) Read) rd') + mset (map (\<lambda>path. entry_of (ExactPath path) Write) wr') =
    mset (map (\<lambda>path. entry_of (ExactPath path) Read) rd) + mset (map (\<lambda>path. entry_of (ExactPath path) Write) wr) + mset es"
  using assms
proof (induction es arbitrary: rd wr)
  case (Cons entry es)
  obtain path where path: "entry_path entry = ExactPath path" using Cons.prems by (auto split: file_system_path.splits)
  have entry: "entry = entry_of (ExactPath path) (entry_access entry)" using path by simp
  show ?case
    using Cons.prems Cons.IH path by (cases "entry_access entry") (auto simp: ac_simps entry [symmetric])
qed simp

text \<open>
  C23 (permissions_roundtrip). File system permissions that are written and read back are the same permissions: whichever of the two
  forms they are written in, they are read back, with the same entries (those of the older form with the reads before the writes) and
  depth, and they give every path the same access.
\<close>

theorem permissions_roundtrip:
  assumes "perm_glob_depth f \<noteq> Some 0"
  shows "\<exists>f'. deserialize_fs (serialize_fs f) = Some f' \<and> mset (perm_entries f') = mset (perm_entries f) \<and>
    perm_glob_depth f' = perm_glob_depth f \<and>
    resolve_access_with_cwd pr (fs_policy_of f') path cwd = resolve_access_with_cwd pr (fs_policy_of f) path cwd"
proof -
  have "\<exists>f'. deserialize_fs (serialize_fs f) = Some f' \<and> mset (perm_entries f') = mset (perm_entries f) \<and> perm_glob_depth f' = perm_glob_depth f"
  proof (cases "as_legacy_permissions f")
    case None
    then show ?thesis using assms by (auto simp: serialize_fs_def deserialize_fs_def)
  next
    case (Some roots)
    then obtain rd wr where legacy: "perm_glob_depth f = None" "legacy_entries (perm_entries f) [] [] = Some (rd, wr)"
      and roots: "roots = (if rd = [] then None else Some rd, if wr = [] then None else Some wr)"
      by (auto simp: as_legacy_permissions_def split: if_splits)
    from legacy_entries_mset [OF legacy(2)] Some roots legacy(1) show ?thesis
      by (cases "rd = []"; cases "wr = []") (auto simp: serialize_fs_def deserialize_fs_def from_read_write_roots_def)
  qed
  then obtain f' where "deserialize_fs (serialize_fs f) = Some f'" "mset (perm_entries f') = mset (perm_entries f)"
      "perm_glob_depth f' = perm_glob_depth f"
    by blast
  moreover from this(2) have "resolve_access_with_cwd pr (fs_policy_of f') path cwd = resolve_access_with_cwd pr (fs_policy_of f) path cwd"
    by (intro access_of_same_entries) (auto dest: mset_eq_setD)
  ultimately show ?thesis by blast
qed

theorem permissions_roundtrip_witness:
  "\<exists>f'. deserialize_fs (serialize_fs \<lparr>perm_entries = [entry_of (ExactPath ''/a'') Write, entry_of (ExactPath ''/b'') Read], perm_glob_depth = None\<rparr>) = Some f' \<and>
     perm_glob_depth f' = None"
proof -
  let ?f = "\<lparr>perm_entries = [entry_of (ExactPath ''/a'') Write, entry_of (ExactPath ''/b'') Read], perm_glob_depth = None\<rparr>"
  have "perm_glob_depth ?f = None" by simp
  with permissions_roundtrip [of ?f "plain_probe True" "''/a''" "''/w''"] show ?thesis by auto
qed

end
