(* ===== verification/Tool_Approval.thy ===== *)
theory Tool_Approval
  imports Exec_Output Permission_Profiles "HOL-Library.State_Monad"
begin

text \<open>
  \<open>codex-rs/core/src/tools/sandboxing.rs\<close> and the approval side of the runtimes in \<open>core/src/tools/runtimes\<close>: the store of
  approvals kept for the session, the requirement that follows from the approval policy, and what the shell, unified exec and
  apply-patch runtimes ask before they run.

  A step that awaits is a value of the state monad over the services of the session. What the user, the reviewing agent,
  the hooks and the processes do is a record of such steps and may change the services: other calls go on meanwhile. The trait
  \<open>ToolRuntime\<close> is a record of operations, and a runtime is a value of it. Of the network proxy only its presence matters.
\<close>

section \<open>The services of a session\<close>

record 'w tool_services =
  tool_approvals :: "string \<Rightarrow> review_decision option"
  network_approval :: network_service
  guardian_rejections :: "string \<Rightarrow> string option"
  surroundings :: 'w

type_synonym ('w, 'a) step = "('w tool_services, 'a) state"

section \<open>Approvals kept for the session\<close>

text \<open>Keys are stored as JSON; \<open>to_json\<close> is \<open>serde_json::to_string\<close> on the type of the keys, \<open>None\<close> its failure.\<close>

definition store_get :: "('k \<Rightarrow> string option) \<Rightarrow> 'k \<Rightarrow> (string \<Rightarrow> review_decision option) \<Rightarrow> review_decision option" where
  "store_get to_json key store = Option.bind (to_json key) store"

definition store_put ::
  "('k \<Rightarrow> string option) \<Rightarrow> 'k \<Rightarrow> review_decision \<Rightarrow> (string \<Rightarrow> review_decision option) \<Rightarrow> string \<Rightarrow> review_decision option" where
  "store_put to_json key value store = (case to_json key of Some s \<Rightarrow> store(s \<mapsto> value) | None \<Rightarrow> store)"

definition already_approved :: "('k \<Rightarrow> string option) \<Rightarrow> 'k list \<Rightarrow> (string \<Rightarrow> review_decision option) \<Rightarrow> bool" where
  "already_approved to_json keys store \<longleftrightarrow> list_all (\<lambda>key. store_get to_json key store = Some ApprovedForSession) keys"

definition keep_approvals :: "('k \<Rightarrow> string option) \<Rightarrow> 'k list \<Rightarrow> (string \<Rightarrow> review_decision option) \<Rightarrow> string \<Rightarrow> review_decision option" where
  "keep_approvals to_json keys store = fold (\<lambda>key. store_put to_json key ApprovedForSession) keys store"

definition with_cached_approval :: "('k \<Rightarrow> string option) \<Rightarrow> 'k list \<Rightarrow> ('w, review_decision) step \<Rightarrow> ('w, review_decision) step" where
  "with_cached_approval to_json keys fetch =
     (if keys = [] then fetch
      else do {
        services \<leftarrow> State_Monad.get;
        if already_approved to_json keys (tool_approvals services) then State_Monad.return ApprovedForSession
        else do {
          decision \<leftarrow> fetch;
          (if decision = ApprovedForSession
           then State_Monad.update (tool_approvals_update (keep_approvals to_json keys))
           else State_Monad.return ());
          State_Monad.return decision
        }
      })"

section \<open>Requirements and sandbox overrides\<close>

fun default_exec_approval_requirement :: "ask_for_approval \<Rightarrow> file_system_sandbox_policy \<Rightarrow> exec_approval_requirement" where
  "default_exec_approval_requirement policy fs_policy =
     (let needs_approval =
        (case policy of
           Never \<Rightarrow> False
         | OnFailure \<Rightarrow> False
         | OnRequest \<Rightarrow> fs_kind fs_policy = Restricted
         | Granular _ \<Rightarrow> fs_kind fs_policy = Restricted
         | UnlessTrusted \<Rightarrow> True)
      in if needs_approval \<and> (case policy of Granular config \<Rightarrow> \<not> sandbox_approval config | _ \<Rightarrow> False)
         then ForbiddenBecause ''approval policy disallowed sandbox approval prompt''
         else if needs_approval then NeedsApproval None None
         else Skip False None)"

datatype sandbox_override = NoOverride | BypassSandboxFirstAttempt

definition sandbox_override_for_first_attempt :: "sandbox_permissions \<Rightarrow> exec_approval_requirement \<Rightarrow> sandbox_override" where
  "sandbox_override_for_first_attempt sp requirement =
     (if sp = RequireEscalated \<or> (case requirement of Skip bypass _ \<Rightarrow> bypass | _ \<Rightarrow> False)
      then BypassSandboxFirstAttempt else NoOverride)"

datatype sandboxable_preference = Auto | Require | Forbid

definition select_initial ::
  "target_os \<Rightarrow> file_system_sandbox_policy \<Rightarrow> network_sandbox_policy \<Rightarrow> sandboxable_preference \<Rightarrow> windows_sandbox_level \<Rightarrow> bool \<Rightarrow>
   sandbox_type" where
  "select_initial os fs_policy net_policy pref level has_managed_network_requirements =
     (let platform = (case get_platform_sandbox os (level \<noteq> DisabledLevel) of Some sandbox \<Rightarrow> sandbox | None \<Rightarrow> NoSandbox)
      in case pref of
           Forbid \<Rightarrow> NoSandbox
         | Require \<Rightarrow> platform
         | Auto \<Rightarrow> if should_require_platform_sandbox fs_policy net_policy has_managed_network_requirements then platform
                   else NoSandbox)"

section \<open>Hooks and reviews\<close>

record hook_tool_name =
  hook_name :: string
  matcher_aliases :: "string list"

definition hook_apply_patch :: hook_tool_name where
  "hook_apply_patch = \<lparr>hook_name = ''apply_patch'', matcher_aliases = [''Write'', ''Edit'']\<rparr>"

definition hook_bash :: hook_tool_name where
  "hook_bash = \<lparr>hook_name = ''Bash'', matcher_aliases = []\<rparr>"

text \<open>The input of a hook is a JSON object whose values are strings; its fields are listed in order of insertion.\<close>

record permission_request_payload =
  payload_tool_name :: hook_tool_name
  payload_tool_input :: "(string \<times> string) list"

definition payload_bash :: "string \<Rightarrow> string option \<Rightarrow> permission_request_payload" where
  "payload_bash command description =
     \<lparr>payload_tool_name = hook_bash,
      payload_tool_input = (''command'', command) # (case description of Some d \<Rightarrow> [(''description'', d)] | None \<Rightarrow> [])\<rparr>"

record network_approval_context =
  nac_host :: string
  nac_protocol :: network_approval_protocol

record approval_ctx =
  ctx_call_id :: string
  guardian_review_id :: "string option"
  retry_reason :: "string option"
  network_approval_context_of :: "network_approval_context option"

datatype guardian_approval_request =
    GuardianShell string "string list" string sandbox_permissions "permission_profile option" "string option"
  | GuardianExecCommand string "string list" string sandbox_permissions "permission_profile option" "string option" bool
  | GuardianApplyPatch string string "string list" string

text \<open>What a session asks its user (\<open>request_command_approval\<close>, \<open>request_patch_approval\<close>) and its reviewing agent.\<close>

record command_question =
  q_call_id :: string
  q_command :: "string list"
  q_cwd :: string
  q_reason :: "string option"
  q_network_context :: "network_approval_context option"
  q_amendment :: "execpolicy_amendment option"
  q_additional_permissions :: "permission_profile option"

record 'w reviewers =
  request_command_approval :: "command_question \<Rightarrow> ('w, review_decision) step"
  request_patch_approval :: "string \<Rightarrow> (string \<Rightarrow> file_change option) \<Rightarrow> string option \<Rightarrow> ('w, review_decision) step"
  review_approval_request :: "string \<Rightarrow> guardian_approval_request \<Rightarrow> string option \<Rightarrow> ('w, review_decision) step"

section \<open>Commands as approval keys\<close>

definition POWERSHELL_FLAGS :: "string list" where
  "POWERSHELL_FLAGS = [''-nologo'', ''-noprofile'', ''-command'', ''-c'']"

fun powershell_script :: "string list \<Rightarrow> string option" where
  "powershell_script (flag # script # rest) =
     (if to_ascii_lowercase flag \<notin> set POWERSHELL_FLAGS then None
      else if to_ascii_lowercase flag \<in> {''-command'', ''-c''} then Some script
      else powershell_script (script # rest))"
| "powershell_script _ = None"

definition extract_powershell_command :: "string list \<Rightarrow> (string \<times> string) option" where
  "extract_powershell_command command =
     (if length command < 3 then None
      else if detect_shell_type (hd command) \<noteq> Some PowerShellType then None
      else map_option (Pair (hd command)) (powershell_script (tl command)))"

definition CANONICAL_BASH_SCRIPT_PREFIX :: string where
  "CANONICAL_BASH_SCRIPT_PREFIX = ''__codex_shell_script__''"

definition CANONICAL_POWERSHELL_SCRIPT_PREFIX :: string where
  "CANONICAL_POWERSHELL_SCRIPT_PREFIX = ''__codex_powershell_script__''"

definition canonicalize_command_for_approval :: "bash_grammar \<Rightarrow> string list \<Rightarrow> string list" where
  "canonicalize_command_for_approval parser command =
     (case parse_shell_lc_plain_commands parser command of
        Some [single_command] \<Rightarrow> single_command
      | _ \<Rightarrow>
          (case extract_bash_command command of
             Some (_, script) \<Rightarrow>
               [CANONICAL_BASH_SCRIPT_PREFIX, if 1 < length command then command ! 1 else [], script]
           | None \<Rightarrow>
               (case extract_powershell_command command of
                  Some (_, script) \<Rightarrow> [CANONICAL_POWERSHELL_SCRIPT_PREFIX, script]
                | None \<Rightarrow> command)))"

section \<open>Runtimes\<close>

datatype network_approval_mode = Immediate | Deferred

record guardian_network_access_trigger =
  trigger_call_id :: string
  trigger_tool_name :: string
  trigger_command :: "string list"
  trigger_cwd :: string
  trigger_sandbox_permissions :: sandbox_permissions
  trigger_additional_permissions :: "permission_profile option"
  trigger_justification :: "string option"
  trigger_tty :: "bool option"

record network_approval_spec =
  spec_network :: bool
  spec_mode :: network_approval_mode
  spec_trigger :: guardian_network_access_trigger
  spec_command :: string

record tool_ctx =
  tc_turn_id :: string
  tc_call_id :: string
  tc_tool_name :: string

record sandbox_attempt =
  at_sandbox :: sandbox_type
  at_policy :: sandbox_policy
  at_file_system_policy :: file_system_sandbox_policy
  at_network_policy :: network_sandbox_policy
  at_enforce_managed_network :: bool
  at_cwd :: string
  at_linux_sandbox_exe :: "string option"
  at_use_legacy_landlock :: bool
  at_windows_sandbox_level :: windows_sandbox_level
  at_windows_sandbox_private_desktop :: bool

datatype tool_error = Rejected string | Codex codex_err

record ('req, 'out, 'w) tool_runtime =
  sandbox_mode_for_first_attempt :: "'req \<Rightarrow> sandbox_override"
  should_bypass_approval :: "ask_for_approval \<Rightarrow> bool \<Rightarrow> bool"
  exec_approval_requirement :: "'req \<Rightarrow> exec_approval_requirement option"
  permission_request_payload :: "'req \<Rightarrow> permission_request_payload option"
  wants_no_sandbox_approval :: "ask_for_approval \<Rightarrow> bool"
  start_approval_async :: "'req \<Rightarrow> approval_ctx \<Rightarrow> ('w, review_decision) step"
  sandbox_preference :: sandboxable_preference
  escalate_on_failure :: bool
  network_approval_spec :: "'req \<Rightarrow> tool_ctx \<Rightarrow> network_approval_spec option"
  run_runtime :: "'req \<Rightarrow> sandbox_attempt \<Rightarrow> tool_ctx \<Rightarrow> ('w, (tool_error, 'out) result) step"

text \<open>The default methods of the trait.\<close>

definition default_should_bypass_approval :: "ask_for_approval \<Rightarrow> bool \<Rightarrow> bool" where
  "default_should_bypass_approval policy approved = (if approved then True else policy = Never)"

fun default_wants_no_sandbox_approval :: "ask_for_approval \<Rightarrow> bool" where
  "default_wants_no_sandbox_approval OnFailure = True"
| "default_wants_no_sandbox_approval UnlessTrusted = True"
| "default_wants_no_sandbox_approval Never = False"
| "default_wants_no_sandbox_approval OnRequest = False"
| "default_wants_no_sandbox_approval (Granular config) = sandbox_approval config"

subsection \<open>Shell\<close>

record shell_request =
  sh_command :: "string list"
  sh_hook_command :: string
  sh_cwd :: string
  sh_timeout_ms :: "64 word option"
  sh_env :: "string \<Rightarrow> string option"
  sh_explicit_env_overrides :: "string \<Rightarrow> string option"
  sh_network :: bool
  sh_sandbox_permissions :: sandbox_permissions
  sh_additional_permissions :: "permission_profile option"
  sh_additional_permissions_preapproved :: bool
  sh_justification :: "string option"
  sh_exec_approval_requirement :: exec_approval_requirement

record approval_key =
  ak_command :: "string list"
  ak_cwd :: string
  ak_sandbox_permissions :: sandbox_permissions
  ak_additional_permissions :: "permission_profile option"

definition shell_approval_keys :: "bash_grammar \<Rightarrow> shell_request \<Rightarrow> approval_key list" where
  "shell_approval_keys parser req =
     [\<lparr>ak_command = canonicalize_command_for_approval parser (sh_command req), ak_cwd = sh_cwd req,
       ak_sandbox_permissions = sh_sandbox_permissions req, ak_additional_permissions = sh_additional_permissions req\<rparr>]"

definition or_else :: "'a option \<Rightarrow> 'a option \<Rightarrow> 'a option" where
  "or_else x y = (case x of Some v \<Rightarrow> Some v | None \<Rightarrow> y)"

definition shell_start_approval ::
  "bash_grammar \<Rightarrow> (approval_key \<Rightarrow> string option) \<Rightarrow> 'w reviewers \<Rightarrow> shell_request \<Rightarrow> approval_ctx \<Rightarrow> ('w, review_decision) step" where
  "shell_start_approval parser to_json rv req ctx =
     (case guardian_review_id ctx of
        Some review_id \<Rightarrow>
          review_approval_request rv review_id
            (GuardianShell (ctx_call_id ctx) (sh_command req) (sh_cwd req) (sh_sandbox_permissions req)
               (sh_additional_permissions req) (sh_justification req))
            (retry_reason ctx)
      | None \<Rightarrow>
          with_cached_approval to_json (shell_approval_keys parser req)
            (request_command_approval rv
               \<lparr>q_call_id = ctx_call_id ctx, q_command = sh_command req, q_cwd = sh_cwd req,
                q_reason = or_else (retry_reason ctx) (sh_justification req),
                q_network_context = network_approval_context_of ctx,
                q_amendment = proposed_execpolicy_amendment (sh_exec_approval_requirement req),
                q_additional_permissions = sh_additional_permissions req\<rparr>))"

definition shell_network_approval_spec :: "shell_request \<Rightarrow> tool_ctx \<Rightarrow> network_approval_spec option" where
  "shell_network_approval_spec req ctx =
     (if \<not> sh_network req then None
      else Some \<lparr>spec_network = sh_network req, spec_mode = Immediate,
        spec_trigger = \<lparr>trigger_call_id = tc_call_id ctx, trigger_tool_name = tc_tool_name ctx, trigger_command = sh_command req,
          trigger_cwd = sh_cwd req, trigger_sandbox_permissions = sh_sandbox_permissions req,
          trigger_additional_permissions = sh_additional_permissions req, trigger_justification = sh_justification req,
          trigger_tty = None\<rparr>,
        spec_command = sh_hook_command req\<rparr>)"

definition shell_runtime ::
  "bash_grammar \<Rightarrow> (approval_key \<Rightarrow> string option) \<Rightarrow> 'w reviewers \<Rightarrow>
   (shell_request \<Rightarrow> sandbox_attempt \<Rightarrow> tool_ctx \<Rightarrow> ('w, (tool_error, 'out) result) step) \<Rightarrow>
   (shell_request, 'out, 'w) tool_runtime" where
  "shell_runtime parser to_json rv execute =
     \<lparr>sandbox_mode_for_first_attempt =
        (\<lambda>req. sandbox_override_for_first_attempt (sh_sandbox_permissions req) (sh_exec_approval_requirement req)),
      should_bypass_approval = default_should_bypass_approval,
      exec_approval_requirement = (\<lambda>req. Some (sh_exec_approval_requirement req)),
      permission_request_payload = (\<lambda>req. Some (payload_bash (sh_hook_command req) (sh_justification req))),
      wants_no_sandbox_approval = default_wants_no_sandbox_approval,
      start_approval_async = shell_start_approval parser to_json rv,
      sandbox_preference = Auto, escalate_on_failure = True,
      network_approval_spec = shell_network_approval_spec,
      run_runtime = execute\<rparr>"

subsection \<open>Unified exec\<close>

record unified_exec_request =
  ue_command :: "string list"
  ue_hook_command :: string
  ue_process_id :: "32 word"
  ue_cwd :: string
  ue_env :: "string \<Rightarrow> string option"
  ue_explicit_env_overrides :: "string \<Rightarrow> string option"
  ue_network :: bool
  ue_tty :: bool
  ue_sandbox_permissions :: sandbox_permissions
  ue_additional_permissions :: "permission_profile option"
  ue_additional_permissions_preapproved :: bool
  ue_justification :: "string option"
  ue_exec_approval_requirement :: exec_approval_requirement

record unified_exec_approval_key =
  uk_command :: "string list"
  uk_cwd :: string
  uk_tty :: bool
  uk_sandbox_permissions :: sandbox_permissions
  uk_additional_permissions :: "permission_profile option"

definition unified_exec_approval_keys :: "bash_grammar \<Rightarrow> unified_exec_request \<Rightarrow> unified_exec_approval_key list" where
  "unified_exec_approval_keys parser req =
     [\<lparr>uk_command = canonicalize_command_for_approval parser (ue_command req), uk_cwd = ue_cwd req, uk_tty = ue_tty req,
       uk_sandbox_permissions = ue_sandbox_permissions req, uk_additional_permissions = ue_additional_permissions req\<rparr>]"

definition unified_exec_start_approval ::
  "bash_grammar \<Rightarrow> (unified_exec_approval_key \<Rightarrow> string option) \<Rightarrow> 'w reviewers \<Rightarrow> unified_exec_request \<Rightarrow> approval_ctx \<Rightarrow>
   ('w, review_decision) step" where
  "unified_exec_start_approval parser to_json rv req ctx =
     (case guardian_review_id ctx of
        Some review_id \<Rightarrow>
          review_approval_request rv review_id
            (GuardianExecCommand (ctx_call_id ctx) (ue_command req) (ue_cwd req) (ue_sandbox_permissions req)
               (ue_additional_permissions req) (ue_justification req) (ue_tty req))
            (retry_reason ctx)
      | None \<Rightarrow>
          with_cached_approval to_json (unified_exec_approval_keys parser req)
            (request_command_approval rv
               \<lparr>q_call_id = ctx_call_id ctx, q_command = ue_command req, q_cwd = ue_cwd req,
                q_reason = or_else (retry_reason ctx) (ue_justification req),
                q_network_context = network_approval_context_of ctx,
                q_amendment = proposed_execpolicy_amendment (ue_exec_approval_requirement req),
                q_additional_permissions = ue_additional_permissions req\<rparr>))"

definition unified_exec_network_approval_spec :: "unified_exec_request \<Rightarrow> tool_ctx \<Rightarrow> network_approval_spec option" where
  "unified_exec_network_approval_spec req ctx =
     (if \<not> ue_network req then None
      else Some \<lparr>spec_network = ue_network req, spec_mode = Deferred,
        spec_trigger = \<lparr>trigger_call_id = tc_call_id ctx, trigger_tool_name = tc_tool_name ctx, trigger_command = ue_command req,
          trigger_cwd = ue_cwd req, trigger_sandbox_permissions = ue_sandbox_permissions req,
          trigger_additional_permissions = ue_additional_permissions req, trigger_justification = ue_justification req,
          trigger_tty = Some (ue_tty req)\<rparr>,
        spec_command = ue_hook_command req\<rparr>)"

definition unified_exec_runtime ::
  "bash_grammar \<Rightarrow> (unified_exec_approval_key \<Rightarrow> string option) \<Rightarrow> 'w reviewers \<Rightarrow>
   (unified_exec_request \<Rightarrow> sandbox_attempt \<Rightarrow> tool_ctx \<Rightarrow> ('w, (tool_error, 'out) result) step) \<Rightarrow>
   (unified_exec_request, 'out, 'w) tool_runtime" where
  "unified_exec_runtime parser to_json rv open_process =
     \<lparr>sandbox_mode_for_first_attempt =
        (\<lambda>req. sandbox_override_for_first_attempt (ue_sandbox_permissions req) (ue_exec_approval_requirement req)),
      should_bypass_approval = default_should_bypass_approval,
      exec_approval_requirement = (\<lambda>req. Some (ue_exec_approval_requirement req)),
      permission_request_payload = (\<lambda>req. Some (payload_bash (ue_hook_command req) (ue_justification req))),
      wants_no_sandbox_approval = default_wants_no_sandbox_approval,
      start_approval_async = unified_exec_start_approval parser to_json rv,
      sandbox_preference = Auto, escalate_on_failure = True,
      network_approval_spec = unified_exec_network_approval_spec,
      run_runtime = open_process\<rparr>"

subsection \<open>Patches\<close>

record apply_patch_request =
  ap_action :: apply_patch_action
  ap_file_paths :: "string list"
  ap_changes :: "string \<Rightarrow> file_change option"
  ap_exec_approval_requirement :: exec_approval_requirement
  ap_additional_permissions :: "permission_profile option"
  ap_permissions_preapproved :: bool

definition build_guardian_review_request :: "apply_patch_request \<Rightarrow> string \<Rightarrow> guardian_approval_request" where
  "build_guardian_review_request req call_id =
     GuardianApplyPatch call_id (action_cwd (ap_action req)) (ap_file_paths req) (action_patch (ap_action req))"

definition apply_patch_start_approval ::
  "(string \<Rightarrow> string option) \<Rightarrow> 'w reviewers \<Rightarrow> apply_patch_request \<Rightarrow> approval_ctx \<Rightarrow> ('w, review_decision) step" where
  "apply_patch_start_approval to_json rv req ctx =
     (case guardian_review_id ctx of
        Some review_id \<Rightarrow>
          review_approval_request rv review_id (build_guardian_review_request req (ctx_call_id ctx)) (retry_reason ctx)
      | None \<Rightarrow>
          if ap_permissions_preapproved req \<and> retry_reason ctx = None then State_Monad.return Approved
          else
            (case retry_reason ctx of
               Some reason \<Rightarrow> request_patch_approval rv (ctx_call_id ctx) (ap_changes req) (Some reason)
             | None \<Rightarrow>
                 with_cached_approval to_json (ap_file_paths req)
                   (request_patch_approval rv (ctx_call_id ctx) (ap_changes req) None)))"

fun apply_patch_wants_no_sandbox_approval :: "ask_for_approval \<Rightarrow> bool" where
  "apply_patch_wants_no_sandbox_approval Never = False"
| "apply_patch_wants_no_sandbox_approval (Granular config) = sandbox_approval config"
| "apply_patch_wants_no_sandbox_approval OnFailure = True"
| "apply_patch_wants_no_sandbox_approval OnRequest = True"
| "apply_patch_wants_no_sandbox_approval UnlessTrusted = True"

record file_system_sandbox_context =
  sc_permissions :: permission_profile
  sc_cwd :: "string option"
  sc_windows_sandbox_level :: windows_sandbox_level
  sc_windows_sandbox_private_desktop :: bool
  sc_use_legacy_landlock :: bool

definition file_system_sandbox_context_for_attempt :: "apply_patch_request \<Rightarrow> sandbox_attempt \<Rightarrow> file_system_sandbox_context option" where
  "file_system_sandbox_context_for_attempt req attempt =
     (if at_sandbox attempt = NoSandbox then None
      else
        let base_permissions = from_runtime_permissions (at_file_system_policy attempt) (at_network_policy attempt)
        in Some \<lparr>sc_permissions =
                   (case merge_permission_profiles (Some base_permissions) (ap_additional_permissions req) of
                      Some merged \<Rightarrow> merged
                    | None \<Rightarrow> base_permissions),
                 sc_cwd = Some (at_cwd attempt), sc_windows_sandbox_level = at_windows_sandbox_level attempt,
                 sc_windows_sandbox_private_desktop = at_windows_sandbox_private_desktop attempt,
                 sc_use_legacy_landlock = at_use_legacy_landlock attempt\<rparr>)"

text \<open>The file system of the session's environment, under a sandbox context, is an argument, and its state is what surrounds the
  services. Applying a patch does not panic.\<close>

definition apply_patch_run ::
  "(string \<Rightarrow> string) \<Rightarrow> int \<Rightarrow> (string \<Rightarrow> string) \<Rightarrow> string option \<Rightarrow> nat \<Rightarrow>
   (file_system_sandbox_context option \<Rightarrow> 'fs file_system) option \<Rightarrow>
   apply_patch_request \<Rightarrow> sandbox_attempt \<Rightarrow> tool_ctx \<Rightarrow> ('fs, (tool_error, exec_tool_call_output) result) step" where
  "apply_patch_run to_lowercase sigsys from_utf8 home elapsed environment req attempt ctx =
     (case environment of
        None \<Rightarrow> State_Monad.return (Err (Rejected ''apply_patch is unavailable in this session''))
      | Some get_filesystem \<Rightarrow> do {
          services \<leftarrow> State_Monad.get;
          let (world, result) =
                apply_patch (get_filesystem (file_system_sandbox_context_for_attempt req attempt)) buffer home
                  (action_patch (ap_action req)) (action_cwd (ap_action req))
                  \<lparr>files = surroundings services, stdout = [], stderr = []\<rparr>;
          let succeeded = (case result of Some (Ok _) \<Rightarrow> True | _ \<Rightarrow> False);
          let out = from_utf8 (stdout world);
          let err = from_utf8 (stderr world);
          let output = \<lparr>exit_code = (if succeeded then 0 else 1), exec_stdout = stream_new out, exec_stderr = stream_new err,
                aggregated_output = stream_new (out @ err), duration = elapsed, timed_out = False\<rparr>;
          State_Monad.set (services\<lparr>surroundings := files world\<rparr>);
          State_Monad.return
            (if \<not> succeeded \<and> is_likely_sandbox_denied to_lowercase sigsys (at_sandbox attempt) output
             then Err (Codex (SandboxError (SandboxDenied output None)))
             else Ok output)
        })"

definition apply_patch_runtime ::
  "(string \<Rightarrow> string option) \<Rightarrow> 'w reviewers \<Rightarrow>
   (apply_patch_request \<Rightarrow> sandbox_attempt \<Rightarrow> tool_ctx \<Rightarrow> ('w, (tool_error, 'out) result) step) \<Rightarrow>
   (apply_patch_request, 'out, 'w) tool_runtime" where
  "apply_patch_runtime to_json rv execute =
     \<lparr>sandbox_mode_for_first_attempt = (\<lambda>_. NoOverride),
      should_bypass_approval = default_should_bypass_approval,
      exec_approval_requirement = (\<lambda>req. Some (ap_exec_approval_requirement req)),
      permission_request_payload =
        (\<lambda>req. Some \<lparr>payload_tool_name = hook_apply_patch,
                      payload_tool_input = [(''command'', action_patch (ap_action req))]\<rparr>),
      wants_no_sandbox_approval = apply_patch_wants_no_sandbox_approval,
      start_approval_async = apply_patch_start_approval to_json rv,
      sandbox_preference = Auto, escalate_on_failure = True,
      network_approval_spec = (\<lambda>_ _. None),
      run_runtime = execute\<rparr>"

section \<open>The store implements a set of approved keys\<close>

definition approved_keys :: "('k \<Rightarrow> string option) \<Rightarrow> (string \<Rightarrow> review_decision option) \<Rightarrow> 'k set" where
  "approved_keys to_json store = {key. store_get to_json key store = Some ApprovedForSession}"

lemma already_approved_iff: "already_approved to_json keys store \<longleftrightarrow> set keys \<subseteq> approved_keys to_json store"
  by (auto simp: already_approved_def approved_keys_def list_all_iff)

lemma approved_keys_put:
  assumes "\<And>k k' j. to_json k = Some j \<Longrightarrow> to_json k' = Some j \<Longrightarrow> k = k'"
  shows "approved_keys to_json (store_put to_json key ApprovedForSession store) =
    approved_keys to_json store \<union> (if to_json key = None then {} else {key})"
proof (cases "to_json key")
  case (Some j)
  then show ?thesis
    by (auto simp: approved_keys_def store_get_def store_put_def bind_eq_Some_conv split: if_splits dest: assms [OF _ Some])
qed (simp add: store_put_def)

lemma approved_keys_keep:
  assumes "\<And>k k' j. to_json k = Some j \<Longrightarrow> to_json k' = Some j \<Longrightarrow> k = k'"
  shows "approved_keys to_json (keep_approvals to_json keys store) =
    approved_keys to_json store \<union> {key \<in> set keys. to_json key \<noteq> None}"
  unfolding keep_approvals_def
  by (induction keys arbitrary: store) (auto simp: approved_keys_put [OF assms])

text \<open>A question is put to the user exactly when it has no key or one that was not approved for the session.\<close>

lemma run_with_cached_approval:
  "run_state (with_cached_approval to_json keys fetch) s =
     (if keys \<noteq> [] \<and> set keys \<subseteq> approved_keys to_json (tool_approvals s) then (ApprovedForSession, s)
      else case run_state fetch s of
             (decision, s') \<Rightarrow>
               (decision, if keys \<noteq> [] \<and> decision = ApprovedForSession
                          then s'\<lparr>tool_approvals := keep_approvals to_json keys (tool_approvals s')\<rparr> else s'))"
  by (auto simp: with_cached_approval_def already_approved_iff State_Monad.update_def State_Monad.get_def State_Monad.set_def
      split: prod.splits)

text \<open>A run of requests: each is put to a user whose answer is given, and what surrounds the services counts the questions.\<close>

definition asking :: "review_decision \<Rightarrow> (nat, review_decision) step" where
  "asking answer = do { State_Monad.update (surroundings_update Suc); State_Monad.return answer }"

fun serve_requests ::
  "('k \<Rightarrow> string option) \<Rightarrow> ('k list \<times> review_decision) list \<Rightarrow> nat tool_services \<Rightarrow> (bool \<times> review_decision) list" where
  "serve_requests to_json [] s = []"
| "serve_requests to_json ((keys, answer) # rest) s =
     (case run_state (with_cached_approval to_json keys (asking answer)) s of
        (decision, s') \<Rightarrow> (surroundings s' \<noteq> surroundings s, decision) # serve_requests to_json rest s')"

text \<open>What is promised: the state is the set of keys approved for the session.\<close>

fun promised_answers :: "'k set \<Rightarrow> ('k list \<times> review_decision) list \<Rightarrow> (bool \<times> review_decision) list" where
  "promised_answers approved [] = []"
| "promised_answers approved ((keys, answer) # rest) =
     (if keys \<noteq> [] \<and> set keys \<subseteq> approved then (False, ApprovedForSession) # promised_answers approved rest
      else (True, answer) #
        promised_answers (if answer = ApprovedForSession then approved \<union> set keys else approved) rest)"

lemma run_asking [simp]: "run_state (asking answer) s = (answer, s\<lparr>surroundings := Suc (surroundings s)\<rparr>)"
  by (simp add: asking_def State_Monad.update_def State_Monad.get_def State_Monad.set_def)

text \<open>
  C14 (session_approvals_refine): the store of approvals, keyed by the JSON text of the keys, implements the set of keys approved
  for the session. Over any run of requests, a request is put to the user exactly when it has no keys or some key that the user
  has not approved for the session before, and otherwise it is answered as approved for the session. The keys are assumed to have
  JSON texts and different ones for different keys.
\<close>

theorem session_approvals_refine:
  assumes "\<And>k. to_json k \<noteq> None" "\<And>k k' j. to_json k = Some j \<Longrightarrow> to_json k' = Some j \<Longrightarrow> k = k'"
  shows "serve_requests to_json requests s = promised_answers (approved_keys to_json (tool_approvals s)) requests"
proof (induction requests arbitrary: s)
  case (Cons request requests)
  obtain keys answer where request: "request = (keys, answer)" by fastforce
  have "{key \<in> set keys. to_json key \<noteq> None} = set keys" using assms(1) by auto
  then show ?case
    using Cons by (auto simp: request run_with_cached_approval approved_keys_keep [OF assms(2)] simp del: not_None_eq)
qed simp

text \<open>Paths are their own JSON texts but for the quotes.\<close>

definition quoted :: "string \<Rightarrow> string option" where
  "quoted path = Some (dquote @ path @ dquote)"

definition fresh_services :: "'w \<Rightarrow> 'w tool_services" where
  "fresh_services w =
     \<lparr>tool_approvals = (\<lambda>_. None), network_approval = default_service, guardian_rejections = (\<lambda>_. None), surroundings = w\<rparr>"

theorem session_approvals_refine_witness:
  "(\<forall>k. quoted k \<noteq> None) \<and>
   serve_requests quoted [([''/w/a'', ''/w/b''], ApprovedForSession), ([''/w/b''], Denied), ([''/w/b'', ''/w/c''], Approved),
     ([''/w/c''], Denied)] (fresh_services 0) =
     [(True, ApprovedForSession), (False, ApprovedForSession), (True, Approved), (True, Denied)]"
proof -
  have "approved_keys quoted (tool_approvals (fresh_services 0)) = {}"
    by (simp add: approved_keys_def fresh_services_def store_get_def quoted_def)
  then show ?thesis
    using session_approvals_refine [of quoted "[([''/w/a'', ''/w/b''], ApprovedForSession), ([''/w/b''], Denied),
      ([''/w/b'', ''/w/c''], Approved), ([''/w/c''], Denied)]" "fresh_services 0"]
    by (auto simp: quoted_def)
qed

section \<open>Approval keys of commands\<close>

text \<open>The key does not depend on which of the shells is named, nor by which path.\<close>

lemma canonical_shell_irrelevant:
  assumes "detect_shell_type shell \<in> {Some Zsh, Some Bash, Some Sh}" "detect_shell_type shell' \<in> {Some Zsh, Some Bash, Some Sh}"
    "flag \<in> {''-lc'', ''-c''}"
  shows "canonicalize_command_for_approval parser [shell, flag, script] =
    canonicalize_command_for_approval parser [shell', flag, script]"
  using assms by (simp add: canonicalize_command_for_approval_def parse_shell_lc_plain_commands_def split: option.split list.split)

text \<open>For PowerShell the key keeps the word after \<open>-Command\<close> and nothing that follows it, although the shell reads all of it as the
  script: approving one command for the session approves every command that begins like it.\<close>

lemma powershell_rest_ignored:
  assumes "detect_shell_type shell = Some PowerShellType" "to_ascii_lowercase flag \<in> {''-command'', ''-c''}"
  shows "canonicalize_command_for_approval parser (shell # flag # script # rest) = [CANONICAL_POWERSHELL_SCRIPT_PREFIX, script]"
proof -
  have "extract_bash_command (shell # flag # script # rest) = None" using assms(1) by (cases rest) auto
  moreover have "to_ascii_lowercase flag \<in> set POWERSHELL_FLAGS" using assms(2) by (auto simp: POWERSHELL_FLAGS_def)
  ultimately show ?thesis using assms
    by (simp add: canonicalize_command_for_approval_def parse_shell_lc_plain_commands_def extract_powershell_command_def)
qed

lemma powershell_key_collision:
  "canonicalize_command_for_approval parser [''pwsh'', ''-c'', ''ls''] =
   canonicalize_command_for_approval parser [''pwsh'', ''-c'', ''ls'', ''; rm -r .'']"
proof -
  have "detect_shell_type ''pwsh'' = Some PowerShellType" "to_ascii_lowercase ''-c'' \<in> {''-command'', ''-c''}" by code_simp+
  then show ?thesis by (simp only: powershell_rest_ignored)
qed

section \<open>What the orchestrator relies on\<close>

text \<open>No question about running without a sandbox is wanted when the policy is never to ask, and a question may be left
  out only for what was approved before or under that policy.\<close>

locale guarded_runtime =
  fixes runtime :: "('req, 'out, 'w) tool_runtime"
  assumes wants_never: "\<not> wants_no_sandbox_approval runtime Never"
    and bypass_only: "should_bypass_approval runtime policy approved \<Longrightarrow> approved \<or> policy = Never"
begin

lemma bypass_needs_approval:
  "wants_no_sandbox_approval runtime policy \<Longrightarrow> should_bypass_approval runtime policy approved \<Longrightarrow> approved"
  using wants_never bypass_only by blast

end

interpretation shell_rt: guarded_runtime "shell_runtime parser to_json rv execute" for parser to_json rv execute
  by unfold_locales (auto simp: shell_runtime_def default_should_bypass_approval_def split: if_splits)

interpretation unified_exec_rt: guarded_runtime "unified_exec_runtime parser to_json rv open_process" for parser to_json rv open_process
  by unfold_locales (auto simp: unified_exec_runtime_def default_should_bypass_approval_def split: if_splits)

interpretation apply_patch_rt: guarded_runtime "apply_patch_runtime to_json rv execute" for to_json rv execute
  by unfold_locales (auto simp: apply_patch_runtime_def default_should_bypass_approval_def split: if_splits)

end
