(* ===== verification/Tool_Orchestrator.thy ===== *)
theory Tool_Orchestrator
  imports Tool_Approval
begin

text \<open>
  \<open>codex-rs/core/src/tools/orchestrator.rs\<close>: approval, choice of the sandbox, first attempt, and a second attempt without the
  sandbox after a denial. With it the registration of calls with the network approval service
  (\<open>core/src/tools/network_approval.rs\<close>) and the reading of network decisions (\<open>core/src/network_policy_decision.rs\<close>).

  The orchestrator's state is that of the services and a log. The log holds what the source sends to its telemetry
  (\<open>tool_decision\<close>: the decision and where it came from) and, between these, the attempts in the order in which they
  are made; a runtime cannot see or change it.
\<close>

section \<open>Decisions about the network\<close>

definition is_ask_from_decider :: "network_policy_decision_payload \<Rightarrow> bool" where
  "is_ask_from_decider payload \<longleftrightarrow> pd_decision payload = PolicyAsk \<and> pd_source payload = Decider"

definition network_approval_context_from_payload :: "network_policy_decision_payload \<Rightarrow> network_approval_context option" where
  "network_approval_context_from_payload payload =
     (if \<not> is_ask_from_decider payload then None
      else case (pd_protocol payload, pd_host payload) of
             (Some protocol, Some host) \<Rightarrow>
               (let host = trim host
                in if host = [] then None else Some \<lparr>nac_host = host, nac_protocol = protocol\<rparr>)
           | _ \<Rightarrow> None)"

section \<open>The turn, the session and the log\<close>

datatype approvals_reviewer = ReviewedByUser | AutoReview

record turn_context =
  tu_sub_id :: string
  tu_approval_policy :: ask_for_approval
  tu_approvals_reviewer :: approvals_reviewer
  tu_sandbox_policy :: sandbox_policy
  tu_file_system_sandbox_policy :: file_system_sandbox_policy
  tu_network_sandbox_policy :: network_sandbox_policy
  tu_cwd :: string
  tu_network :: bool
  tu_linux_sandbox_exe :: "string option"
  tu_use_legacy_landlock :: bool
  tu_windows_sandbox_level :: windows_sandbox_level
  tu_windows_sandbox_private_desktop :: bool

definition routes_approval_to_guardian :: "turn_context \<Rightarrow> bool" where
  "routes_approval_to_guardian turn \<longleftrightarrow>
     (case tu_approval_policy turn of OnRequest \<Rightarrow> True | Granular _ \<Rightarrow> True | _ \<Rightarrow> False) \<and>
     tu_approvals_reviewer turn = AutoReview"

record 'w session_steps =
  strict_auto_review_enabled_for_turn :: "('w, bool) step"
  new_uuid :: "('w, string) step"
  run_permission_request_hooks :: "string \<Rightarrow> permission_request_payload \<Rightarrow> ('w, permission_request_decision option) step"

datatype tool_decision_source = AutomatedReviewer | FromConfig | FromUser

datatype tool_event = ToolDecision review_decision tool_decision_source | Attempted sandbox_attempt

type_synonym ('w, 'a) orchestration = "('w tool_services \<times> tool_event list, 'a) state"

definition await :: "('w, 'a) step \<Rightarrow> ('w, 'a) orchestration" where
  "await m = State (\<lambda>(s, log). case run_state m s of (x, s') \<Rightarrow> (x, (s', log)))"

definition note_event :: "tool_event \<Rightarrow> ('w, unit) orchestration" where
  "note_event e = State (\<lambda>(s, log). ((), (s, log @ [e])))"

text \<open>The operator \<open>?\<close>: an error ends the function.\<close>

definition try_then ::
  "('s, ('e, 'a) result) state \<Rightarrow> ('a \<Rightarrow> ('s, ('e, 'b) result) state) \<Rightarrow> ('s, ('e, 'b) result) state" where
  "try_then m f = do { r \<leftarrow> m; case r of Err e \<Rightarrow> State_Monad.return (Err e) | Ok x \<Rightarrow> f x }"

section \<open>Registration with the network approvals\<close>

record active_network_approval =
  an_registration_id :: "string option"
  an_mode :: network_approval_mode

definition into_deferred :: "active_network_approval \<Rightarrow> string option" where
  "into_deferred active =
     (case (an_mode active, an_registration_id active) of (Deferred, Some registration_id) \<Rightarrow> Some registration_id | _ \<Rightarrow> None)"

definition begin_network_approval ::
  "'w session_steps \<Rightarrow> string \<Rightarrow> bool \<Rightarrow> network_approval_spec option \<Rightarrow> ('w, active_network_approval option) step" where
  "begin_network_approval ss turn_id managed_network_active spec =
     (case spec of
        None \<Rightarrow> State_Monad.return None
      | Some spec \<Rightarrow>
          if \<not> managed_network_active \<or> \<not> spec_network spec then State_Monad.return None
          else do {
            registration_id \<leftarrow> new_uuid ss;
            State_Monad.update (network_approval_update (register_call registration_id turn_id (spec_command spec)));
            State_Monad.return (Some \<lparr>an_registration_id = Some registration_id, an_mode = spec_mode spec\<rparr>)
          })"

definition finish_immediate_network_approval :: "active_network_approval \<Rightarrow> ('w, (tool_error, unit) result) step" where
  "finish_immediate_network_approval active =
     (case an_registration_id active of
        None \<Rightarrow> State_Monad.return (Ok ())
      | Some registration_id \<Rightarrow> do {
          services \<leftarrow> State_Monad.get;
          let (service, approval_outcome) = take_call_outcome registration_id (network_approval services);
          State_Monad.set (services\<lparr>network_approval := service\<rparr>);
          State_Monad.update (network_approval_update (unregister_call registration_id));
          State_Monad.return
            (case approval_outcome of
               Some DeniedByUser \<Rightarrow> Err (Rejected ''rejected by user'')
             | Some (DeniedByPolicy message) \<Rightarrow> Err (Rejected message)
             | None \<Rightarrow> Ok ())
        })"

definition finish_deferred_network_approval :: "string option \<Rightarrow> ('w, unit) step" where
  "finish_deferred_network_approval deferred =
     (case deferred of
        None \<Rightarrow> State_Monad.return ()
      | Some registration_id \<Rightarrow> State_Monad.update (network_approval_update (unregister_call registration_id)))"

section \<open>Running a tool\<close>

definition run_attempt ::
  "'w session_steps \<Rightarrow> ('req, 'out, 'w) tool_runtime \<Rightarrow> 'req \<Rightarrow> tool_ctx \<Rightarrow> sandbox_attempt \<Rightarrow> bool \<Rightarrow>
   ('w, (tool_error, 'out) result \<times> string option) orchestration" where
  "run_attempt ss tool req ctx attempt managed_network_active = do {
     network_approval \<leftarrow> await (begin_network_approval ss (tc_turn_id ctx) managed_network_active (network_approval_spec tool req ctx));
     note_event (Attempted attempt);
     run_result \<leftarrow> await (run_runtime tool req attempt ctx);
     case network_approval of
       None \<Rightarrow> State_Monad.return (run_result, None)
     | Some active \<Rightarrow>
         (case an_mode active of
            Immediate \<Rightarrow> do {
              finalize_result \<leftarrow> await (finish_immediate_network_approval active);
              State_Monad.return (case finalize_result of Err err \<Rightarrow> (Err err, None) | Ok _ \<Rightarrow> (run_result, None))
            }
          | Deferred \<Rightarrow>
              let deferred = into_deferred active
              in case run_result of
                   Err _ \<Rightarrow> do {
                     await (finish_deferred_network_approval deferred);
                     State_Monad.return (run_result, None)
                   }
                 | Ok _ \<Rightarrow> State_Monad.return (run_result, deferred))
   }"

definition request_approval ::
  "'w session_steps \<Rightarrow> ('req, 'out, 'w) tool_runtime \<Rightarrow> 'req \<Rightarrow> string \<Rightarrow> approval_ctx \<Rightarrow> bool \<Rightarrow>
   ('w, (tool_error, review_decision) result) orchestration" where
  "request_approval ss tool req permission_request_run_id actx evaluate_permission_request_hooks = do {
     hook \<leftarrow> (case (if evaluate_permission_request_hooks then permission_request_payload tool req else None) of
               Some permission_request \<Rightarrow> await (run_permission_request_hooks ss permission_request_run_id permission_request)
             | None \<Rightarrow> State_Monad.return None);
     case hook of
       Some HookAllow \<Rightarrow> do {
         note_event (ToolDecision Approved FromConfig);
         State_Monad.return (Ok Approved)
       }
     | Some (HookDeny message) \<Rightarrow> do {
         note_event (ToolDecision Denied FromConfig);
         State_Monad.return (Err (Rejected message))
       }
     | None \<Rightarrow> do {
         decision \<leftarrow> await (start_approval_async tool req actx);
         note_event (ToolDecision decision (if guardian_review_id actx \<noteq> None then AutomatedReviewer else FromUser));
         State_Monad.return (Ok decision)
       }
   }"

definition GUARDIAN_REJECTION_INSTRUCTIONS :: string where
  "GUARDIAN_REJECTION_INSTRUCTIONS =
     ''The agent must not attempt to achieve the same outcome via workaround, '' @
     ''indirect execution, or policy circumvention. '' @
     ''Proceed only with a materially safer alternative, '' @
     ''or if the user explicitly approves the action after being informed of the risk. '' @
     ''Otherwise, stop and request user input.''"

definition GUARDIAN_TIMEOUT_INSTRUCTIONS :: string where
  "GUARDIAN_TIMEOUT_INSTRUCTIONS =
     ''The automatic permission approval review did not finish before its deadline. '' @
     ''Do not assume the action is unsafe based on the timeout alone. '' @
     ''You may retry once, or ask the user for guidance or explicit approval.''"

definition guardian_rejection_message :: "string \<Rightarrow> ('w, string) step" where
  "guardian_rejection_message review_id = do {
     services \<leftarrow> State_Monad.get;
     State_Monad.set (services\<lparr>guardian_rejections := (guardian_rejections services)(review_id := None)\<rparr>);
     let rationale =
       (case guardian_rejections services review_id of
          Some rationale \<Rightarrow>
            if trim rationale \<noteq> [] then rationale else ''Auto-reviewer denied the action without a specific rationale.''
        | None \<Rightarrow> ''Auto-reviewer denied the action without a specific rationale.'');
     State_Monad.return
       (''This action was rejected due to unacceptable risk.'' @ [nl] @ ''Reason: '' @ trim rationale @ [nl] @
        GUARDIAN_REJECTION_INSTRUCTIONS)
   }"

definition reject_if_not_approved :: "string option \<Rightarrow> review_decision \<Rightarrow> ('w, (tool_error, unit) result) step" where
  "reject_if_not_approved review_id decision =
     (let by_user_or_reviewer =
        (case review_id of
           Some review_id \<Rightarrow> do { reason \<leftarrow> guardian_rejection_message review_id; State_Monad.return (Err (Rejected reason)) }
         | None \<Rightarrow> State_Monad.return (Err (Rejected ''rejected by user'')))
      in case decision of
           Denied \<Rightarrow> by_user_or_reviewer
         | Abort \<Rightarrow> by_user_or_reviewer
         | TimedOut \<Rightarrow> State_Monad.return (Err (Rejected GUARDIAN_TIMEOUT_INSTRUCTIONS))
         | Approved \<Rightarrow> State_Monad.return (Ok ())
         | ApprovedExecpolicyAmendment _ \<Rightarrow> State_Monad.return (Ok ())
         | ApprovedForSession \<Rightarrow> State_Monad.return (Ok ())
         | NetworkPolicyAmendment amendment \<Rightarrow>
             State_Monad.return
               (case na_action amendment of RuleAllow \<Rightarrow> Ok () | RuleDeny \<Rightarrow> Err (Rejected ''rejected by user'')))"

text \<open>The questions of \<open>run\<close> differ in these arguments only: the identity of a review where there is one, the reason, the network
  context, the run of the hooks and whether hooks are consulted.\<close>

definition guardian_review :: "'w session_steps \<Rightarrow> bool \<Rightarrow> ('w, string option) orchestration" where
  "guardian_review ss wanted =
     (if wanted then do { review_id \<leftarrow> await (new_uuid ss); State_Monad.return (Some review_id) } else State_Monad.return None)"

definition ask ::
  "'w session_steps \<Rightarrow> ('req, 'out, 'w) tool_runtime \<Rightarrow> 'req \<Rightarrow> tool_ctx \<Rightarrow> string \<Rightarrow> string option \<Rightarrow> string option \<Rightarrow>
   network_approval_context option \<Rightarrow> bool \<Rightarrow> ('w, (tool_error, unit) result) orchestration" where
  "ask ss tool req ctx run_id review_id reason network_context hooks =
     try_then
       (request_approval ss tool req run_id
          \<lparr>ctx_call_id = tc_call_id ctx, guardian_review_id = review_id, retry_reason = reason,
           network_approval_context_of = network_context\<rparr> hooks)
       (\<lambda>decision. await (reject_if_not_approved review_id decision))"

definition first_approval ::
  "'w session_steps \<Rightarrow> ('req, 'out, 'w) tool_runtime \<Rightarrow> 'req \<Rightarrow> tool_ctx \<Rightarrow> exec_approval_requirement \<Rightarrow> bool \<Rightarrow> bool \<Rightarrow>
   ('w, (tool_error, bool) result) orchestration" where
  "first_approval ss tool req ctx requirement strict_auto_review use_guardian =
     (case requirement of
        Skip _ _ \<Rightarrow>
          if strict_auto_review then do {
            review_id \<leftarrow> guardian_review ss True;
            try_then (ask ss tool req ctx (tc_call_id ctx) review_id None None False) (\<lambda>_. State_Monad.return (Ok True))
          } else do {
            note_event (ToolDecision Approved FromConfig);
            State_Monad.return (Ok False)
          }
      | ForbiddenBecause reason \<Rightarrow> State_Monad.return (Err (Rejected reason))
      | NeedsApproval reason _ \<Rightarrow> do {
          review_id \<leftarrow> guardian_review ss use_guardian;
          try_then (ask ss tool req ctx (tc_call_id ctx) review_id reason None (\<not> strict_auto_review))
            (\<lambda>_. State_Monad.return (Ok True))
        })"

definition attempt_with :: "turn_context \<Rightarrow> sandbox_type \<Rightarrow> string option \<Rightarrow> sandbox_attempt" where
  "attempt_with turn sandbox linux_sandbox_exe =
     \<lparr>at_sandbox = sandbox, at_policy = tu_sandbox_policy turn, at_file_system_policy = tu_file_system_sandbox_policy turn,
      at_network_policy = tu_network_sandbox_policy turn, at_enforce_managed_network = tu_network turn, at_cwd = tu_cwd turn,
      at_linux_sandbox_exe = linux_sandbox_exe, at_use_legacy_landlock = tu_use_legacy_landlock turn,
      at_windows_sandbox_level = tu_windows_sandbox_level turn,
      at_windows_sandbox_private_desktop = tu_windows_sandbox_private_desktop turn\<rparr>"

definition initial_sandbox :: "target_os \<Rightarrow> ('req, 'out, 'w) tool_runtime \<Rightarrow> 'req \<Rightarrow> turn_context \<Rightarrow> sandbox_type" where
  "initial_sandbox os tool req turn =
     (case sandbox_mode_for_first_attempt tool req of
        BypassSandboxFirstAttempt \<Rightarrow> NoSandbox
      | NoOverride \<Rightarrow>
          select_initial os (tu_file_system_sandbox_policy turn) (tu_network_sandbox_policy turn) (sandbox_preference tool)
            (tu_windows_sandbox_level turn) (tu_network turn))"

definition build_denial_reason_from_output :: "exec_tool_call_output \<Rightarrow> string" where
  "build_denial_reason_from_output output = ''command failed; retry without sandbox?''"

definition allow_on_request_network_prompt :: "ask_for_approval \<Rightarrow> turn_context \<Rightarrow> network_approval_context option \<Rightarrow> bool" where
  "allow_on_request_network_prompt policy turn network_context \<longleftrightarrow>
     policy = OnRequest \<and> network_context \<noteq> None \<and>
     (case default_exec_approval_requirement policy (tu_file_system_sandbox_policy turn) of NeedsApproval _ _ \<Rightarrow> True | _ \<Rightarrow> False)"

definition retry_after_denial ::
  "'w session_steps \<Rightarrow> ('req, 'out, 'w) tool_runtime \<Rightarrow> 'req \<Rightarrow> tool_ctx \<Rightarrow> turn_context \<Rightarrow> ask_for_approval \<Rightarrow> bool \<Rightarrow> bool \<Rightarrow> bool \<Rightarrow>
   exec_tool_call_output \<Rightarrow> network_policy_decision_payload option \<Rightarrow> ('w, (tool_error, 'out \<times> string option) result) orchestration" where
  "retry_after_denial ss tool req ctx turn approval_policy strict_auto_review use_guardian approved output decision =
     (let network_context = (if tu_network turn then Option.bind decision network_approval_context_from_payload else None);
          denied = State_Monad.return (Err (Codex (SandboxError (SandboxDenied output decision))))
      in if decision \<noteq> None \<and> network_context = None then denied
         else if \<not> escalate_on_failure tool then denied
         else if \<not> wants_no_sandbox_approval tool approval_policy \<and>
                 \<not> allow_on_request_network_prompt approval_policy turn network_context then denied
         else
           let reason =
                 (case network_context of
                    Some context \<Rightarrow>
                      ''Network access to '' @ dquote @ nac_host context @ dquote @ '' is blocked by policy.''
                  | None \<Rightarrow> build_denial_reason_from_output output);
               bypass_retry_approval =
                 (\<not> strict_auto_review \<and> should_bypass_approval tool approval_policy approved \<and> network_context = None)
           in try_then
                (if bypass_retry_approval then State_Monad.return (Ok ())
                 else do {
                   review_id \<leftarrow> guardian_review ss use_guardian;
                   ask ss tool req ctx (tc_call_id ctx @ '':retry'') review_id (Some reason) network_context (\<not> strict_auto_review)
                 })
                (\<lambda>_. do {
                   (retry_result, deferred) \<leftarrow> run_attempt ss tool req ctx (attempt_with turn NoSandbox None) (tu_network turn);
                   State_Monad.return (map_sum id (\<lambda>result. (result, deferred)) retry_result)
                 }))"

definition requirement_of :: "('req, 'out, 'w) tool_runtime \<Rightarrow> 'req \<Rightarrow> turn_context \<Rightarrow> ask_for_approval \<Rightarrow> exec_approval_requirement" where
  "requirement_of tool req turn approval_policy =
     (case exec_approval_requirement tool req of
        Some requirement \<Rightarrow> requirement
      | None \<Rightarrow> default_exec_approval_requirement approval_policy (tu_file_system_sandbox_policy turn))"

definition orchestrator_run ::
  "target_os \<Rightarrow> 'w session_steps \<Rightarrow> ('req, 'out, 'w) tool_runtime \<Rightarrow> 'req \<Rightarrow> tool_ctx \<Rightarrow> turn_context \<Rightarrow> ask_for_approval \<Rightarrow>
   ('w, (tool_error, 'out \<times> string option) result) orchestration" where
  "orchestrator_run os ss tool req ctx turn approval_policy = do {
     strict_auto_review \<leftarrow> await (strict_auto_review_enabled_for_turn ss);
     let use_guardian = (routes_approval_to_guardian turn \<or> strict_auto_review);
     try_then
       (first_approval ss tool req ctx (requirement_of tool req turn approval_policy) strict_auto_review use_guardian)
       (\<lambda>approved. do {
          (first_result, deferred) \<leftarrow>
            run_attempt ss tool req ctx (attempt_with turn (initial_sandbox os tool req turn) (tu_linux_sandbox_exe turn)) (tu_network turn);
          case first_result of
            Ok out \<Rightarrow> State_Monad.return (Ok (out, deferred))
          | Err (Codex (SandboxError (SandboxDenied output decision))) \<Rightarrow>
              retry_after_denial ss tool req ctx turn approval_policy strict_auto_review use_guardian approved output decision
          | Err err \<Rightarrow> State_Monad.return (Err err)
        })
   }"

section \<open>What a run logs\<close>

text \<open>A step emits events that satisfy a condition on its result and the events.\<close>

definition emits :: "('w, 'a) orchestration \<Rightarrow> ('a \<Rightarrow> tool_event list \<Rightarrow> bool) \<Rightarrow> bool" where
  "emits m P \<longleftrightarrow> (\<forall>s log. \<exists>events. snd (snd (run_state m (s, log))) = log @ events \<and> P (fst (run_state m (s, log))) events)"

lemma emits_return [simp]: "emits (State_Monad.return x) P \<longleftrightarrow> P x []"
  by (auto simp: emits_def)

lemma emits_note [simp]: "emits (note_event e) P \<longleftrightarrow> P () [e]"
  by (auto simp: emits_def note_event_def)

lemma emits_await: "(\<And>s. P (fst (run_state m s)) []) \<Longrightarrow> emits (await m) P"
  by (auto simp: emits_def await_def case_prod_beta)

lemma emitsE:
  assumes "emits m P" "run_state m (s, log) = (x, s', log')"
  obtains events where "log' = log @ events" "P x events"
  using assms unfolding emits_def by (metis fst_conv snd_conv)

lemma emits_bind:
  assumes "emits m P" "\<And>x events. P x events \<Longrightarrow> emits (f x) (\<lambda>y more_events. Q y (events @ more_events))"
  shows "emits (State_Monad.bind m f) Q"
  unfolding emits_def
proof (intro allI)
  fix s log
  obtain x s' log' where m: "run_state m (s, log) = (x, s', log')" by (metis prod_cases3)
  from emitsE [OF assms(1) m] obtain events where events: "log' = log @ events" "P x events" .
  obtain y t log'' where f: "run_state (f x) (s', log') = (y, t, log'')" by (metis prod_cases3)
  from emitsE [OF assms(2) [OF events(2)] f] obtain more_events
    where "log'' = log' @ more_events" "Q y (events @ more_events)" .
  then show "\<exists>events. snd (snd (run_state (m \<bind> f) (s, log))) = log @ events \<and> Q (fst (run_state (m \<bind> f) (s, log))) events"
    using m f events by auto
qed

lemma emits_weaken: "emits m P \<Longrightarrow> (\<And>x events. P x events \<Longrightarrow> Q x events) \<Longrightarrow> emits m Q"
  by (fastforce simp: emits_def)

lemma emits_try:
  assumes "emits m P" "\<And>e events. P (Err e) events \<Longrightarrow> Q (Err e) events"
    "\<And>x events. P (Ok x) events \<Longrightarrow> emits (f x) (\<lambda>y more_events. Q y (events @ more_events))"
  shows "emits (try_then m f) Q"
  unfolding try_then_def by (rule emits_bind [OF assms(1)]) (auto split: sum.splits intro: assms(2,3))

lemma emits_note_bind: "emits (f ()) (\<lambda>y events. Q y (e # events)) \<Longrightarrow> emits (State_Monad.bind (note_event e) f) Q"
  by (rule emits_bind [where P = "\<lambda>_ events. events = [e]"]) simp_all

lemma emits_await_bind: "(\<And>x. emits (f x) Q) \<Longrightarrow> emits (State_Monad.bind (await m) f) Q"
  by (rule emits_bind [where P = "\<lambda>_ events. events = []"]) (auto intro: emits_await)

lemma emits_quiet_bind: "emits m (\<lambda>_ events. events = []) \<Longrightarrow> (\<And>x. emits (f x) Q) \<Longrightarrow> emits (State_Monad.bind m f) Q"
  by (rule emits_bind [where P = "\<lambda>_ events. events = []"]) auto

lemmas emits_intros = emits_note_bind emits_await_bind emits_await

fun approves :: "review_decision \<Rightarrow> bool" where
  "approves Approved = True"
| "approves (ApprovedExecpolicyAmendment _) = True"
| "approves ApprovedForSession = True"
| "approves (NetworkPolicyAmendment amendment) = (na_action amendment = RuleAllow)"
| "approves _ = False"

lemma reject_iff_not_approves: "fst (run_state (reject_if_not_approved review_id decision) s) = Ok () \<longleftrightarrow> approves decision"
proof -
  have "fst (run_state (guardian_rejection_message review_id \<bind> (\<lambda>reason. State_Monad.return (Err (Rejected reason)))) s) \<noteq> Ok ()"
    for review_id by (simp add: case_prod_beta)
  then show ?thesis
    by (cases decision; cases review_id) (auto simp: reject_if_not_approved_def Let_def split: network_policy_rule_action.splits)
qed

fun is_attempt :: "tool_event \<Rightarrow> bool" where
  "is_attempt (Attempted _) = True"
| "is_attempt (ToolDecision _ _) = False"

text \<open>A hook may allow a request of the tool.\<close>

definition hooks_allow :: "'w session_steps \<Rightarrow> ('req, 'out, 'w) tool_runtime \<Rightarrow> 'req \<Rightarrow> bool" where
  "hooks_allow ss tool req \<longleftrightarrow>
     (\<exists>payload run_id s. permission_request_payload tool req = Some payload \<and>
        fst (run_state (run_permission_request_hooks ss run_id payload) s) = Some HookAllow)"

lemma emits_request_approval:
  "emits (request_approval ss tool req run_id actx hooks)
     (\<lambda>r events. \<exists>d src. events = [ToolDecision d src] \<and> (src = FromConfig \<and> approves d \<longrightarrow> hooks \<and> hooks_allow ss tool req) \<and>
        (case r of Ok d' \<Rightarrow> d' = d | Err _ \<Rightarrow> \<not> approves d))"
  unfolding request_approval_def
  by (rule emits_bind [where P = "\<lambda>hook events. events = [] \<and>
        (hook = Some HookAllow \<longrightarrow> hooks \<and> hooks_allow ss tool req)"])
    (auto intro!: emits_intros simp: hooks_allow_def split: option.splits permission_request_decision.splits)

lemma emits_ask:
  "emits (ask ss tool req ctx run_id review_id reason network_context hooks)
     (\<lambda>r events. \<exists>d src. events = [ToolDecision d src] \<and> (src = FromConfig \<and> approves d \<longrightarrow> hooks \<and> hooks_allow ss tool req) \<and>
        (r = Ok () \<longleftrightarrow> approves d))"
  unfolding ask_def
  by (rule emits_try [OF emits_request_approval]) (auto intro!: emits_await simp: reject_iff_not_approves)

lemma emits_guardian_review: "emits (guardian_review ss wanted) (\<lambda>_ events. events = [])"
  unfolding guardian_review_def by (auto intro!: emits_intros)

lemma emits_run_attempt: "emits (run_attempt ss tool req ctx attempt managed) (\<lambda>_ events. events = [Attempted attempt])"
  unfolding run_attempt_def Let_def
  by (auto intro!: emits_intros split: option.splits network_approval_mode.splits sum.splits)

text \<open>An answer that lets a run go on, and where it can have come from.\<close>

definition licence :: "bool \<Rightarrow> tool_event \<Rightarrow> bool" where
  "licence from_config e \<longleftrightarrow> (\<exists>d src. e = ToolDecision d src \<and> approves d \<and> (src = FromConfig \<longrightarrow> from_config))"

lemma licence_not_attempt [simp]: "licence c e \<Longrightarrow> \<not> is_attempt e"
  and licence_attempted [simp]: "\<not> licence c (Attempted a)"
  by (auto simp: licence_def)

lemma emits_first_approval:
  "emits (first_approval ss tool req ctx requirement strict use_guardian)
     (\<lambda>r events. case r of
        Ok approved \<Rightarrow> (approved \<longleftrightarrow> strict \<or> \<not> is_skip requirement) \<and>
          (\<exists>e. events = [e] \<and> licence (\<not> strict \<and> (is_skip requirement \<or> hooks_allow ss tool req)) e)
      | Err _ \<Rightarrow> \<not> list_ex is_attempt events)"
proof (cases requirement)
  case (Skip b a)
  then show ?thesis
    by (auto simp: first_approval_def licence_def intro!: emits_intros emits_quiet_bind [OF emits_guardian_review]
        emits_try [OF emits_ask])
next
  case (NeedsApproval reason a)
  then show ?thesis
    by (auto simp: first_approval_def licence_def intro!: emits_intros emits_quiet_bind [OF emits_guardian_review]
        emits_try [OF emits_ask])
qed (simp add: first_approval_def)

lemma emits_permission:
  "emits (if bypass then State_Monad.return (Ok ())
          else guardian_review ss use_guardian \<bind>
            (\<lambda>review_id. ask ss tool req ctx run_id review_id reason network_context (\<not> strict)))
     (\<lambda>r events. \<not> list_ex is_attempt events \<and>
        (r = Ok () \<longrightarrow> events = [] \<and> bypass \<or>
           (\<exists>e. events = [e] \<and> licence (\<not> strict \<and> hooks_allow ss tool req) e)))"
  by (auto simp: licence_def intro!: emits_quiet_bind [OF emits_guardian_review] intro: emits_weaken [OF emits_ask])

lemma emits_retry_attempt:
  "emits (run_attempt ss tool req ctx attempt managed \<bind>
     (\<lambda>(retry_result, deferred). State_Monad.return (map_sum id (\<lambda>result. (result, deferred)) retry_result)))
     (\<lambda>_ events. events = [Attempted attempt])"
  by (rule emits_bind [OF emits_run_attempt]) auto

context guarded_runtime
begin

text \<open>Whatever the reason for the retry, it is made without a sandbox, and only after an approval: one given for the retry, or
  the one that was needed for the first attempt.\<close>

lemma emits_retry:
  "emits (retry_after_denial ss runtime req ctx turn policy strict use_guardian approved output decision)
     (\<lambda>_ events. \<not> list_ex is_attempt events \<or>
        policy \<noteq> Never \<and>
        (\<exists>pre. events = pre @ [Attempted (attempt_with turn NoSandbox None)] \<and>
           (pre = [] \<and> \<not> strict \<and> approved \<or>
            (\<exists>e. pre = [e] \<and> licence (\<not> strict \<and> hooks_allow ss runtime req) e))))"
    (is "emits _ ?Q")
proof -
  define context_of where "context_of = (if tu_network turn then Option.bind decision network_approval_context_from_payload else None)"
  define bypass where "bypass \<longleftrightarrow> \<not> strict \<and> should_bypass_approval runtime policy approved \<and> context_of = None"
  define gate where "gate \<longleftrightarrow> wants_no_sandbox_approval runtime policy \<or> allow_on_request_network_prompt policy turn context_of"
  have never: "policy \<noteq> Never" if gate
    using that wants_never by (auto simp: gate_def allow_on_request_network_prompt_def)
  have approved: "\<not> strict \<and> approved" if gate bypass
    using that bypass_needs_approval by (auto simp: gate_def bypass_def allow_on_request_network_prompt_def)
  have "emits (try_then
      (if bypass then State_Monad.return (Ok ())
       else guardian_review ss use_guardian \<bind>
         (\<lambda>review_id. ask ss runtime req ctx run_id review_id reason context_of (\<not> strict)))
      (\<lambda>_. run_attempt ss runtime req ctx (attempt_with turn NoSandbox None) (tu_network turn) \<bind>
         (\<lambda>(retry_result, deferred). State_Monad.return (map_sum id (\<lambda>result. (result, deferred)) retry_result)))) ?Q"
    if gate for run_id reason
    by (rule emits_try [OF emits_permission]) (use never approved that in \<open>auto intro!: emits_weaken [OF emits_retry_attempt]\<close>)
  then show ?thesis
    unfolding retry_after_denial_def Let_def context_of_def [symmetric] bypass_def [symmetric]
    by (simp add: gate_def)
qed

lemma emits_run:
  assumes "\<And>s. fst (run_state (strict_auto_review_enabled_for_turn ss) s) = strict"
  shows "emits (orchestrator_run os ss runtime req ctx turn policy)
    (\<lambda>_ events. \<not> list_ex is_attempt events \<or>
       (\<exists>e first rest. events = e # Attempted first # rest \<and> at_sandbox first = initial_sandbox os runtime req turn \<and>
          licence (\<not> strict \<and> (is_skip (requirement_of runtime req turn policy) \<or> hooks_allow ss runtime req)) e \<and>
          (\<not> list_ex is_attempt rest \<or>
           policy \<noteq> Never \<and>
           (\<exists>pre. rest = pre @ [Attempted (attempt_with turn NoSandbox None)] \<and>
              (pre = [] \<and> \<not> strict \<and> \<not> is_skip (requirement_of runtime req turn policy) \<or>
               (\<exists>e. pre = [e] \<and> licence (\<not> strict \<and> hooks_allow ss runtime req) e))))))"
  unfolding orchestrator_run_def Let_def
proof (rule emits_bind [where P = "\<lambda>x events. x = strict \<and> events = []"], goal_cases)
  case 1
  show ?case by (auto intro: emits_await simp: assms)
next
  case (2 x events)
  then show ?case
    by (auto intro!: emits_try [OF emits_first_approval] emits_bind [OF emits_run_attempt] emits_weaken [OF emits_retry]
        simp: attempt_with_def split: sum.splits tool_error.splits codex_err.splits sandbox_err.splits)
qed

end

section \<open>Approval before every attempt\<close>

definition decisions :: "tool_event list \<Rightarrow> tool_event list" where
  "decisions events = filter (\<lambda>e. \<not> is_attempt e) events"

lemma no_attempts_iff: "filter is_attempt events = [] \<longleftrightarrow> \<not> list_ex is_attempt events"
  by (auto simp: filter_empty_conv list_ex_iff)

lemma first_attempt_unique:
  assumes "xs @ Attempted a # ys = xs' @ Attempted a' # ys'" "\<not> list_ex is_attempt xs" "\<not> list_ex is_attempt xs'"
  shows "xs = xs' \<and> a = a' \<and> ys = ys'"
  using assms by (induction xs arbitrary: xs') (auto simp: Cons_eq_append_conv append_eq_Cons_conv)

text \<open>The two shapes of a log with attempts in it.\<close>

lemma run_log_cases:
  assumes "guarded_runtime tool" "\<And>s. fst (run_state (strict_auto_review_enabled_for_turn ss) s) = strict"
    "run_state (orchestrator_run os ss tool req ctx turn policy) (s, log) = (r, s', log @ events)"
    "list_ex is_attempt events"
  obtains (once) e first rest where "events = e # Attempted first # rest" "\<not> list_ex is_attempt rest"
      "at_sandbox first = initial_sandbox os tool req turn"
      "licence (\<not> strict \<and> (is_skip (requirement_of tool req turn policy) \<or> hooks_allow ss tool req)) e"
  | (twice) e first pre second where "events = e # Attempted first # pre @ [Attempted second]" "\<not> list_ex is_attempt pre"
      "at_sandbox first = initial_sandbox os tool req turn" "at_sandbox second = NoSandbox" "policy \<noteq> Never"
      "licence (\<not> strict \<and> (is_skip (requirement_of tool req turn policy) \<or> hooks_allow ss tool req)) e"
      "pre = [] \<and> \<not> strict \<and> \<not> is_skip (requirement_of tool req turn policy) \<or>
       (\<exists>e'. pre = [e'] \<and> licence (\<not> strict \<and> hooks_allow ss tool req) e')"
proof -
  have second: "at_sandbox (attempt_with turn NoSandbox None) = NoSandbox" by (simp add: attempt_with_def)
  from emitsE [OF guarded_runtime.emits_run [OF assms(1,2)] assms(3)] obtain new where "log @ events = log @ new"
    and new: "\<not> list_ex is_attempt new \<or>
       (\<exists>e first rest. new = e # Attempted first # rest \<and> at_sandbox first = initial_sandbox os tool req turn \<and>
          licence (\<not> strict \<and> (is_skip (requirement_of tool req turn policy) \<or> hooks_allow ss tool req)) e \<and>
          (\<not> list_ex is_attempt rest \<or>
           policy \<noteq> Never \<and>
           (\<exists>pre. rest = pre @ [Attempted (attempt_with turn NoSandbox None)] \<and>
              (pre = [] \<and> \<not> strict \<and> \<not> is_skip (requirement_of tool req turn policy) \<or>
               (\<exists>e. pre = [e] \<and> licence (\<not> strict \<and> hooks_allow ss tool req) e)))))" .
  then have "new = events" by simp
  from new [unfolded this] assms(4) show thesis
    by (elim disjE exE conjE) (auto intro: once twice simp: second)
qed

text \<open>The last decision before every attempt is a licence.\<close>

definition licensed :: "bool \<Rightarrow> tool_event list \<Rightarrow> bool" where
  "licensed from_config events \<longleftrightarrow>
     (\<forall>pre a post. events = pre @ Attempted a # post \<longrightarrow>
        decisions pre \<noteq> [] \<and> licence from_config (last (decisions pre)))"

lemma licensed_no_attempt: "\<not> list_ex is_attempt events \<Longrightarrow> licensed c events"
  by (auto simp: licensed_def)

lemma licensed_once:
  assumes "licence c e" "\<not> list_ex is_attempt rest"
  shows "licensed c (e # Attempted first # rest)"
  unfolding licensed_def
proof (intro allI impI)
  fix pre a post
  assume "e # Attempted first # rest = pre @ Attempted a # post"
  then have "pre = [e]" using assms by (cases pre) (auto simp: Cons_eq_append_conv append_eq_Cons_conv)
  then show "decisions pre \<noteq> [] \<and> licence c (last (decisions pre))" using assms by (simp add: decisions_def)
qed

lemma licensed_twice:
  assumes "licence c e" "mid = [] \<or> (\<exists>e'. mid = [e'] \<and> licence c e')"
  shows "licensed c (e # Attempted first # mid @ [Attempted second])"
  unfolding licensed_def
proof (intro allI impI)
  fix pre a post
  assume "e # Attempted first # mid @ [Attempted second] = pre @ Attempted a # post"
  then have "pre = [e] \<or> pre = e # Attempted first # mid"
    using assms by (cases pre) (auto simp: Cons_eq_append_conv append_eq_Cons_conv append_eq_append_conv2)
  then show "decisions pre \<noteq> [] \<and> licence c (last (decisions pre))" using assms by (auto simp: decisions_def)
qed

lemma licence_mono: "licence c e \<Longrightarrow> (c \<Longrightarrow> c') \<Longrightarrow> licence c' e"
  by (auto simp: licence_def)

lemma run_licensed:
  assumes "guarded_runtime tool" "\<And>s. fst (run_state (strict_auto_review_enabled_for_turn ss) s) = strict"
    "\<not> strict \<and> (is_skip (requirement_of tool req turn policy) \<or> hooks_allow ss tool req) \<Longrightarrow> c"
  shows "emits (orchestrator_run os ss tool req ctx turn policy) (\<lambda>_ events. licensed c events)"
proof (rule emits_weaken [OF guarded_runtime.emits_run [OF assms(1,2)]])
  fix events
  assume shape: "\<not> list_ex is_attempt events \<or>
       (\<exists>e first rest. events = e # Attempted first # rest \<and> at_sandbox first = initial_sandbox os tool req turn \<and>
          licence (\<not> strict \<and> (is_skip (requirement_of tool req turn policy) \<or> hooks_allow ss tool req)) e \<and>
          (\<not> list_ex is_attempt rest \<or>
           policy \<noteq> Never \<and>
           (\<exists>pre. rest = pre @ [Attempted (attempt_with turn NoSandbox None)] \<and>
              (pre = [] \<and> \<not> strict \<and> \<not> is_skip (requirement_of tool req turn policy) \<or>
               (\<exists>e. pre = [e] \<and> licence (\<not> strict \<and> hooks_allow ss tool req) e)))))"
  have mono: "licence c e"
    if "licence (\<not> strict \<and> (is_skip (requirement_of tool req turn policy) \<or> hooks_allow ss tool req)) e" for e
    by (rule licence_mono [OF that assms(3)])
  then have mono': "licence c e" if "licence (\<not> strict \<and> hooks_allow ss tool req) e" for e
    using licence_mono [OF that] by (metis (mono_tags))
  from shape consider "\<not> list_ex is_attempt events"
    | e first rest where "events = e # Attempted first # rest" "licence c e" "\<not> list_ex is_attempt rest"
    | e first mid second where "events = e # Attempted first # mid @ [Attempted second]" "licence c e"
        "mid = [] \<or> (\<exists>e'. mid = [e'] \<and> licence c e')"
    using mono mono' by blast
  then show "licensed c events" by cases (simp_all add: licensed_no_attempt licensed_once licensed_twice)
qed

text \<open>
  C13 (attempts_follow_approval): every attempt to run a tool is preceded by a decision that approves it, and no decision between
  the two refuses it. That decision is not the default of the configuration when approval is required or the turn is
  reviewed strictly: it then comes from the user or the reviewing agent, or from a hook that answers, and from no hook under
  strict review.
\<close>

theorem attempts_follow_approval:
  assumes "guarded_runtime tool" "\<And>s. fst (run_state (strict_auto_review_enabled_for_turn ss) s) = strict"
    "run_state (orchestrator_run os ss tool req ctx turn policy) (s, log) = (r, s', log @ pre @ Attempted attempt # post)"
  shows "decisions pre \<noteq> [] \<and>
    licence (\<not> strict \<and> (is_skip (requirement_of tool req turn policy) \<or> hooks_allow ss tool req)) (last (decisions pre))"
proof -
  let ?c = "\<not> strict \<and> (is_skip (requirement_of tool req turn policy) \<or> hooks_allow ss tool req)"
  have "emits (orchestrator_run os ss tool req ctx turn policy) (\<lambda>_ events. licensed ?c events)"
    by (rule run_licensed [OF assms(1,2)])
  from emitsE [OF this assms(3)] have "licensed ?c (pre @ Attempted attempt # post)" by auto
  then show ?thesis unfolding licensed_def by blast
qed

text \<open>
  C12 (escalation_is_approved): a tool is attempted at most twice. The second attempt runs without a sandbox, is the last event, and is
  never made when the policy is not to ask. Between the two attempts there is exactly one decision, an approval, or none: then
  approval was required and given before the first attempt, and the turn is not reviewed strictly. So nothing that was let
  through without a question leaves the sandbox without one.
\<close>

theorem escalation_is_approved:
  assumes "guarded_runtime tool" "\<And>s. fst (run_state (strict_auto_review_enabled_for_turn ss) s) = strict"
    "run_state (orchestrator_run os ss tool req ctx turn policy) (s, log) =
       (r, s', log @ pre @ Attempted first # mid @ Attempted second # post)"
  shows "at_sandbox first = initial_sandbox os tool req turn \<and> at_sandbox second = NoSandbox \<and> post = [] \<and> policy \<noteq> Never \<and>
    \<not> list_ex is_attempt (pre @ mid) \<and>
    ((\<exists>e. mid = [e] \<and> licence (\<not> strict \<and> hooks_allow ss tool req) e) \<or>
     mid = [] \<and> \<not> strict \<and> \<not> is_skip (requirement_of tool req turn policy) \<and> list_ex (licence (\<not> strict \<and> hooks_allow ss tool req)) pre)"
proof -
  have "list_ex is_attempt (pre @ Attempted first # mid @ Attempted second # post)" by simp
  then show ?thesis
  proof (cases rule: run_log_cases [OF assms, consumes 1, case_names once twice])
    case (once e f rest)
    then have "length (filter is_attempt (pre @ Attempted first # mid @ Attempted second # post)) = 1"
      by (simp add: no_attempts_iff)
    then show ?thesis by simp
  next
    case (twice e f between g)
    then have "length (filter is_attempt (pre @ Attempted first # mid @ Attempted second # post)) = 2"
      by (simp add: no_attempts_iff)
    then have none: "\<not> list_ex is_attempt pre" "\<not> list_ex is_attempt mid" "\<not> list_ex is_attempt post"
      by (simp_all add: no_attempts_iff [symmetric])
    from twice have "pre @ Attempted first # mid @ Attempted second # post = [e] @ Attempted f # between @ Attempted g # []" by simp
    from first_attempt_unique [OF this none(1)] twice(6)
    have pre: "pre = [e]" "first = f" "mid @ Attempted second # post = between @ Attempted g # []" by simp_all
    from first_attempt_unique [OF pre(3) none(2)] twice(2) have "mid = between" "second = g" "post = []" by simp_all
    with pre none twice show ?thesis by auto
  qed
qed

section \<open>An example, and patches that are applied twice\<close>

definition sample_steps :: "'w session_steps" where
  "sample_steps =
     \<lparr>strict_auto_review_enabled_for_turn = State_Monad.return False, new_uuid = State_Monad.return ''id'',
      run_permission_request_hooks = (\<lambda>_ _. State_Monad.return None)\<rparr>"

definition agreeing_reviewers :: "'w reviewers" where
  "agreeing_reviewers =
     \<lparr>request_command_approval = (\<lambda>_. State_Monad.return Approved),
      request_patch_approval = (\<lambda>_ _ _. State_Monad.return Approved),
      review_approval_request = (\<lambda>_ _ _. State_Monad.return Approved)\<rparr>"

definition sample_turn :: turn_context where
  "sample_turn =
     \<lparr>tu_sub_id = ''t'', tu_approval_policy = OnRequest, tu_approvals_reviewer = ReviewedByUser,
      tu_sandbox_policy = ReadOnly FullAccess False,
      tu_file_system_sandbox_policy = \<lparr>fs_kind = Restricted, glob_scan_max_depth = None, fs_entries = []\<rparr>,
      tu_network_sandbox_policy = NetworkRestricted, tu_cwd = ''/w'', tu_network = False, tu_linux_sandbox_exe = None,
      tu_use_legacy_landlock = False, tu_windows_sandbox_level = DisabledLevel, tu_windows_sandbox_private_desktop = False\<rparr>"

text \<open>A file system whose sandbox does not let \<open>/w/locked\<close> be written.\<close>

definition locked_fs :: "file_system_sandbox_context option \<Rightarrow> mem file_system" where
  "locked_fs sandbox = mem_fs\<lparr>write_file :=
     (\<lambda>st p c. if sandbox \<noteq> None \<and> p = ''/w/locked''
               then (st, Err \<lparr>err_kind = OtherKind, err_message = ''Operation not permitted''\<rparr>) else write_file mem_fs st p c)\<rparr>"

definition appending_patch :: string where
  "appending_patch = join [nl]
     [''*** Begin Patch'', ''*** Update File: a'', ''@@'', ''+y'', ''*** Add File: locked'', ''+z'', ''*** End Patch'']"

definition appending_request :: apply_patch_request where
  "appending_request =
     \<lparr>ap_action = \<lparr>changes = (\<lambda>_. None), action_patch = appending_patch, action_cwd = ''/w''\<rparr>,
      ap_file_paths = [''/w/a'', ''/w/locked''], ap_changes = (\<lambda>_. None),
      ap_exec_approval_requirement = NeedsApproval None None, ap_additional_permissions = None, ap_permissions_preapproved = False\<rparr>"

definition sample_ctx :: tool_ctx where
  "sample_ctx = \<lparr>tc_turn_id = ''t'', tc_call_id = ''c'', tc_tool_name = ''apply_patch''\<rparr>"

definition patching :: "(apply_patch_request, exec_tool_call_output, mem) tool_runtime" where
  "patching = apply_patch_runtime quoted agreeing_reviewers
     (apply_patch_run to_ascii_lowercase 31 id None 0 (Some locked_fs))"

definition patched_session :: "mem tool_services \<times> tool_event list" where
  "patched_session = snd (run_state (orchestrator_run Linux sample_steps patching appending_request sample_ctx sample_turn OnRequest)
     (fresh_services (files sample_world), []))"

lemma patched_session_value:
  "(fst (surroundings (fst patched_session)) ''/w/a'', snd patched_session) =
   (Some (''x'' @ [nl] @ ''y'' @ [nl] @ ''y'' @ [nl]),
    [ToolDecision Approved FromUser, Attempted (attempt_with sample_turn LinuxSeccomp None), Attempted (attempt_with sample_turn NoSandbox None)])"
  by code_simp

text \<open>A denial may come after some hunks have been applied. The second attempt starts from the beginning: here the first hunk, which
  appends a line, is applied twice.\<close>

lemma retry_applies_again: "fst (surroundings (fst patched_session)) ''/w/a'' = Some (''x'' @ [nl] @ ''y'' @ [nl] @ ''y'' @ [nl])"
  using patched_session_value by simp

lemma patched_session_run:
  "run_state (orchestrator_run Linux sample_steps patching appending_request sample_ctx sample_turn OnRequest)
     (fresh_services (files sample_world), []) =
   (fst (run_state (orchestrator_run Linux sample_steps patching appending_request sample_ctx sample_turn OnRequest)
      (fresh_services (files sample_world), [])), fst patched_session,
    [ToolDecision Approved FromUser, Attempted (attempt_with sample_turn LinuxSeccomp None),
     Attempted (attempt_with sample_turn NoSandbox None)])"
  using patched_session_value by (simp add: patched_session_def prod_eq_iff)

lemma sample_not_strict: "fst (run_state (strict_auto_review_enabled_for_turn sample_steps) s) = False"
  by (simp add: sample_steps_def)

lemma patching_guarded: "guarded_runtime patching"
  unfolding patching_def by (rule apply_patch_rt.guarded_runtime_axioms)

theorem attempts_follow_approval_witness:
  "licence (hooks_allow sample_steps patching appending_request) (ToolDecision Approved FromUser)"
proof -
  have "requirement_of patching appending_request sample_turn OnRequest = NeedsApproval None None"
    by (simp add: requirement_of_def patching_def apply_patch_runtime_def appending_request_def)
  then show ?thesis
    using attempts_follow_approval [OF patching_guarded sample_not_strict, of Linux appending_request sample_ctx sample_turn OnRequest
      "fresh_services (files sample_world)" "[]" _ _ "[ToolDecision Approved FromUser]"] patched_session_run
    by (auto simp: decisions_def)
qed

theorem escalation_is_approved_witness:
  "at_sandbox (attempt_with sample_turn LinuxSeccomp None) = initial_sandbox Linux patching appending_request sample_turn \<and>
   \<not> is_skip (requirement_of patching appending_request sample_turn OnRequest)"
proof -
  have "run_state (orchestrator_run Linux sample_steps patching appending_request sample_ctx sample_turn OnRequest)
     (fresh_services (files sample_world), []) =
   (fst (run_state (orchestrator_run Linux sample_steps patching appending_request sample_ctx sample_turn OnRequest)
      (fresh_services (files sample_world), [])), fst patched_session,
    [] @ [ToolDecision Approved FromUser] @ Attempted (attempt_with sample_turn LinuxSeccomp None) # [] @
     Attempted (attempt_with sample_turn NoSandbox None) # [])"
    by (subst patched_session_run) simp
  from escalation_is_approved [OF patching_guarded sample_not_strict this] show ?thesis by simp
qed

section \<open>Registered calls\<close>

definition call_ids :: "network_service \<Rightarrow> string set" where
  "call_ids ns = fst ` set (active_calls ns)"

definition registered :: "'w tool_services \<Rightarrow> string set" where
  "registered s = call_ids (network_approval s)"

lemma call_ids_simps [simp]:
  "call_ids (register_call registration_id turn_id command ns) = insert registration_id (call_ids ns)"
  "call_ids (unregister_call registration_id ns) = call_ids ns - {registration_id}"
  "call_ids (fst (take_call_outcome registration_id ns)) = call_ids ns"
  by (auto simp: call_ids_def register_call_def unregister_call_def take_call_outcome_def dom_update AList.delete_eq image_iff)

lemma registered_update [simp]: "registered (network_approval_update f s) = call_ids (f (network_approval s))"
  by (simp add: registered_def)

definition keeps_calls :: "('w, 'a) step \<Rightarrow> bool" where
  "keeps_calls m \<longleftrightarrow> (\<forall>s. registered (snd (run_state m s)) = registered s)"

text \<open>A step of the orchestrator relates the registered calls before and after it.\<close>

definition changes_calls :: "('w, 'a) orchestration \<Rightarrow> ('a \<Rightarrow> string set \<Rightarrow> string set \<Rightarrow> bool) \<Rightarrow> bool" where
  "changes_calls m P \<longleftrightarrow>
     (\<forall>s log. P (fst (run_state m (s, log))) (registered s) (registered (fst (snd (run_state m (s, log))))))"

lemma changes_return: "(\<And>calls. P x calls calls) \<Longrightarrow> changes_calls (State_Monad.return x) P"
  by (simp add: changes_calls_def)

lemma changes_note_bind: "changes_calls (f ()) P \<Longrightarrow> changes_calls (State_Monad.bind (note_event e) f) P"
  by (simp add: changes_calls_def note_event_def)

lemma changes_bind:
  assumes "changes_calls m (\<lambda>x before now. P x before now)"
    "\<And>x. changes_calls (f x) (\<lambda>y before now. \<forall>start. P x start before \<longrightarrow> Q y start now)"
  shows "changes_calls (State_Monad.bind m f) Q"
  unfolding changes_calls_def
proof (intro allI)
  fix s log
  obtain x s' log' where m: "run_state m (s, log) = (x, s', log')" by (metis prod_cases3)
  then have "P x (registered s) (registered s')"
    using assms(1) [unfolded changes_calls_def, rule_format, of s log] by simp
  then show "Q (fst (run_state (m \<bind> f) (s, log))) (registered s) (registered (fst (snd (run_state (m \<bind> f) (s, log)))))"
    using assms(2) [unfolded changes_calls_def, of x, THEN spec, of s', THEN spec, of log', THEN spec, of "registered s"] m by simp
qed

lemma changes_quiet_bind:
  assumes "changes_calls m (\<lambda>_ before now. now = before)" "\<And>x. changes_calls (f x) Q"
  shows "changes_calls (State_Monad.bind m f) Q"
  by (rule changes_bind [OF assms(1)]) (use assms(2) in \<open>simp add: changes_calls_def\<close>)

lemma changes_await: "keeps_calls m \<Longrightarrow> changes_calls (await m) (\<lambda>_ before now. now = before)"
  by (simp add: changes_calls_def keeps_calls_def await_def case_prod_beta)

lemma changes_try:
  assumes "changes_calls m (\<lambda>_ before now. now = before)" "\<And>x. changes_calls (f x) Q" "\<And>e calls. Q (Err e) calls calls"
  shows "changes_calls (try_then m f) Q"
  unfolding try_then_def by (rule changes_quiet_bind [OF assms(1)]) (auto simp: assms split: sum.splits intro: changes_return)


text \<open>The steps of the session and of the tool leave the calls alone, and new identities are new.\<close>

definition undisturbed :: "'w session_steps \<Rightarrow> ('req, 'out, 'w) tool_runtime \<Rightarrow> bool" where
  "undisturbed ss tool \<longleftrightarrow>
     keeps_calls (strict_auto_review_enabled_for_turn ss) \<and> keeps_calls (new_uuid ss) \<and>
     (\<forall>s. fst (run_state (new_uuid ss) s) \<notin> registered s) \<and>
     (\<forall>run_id payload. keeps_calls (run_permission_request_hooks ss run_id payload)) \<and>
     (\<forall>req actx. keeps_calls (start_approval_async tool req actx)) \<and>
     (\<forall>req attempt ctx. keeps_calls (run_runtime tool req attempt ctx))"

lemma changes_begin:
  assumes "undisturbed ss tool"
  shows "changes_calls (await (begin_network_approval ss turn_id managed spec))
    (\<lambda>active before now. case active of
       None \<Rightarrow> now = before
     | Some a \<Rightarrow> \<exists>i. an_registration_id a = Some i \<and> i \<notin> before \<and> now = insert i before)"
  using assms
  by (auto simp: changes_calls_def undisturbed_def keeps_calls_def await_def begin_network_approval_def State_Monad.update_def
      State_Monad.get_def State_Monad.set_def case_prod_beta registered_def split: option.splits)

lemma changes_finish_immediate:
  "changes_calls (await (finish_immediate_network_approval a))
     (\<lambda>_ before now. now = before - set_option (an_registration_id a))"
  by (auto simp: changes_calls_def await_def finish_immediate_network_approval_def State_Monad.update_def
      State_Monad.get_def State_Monad.set_def case_prod_beta registered_def split: option.splits)

lemma changes_finish_deferred:
  "changes_calls (await (finish_deferred_network_approval deferred)) (\<lambda>_ before now. now = before - set_option deferred)"
  by (auto simp: changes_calls_def await_def finish_deferred_network_approval_def State_Monad.update_def
      State_Monad.get_def State_Monad.set_def case_prod_beta registered_def split: option.splits)

definition settled_calls :: "('e, 'a) result \<Rightarrow> string option \<Rightarrow> string set \<Rightarrow> string set \<Rightarrow> bool" where
  "settled_calls r deferred before now \<longleftrightarrow>
     (case r of Err _ \<Rightarrow> now = before | Ok _ \<Rightarrow> now = before \<union> set_option deferred \<and> before \<inter> set_option deferred = {})"

lemma changes_run_attempt:
  assumes "undisturbed ss tool"
  shows "changes_calls (run_attempt ss tool req ctx attempt managed) (\<lambda>(r, deferred). settled_calls r deferred)"
  unfolding run_attempt_def Let_def
proof (rule changes_bind [OF changes_begin [OF assms]], rule changes_note_bind, rule changes_bind [OF changes_await], goal_cases)
  case (1 active)
  then show ?case using assms by (simp add: undisturbed_def)
next
  case (2 active run_result)
  show ?case
    by (cases active; cases run_result)
      (auto simp: settled_calls_def into_deferred_def intro!: changes_return
        changes_bind [OF changes_finish_immediate] changes_bind [OF changes_finish_deferred]
        split: network_approval_mode.splits option.splits sum.splits)
qed

lemma changes_weaken: "changes_calls m P \<Longrightarrow> (\<And>x before now. P x before now \<Longrightarrow> Q x before now) \<Longrightarrow> changes_calls m Q"
  by (simp add: changes_calls_def)

lemma keeps_reject: "keeps_calls (reject_if_not_approved review_id decision)"
proof -
  have "keeps_calls (guardian_rejection_message i \<bind> (\<lambda>reason. State_Monad.return (Err (Rejected reason))))" for i
    by (simp add: keeps_calls_def guardian_rejection_message_def State_Monad.get_def State_Monad.set_def registered_def)
  then show ?thesis
    by (cases decision) (auto simp: reject_if_not_approved_def Let_def keeps_calls_def split: option.splits)
qed

lemma changes_ask:
  assumes "undisturbed ss tool"
  shows "changes_calls (ask ss tool req ctx run_id review_id reason network_context hooks) (\<lambda>_ before now. now = before)"
  using assms unfolding ask_def request_approval_def undisturbed_def
  by (auto intro!: changes_try changes_quiet_bind changes_await changes_note_bind changes_return keeps_reject
      split: option.splits permission_request_decision.splits)

lemma changes_guardian_review:
  "undisturbed ss tool \<Longrightarrow> changes_calls (guardian_review ss wanted) (\<lambda>_ before now. now = before)"
  by (auto simp: guardian_review_def undisturbed_def intro!: changes_quiet_bind changes_await changes_return)

lemma changes_first_approval:
  assumes "undisturbed ss tool"
  shows "changes_calls (first_approval ss tool req ctx requirement strict use_guardian) (\<lambda>_ before now. now = before)"
  unfolding first_approval_def
  by (auto intro!: changes_try changes_quiet_bind [OF changes_guardian_review [OF assms]] changes_note_bind changes_return
      changes_ask [OF assms] split: exec_approval_requirement.splits)

lemma changes_retry:
  assumes "undisturbed ss tool"
  shows "changes_calls (retry_after_denial ss tool req ctx turn policy strict use_guardian approved output decision)
    (\<lambda>r. settled_calls r (case r of Err _ \<Rightarrow> None | Ok (_, deferred) \<Rightarrow> deferred))"
proof -
  have denied: "changes_calls (State_Monad.return (Err e)) (\<lambda>r. settled_calls r (case r of Err _ \<Rightarrow> None | Ok (_, deferred) \<Rightarrow> deferred))" for e
    by (rule changes_return) (simp add: settled_calls_def)
  have attempt: "changes_calls (run_attempt ss tool req ctx a managed \<bind>
      (\<lambda>(r, deferred). State_Monad.return (map_sum id (\<lambda>result. (result, deferred)) r)))
    (\<lambda>r. settled_calls r (case r of Err _ \<Rightarrow> None | Ok (_, deferred) \<Rightarrow> deferred))" for a managed
    by (rule changes_bind [OF changes_run_attempt [OF assms]])
      (auto intro!: changes_return simp: settled_calls_def split: sum.splits)
  show ?thesis
    unfolding retry_after_denial_def Let_def
    by (auto intro!: denied attempt changes_try changes_quiet_bind [OF changes_guardian_review [OF assms]] changes_ask [OF assms]
        changes_return simp: settled_calls_def split del: if_split split: if_splits)
qed

text \<open>
  C15 (registrations_settled): every call that the orchestrator registers with the network approval service is taken out again, on every path. When the run
  fails, the registered calls are those from before; when it succeeds they are those and the one whose identity is
  returned for a deferred approval, which is new. The steps of the session and of the tool are assumed to leave the registered calls
  as they are and new identities to be new.
\<close>

theorem registrations_settled:
  assumes "undisturbed ss tool"
    "run_state (orchestrator_run os ss tool req ctx turn policy) (s, log) = (r, s', log')"
  shows "case r of
      Err _ \<Rightarrow> registered s' = registered s
    | Ok (_, deferred) \<Rightarrow> registered s' = registered s \<union> set_option deferred \<and> registered s \<inter> set_option deferred = {}"
proof -
  have "changes_calls (orchestrator_run os ss tool req ctx turn policy)
      (\<lambda>r. settled_calls r (case r of Err _ \<Rightarrow> None | Ok (_, deferred) \<Rightarrow> deferred))"
    unfolding orchestrator_run_def Let_def
  proof (rule changes_quiet_bind, goal_cases)
    case 1
    show ?case using assms(1) by (intro changes_await) (simp add: undisturbed_def)
  next
    case (2 strict)
    show ?case
      by (rule changes_try [OF changes_first_approval [OF assms(1)]], rule changes_bind [OF changes_run_attempt [OF assms(1)]])
        (auto intro!: changes_return changes_weaken [OF changes_retry [OF assms(1)]] simp: settled_calls_def
          split: sum.splits tool_error.splits codex_err.splits sandbox_err.splits)
  qed
  then show ?thesis using assms(2)
    by (auto simp: changes_calls_def settled_calls_def split: sum.splits dest!: spec [of _ s] spec [of _ log])
qed

text \<open>A process started by unified exec under a managed network keeps its registration.\<close>

definition fresh_uuid :: "('w, string) step" where
  "fresh_uuid = do {
     services \<leftarrow> State_Monad.get;
     State_Monad.return (replicate (Suc (sum_list (map (length \<circ> fst) (active_calls (network_approval services))))) CHR ''i'')
   }"

definition network_steps :: "'w session_steps" where
  "network_steps = sample_steps\<lparr>new_uuid := fresh_uuid\<rparr>"

definition starting :: "(unified_exec_request, nat, unit) tool_runtime" where
  "starting = unified_exec_runtime (\<lambda>_. None) (\<lambda>_. None) agreeing_reviewers (\<lambda>_ _ _. State_Monad.return (Ok 7))"

definition starting_request :: unified_exec_request where
  "starting_request =
     \<lparr>ue_command = [''top''], ue_hook_command = ''top'', ue_process_id = 1, ue_cwd = ''/w'', ue_env = (\<lambda>_. None),
      ue_explicit_env_overrides = (\<lambda>_. None), ue_network = True, ue_tty = False, ue_sandbox_permissions = UseDefault,
      ue_additional_permissions = None, ue_additional_permissions_preapproved = False, ue_justification = None,
      ue_exec_approval_requirement = Skip False None\<rparr>"

lemma starting_undisturbed: "undisturbed network_steps starting"
proof -
  have fresh: "fst (run_state fresh_uuid s) \<notin> registered s" for s :: "unit tool_services"
  proof
    let ?id = "fst (run_state fresh_uuid s)"
    assume "?id \<in> registered s"
    then have "length ?id \<in> set (map (length \<circ> fst) (active_calls (network_approval s)))"
      by (force simp: registered_def call_ids_def)
    then have "length ?id \<le> sum_list (map (length \<circ> fst) (active_calls (network_approval s)))" by (rule member_le_sum_list) simp_all
    then show False by (simp add: fresh_uuid_def State_Monad.get_def)
  qed
  have "keeps_calls (with_cached_approval to_json keys (State_Monad.return Approved))" for to_json :: "'k \<Rightarrow> _" and keys
    by (simp add: keeps_calls_def run_with_cached_approval)
  then show ?thesis
    using fresh
    by (auto simp: undisturbed_def network_steps_def sample_steps_def starting_def unified_exec_runtime_def agreeing_reviewers_def
        unified_exec_start_approval_def keeps_calls_def fresh_uuid_def State_Monad.get_def split: option.splits)
qed

theorem registrations_settled_witness:
  "registered (fst (snd (run_state (orchestrator_run Linux network_steps starting starting_request sample_ctx (sample_turn\<lparr>tu_network := True\<rparr>) OnRequest)
     (fresh_services (), [])))) = {''i''}"
proof -
  let ?run = "run_state (orchestrator_run Linux network_steps starting starting_request sample_ctx (sample_turn\<lparr>tu_network := True\<rparr>) OnRequest)
     (fresh_services (), [])"
  have ok: "fst ?run = Ok (7, Some ''i'')" by code_simp
  have "?run = (fst ?run, fst (snd ?run), snd (snd ?run))" by simp
  from registrations_settled [OF starting_undisturbed this]
  have "registered (fst (snd ?run)) = registered (fresh_services ()) \<union> set_option (Some ''i'')"
    unfolding ok by simp
  moreover have "registered (fresh_services ()) = {}" by (simp add: registered_def call_ids_def fresh_services_def default_service_def)
  ultimately show ?thesis by simp
qed

end
