(* ===== verification/Tool_Handlers.thy ===== *)
theory Tool_Handlers
  imports Tool_Orchestrator Truncation "HOL-Library.Product_Lexorder"
begin

text \<open>
  \<open>codex-rs/core/src/tools/handlers\<close>: what the handlers of shell commands and of patches do between a call of the model and the
  orchestrator. Permissions granted for the turn or the session are applied, escalations that the policy does not allow
  are refused, a patch hidden in a command is taken out, and the requirement of the execution policy or the assessment of
  the patch goes into the request. With it \<open>ToolEmitter::finish\<close> of \<open>core/src/tools/events.rs\<close> and the et for the
  model of \<open>core/src/tools/mod.rs\<close>.

  Decoding of arguments and events for the user interface are left out. A result \<open>None\<close> is a panic.
\<close>

section \<open>Granted permissions\<close>

record 'w handler_session =
  granted_session_permissions :: "('w, permission_profile option) step"
  granted_turn_permissions :: "('w, permission_profile option) step"
  dependency_env :: "('w, string \<Rightarrow> string option) step"
  current_policy :: "('w, policy) step"
  exec_permission_approvals_feature :: bool
  request_permissions_tool_feature :: bool
  shell_environment_set :: "string \<Rightarrow> string option"

datatype function_call_error = RespondToModel string | MissingLocalShellCallId | Fatal string

text \<open>\<open>{:?}\<close> of a policy.\<close>

definition debug_bool :: "bool \<Rightarrow> string" where
  "debug_bool b = (if b then ''true'' else ''false'')"

fun debug_policy :: "ask_for_approval \<Rightarrow> string" where
  "debug_policy UnlessTrusted = ''UnlessTrusted''"
| "debug_policy OnFailure = ''OnFailure''"
| "debug_policy OnRequest = ''OnRequest''"
| "debug_policy (Granular config) =
     ''Granular(GranularApprovalConfig { sandbox_approval: '' @ debug_bool (sandbox_approval config) @
     '', rules: '' @ debug_bool (allow_rules config) @ '', skill_approval: '' @ debug_bool (skill_approval config) @
     '', request_permissions: '' @ debug_bool (request_permissions config) @
     '', mcp_elicitations: '' @ debug_bool (mcp_elicitations config) @ '' })''"
| "debug_policy Never = ''Never''"

definition em_dash :: string where
  "em_dash = [CHR 0xE2, CHR 0x80, CHR 0x94]"

definition normalize_and_validate_additional_permissions ::
  "fs_probe \<Rightarrow> bool \<Rightarrow> ask_for_approval \<Rightarrow> sandbox_permissions \<Rightarrow> permission_profile option \<Rightarrow> bool \<Rightarrow>
   (string, permission_profile option) result" where
  "normalize_and_validate_additional_permissions pr additional_permissions_allowed approval_policy sp additional preapproved =
     (let uses_additional_permissions = (sp = WithAdditionalPermissions)
      in if \<not> preapproved \<and> \<not> additional_permissions_allowed \<and> (uses_additional_permissions \<or> additional \<noteq> None) then
           Err ''additional permissions are disabled; enable `features.exec_permission_approvals` before using `with_additional_permissions`''
         else if uses_additional_permissions then
           if \<not> preapproved \<and> approval_policy \<noteq> OnRequest then
             Err (''approval policy is '' @ debug_policy approval_policy @ ''; reject command '' @ em_dash @
               '' you cannot request additional permissions unless the approval policy is OnRequest'')
           else
             (case additional of
                None \<Rightarrow> Err ''missing `additional_permissions`; provide at least one of `network` or `file_system` when using `with_additional_permissions`''
              | Some profile \<Rightarrow>
                  (case normalize_additional_permissions pr profile of
                     Err e \<Rightarrow> Err e
                   | Ok normalized \<Rightarrow>
                       if profile_is_empty normalized then
                         Err ''`additional_permissions` must include at least one requested permission in `network` or `file_system`''
                       else Ok (Some normalized)))
         else if additional \<noteq> None then
           Err ''`additional_permissions` requires `sandbox_permissions` set to `with_additional_permissions`''
         else Ok None)"

record effective_additional_permissions =
  eff_sandbox_permissions :: sandbox_permissions
  eff_additional_permissions :: "permission_profile option"
  eff_permissions_preapproved :: bool

definition implicit_granted_permissions ::
  "sandbox_permissions \<Rightarrow> permission_profile option \<Rightarrow> effective_additional_permissions \<Rightarrow> permission_profile option" where
  "implicit_granted_permissions sp additional effective =
     (if sp \<noteq> WithAdditionalPermissions \<and> sp \<noteq> RequireEscalated \<and> additional = None
      then eff_additional_permissions effective else None)"

definition permissions_are_preapproved ::
  "fs_probe \<Rightarrow> glob_compiler \<Rightarrow> permission_profile \<Rightarrow> permission_profile \<Rightarrow> string \<Rightarrow> bool" where
  "permissions_are_preapproved pr glob effective granted cwd \<longleftrightarrow>
     intersect_permission_profiles pr glob effective granted cwd = intersect_permission_profiles pr glob effective effective cwd"

definition apply_granted_turn_permissions ::
  "fs_probe \<Rightarrow> glob_compiler \<Rightarrow> 'w handler_session \<Rightarrow> string \<Rightarrow> sandbox_permissions \<Rightarrow> permission_profile option \<Rightarrow>
   ('w, effective_additional_permissions) step" where
  "apply_granted_turn_permissions pr glob hs cwd sp additional =
     (if sp = RequireEscalated then
        State_Monad.return
          \<lparr>eff_sandbox_permissions = sp, eff_additional_permissions = additional, eff_permissions_preapproved = False\<rparr>
      else do {
        granted_session \<leftarrow> granted_session_permissions hs;
        granted_turn \<leftarrow> granted_turn_permissions hs;
        let granted = merge_permission_profiles granted_session granted_turn;
        let effective = merge_permission_profiles additional granted;
        State_Monad.return
          \<lparr>eff_sandbox_permissions =
             (if effective \<noteq> None \<and> sp \<noteq> WithAdditionalPermissions then WithAdditionalPermissions else sp),
           eff_additional_permissions = effective,
           eff_permissions_preapproved =
             (case (effective, granted) of
                (Some effective, Some granted) \<Rightarrow> permissions_are_preapproved pr glob effective granted cwd
              | _ \<Rightarrow> False)\<rparr>
      })"

section \<open>Texts for the model\<close>

text \<open>Durations are in nanoseconds. How seconds are printed and the JSON encoder are arguments.\<close>

definition build_content_with_timeout :: "exec_tool_call_output \<Rightarrow> string" where
  "build_content_with_timeout output =
     (if timed_out output then
        ''command timed out after '' @ show_nat (duration output div 1000000) @ '' milliseconds'' @ [nl] @
        out_text (aggregated_output output)
      else out_text (aggregated_output output))"

definition format_exec_output_str :: "exec_tool_call_output \<Rightarrow> truncation_policy \<Rightarrow> string option" where
  "format_exec_output_str output policy = formatted_truncate_text (build_content_with_timeout output) policy"

definition show_int :: "int \<Rightarrow> string" where
  "show_int i = (if i < 0 then ''-'' @ show_nat (nat (- i)) else show_nat (nat i))"

definition format_exec_output_for_model_freeform ::
  "(nat \<Rightarrow> string) \<Rightarrow> exec_tool_call_output \<Rightarrow> truncation_policy \<Rightarrow> string option" where
  "format_exec_output_for_model_freeform seconds output policy =
     (let content = build_content_with_timeout output;
          total_lines = length (str_lines content)
      in map_option (\<lambda>formatted_output.
           join [nl]
             ([''Exit code: '' @ show_int (exit_code output), ''Wall time: '' @ seconds (duration output) @ '' seconds''] @
              (if total_lines \<noteq> length (str_lines formatted_output) then [''Total output lines: '' @ show_nat total_lines] else []) @
              [''Output:'', formatted_output]))
         (truncate_text content policy))"

definition format_exec_output_for_model_structured ::
  "(string \<Rightarrow> int \<Rightarrow> nat \<Rightarrow> string) \<Rightarrow> exec_tool_call_output \<Rightarrow> truncation_policy \<Rightarrow> string option" where
  "format_exec_output_for_model_structured to_json output policy =
     map_option (\<lambda>formatted_output. to_json formatted_output (exit_code output) (duration output))
       (format_exec_output_str output policy)"

datatype tool_emitter = EmitShell bool | EmitApplyPatch | EmitUnifiedExec

record emitter_texts =
  seconds_text :: "nat \<Rightarrow> string"
  output_json :: "string \<Rightarrow> int \<Rightarrow> nat \<Rightarrow> string"
  debug_error :: "codex_err \<Rightarrow> string"
  model_truncation :: truncation_policy

definition format_exec_output_for_model :: "emitter_texts \<Rightarrow> tool_emitter \<Rightarrow> exec_tool_call_output \<Rightarrow> string option" where
  "format_exec_output_for_model et emitter output =
     (if emitter = EmitShell True
      then format_exec_output_for_model_freeform (seconds_text et) output (model_truncation et)
      else format_exec_output_for_model_structured (output_json et) output (model_truncation et))"

definition finish_tool ::
  "emitter_texts \<Rightarrow> tool_emitter \<Rightarrow> (tool_error, exec_tool_call_output) result \<Rightarrow> (function_call_error, string) result option" where
  "finish_tool et emitter out =
     (case out of
        Ok output \<Rightarrow>
          map_option (\<lambda>content. if exit_code output = 0 then Ok content else Err (RespondToModel content))
            (format_exec_output_for_model et emitter output)
      | Err (Codex (SandboxError (SandboxTimeout output))) \<Rightarrow>
          map_option (\<lambda>response. Err (RespondToModel response)) (format_exec_output_for_model et emitter output)
      | Err (Codex (SandboxError (SandboxDenied output _))) \<Rightarrow>
          map_option (\<lambda>response. Err (RespondToModel response)) (format_exec_output_for_model et emitter output)
      | Err (Codex err) \<Rightarrow> Some (Err (RespondToModel (''execution error: '' @ debug_error et err)))
      | Err (Rejected msg) \<Rightarrow>
          Some (Err (RespondToModel
            (if msg = ''rejected by user''
             then (if emitter = EmitApplyPatch then ''patch rejected by user'' else ''exec command rejected by user'')
             else msg))))"

section \<open>Patches\<close>

text \<open>A \<open>BTreeSet\<close> of paths orders them by their components.\<close>

fun component_rank :: "path_component \<Rightarrow> nat \<times> string" where
  "component_rank RootDir = (0, [])"
| "component_rank CurDir = (1, [])"
| "component_rank ParentDir = (2, [])"
| "component_rank (Normal n) = (3, n)"

lemma component_rank_inj: "component_rank a = component_rank b \<Longrightarrow> a = b"
  by (cases a; cases b) simp_all

instantiation path_component :: linorder
begin

definition less_eq_path_component :: "path_component \<Rightarrow> path_component \<Rightarrow> bool" where
  "less_eq_path_component a b \<longleftrightarrow> component_rank a \<le> component_rank b"

definition less_path_component :: "path_component \<Rightarrow> path_component \<Rightarrow> bool" where
  "less_path_component a b \<longleftrightarrow> component_rank a < component_rank b"

instance
  by standard (auto simp: less_eq_path_component_def less_path_component_def intro: component_rank_inj)

end

definition path_set :: "string list \<Rightarrow> string list" where
  "path_set paths = sort_key components (remdups paths)"

text \<open>What the handlers take from the process: the platform, the state of the disk, the encoders, the bash grammar and query,
  the line diff, the order of a hash map, and the file system of the environment, which may be remote.\<close>

record 'fs handler_host =
  hh_os :: target_os
  hh_probe :: fs_probe
  hh_glob :: glob_compiler
  hh_approval :: approval_host
  hh_query :: bash_query
  hh_differ :: differ
  hh_order :: "apply_patch_action \<Rightarrow> string list"
  hh_path_json :: "string \<Rightarrow> string option"
  hh_key_json :: "approval_key \<Rightarrow> string option"
  hh_lowercase :: "string \<Rightarrow> string"
  hh_sigsys :: int
  hh_utf8 :: "string \<Rightarrow> string"
  hh_elapsed :: nat
  hh_environment :: "(file_system_sandbox_context option \<Rightarrow> 'fs file_system) option"
  hh_remote :: bool
  hh_texts :: emitter_texts

abbreviation hh_home :: "'fs handler_host \<Rightarrow> string option" where
  "hh_home hh \<equiv> env_home (probe_env (hh_probe hh))"

fun moved_to :: "apply_patch_file_change \<Rightarrow> string option" where
  "moved_to (Update _ move_path _) = move_path"
| "moved_to _ = None"

definition to_abs_path :: "string option \<Rightarrow> string \<Rightarrow> string \<Rightarrow> string option" where
  "to_abs_path home cwd path = Some (resolve_path_against_base home path cwd)"

definition file_paths_for_action :: "string option \<Rightarrow> string list \<Rightarrow> apply_patch_action \<Rightarrow> string list" where
  "file_paths_for_action home keys action =
     concat (map (\<lambda>path. case changes action path of
         None \<Rightarrow> []
       | Some change \<Rightarrow>
           List.map_filter (to_abs_path home (action_cwd action))
             (path # (case moved_to change of Some dest \<Rightarrow> [dest] | None \<Rightarrow> []))) keys)"

fun all_some :: "'a option list \<Rightarrow> 'a list option" where
  "all_some [] = Some []"
| "all_some (None # rest) = None"
| "all_some (Some x # rest) = map_option (Cons x) (all_some rest)"

definition write_permissions_for_paths ::
  "fs_probe \<Rightarrow> string list \<Rightarrow> file_system_sandbox_policy \<Rightarrow> string \<Rightarrow> permission_profile option" where
  "write_permissions_for_paths pr file_paths p cwd =
     (case all_some (map (to_absolute pr)
         (path_set (filter (\<lambda>path. \<not> can_write_path_with_cwd pr p path cwd)
           (map (\<lambda>path. case abs_parent path of Some parent \<Rightarrow> parent | None \<Rightarrow> path) file_paths)))) of
        None \<Rightarrow> None
      | Some write_paths \<Rightarrow>
          if write_paths = [] then None
          else
            (case normalize_additional_permissions pr
                \<lparr>prof_network = None, prof_file_system = Some (from_read_write_roots (Some []) (Some write_paths))\<rparr> of
               Ok permissions \<Rightarrow> Some permissions
             | Err _ \<Rightarrow> None))"

definition effective_patch_permissions ::
  "'fs handler_host \<Rightarrow> 'fs handler_session \<Rightarrow> turn_context \<Rightarrow> apply_patch_action \<Rightarrow>
   ('fs, string list \<times> effective_additional_permissions \<times> file_system_sandbox_policy) step" where
  "effective_patch_permissions hh hs turn action = do {
     let file_paths = file_paths_for_action (hh_home hh) (hh_order hh action) action;
     granted_session \<leftarrow> granted_session_permissions hs;
     granted_turn \<leftarrow> granted_turn_permissions hs;
     let granted = merge_permission_profiles granted_session granted_turn;
     let policy = effective_file_system_sandbox_policy (tu_file_system_sandbox_policy turn) granted;
     effective \<leftarrow> apply_granted_turn_permissions (hh_probe hh) (hh_glob hh) hs (tu_cwd turn) UseDefault
       (write_permissions_for_paths (hh_probe hh) file_paths policy (tu_cwd turn));
     State_Monad.return (file_paths, effective, policy)
   }"

text \<open>A verified patch, from the tool or taken out of a command: the assessment, and the orchestrator.\<close>

definition apply_verified_patch ::
  "'fs handler_host \<Rightarrow> 'fs session_steps \<Rightarrow> 'fs reviewers \<Rightarrow> 'fs handler_session \<Rightarrow> turn_context \<Rightarrow> tool_ctx \<Rightarrow> apply_patch_action \<Rightarrow>
   ('fs, (function_call_error, string) result option) orchestration" where
  "apply_verified_patch hh ss rv hs turn ctx action = do {
     (file_paths, effective, policy) \<leftarrow> await (effective_patch_permissions hh hs turn action);
     case apply_patch_call (hh_probe hh) (hh_os hh) (hh_order hh action) (tu_approval_policy turn) (tu_sandbox_policy turn)
         (tu_cwd turn) (tu_windows_sandbox_level turn) policy action of
       OutputError message \<Rightarrow> State_Monad.return (Some (Err (RespondToModel message)))
     | DelegateToRuntime apply \<Rightarrow> do {
         let req = \<lparr>ap_action = inv_action apply, ap_file_paths = file_paths,
           ap_changes = convert_apply_patch_to_protocol (hh_order hh action) (inv_action apply),
           ap_exec_approval_requirement = inv_exec_approval_requirement apply,
           ap_additional_permissions = eff_additional_permissions effective,
           ap_permissions_preapproved = eff_permissions_preapproved effective\<rparr>;
         out \<leftarrow> orchestrator_run (hh_os hh) ss
           (apply_patch_runtime (hh_path_json hh) rv
              (apply_patch_run (hh_lowercase hh) (hh_sigsys hh) (hh_utf8 hh) (hh_home hh) (hh_elapsed hh) (hh_environment hh)))
           req ctx turn (tu_approval_policy turn);
         State_Monad.return (finish_tool (hh_texts hh) EmitApplyPatch (map_sum id fst out))
       }
   }"

definition turn_sandbox_context :: "turn_context \<Rightarrow> permission_profile option \<Rightarrow> file_system_sandbox_context" where
  "turn_sandbox_context turn additional =
     (let base_permissions = from_runtime_permissions (tu_file_system_sandbox_policy turn) (tu_network_sandbox_policy turn)
      in \<lparr>sc_permissions =
            (case merge_permission_profiles (Some base_permissions) additional of
               Some merged \<Rightarrow> merged
             | None \<Rightarrow> base_permissions),
          sc_cwd = Some (tu_cwd turn), sc_windows_sandbox_level = tu_windows_sandbox_level turn,
          sc_windows_sandbox_private_desktop = tu_windows_sandbox_private_desktop turn,
          sc_use_legacy_landlock = tu_use_legacy_landlock turn\<rparr>)"

definition verify_patch :: "'fs handler_host \<Rightarrow> turn_context \<Rightarrow> (file_system_sandbox_context option \<Rightarrow> 'fs file_system) \<Rightarrow> string list \<Rightarrow> string \<Rightarrow>
   'fs tool_services \<Rightarrow> maybe_apply_patch_verified option" where
  "verify_patch hh turn get_filesystem command cwd s =
     maybe_parse_apply_patch_verified (hh_query hh) (hh_differ hh)
       (get_filesystem (if hh_remote hh then Some (turn_sandbox_context turn None) else None)) (surroundings s) (hh_home hh) command cwd"

definition apply_patch_handle ::
  "'fs handler_host \<Rightarrow> 'fs session_steps \<Rightarrow> 'fs reviewers \<Rightarrow> 'fs handler_session \<Rightarrow> turn_context \<Rightarrow> tool_ctx \<Rightarrow> string \<Rightarrow>
   ('fs, (function_call_error, string) result option) orchestration" where
  "apply_patch_handle hh ss rv hs turn ctx patch_input =
     (case hh_environment hh of
        None \<Rightarrow> State_Monad.return (Some (Err (RespondToModel ''apply_patch is unavailable in this session'')))
      | Some get_filesystem \<Rightarrow> do {
          services \<leftarrow> await State_Monad.get;
          case verify_patch hh turn get_filesystem [''apply_patch'', patch_input] (tu_cwd turn) services of
            None \<Rightarrow> State_Monad.return None
          | Some (VerifiedBody action) \<Rightarrow> apply_verified_patch hh ss rv hs turn ctx action
          | Some (CorrectnessError e) \<Rightarrow>
              State_Monad.return (Some (Err (RespondToModel (''apply_patch verification failed: '' @ show_apply_patch_error e))))
          | Some (VerifiedShellParseError e) \<Rightarrow>
              State_Monad.return (Some (Err (RespondToModel ''apply_patch handler received invalid patch input'')))
          | Some VerifiedNotApplyPatch \<Rightarrow>
              State_Monad.return (Some (Err (RespondToModel ''apply_patch handler received non-apply_patch input'')))
        })"

text \<open>A command that is a patch is applied as one; \<open>Ok None\<close> is any other command.\<close>

definition intercept_apply_patch ::
  "'fs handler_host \<Rightarrow> 'fs session_steps \<Rightarrow> 'fs reviewers \<Rightarrow> 'fs handler_session \<Rightarrow> turn_context \<Rightarrow> tool_ctx \<Rightarrow>
   (file_system_sandbox_context option \<Rightarrow> 'fs file_system) \<Rightarrow> string list \<Rightarrow> string \<Rightarrow>
   ('fs, (function_call_error, string option) result option) orchestration" where
  "intercept_apply_patch hh ss rv hs turn ctx get_filesystem command cwd = do {
     services \<leftarrow> await State_Monad.get;
     case verify_patch hh turn get_filesystem command cwd services of
       None \<Rightarrow> State_Monad.return None
     | Some (VerifiedBody action) \<Rightarrow> do {
         content \<leftarrow> apply_verified_patch hh ss rv hs turn ctx action;
         State_Monad.return (map_option (map_sum id Some) content)
       }
     | Some (CorrectnessError e) \<Rightarrow>
         State_Monad.return (Some (Err (RespondToModel (''apply_patch verification failed: '' @ show_apply_patch_error e))))
     | Some (VerifiedShellParseError e) \<Rightarrow> State_Monad.return (Some (Ok None))
     | Some VerifiedNotApplyPatch \<Rightarrow> State_Monad.return (Some (Ok None))
   }"

section \<open>Shell commands\<close>

record exec_params =
  xp_command :: "string list"
  xp_cwd :: string
  xp_timeout_ms :: "64 word option"
  xp_env :: "string \<Rightarrow> string option"
  xp_network :: bool
  xp_sandbox_permissions :: sandbox_permissions
  xp_justification :: "string option"

definition resolve_use_login_shell :: "bool option \<Rightarrow> bool \<Rightarrow> (function_call_error, bool) result" where
  "resolve_use_login_shell login allow_login_shell =
     (if \<not> allow_login_shell \<and> login = Some True
      then Err (RespondToModel ''login shell is disabled by config; omit `login` or set it to false.'')
      else Ok (case login of Some l \<Rightarrow> l | None \<Rightarrow> allow_login_shell))"

definition explicit_env_overrides ::
  "(string \<Rightarrow> string option) \<Rightarrow> (string \<Rightarrow> string option) \<Rightarrow> (string \<Rightarrow> string option) \<Rightarrow> string \<Rightarrow> string option" where
  "explicit_env_overrides overrides env' dep_env key =
     (if dep_env key = None then overrides key else case env' key of Some value \<Rightarrow> Some value | None \<Rightarrow> overrides key)"

definition rejects_escalation :: "effective_additional_permissions \<Rightarrow> ask_for_approval \<Rightarrow> bool" where
  "rejects_escalation effective policy \<longleftrightarrow>
     requests_sandbox_override (eff_sandbox_permissions effective) \<and> \<not> eff_permissions_preapproved effective \<and> policy \<noteq> OnRequest"

definition run_exec_like ::
  "'fs handler_host \<Rightarrow> 'fs session_steps \<Rightarrow> 'fs reviewers \<Rightarrow> 'fs handler_session \<Rightarrow>
   (shell_request \<Rightarrow> sandbox_attempt \<Rightarrow> tool_ctx \<Rightarrow> ('fs, (tool_error, exec_tool_call_output) result) step) \<Rightarrow>
   turn_context \<Rightarrow> tool_ctx \<Rightarrow> exec_params \<Rightarrow> string \<Rightarrow> permission_profile option \<Rightarrow> string list option \<Rightarrow> bool \<Rightarrow>
   ('fs, (function_call_error, string) result option) orchestration" where
  "run_exec_like hh ss rv hs execute turn ctx params hook_command additional prefix_rule freeform =
     (case hh_environment hh of
        None \<Rightarrow> State_Monad.return (Some (Err (RespondToModel ''shell is unavailable in this session'')))
      | Some get_filesystem \<Rightarrow> do {
          dep_env \<leftarrow> await (dependency_env hs);
          let env' = xp_env params ++ dep_env;
          let overrides = explicit_env_overrides (shell_environment_set hs) env' dep_env;
          effective \<leftarrow> await (apply_granted_turn_permissions (hh_probe hh) (hh_glob hh) hs (tu_cwd turn)
            (xp_sandbox_permissions params) additional);
          let allowed = (exec_permission_approvals_feature hs \<or>
            request_permissions_tool_feature hs \<and> eff_permissions_preapproved effective);
          case (case implicit_granted_permissions (xp_sandbox_permissions params) additional effective of
                  Some permissions \<Rightarrow> Ok (Some permissions)
                | None \<Rightarrow>
                    normalize_and_validate_additional_permissions (hh_probe hh) allowed (tu_approval_policy turn)
                      (eff_sandbox_permissions effective) (eff_additional_permissions effective)
                      (eff_permissions_preapproved effective)) of
            Err message \<Rightarrow> State_Monad.return (Some (Err (RespondToModel message)))
          | Ok normalized \<Rightarrow>
              if rejects_escalation effective (tu_approval_policy turn) then
                State_Monad.return (Some (Err (RespondToModel
                  (''approval policy is '' @ debug_policy (tu_approval_policy turn) @ ''; reject command '' @ em_dash @
                   '' you should not ask for escalated permissions if the approval policy is '' @
                   debug_policy (tu_approval_policy turn)))))
              else do {
                intercepted \<leftarrow> intercept_apply_patch hh ss rv hs turn ctx get_filesystem (xp_command params) (xp_cwd params);
                case intercepted of
                  None \<Rightarrow> State_Monad.return None
                | Some (Err e) \<Rightarrow> State_Monad.return (Some (Err e))
                | Some (Ok (Some output)) \<Rightarrow> State_Monad.return (Some (Ok output))
                | Some (Ok None) \<Rightarrow> do {
                    p \<leftarrow> await (current_policy hs);
                    case create_exec_approval_requirement_for_command (hh_approval hh) p
                        \<lparr>req_command = xp_command params, req_approval_policy = tu_approval_policy turn,
                         req_sandbox_policy = tu_sandbox_policy turn, req_fs_kind = fs_kind (tu_file_system_sandbox_policy turn),
                         req_sandbox_permissions =
                           (if eff_permissions_preapproved effective then UseDefault else eff_sandbox_permissions effective),
                         req_prefix_rule = prefix_rule\<rparr> of
                      None \<Rightarrow> State_Monad.return None
                    | Some requirement \<Rightarrow> do {
                        out \<leftarrow> orchestrator_run (hh_os hh) ss
                          (shell_runtime (grammar (hh_approval hh)) (hh_key_json hh) rv execute)
                          \<lparr>sh_command = xp_command params, sh_hook_command = hook_command, sh_cwd = xp_cwd params,
                           sh_timeout_ms = xp_timeout_ms params, sh_env = env', sh_explicit_env_overrides = overrides,
                           sh_network = xp_network params, sh_sandbox_permissions = eff_sandbox_permissions effective,
                           sh_additional_permissions = normalized,
                           sh_additional_permissions_preapproved = eff_permissions_preapproved effective,
                           sh_justification = xp_justification params, sh_exec_approval_requirement = requirement\<rparr>
                          ctx turn (tu_approval_policy turn);
                        State_Monad.return (finish_tool (hh_texts hh) (EmitShell freeform) (map_sum id fst out))
                      }
                  }
              }
        })"

section \<open>Leaving the sandbox\<close>

lemma emits_not_a_patch:
  assumes "\<And>fs s. verify_patch hh turn fs command cwd s = Some VerifiedNotApplyPatch"
  shows "emits (intercept_apply_patch hh ss rv hs turn ctx get_filesystem command cwd)
    (\<lambda>r events. r = Some (Ok None) \<and> events = [])"
  unfolding intercept_apply_patch_def by (auto simp: assms intro!: emits_intros)

text \<open>Every attempt without a sandbox has an approval before it, unless such attempts are allowed.\<close>

definition leaves_knowingly :: "bool \<Rightarrow> bool \<Rightarrow> tool_event list \<Rightarrow> bool" where
  "leaves_knowingly from_config allowed events \<longleftrightarrow>
     allowed \<or> (\<forall>pre a post. events = pre @ Attempted a # post \<longrightarrow> at_sandbox a = NoSandbox \<longrightarrow> list_ex (licence from_config) pre)"

lemma leaves_allowed [simp]: "leaves_knowingly c True events"
  by (simp add: leaves_knowingly_def)

lemma leaves_quiet: "\<not> list_ex is_attempt events \<Longrightarrow> leaves_knowingly c allowed events"
  by (auto simp: leaves_knowingly_def)

lemma leaves_licensed: "licence c e \<Longrightarrow> leaves_knowingly c allowed (e # events)"
  by (auto simp: leaves_knowingly_def Cons_eq_append_conv)

lemma leaves_inside:
  assumes "at_sandbox first \<noteq> NoSandbox" "\<not> list_ex is_attempt mid" "rest = [] \<or> list_ex (licence c) mid" "\<not> is_attempt e"
    "length rest \<le> 1"
  shows "leaves_knowingly c allowed (e # Attempted first # mid @ rest)"
  unfolding leaves_knowingly_def
proof (intro disjI2 allI impI)
  fix pre a post
  assume events: "e # Attempted first # mid @ rest = pre @ Attempted a # post" and a: "at_sandbox a = NoSandbox"
  from events assms(4) obtain pre' where pre: "pre = e # pre'" "Attempted first # mid @ rest = pre' @ Attempted a # post"
    by (cases pre) auto
  with assms(1) a obtain pre'' where pre'': "pre' = Attempted first # pre''" "mid @ rest = pre'' @ Attempted a # post"
    by (cases pre') auto
  then have "pre'' = mid \<and> rest \<noteq> []"
    using assms(2,5) by (cases rest) (auto simp: append_eq_append_conv2 append_eq_Cons_conv Cons_eq_append_conv)
  then show "list_ex (licence c) pre" using assms(3) pre pre'' by simp
qed

lemma shell_requirement: "requirement_of (shell_runtime parser to_json rv execute) req turn policy = sh_exec_approval_requirement req"
  by (simp add: requirement_of_def shell_runtime_def)

lemma shell_initial_sandbox:
  "initial_sandbox os (shell_runtime parser to_json rv execute) req turn =
     (case sandbox_override_for_first_attempt (sh_sandbox_permissions req) (sh_exec_approval_requirement req) of
        BypassSandboxFirstAttempt \<Rightarrow> NoSandbox
      | NoOverride \<Rightarrow> select_initial os (tu_file_system_sandbox_policy turn) (tu_network_sandbox_policy turn) Tool_Approval.Auto
          (tu_windows_sandbox_level turn) (tu_network turn))"
  by (simp add: initial_sandbox_def shell_runtime_def split: sandbox_override.split)

lemma shell_leaves_knowingly:
  assumes "\<And>s. fst (run_state (strict_auto_review_enabled_for_turn ss) s) = strict"
    "select_initial os (tu_file_system_sandbox_policy turn) (tu_network_sandbox_policy turn) Tool_Approval.Auto
       (tu_windows_sandbox_level turn) (tu_network turn) \<noteq> NoSandbox"
    "is_skip (sh_exec_approval_requirement req) \<Longrightarrow>
     sandbox_override_for_first_attempt (sh_sandbox_permissions req) (sh_exec_approval_requirement req) = BypassSandboxFirstAttempt \<Longrightarrow>
     allowed"
    "\<not> strict \<and> hooks_allow ss (shell_runtime parser to_json rv execute) req \<Longrightarrow> c"
  shows "emits (orchestrator_run os ss (shell_runtime parser to_json rv execute) req ctx turn policy)
    (\<lambda>_ events. leaves_knowingly c allowed events)"
proof (rule emits_weaken [OF shell_rt.emits_run [OF assms(1)]], goal_cases)
  case (1 x events)
  let ?rt = "shell_runtime parser to_json rv execute" and ?r = "sh_exec_approval_requirement req"
  have mono: "licence c e" if "licence (\<not> strict \<and> hooks_allow ss ?rt req) e" for e
    by (rule licence_mono [OF that assms(4)])
  have start: "licence c e \<or> is_skip ?r" if "licence (\<not> strict \<and> (is_skip ?r \<or> hooks_allow ss ?rt req)) e" for e
    using that mono by (cases "is_skip ?r") auto
  have inside: "at_sandbox first \<noteq> NoSandbox \<or> allowed" if "is_skip ?r" "at_sandbox first = initial_sandbox os ?rt req turn" for first
    using that assms(2,3) by (auto simp: shell_initial_sandbox split: sandbox_override.splits)
  note shape = 1 [unfolded shell_requirement]
  show ?case
  proof (cases "list_ex is_attempt events")
    case True
    with shape obtain e first rest where events: "events = e # Attempted first # rest"
      and first: "at_sandbox first = initial_sandbox os ?rt req turn"
      and e: "licence (\<not> strict \<and> (is_skip ?r \<or> hooks_allow ss ?rt req)) e"
      and rest: "\<not> list_ex is_attempt rest \<or>
        (\<exists>pre. rest = pre @ [Attempted (attempt_with turn NoSandbox None)] \<and>
          (pre = [] \<and> \<not> is_skip ?r \<or> (\<exists>e. pre = [e] \<and> licence (\<not> strict \<and> hooks_allow ss ?rt req) e)))"
      by blast
    show ?thesis
    proof (cases "licence c e \<or> allowed")
      case True
      then show ?thesis by (auto simp: events leaves_licensed)
    next
      case False
      with start [OF e] have skip: "is_skip ?r" by blast
      with inside [OF _ first] False have in_sandbox: "at_sandbox first \<noteq> NoSandbox" by blast
      from rest skip consider "\<not> list_ex is_attempt rest"
        | e' where "rest = [e'] @ [Attempted (attempt_with turn NoSandbox None)]" "licence c e'"
        using mono by auto
      then show ?thesis
      proof cases
        case 1
        with leaves_inside [OF in_sandbox, of rest "[]" c e] e show ?thesis by (simp add: events)
      next
        case (2 e')
        with leaves_inside [OF in_sandbox, of "[e']" "[Attempted (attempt_with turn NoSandbox None)]" c e] e
        show ?thesis by (simp add: events)
      qed
    qed
  qed (rule leaves_quiet)
qed

text \<open>An escalation was never granted in advance.\<close>

lemma granted_escalation:
  "eff_sandbox_permissions (fst (run_state (apply_granted_turn_permissions pr glob hs cwd sp additional) s)) = RequireEscalated \<Longrightarrow>
   \<not> eff_permissions_preapproved (fst (run_state (apply_granted_turn_permissions pr glob hs cwd sp additional) s))"
  by (auto simp: apply_granted_turn_permissions_def Let_def case_prod_beta split: if_splits)

text \<open>A command is beyond suspicion when all rules that match it allow it or, when none matches, it is known to be safe.\<close>

definition cleared :: "approval_host \<Rightarrow> policy \<Rightarrow> bool \<Rightarrow> string list \<Rightarrow> bool" where
  "cleared host p complex c \<longleftrightarrow>
     rules_for (env host) p c \<noteq> [] \<and> list_all (\<lambda>m. match_decision m = Allow) (rules_for (env host) p c) \<or>
     rules_for (env host) p c = [] \<and> \<not> complex \<and> is_known_safe_command (powershell host) (on_linux host) (grammar host) c"

lemma verdict_rules_Allow:
  assumes "verdict e p fallback c = Allow"
  shows "list_all (\<lambda>m. match_decision m = Allow) (rules_for e p c)"
  using assms Max_decisions_Allow [of "match_decision ` set (rules_for e p c)"]
  by (cases "rules_for e p c = []") (auto simp: verdict_def list_all_iff)

lemma skip_clears:
  assumes "commands_for_exec_policy (grammar host) (req_command req) = (commands, complex)"
    and "create_exec_approval_requirement_for_command host p req = Some requirement" "is_skip requirement"
    and "sandbox_override_for_first_attempt sp requirement = BypassSandboxFirstAttempt"
    and "sp = RequireEscalated \<Longrightarrow> req_sandbox_permissions req = RequireEscalated \<and> req_approval_policy req = OnRequest"
    and "req_fs_kind req = Restricted"
  shows "list_all (cleared host p complex) commands"
proof -
  let ?fallback = "render_decision_for_unmatched_command host req complex"
  have nonempty: "commands \<noteq> []" using commands_not_Nil [of "grammar host" "req_command req"] assms(1) by simp
  note skip = requirement_skip [OF nonempty, of "\<lparr>eval_decision = _, matched_rules = _\<rparr>" host p ?fallback req complex]
  have allow: "verdict (env host) p ?fallback c = Allow" if "c \<in> set commands" for c
    using assms(2,3) that by (auto simp: requirement_of [OF assms(1)] skip)
  have rules: "list_all (\<lambda>m. match_decision m = Allow) (rules_for (env host) p c)" if "c \<in> set commands" for c
    by (rule verdict_rules_Allow [OF allow [OF that]])
  show ?thesis
  proof (cases "sp = RequireEscalated")
    case True
    have "cleared host p complex c" if "c \<in> set commands" for c
      using allow [OF that] rules [OF that] assms(5) [OF True] assms(6)
      by (auto simp: cleared_def verdict_def render_decision_for_unmatched_command_def decide_by_sandbox_def requests_sandbox_override_def
          split: if_splits)
    then show ?thesis by (simp add: list_all_iff)
  next
    case False
    with assms(4) obtain amendment where "requirement = Skip True amendment"
      by (auto simp: sandbox_override_for_first_attempt_def split: exec_approval_requirement.splits if_splits)
    then have "\<forall>c \<in> set commands. rules_for (env host) p c \<noteq> []"
      using assms(2) by (auto simp: requirement_of [OF assms(1)] dest!: skip(2) [rotated])
    then show ?thesis using rules by (auto simp: list_all_iff cleared_def)
  qed
qed

lemma emits_run_exec_like:
  fixes hh :: "'fs handler_host" and hs :: "'fs handler_session" and ss :: "'fs session_steps"
  assumes "\<And>s. fst (run_state (strict_auto_review_enabled_for_turn ss) s) = strict"
    "\<And>s. fst (run_state (current_policy hs) s) = p"
    "commands_for_exec_policy (grammar (hh_approval hh)) (xp_command params) = (commands, complex)"
    "\<And>fs s. verify_patch hh turn fs (xp_command params) (xp_cwd params) s = Some VerifiedNotApplyPatch"
    "fs_kind (tu_file_system_sandbox_policy turn) = Restricted"
    "select_initial (hh_os hh) (tu_file_system_sandbox_policy turn) (tu_network_sandbox_policy turn) Tool_Approval.Auto
       (tu_windows_sandbox_level turn) (tu_network turn) \<noteq> NoSandbox"
    "\<And>run_id s. \<not> strict \<Longrightarrow>
       fst (run_state (run_permission_request_hooks ss run_id (payload_bash hook_command (xp_justification params))) s) = Some HookAllow \<Longrightarrow> c"
  shows "emits (run_exec_like hh ss rv hs execute turn ctx params hook_command additional prefix_rule freeform)
    (\<lambda>_ events. leaves_knowingly c (list_all (cleared (hh_approval hh) p complex) commands) events)"
proof -
  let ?Q = "\<lambda>_ events. leaves_knowingly c (list_all (cleared (hh_approval hh) p complex) commands) events"
  have quiet: "leaves_knowingly c allowed []" for allowed by (rule leaves_quiet) simp
  have hooks: c if "\<not> strict \<and> hooks_allow ss (shell_runtime parser to_json rv execute) req"
      "sh_hook_command req = hook_command" "sh_justification req = xp_justification params" for parser to_json req
    using that assms(7) by (auto simp: hooks_allow_def shell_runtime_def)
  have finish: "emits (orchestrator_run (hh_os hh) ss (shell_runtime (grammar (hh_approval hh)) (hh_key_json hh) rv execute) req ctx turn
        policy \<bind> (\<lambda>out. State_Monad.return (f out))) ?Q"
    if "create_exec_approval_requirement_for_command (hh_approval hh) p er = Some requirement"
      "sh_exec_approval_requirement req = requirement" "sh_hook_command req = hook_command" "sh_justification req = xp_justification params"
      "req_command er = xp_command params" "req_fs_kind er = Restricted"
      "sh_sandbox_permissions req = RequireEscalated \<Longrightarrow>
         req_sandbox_permissions er = RequireEscalated \<and> req_approval_policy er = OnRequest" for req er f requirement policy
    by (rule emits_bind [OF shell_leaves_knowingly [OF assms(1,6)]])
      (use that hooks skip_clears [OF assms(3) [folded that(5)] that(1)] in auto)
  have current: "emits (await (current_policy hs)) (\<lambda>x events. x = p \<and> events = [])"
    by (rule emits_await) (simp add: assms(2))
  have granted: "emits (await (apply_granted_turn_permissions (hh_probe hh) (hh_glob hh) hs (tu_cwd turn) (xp_sandbox_permissions params) additional))
      (\<lambda>effective events. events = [] \<and>
        (eff_sandbox_permissions effective = RequireEscalated \<longrightarrow> \<not> eff_permissions_preapproved effective))"
    by (rule emits_await) (simp add: granted_escalation)
  show ?thesis
  proof (cases "hh_environment hh")
    case None
    then show ?thesis by (simp add: run_exec_like_def quiet)
  next
    case (Some get_filesystem)
    show ?thesis
      unfolding run_exec_like_def Some option.case Let_def
      apply (rule emits_await_bind, rule emits_bind [OF granted])
      apply (auto simp: quiet rejects_escalation_def requests_sandbox_override_def assms(5) split: sum.split option.split
          intro!: emits_bind [OF emits_not_a_patch [OF assms(4)]] emits_bind [OF current])
      apply (rule finish, assumption, simp_all)+
      done
  qed
qed

text \<open>
  C11 (sandbox_left_knowingly). Through the shell handler, where files are restricted and the platform has a sandbox, a command is attempted without
  the sandbox only after an approval by the user, the reviewing agent or, unless every command of the turn is reviewed, a
  permission hook that allows this command; or when every command of its script is cleared: allowed by all rules that match it
  or, where none does, known to be safe. That holds for the first attempt and for the second, with any granted permissions and
  any request for escalation, as long as the rules and the strictness of the review stay what they are during the call. The
  command is not itself a patch, which is handled as one.
\<close>

theorem sandbox_left_knowingly:
  assumes "\<And>s. fst (run_state (strict_auto_review_enabled_for_turn ss) s) = strict"
    "\<And>s. fst (run_state (current_policy hs) s) = p"
    "commands_for_exec_policy (grammar (hh_approval hh)) (xp_command params) = (commands, complex)"
    "\<And>fs s. verify_patch hh turn fs (xp_command params) (xp_cwd params) s = Some VerifiedNotApplyPatch"
    "fs_kind (tu_file_system_sandbox_policy turn) = Restricted"
    "select_initial (hh_os hh) (tu_file_system_sandbox_policy turn) (tu_network_sandbox_policy turn) Tool_Approval.Auto
       (tu_windows_sandbox_level turn) (tu_network turn) \<noteq> NoSandbox"
    "run_state (run_exec_like hh ss rv hs execute turn ctx params hook_command additional prefix_rule freeform) (s, log) =
       (r, s', log @ pre @ Attempted a # post)"
    "at_sandbox a = NoSandbox"
  shows "(\<exists>d src. ToolDecision d src \<in> set pre \<and> approves d \<and>
      (src = FromConfig \<longrightarrow> \<not> strict \<and>
        (\<exists>run_id s. fst (run_state (run_permission_request_hooks ss run_id (payload_bash hook_command (xp_justification params))) s) =
          Some HookAllow))) \<or>
    list_all (cleared (hh_approval hh) p complex) commands"
proof -
  let ?allowed = "list_all (cleared (hh_approval hh) p complex) commands"
  let ?c = "\<not> strict \<and> (\<exists>run_id s. fst (run_state (run_permission_request_hooks ss run_id
      (payload_bash hook_command (xp_justification params))) s) = Some HookAllow)"
  have "emits (run_exec_like hh ss rv hs execute turn ctx params hook_command additional prefix_rule freeform)
      (\<lambda>_ events. leaves_knowingly ?c ?allowed events)"
    by (rule emits_run_exec_like [OF assms(1-6)]) blast+
  from emitsE [OF this assms(7)] have "leaves_knowingly ?c ?allowed (pre @ Attempted a # post)" by auto
  then show ?thesis using assms(8) by (fastforce simp: leaves_knowingly_def list_ex_iff licence_def)
qed

section \<open>Examples\<close>

definition quiet_session :: "'w handler_session" where
  "quiet_session =
     \<lparr>granted_session_permissions = State_Monad.return None, granted_turn_permissions = State_Monad.return None,
      dependency_env = State_Monad.return (\<lambda>_. None), current_policy = State_Monad.return empty_policy,
      exec_permission_approvals_feature = False, request_permissions_tool_feature = False, shell_environment_set = (\<lambda>_. None)\<rparr>"

definition sample_texts :: emitter_texts where
  "sample_texts = \<lparr>seconds_text = show_nat, output_json = (\<lambda>text _ _. text), debug_error = (\<lambda>_. []), model_truncation = Bytes 1000\<rparr>"

text \<open>A file system that keeps to the permissions of the sandbox context.\<close>

definition obedient_fs :: "file_system_sandbox_context option \<Rightarrow> mem file_system" where
  "obedient_fs sandbox = mem_fs\<lparr>write_file :=
     (\<lambda>st path content. case sandbox of
        None \<Rightarrow> write_file mem_fs st path content
      | Some context \<Rightarrow>
          if can_write_path_with_cwd (plain_probe False) (profile_fs_policy (sc_permissions context)) path ''/w''
          then write_file mem_fs st path content
          else (st, Err \<lparr>err_kind = OtherKind, err_message = ''Operation not permitted''\<rparr>))\<rparr>"

definition sample_handlers :: "mem handler_host" where
  "sample_handlers =
     \<lparr>hh_os = Linux, hh_probe = plain_probe False, hh_glob = (\<lambda>_. None), hh_approval = sample_host, hh_query = (\<lambda>_. Ok []),
      hh_differ = (\<lambda>_ _ _. []), hh_order = (\<lambda>action. filter (\<lambda>p. changes action p \<noteq> None) [''/etc/b'', ''/w/a'']),
      hh_path_json = quoted, hh_key_json = (\<lambda>_. None), hh_lowercase = to_ascii_lowercase, hh_sigsys = 31, hh_utf8 = id,
      hh_elapsed = 0, hh_environment = Some obedient_fs, hh_remote = False, hh_texts = sample_texts\<rparr>"

definition workspace_turn :: "ask_for_approval \<Rightarrow> turn_context" where
  "workspace_turn policy = sample_turn\<lparr>tu_approval_policy := policy, tu_sandbox_policy := sample_workspace,
     tu_file_system_sandbox_policy := sample_policy\<rparr>"

definition outside_patch :: string where
  "outside_patch = join [nl] [''*** Begin Patch'', ''*** Add File: /etc/b'', ''+z'', ''*** End Patch'']"

definition outside_session :: "mem tool_services" where
  "outside_session = fresh_services ((\<lambda>_. None), [''/w'', ''/etc''])"

text \<open>Under \<open>OnFailure\<close> patches are approved because the sandbox confines them, yet the sandbox of the attempt is widened to the
  directories of the patch: a file outside the workspace is written without a question.\<close>

lemma unasked_patch_outside:
  "let run = run_state (apply_patch_handle sample_handlers sample_steps agreeing_reviewers quiet_session (workspace_turn OnFailure) sample_ctx
         outside_patch) (outside_session, [])
   in (fst (surroundings (fst (snd run))) ''/etc/b'', snd (snd run)) =
      (Some (''z'' @ [nl]), [ToolDecision Approved FromConfig, Attempted (attempt_with (workspace_turn OnFailure) LinuxSeccomp None)]) \<and>
      \<not> can_write_path_with_cwd (plain_probe False) sample_policy ''/etc/b'' ''/w''"
  by code_simp

definition escalated_rm :: exec_params where
  "escalated_rm = \<lparr>xp_command = [''rm'', ''-rf'', ''x''], xp_cwd = ''/w'', xp_timeout_ms = None, xp_env = (\<lambda>_. None), xp_network = False,
     xp_sandbox_permissions = RequireEscalated, xp_justification = None\<rparr>"

definition rm_run :: "(function_call_error, string) result option \<times> mem tool_services \<times> tool_event list" where
  "rm_run = run_state (run_exec_like sample_handlers sample_steps agreeing_reviewers quiet_session
      (\<lambda>_ _ _. State_Monad.return (Err (Codex (OtherCodexErr ''none'')))) (workspace_turn OnRequest) sample_ctx escalated_rm ''rm -rf x''
      None None False) (outside_session, [])"

lemma rm_run_log: "snd (snd rm_run) = [ToolDecision Approved FromUser, Attempted (attempt_with (workspace_turn OnRequest) NoSandbox None)]"
  by code_simp

theorem sandbox_left_knowingly_witness:
  "(\<exists>d src. ToolDecision d src \<in> set [ToolDecision Approved FromUser] \<and> approves d \<and>
      (src = FromConfig \<longrightarrow> \<not> False \<and>
        (\<exists>run_id s. fst (run_state (run_permission_request_hooks sample_steps run_id
          (payload_bash ''rm -rf x'' (xp_justification escalated_rm))) (s :: mem tool_services)) = Some HookAllow))) \<or>
   list_all (cleared (hh_approval sample_handlers) empty_policy False) [[''rm'', ''-rf'', ''x'']]"
proof (rule sandbox_left_knowingly [where strict = False])
  show "commands_for_exec_policy (grammar (hh_approval sample_handlers)) (xp_command escalated_rm) = ([[''rm'', ''-rf'', ''x'']], False)"
    by code_simp
  have "implicit_invocation (xp_command escalated_rm) = False"
    "maybe_parse_apply_patch (hh_query sample_handlers) (xp_command escalated_rm) = Some NotApplyPatch" by code_simp+
  then show "verify_patch sample_handlers (workspace_turn OnRequest) fs (xp_command escalated_rm) (xp_cwd escalated_rm) s =
      Some VerifiedNotApplyPatch" for fs s
    by (simp add: verify_patch_def maybe_parse_apply_patch_verified_def)
  show "fs_kind (tu_file_system_sandbox_policy (workspace_turn OnRequest)) = Restricted"
    "select_initial (hh_os sample_handlers) (tu_file_system_sandbox_policy (workspace_turn OnRequest))
       (tu_network_sandbox_policy (workspace_turn OnRequest)) Tool_Approval.Auto
       (tu_windows_sandbox_level (workspace_turn OnRequest)) (tu_network (workspace_turn OnRequest)) \<noteq> NoSandbox"
    by code_simp+
  show "run_state (run_exec_like sample_handlers sample_steps agreeing_reviewers quiet_session
      (\<lambda>_ _ _. State_Monad.return (Err (Codex (OtherCodexErr ''none'')))) (workspace_turn OnRequest) sample_ctx escalated_rm ''rm -rf x''
      None None False) (outside_session, []) =
    (fst rm_run, fst (snd rm_run), [] @ [ToolDecision Approved FromUser] @ Attempted (attempt_with (workspace_turn OnRequest) NoSandbox None) # [])"
    using rm_run_log by (simp add: prod_eq_iff flip: rm_run_def)
qed (simp_all add: sample_steps_def quiet_session_def attempt_with_def)

end
