(* ===== verification/Toml_Merge.thy ===== *)
theory Toml_Merge
  imports Absolute_Path "HOL-Library.List_Lexorder" "HOL-Library.Char_ord" "HOL-Library.Word"
begin

text \<open>
  Configuration values and their merge (\<open>config/src/merge.rs\<close>, \<open>key_aliases.rs\<close>, \<open>overrides.rs\<close>,
  \<open>fingerprint.rs\<close>, \<open>project_root_markers.rs\<close>). A TOML table is a map ordered by its keys, here the association list
  in key order. Floats are their bits and dates their text: nothing here looks into them.
\<close>

section \<open>Values\<close>

datatype toml_value =
    TString string
  | TInteger int
  | TFloat "64 word"
  | TBoolean bool
  | TDatetime string
  | TArray "toml_value list"
  | TTable "(string \<times> toml_value) list"

type_synonym toml_map = "(string \<times> toml_value) list"

fun tbl_insert :: "string \<Rightarrow> 'v \<Rightarrow> (string \<times> 'v) list \<Rightarrow> (string \<times> 'v) list" where
  "tbl_insert k v [] = [(k, v)]"
| "tbl_insert k v ((k', v') # m) =
     (if k = k' then (k, v) # m else if k < k' then (k, v) # (k', v') # m else (k', v') # tbl_insert k v m)"

definition tbl_remove :: "string \<Rightarrow> (string \<times> 'v) list \<Rightarrow> (string \<times> 'v) list" where
  "tbl_remove k m = filter (\<lambda>(k', _). k' \<noteq> k) m"

section \<open>Key aliases\<close>

record config_key_alias =
  table_path :: "string list"
  legacy_key :: string
  canonical_key :: string

definition CONFIG_KEY_ALIASES :: "config_key_alias list" where
  "CONFIG_KEY_ALIASES = [\<lparr>table_path = [''memories''], legacy_key = ''no_memories_if_mcp_or_web_search'',
     canonical_key = ''disable_on_external_context''\<rparr>]"

definition apply_alias :: "string list \<Rightarrow> config_key_alias \<Rightarrow> toml_map \<Rightarrow> toml_map" where
  "apply_alias path alias table =
     (if path = table_path alias then
        (case map_of table (legacy_key alias) of
           None \<Rightarrow> table
         | Some v \<Rightarrow>
             (let table = tbl_remove (legacy_key alias) table in
              if map_of table (canonical_key alias) = None then tbl_insert (canonical_key alias) v table else table))
      else table)"

definition normalize_key_aliases :: "string list \<Rightarrow> toml_map \<Rightarrow> toml_map" where
  "normalize_key_aliases path table = fold (apply_alias path) CONFIG_KEY_ALIASES table"

fun normalized_with_key_aliases :: "toml_value \<Rightarrow> string list \<Rightarrow> toml_value" where
  "normalized_with_key_aliases (TTable table) path =
     TTable (normalize_key_aliases path
       (fold (\<lambda>(key, child). tbl_insert key child)
          (map (\<lambda>(key, child). (key, normalized_with_key_aliases child (path @ [key]))) table) []))"
| "normalized_with_key_aliases (TArray items) path =
     TArray (map (\<lambda>item. normalized_with_key_aliases item path) items)"
| "normalized_with_key_aliases v path = v"

section \<open>Merging\<close>

lemma tbl_insert_member: "e \<in> set (tbl_insert k v m) \<Longrightarrow> e = (k, v) \<or> e \<in> set m"
  by (induction m) (auto split: if_splits)

lemma apply_alias_member: "(k, v) \<in> set (apply_alias path a t) \<Longrightarrow> \<exists>k'. (k', v) \<in> set t"
  by (auto simp: apply_alias_def tbl_remove_def Let_def
      dest!: map_of_SomeD tbl_insert_member split: option.splits if_splits)

lemma normalize_key_aliases_member:
  "(k, v) \<in> set (normalize_key_aliases path t) \<Longrightarrow> \<exists>k'. (k', v) \<in> set t"
  using apply_alias_member by (fastforce simp: normalize_key_aliases_def CONFIG_KEY_ALIASES_def)

lemma toml_size_child: "(k, v) \<in> set t \<Longrightarrow> size v < size (TTable t)"
  by (induction t) auto

lemma toml_size_normalized: "(k, v) \<in> set (normalize_key_aliases path t) \<Longrightarrow> size v < size (TTable t)"
  using normalize_key_aliases_member toml_size_child by blast

function merge_toml_values_at_path :: "toml_value \<Rightarrow> toml_value \<Rightarrow> string list \<Rightarrow> toml_value" where
  "merge_toml_values_at_path base overlay path =
     (case (base, overlay) of
        (TTable base_table, TTable overlay_table) \<Rightarrow>
          TTable (fold (\<lambda>(key, v) table.
              case map_of table key of
                Some existing \<Rightarrow> tbl_insert key (merge_toml_values_at_path existing v (path @ [key])) table
              | None \<Rightarrow> tbl_insert key (normalized_with_key_aliases v (path @ [key])) table)
            (normalize_key_aliases path overlay_table) (normalize_key_aliases path base_table))
      | _ \<Rightarrow> normalized_with_key_aliases overlay path)"
  by pat_completeness auto
termination by (relation "measure (\<lambda>(base, overlay, path). size overlay)") (auto dest: toml_size_normalized)

declare merge_toml_values_at_path.simps [simp del]

definition merge_toml_values :: "toml_value \<Rightarrow> toml_value \<Rightarrow> toml_value" where
  "merge_toml_values base overlay = merge_toml_values_at_path base overlay []"

section \<open>Overrides of the command line\<close>

fun override_at :: "toml_value \<Rightarrow> string list \<Rightarrow> toml_value \<Rightarrow> toml_value" where
  "override_at current [] v = current"
| "override_at current [segment] v =
     (case current of
        TTable table \<Rightarrow> TTable (tbl_insert segment v table)
      | _ \<Rightarrow> TTable (tbl_insert segment v []))"
| "override_at current (segment # segments) v =
     (let table = (case current of TTable table \<Rightarrow> table | _ \<Rightarrow> []);
          entry = (case map_of table segment of Some e \<Rightarrow> e | None \<Rightarrow> TTable []) in
      TTable (tbl_insert segment (override_at entry segments v) table))"

definition apply_toml_override :: "toml_value \<Rightarrow> string \<Rightarrow> toml_value \<Rightarrow> toml_value" where
  "apply_toml_override root path v = override_at root (split_on (CHR ''.'') path) v"

definition default_empty_table :: toml_value where
  "default_empty_table = TTable []"

definition build_cli_overrides_layer :: "(string \<times> toml_value) list \<Rightarrow> toml_value" where
  "build_cli_overrides_layer cli_overrides =
     fold (\<lambda>(path, v) root. apply_toml_override root path v) cli_overrides default_empty_table"

section \<open>Origins and markers\<close>

text \<open>The map of the origins, by dotted path.\<close>

type_synonym 'm origins = "string \<Rightarrow> 'm option"

lemma enumerate_size [termination_simp]: "(i, x) \<in> set (enumerate n xs) \<Longrightarrow> size x < Suc (size_list size xs)"
  by (induction xs arbitrary: n) fastforce+

fun record_origins :: "toml_value \<Rightarrow> 'm \<Rightarrow> string list \<Rightarrow> 'm origins \<Rightarrow> 'm origins" where
  "record_origins (TTable table) meta path origins =
     fold (\<lambda>(key, v) origins. record_origins v meta (path @ [key]) origins) table origins"
| "record_origins (TArray items) meta path origins =
     fold (\<lambda>(idx, item) origins. record_origins item meta (path @ [show_nat idx]) origins) (enumerate 0 items) origins"
| "record_origins v meta path origins =
     (if path = [] then origins else origins(join ''.'' path \<mapsto> meta))"

definition msg_project_root_markers :: string where
  "msg_project_root_markers = ''project_root_markers must be an array of strings''"

fun marker_strings :: "toml_value list \<Rightarrow> (string, string list) result" where
  "marker_strings [] = Ok []"
| "marker_strings (TString marker # entries) =
     (case marker_strings entries of Err e \<Rightarrow> Err e | Ok markers \<Rightarrow> Ok (marker # markers))"
| "marker_strings (v # entries) = Err msg_project_root_markers"

definition project_root_markers_from_config :: "toml_value \<Rightarrow> (string, string list option) result" where
  "project_root_markers_from_config config =
     (case config of
        TTable table \<Rightarrow>
          (case map_of table ''project_root_markers'' of
             None \<Rightarrow> Ok None
           | Some (TArray entries) \<Rightarrow>
               if entries = [] then Ok (Some [])
               else (case marker_strings entries of Err e \<Rightarrow> Err e | Ok markers \<Rightarrow> Ok (Some markers))
           | Some _ \<Rightarrow> Err msg_project_root_markers)
      | _ \<Rightarrow> Ok None)"

definition default_project_root_markers :: "string list" where
  "default_project_root_markers = [''.git'']"


section \<open>Tables as maps\<close>

text \<open>What the merge relies on of a table: its lookup after an insertion and after a removal.\<close>

locale key_table =
  fixes get :: "'t \<Rightarrow> 'k \<Rightarrow> 'v option" and ins :: "'k \<Rightarrow> 'v \<Rightarrow> 't \<Rightarrow> 't" and del :: "'k \<Rightarrow> 't \<Rightarrow> 't"
  assumes get_ins: "get (ins k v m) k' = (if k' = k then Some v else get m k')"
    and get_del: "get (del k m) k' = (if k' = k then None else get m k')"
begin

lemma get_ins_all:
  "distinct (map fst kvs) \<Longrightarrow>
     get (fold (\<lambda>(k, v). ins k v) kvs m) k = (case map_of kvs k of Some v \<Rightarrow> Some v | None \<Rightarrow> get m k)"
proof (induction kvs arbitrary: m)
  case (Cons kv kvs)
  then have "map_of kvs (fst kv) = None" by (simp add: map_of_eq_None_iff)
  with Cons show ?case by (cases kv) (auto simp: get_ins split: option.splits)
qed simp

lemma get_rename:
  "get (let m = del k m in if get m k' = None then ins k' v m else m) x =
     (if x = k' \<and> (k' = k \<or> get m k' = None) then Some v else if x = k then None else get m x)"
  by (auto simp: Let_def get_ins get_del)

text \<open>Folding in a list of entries with distinct keys, each combined with what the table has under its key.\<close>

lemma get_combine_all:
  assumes "distinct (map fst kvs)"
  shows "get (fold (\<lambda>(k, v) m. ins k (case get m k of Some e \<Rightarrow> both e k v | None \<Rightarrow> single k v) m) kvs m) k =
    (case map_of kvs k of
       None \<Rightarrow> get m k
     | Some v \<Rightarrow> Some (case get m k of Some e \<Rightarrow> both e k v | None \<Rightarrow> single k v))"
  using assms
proof (induction kvs arbitrary: m)
  case (Cons kv kvs)
  obtain k0 v0 where kv: "kv = (k0, v0)" by (cases kv)
  let ?m = "ins k0 (case get m k0 of Some e \<Rightarrow> both e k0 v0 | None \<Rightarrow> single k0 v0) m"
  have "k \<noteq> k0 \<Longrightarrow> get ?m k = get m k" by (simp add: get_ins)
  moreover have "map_of kvs k0 = None" using Cons.prems kv by (simp add: map_of_eq_None_iff)
  ultimately show ?case using Cons.IH [of ?m] Cons.prems kv by (cases "k = k0") (auto simp: get_ins split: option.splits)
qed simp

end

lemma map_of_tbl_insert [simp]: "map_of (tbl_insert k v m) k' = (if k' = k then Some v else map_of m k')"
  by (induction m) auto

lemma map_of_tbl_remove [simp]: "map_of (tbl_remove k m) k' = (if k' = k then None else map_of m k')"
  by (induction m) (auto simp: tbl_remove_def)

interpretation tbl: key_table map_of tbl_insert tbl_remove
  by unfold_locales simp_all

text \<open>Tables are in key order, at every level.\<close>

fun wf_toml :: "toml_value \<Rightarrow> bool" where
  "wf_toml (TTable t) \<longleftrightarrow> sorted_wrt (<) (map fst t) \<and> list_all (\<lambda>(k, v). wf_toml v) t"
| "wf_toml (TArray items) \<longleftrightarrow> list_all wf_toml items"
| "wf_toml v \<longleftrightarrow> True"

lemma sorted_keys_distinct: "sorted_wrt (<) (map fst t) \<Longrightarrow> distinct (map fst t)"
  for t :: "(string \<times> 'v) list"
  by (simp add: strict_sorted_iff)

lemma tbl_insert_keys: "fst ` set (tbl_insert k v m) = insert k (fst ` set m)"
  unfolding dom_map_of_conv_image_fst [symmetric] by (auto split: if_splits)

lemma tbl_insert_sorted: "sorted_wrt (<) (map fst m) \<Longrightarrow> sorted_wrt (<) (map fst (tbl_insert k v m))"
proof (induction m)
  case (Cons e m)
  have "fst ` set (tbl_insert k v m) = insert k (fst ` set m)" by (rule tbl_insert_keys)
  with Cons show ?case by (cases e) (auto simp flip: set_map)
qed simp

lemma tbl_insert_all: "list_all (\<lambda>(k, v). P v) m \<Longrightarrow> P v \<Longrightarrow> list_all (\<lambda>(k, v). P v) (tbl_insert k v m)"
  by (fastforce simp: list_all_iff dest: tbl_insert_member)

lemma tbl_remove_sorted: "sorted_wrt (<) (map fst m) \<Longrightarrow> sorted_wrt (<) (map fst (tbl_remove k m))"
  unfolding tbl_remove_def by (induction m) auto

lemma wf_tbl_insert: "wf_toml (TTable t) \<Longrightarrow> wf_toml v \<Longrightarrow> wf_toml (TTable (tbl_insert k v t))"
  by (simp add: tbl_insert_sorted tbl_insert_all)

lemma wf_tbl_remove: "wf_toml (TTable t) \<Longrightarrow> wf_toml (TTable (tbl_remove k t))"
  by (auto simp: tbl_remove_sorted list_all_iff) (auto simp: tbl_remove_def)

lemma wf_lookup: "wf_toml (TTable t) \<Longrightarrow> map_of t k = Some v \<Longrightarrow> wf_toml v"
  by (auto simp: list_all_iff dest: map_of_SomeD)

lemma wf_apply_alias: "wf_toml (TTable t) \<Longrightarrow> wf_toml (TTable (apply_alias path a t))"
  unfolding apply_alias_def Let_def
  by (auto simp del: wf_toml.simps simp: wf_tbl_insert wf_tbl_remove wf_lookup split: option.split)

lemma wf_normalize_key_aliases: "wf_toml (TTable t) \<Longrightarrow> wf_toml (TTable (normalize_key_aliases path t))"
  by (simp del: wf_toml.simps add: normalize_key_aliases_def CONFIG_KEY_ALIASES_def wf_apply_alias)

lemma wf_insert_all:
  "wf_toml (TTable t) \<Longrightarrow> list_all (\<lambda>(k, v). wf_toml v) kvs \<Longrightarrow> wf_toml (TTable (fold (\<lambda>(k, v). tbl_insert k v) kvs t))"
proof (induction kvs arbitrary: t)
  case (Cons kv kvs)
  then show ?case by (cases kv) (simp del: wf_toml.simps add: wf_tbl_insert)
qed simp

lemma wf_normalized: "wf_toml v \<Longrightarrow> wf_toml (normalized_with_key_aliases v path)"
proof (induction v path rule: normalized_with_key_aliases.induct)
  case (1 table path)
  then have "list_all (\<lambda>(k, v). wf_toml v)
      (map (\<lambda>(key, child). (key, normalized_with_key_aliases child (path @ [key]))) table)"
    by (fastforce simp: list_all_iff)
  then have "wf_toml (TTable (fold (\<lambda>(k, v). tbl_insert k v)
      (map (\<lambda>(key, child). (key, normalized_with_key_aliases child (path @ [key]))) table) []))"
    by (intro wf_insert_all) simp_all
  then show ?case by (simp only: normalized_with_key_aliases.simps wf_normalize_key_aliases)
qed (auto simp: list_all_iff)

lemma wf_merge: "wf_toml base \<Longrightarrow> wf_toml overlay \<Longrightarrow> wf_toml (merge_toml_values_at_path base overlay path)"
proof (induction base overlay path rule: merge_toml_values_at_path.induct)
  case (1 base overlay path)
  show ?case
  proof (cases "(\<exists>b. base = TTable b) \<and> (\<exists>ov. overlay = TTable ov)")
    case True
    then obtain b ov where tables: "base = TTable b" "overlay = TTable ov" by blast
    let ?step = "\<lambda>(key, v) table. case map_of table key of
                Some existing \<Rightarrow> tbl_insert key (merge_toml_values_at_path existing v (path @ [key])) table
              | None \<Rightarrow> tbl_insert key (normalized_with_key_aliases v (path @ [key])) table"
    have "wf_toml (TTable (fold ?step kvs t))"
      if "wf_toml (TTable t)" "set kvs \<subseteq> set (normalize_key_aliases path ov)" for kvs t
      using that
    proof (induction kvs arbitrary: t)
      case (Cons kv kvs)
      obtain k v where kv: "kv = (k, v)" by (cases kv)
      with Cons.prems have member: "(k, v) \<in> set (normalize_key_aliases path ov)" by auto
      then obtain k' where "(k', v) \<in> set ov" using normalize_key_aliases_member by blast
      with 1(3) tables have v: "wf_toml v" by (auto simp: list_all_iff)
      have "wf_toml (TTable (?step kv t))"
        using "1.IH" [OF _ tables member refl] Cons.prems(1) v wf_lookup [OF Cons.prems(1)]
        by (auto simp del: wf_toml.simps simp: kv tables wf_tbl_insert wf_normalized split: option.split)
      with Cons show ?case by simp
    qed simp
    with 1(2) show ?thesis
      unfolding tables by (simp del: wf_toml.simps add: merge_toml_values_at_path.simps wf_normalize_key_aliases)
  next
    case False
    then have "merge_toml_values_at_path base overlay path = normalized_with_key_aliases overlay path"
      by (auto simp: merge_toml_values_at_path.simps split: toml_value.split)
    with 1(3) show ?thesis by (simp add: wf_normalized)
  qed
qed

lemma wf_override: "wf_toml root \<Longrightarrow> wf_toml v \<Longrightarrow> wf_toml (override_at root segments v)"
proof (induction root segments v rule: override_at.induct)
  case (2 current segment v)
  let ?t = "case current of TTable t \<Rightarrow> t | _ \<Rightarrow> []"
  have "wf_toml (TTable ?t)" using 2(1) by (cases current) simp_all
  moreover have "override_at current [segment] v = TTable (tbl_insert segment v ?t)" by (cases current) simp_all
  ultimately show ?case using wf_tbl_insert 2(2) by metis
next
  case (3 current segment s segments v)
  let ?t = "case current of TTable t \<Rightarrow> t | _ \<Rightarrow> []"
  have t: "wf_toml (TTable ?t)" using 3(2) by (cases current) simp_all
  then have "wf_toml (case map_of ?t segment of Some e \<Rightarrow> e | None \<Rightarrow> TTable [])"
    by (auto simp del: wf_toml.simps(1) simp: wf_lookup split: option.split) simp
  with 3 t show ?case by (simp del: wf_toml.simps add: Let_def wf_tbl_insert)
qed simp


section \<open>Paths\<close>

fun get_path :: "toml_value \<Rightarrow> string list \<Rightarrow> toml_value option" where
  "get_path v [] = Some v"
| "get_path (TTable t) (k # q) = (case map_of t k of None \<Rightarrow> None | Some v \<Rightarrow> get_path v q)"
| "get_path v (k # q) = None"

text \<open>A setting is a value that is no table.\<close>

definition setting_at :: "toml_value \<Rightarrow> string list \<Rightarrow> toml_value option" where
  "setting_at v q = (case get_path v q of Some (TTable _) \<Rightarrow> None | r \<Rightarrow> r)"

text \<open>A value speaks about a path unless a table on the way has no entry.\<close>

fun covers :: "toml_value \<Rightarrow> string list \<Rightarrow> bool" where
  "covers (TTable t) (k # q) = (case map_of t k of None \<Rightarrow> False | Some v \<Rightarrow> covers v q)"
| "covers v q = True"

lemma get_path_TTable: "get_path (TTable t) (k # q) = Option.bind (map_of t k) (\<lambda>v. get_path v q)"
  by (simp split: option.split)

lemma setting_at_TTable: "setting_at (TTable t) (k # q) = Option.bind (map_of t k) (\<lambda>v. setting_at v q)"
  by (simp add: setting_at_def split: option.split)

lemma setting_at_table_Nil [simp]: "setting_at (TTable t) [] = None"
  by (simp add: setting_at_def)

lemma setting_at_no_table [simp]: "(\<nexists>t. v = TTable t) \<Longrightarrow> setting_at v (k # q) = None"
  by (cases v) (simp_all add: setting_at_def)

lemma not_covers_setting: "\<not> covers v q \<Longrightarrow> setting_at v q = None"
  by (induction v q rule: covers.induct) (auto simp: setting_at_TTable split: option.splits)

lemma normalize_key_aliases_other: "path \<noteq> [''memories''] \<Longrightarrow> normalize_key_aliases path t = t"
  by (simp add: normalize_key_aliases_def CONFIG_KEY_ALIASES_def apply_alias_def)

lemma normalize_key_aliases_get:
  "map_of (normalize_key_aliases path t) k =
     (if path = [''memories''] \<and> map_of t ''no_memories_if_mcp_or_web_search'' \<noteq> None then
        if k = ''no_memories_if_mcp_or_web_search'' then None
        else if k = ''disable_on_external_context'' \<and> map_of t k = None then map_of t ''no_memories_if_mcp_or_web_search''
        else map_of t k
      else map_of t k)"
  by (auto simp: normalize_key_aliases_def CONFIG_KEY_ALIASES_def apply_alias_def Let_def split: option.split)

text \<open>Below a table of the second level the path no longer matters.\<close>

lemma normalized_path_irrelevant:
  "2 \<le> length path \<Longrightarrow> 2 \<le> length path' \<Longrightarrow> normalized_with_key_aliases v path = normalized_with_key_aliases v path'"
proof (induction v path arbitrary: path' rule: normalized_with_key_aliases.induct)
  case (1 table path)
  have "path \<noteq> [''memories'']" "path' \<noteq> [''memories'']" using 1(2,3) by auto
  moreover have "normalized_with_key_aliases child (path @ [key]) = normalized_with_key_aliases child (path' @ [key])"
    if "(key, child) \<in> set table" for key child
    using "1.IH" [OF that refl, of "path' @ [key]"] 1(2,3) by simp
  then have "map (\<lambda>(key, child). (key, normalized_with_key_aliases child (path @ [key]))) table =
      map (\<lambda>(key, child). (key, normalized_with_key_aliases child (path' @ [key]))) table"
    by (intro map_cong) auto
  ultimately show ?case by (simp only: normalized_with_key_aliases.simps normalize_key_aliases_other not_False_eq_True)
next
  case (2 items path)
  then have "map (\<lambda>item. normalized_with_key_aliases item path) items = map (\<lambda>item. normalized_with_key_aliases item path') items"
    by (intro map_cong refl)
  then show ?case by (simp only: normalized_with_key_aliases.simps)
qed (simp_all only: normalized_with_key_aliases.simps)

definition normalized_child :: "string list \<Rightarrow> string \<Rightarrow> toml_value \<Rightarrow> toml_value" where
  "normalized_child path k v = normalized_with_key_aliases v (path @ [k])"

text \<open>Renaming keys before or after normalising the children gives the same table.\<close>

lemma normalized_get:
  assumes "distinct (map fst t)" "normalized_with_key_aliases (TTable t) path = TTable t'"
  shows "map_of t' k = map_option (normalized_child path k) (map_of (normalize_key_aliases path t) k)"
proof -
  let ?kvs = "map (\<lambda>(key, child). (key, normalized_with_key_aliases child (path @ [key]))) t"
  let ?n = "fold (\<lambda>(key, child). tbl_insert key child) ?kvs []"
  have "map fst ?kvs = map fst t" by auto
  with assms(1) have distinct: "distinct (map fst ?kvs)" by (simp only:)
  have all: "map_of ?kvs x = map_option (normalized_child path x) (map_of t x)" for x
    by (induction t) (auto simp: normalized_child_def)
  have n: "map_of ?n x = map_option (normalized_child path x) (map_of t x)" for x
    unfolding tbl.get_ins_all [OF distinct] all by (simp split: option.split)
  have t': "t' = normalize_key_aliases path ?n" using assms(2) by simp
  show ?thesis
  proof (cases "path = [''memories'']")
    case True
    have "normalized_child path x v = normalized_child path y v" for x y v
      unfolding normalized_child_def True by (rule normalized_path_irrelevant) simp_all
    then show ?thesis unfolding t' normalize_key_aliases_get n by (auto simp: option.map_comp)
  next
    case False
    then show ?thesis unfolding t' by (simp add: normalize_key_aliases_other n)
  qed
qed

lemma merged_get:
  assumes "distinct (map fst (normalize_key_aliases path ov))"
    and "merge_toml_values_at_path (TTable b) (TTable ov) path = TTable m"
  shows "map_of m k =
    (case map_of (normalize_key_aliases path ov) k of
       None \<Rightarrow> map_of (normalize_key_aliases path b) k
     | Some v \<Rightarrow> Some (case map_of (normalize_key_aliases path b) k of
         Some e \<Rightarrow> merge_toml_values_at_path e v (path @ [k])
       | None \<Rightarrow> normalized_child path k v))"
proof -
  let ?both = "\<lambda>e k v. merge_toml_values_at_path e v (path @ [k])"
  have "(\<lambda>(key, v) table.
          case map_of table key of
            Some existing \<Rightarrow> tbl_insert key (merge_toml_values_at_path existing v (path @ [key])) table
          | None \<Rightarrow> tbl_insert key (normalized_with_key_aliases v (path @ [key])) table) =
      (\<lambda>(k, v) m. tbl_insert k (case map_of m k of Some e \<Rightarrow> ?both e k v | None \<Rightarrow> normalized_child path k v) m)"
    by (auto simp: fun_eq_iff normalized_child_def split: option.split)
  with assms(2) have "m = fold (\<lambda>(k, v) m. tbl_insert k (case map_of m k of Some e \<Rightarrow> ?both e k v | None \<Rightarrow> normalized_child path k v) m)
      (normalize_key_aliases path ov) (normalize_key_aliases path b)"
    by (simp add: merge_toml_values_at_path.simps [of "TTable b"])
  then show ?thesis by (simp only: tbl.get_combine_all [OF assms(1), where both = ?both])
qed

lemma merge_no_tables:
  "(\<nexists>t. base = TTable t) \<or> (\<nexists>t. overlay = TTable t) \<Longrightarrow>
     merge_toml_values_at_path base overlay path = normalized_with_key_aliases overlay path"
  by (auto simp: merge_toml_values_at_path.simps split: toml_value.split)

text \<open>No legacy key is left at or below a value that stands at the given path.\<close>

definition legacy_path :: "string list" where
  "legacy_path = [''memories'', ''no_memories_if_mcp_or_web_search'']"

definition canonical_at :: "string list \<Rightarrow> toml_value \<Rightarrow> bool" where
  "canonical_at path v \<longleftrightarrow> (\<forall>q. path @ q = legacy_path \<longrightarrow> get_path v q = None)"

lemma canonical_child: "canonical_at path (TTable t) \<Longrightarrow> map_of t k = Some v \<Longrightarrow> canonical_at (path @ [k]) v"
proof -
  assume assms: "canonical_at path (TTable t)" "map_of t k = Some v"
  have "get_path v q = None" if "(path @ [k]) @ q = legacy_path" for q
    using assms(1) [unfolded canonical_at_def, rule_format, of "k # q"] that assms(2) by simp
  then show ?thesis by (simp add: canonical_at_def)
qed

lemma canonical_table: "canonical_at path (TTable t) \<Longrightarrow> normalize_key_aliases path t = t"
proof (cases "path = [''memories'']")
  case True
  assume "canonical_at path (TTable t)"
  with True have "map_of t ''no_memories_if_mcp_or_web_search'' = None"
    by (auto simp: canonical_at_def legacy_path_def split: option.splits)
  then show ?thesis by (simp add: normalize_key_aliases_def CONFIG_KEY_ALIASES_def apply_alias_def)
qed (simp add: normalize_key_aliases_other)

text \<open>One level of a merge, entry by entry.\<close>

lemma merge_level:
  assumes "wf_toml (TTable ov)" "canonical_at path (TTable b)"
  obtains m n where "merge_toml_values_at_path (TTable b) (TTable ov) path = TTable m"
    and "normalized_with_key_aliases (TTable ov) path = TTable n"
    and "\<And>k. map_of n k = map_option (normalized_child path k) (map_of (normalize_key_aliases path ov) k)"
    and "\<And>k. map_of m k = (case map_of (normalize_key_aliases path ov) k of None \<Rightarrow> map_of b k
        | Some v \<Rightarrow> Some (case map_of b k of Some e \<Rightarrow> merge_toml_values_at_path e v (path @ [k]) | None \<Rightarrow> normalized_child path k v))"
    and "\<And>k v. map_of (normalize_key_aliases path ov) k = Some v \<Longrightarrow> wf_toml v"
proof -
  let ?ov = "normalize_key_aliases path ov"
  obtain m where m: "merge_toml_values_at_path (TTable b) (TTable ov) path = TTable m"
    by (simp add: merge_toml_values_at_path.simps)
  obtain n where n: "normalized_with_key_aliases (TTable ov) path = TTable n" by simp
  have wf: "wf_toml (TTable ?ov)" using assms(1) wf_normalize_key_aliases by blast
  have b: "normalize_key_aliases path b = b" using assms(2) canonical_table by blast
  have distinct: "distinct (map fst ?ov)" "distinct (map fst ov)"
    using sorted_keys_distinct [of ?ov] sorted_keys_distinct [of ov] wf assms(1) by simp_all
  show thesis
    using that [OF m n normalized_get [OF distinct(2) n] merged_get [OF distinct(1) m, unfolded b] wf_lookup [OF wf]] .
qed

text \<open>One merge: the overlay decides the paths it covers, the base the others.\<close>

lemma merge_setting:
  assumes "wf_toml overlay" "canonical_at path base"
  shows "setting_at (merge_toml_values_at_path base overlay path) q =
    (if covers (normalized_with_key_aliases overlay path) q
     then setting_at (normalized_with_key_aliases overlay path) q else setting_at base q)"
  using assms
proof (induction q arbitrary: base overlay path)
  case Nil
  show ?case
  proof (cases "(\<nexists>t. base = TTable t) \<or> (\<nexists>t. overlay = TTable t)")
    case False
    then show ?thesis by (auto simp: merge_toml_values_at_path.simps)
  qed (simp add: merge_no_tables)
next
  case (Cons k q)
  let ?n = "normalized_with_key_aliases overlay path"
  show ?case
  proof (cases "(\<nexists>t. base = TTable t) \<or> (\<nexists>t. overlay = TTable t)")
    case True
    then consider "\<nexists>t. base = TTable t" | "covers ?n (k # q)"
      by (cases overlay) auto
    then show ?thesis using True not_covers_setting [of ?n "k # q"] by cases (auto simp: merge_no_tables)
  next
    case False
    then obtain b ov where tables: "base = TTable b" "overlay = TTable ov" by blast
    show ?thesis using Cons.prems unfolding tables
    proof (rule merge_level)
      fix m n
      let ?ov = "normalize_key_aliases path ov"
      assume m: "merge_toml_values_at_path (TTable b) (TTable ov) path = TTable m"
        and n: "normalized_with_key_aliases (TTable ov) path = TTable n"
        and get_n: "\<And>k. map_of n k = map_option (normalized_child path k) (map_of ?ov k)"
        and get_m: "\<And>k. map_of m k = (case map_of ?ov k of None \<Rightarrow> map_of b k
          | Some v \<Rightarrow> Some (case map_of b k of Some e \<Rightarrow> merge_toml_values_at_path e v (path @ [k]) | None \<Rightarrow> normalized_child path k v))"
        and wf: "\<And>k v. map_of ?ov k = Some v \<Longrightarrow> wf_toml v"
      consider "map_of ?ov k = None" | v where "map_of ?ov k = Some v" "map_of b k = None"
        | v e where "map_of ?ov k = Some v" "map_of b k = Some e" by (cases "map_of ?ov k"; cases "map_of b k") auto
      then show "setting_at (merge_toml_values_at_path (TTable b) (TTable ov) path) (k # q) =
        (if covers (normalized_with_key_aliases (TTable ov) path) (k # q)
         then setting_at (normalized_with_key_aliases (TTable ov) path) (k # q) else setting_at (TTable b) (k # q))"
        unfolding m n
      proof cases
        case (3 v e)
        then have "canonical_at (path @ [k]) e" using canonical_child Cons.prems(2) tables by blast
        with Cons.IH [of v "path @ [k]" e] wf 3 get_m get_n
        show "setting_at (TTable m) (k # q) = (if covers (TTable n) (k # q) then setting_at (TTable n) (k # q) else setting_at (TTable b) (k # q))"
          by (simp add: setting_at_TTable normalized_child_def)
      qed (use get_m get_n not_covers_setting in \<open>simp_all add: setting_at_TTable\<close>)
    qed
  qed
qed

text \<open>A merge has nothing at a path where both its sides have nothing.\<close>

lemma merge_get_None:
  assumes "wf_toml overlay" "canonical_at path base"
    and "get_path base q = None" "get_path (normalized_with_key_aliases overlay path) q = None"
  shows "get_path (merge_toml_values_at_path base overlay path) q = None"
  using assms
proof (induction q arbitrary: base overlay path)
  case (Cons k q)
  show ?case
  proof (cases "(\<nexists>t. base = TTable t) \<or> (\<nexists>t. overlay = TTable t)")
    case True
    with Cons.prems show ?thesis by (simp add: merge_no_tables)
  next
    case False
    then obtain b ov where tables: "base = TTable b" "overlay = TTable ov" by blast
    obtain m n where m: "merge_toml_values_at_path (TTable b) (TTable ov) path = TTable m"
      and n: "normalized_with_key_aliases (TTable ov) path = TTable n"
      and get_n: "\<And>k. map_of n k = map_option (normalized_child path k) (map_of (normalize_key_aliases path ov) k)"
      and get_m: "\<And>k. map_of m k = (case map_of (normalize_key_aliases path ov) k of None \<Rightarrow> map_of b k
        | Some v \<Rightarrow> Some (case map_of b k of Some e \<Rightarrow> merge_toml_values_at_path e v (path @ [k]) | None \<Rightarrow> normalized_child path k v))"
      and wf: "\<And>k v. map_of (normalize_key_aliases path ov) k = Some v \<Longrightarrow> wf_toml v"
      by (rule merge_level [OF Cons.prems(1,2) [unfolded tables]]) (rule that)
    have none: "get_path (TTable b) (k # q) = None" "get_path (TTable n) (k # q) = None"
      using Cons.prems(3,4) unfolding tables n by simp_all
    show ?thesis
    proof (cases "map_of (normalize_key_aliases path ov) k")
      case None
      with none get_m show ?thesis unfolding tables m by simp
    next
      case (Some v)
      then have "get_path (normalized_child path k v) q = None" using none get_n by simp
      with Some none get_m Cons.IH [of v "path @ [k]"] wf canonical_child Cons.prems(2)
      show ?thesis unfolding tables m by (auto simp: normalized_child_def split: option.splits)
    qed
  qed
qed simp

text \<open>Legacy keys do not survive a normalisation or a merge.\<close>

lemma canonical_normalized: "wf_toml v \<Longrightarrow> canonical_at [] (normalized_with_key_aliases v [])"
proof -
  assume wf: "wf_toml v"
  have "get_path (normalized_with_key_aliases v []) legacy_path = None"
  proof (cases "\<exists>t. v = TTable t")
    case True
    then obtain t n where t: "v = TTable t" "normalized_with_key_aliases (TTable t) [] = TTable n" by auto
    have n: "map_of n ''memories'' = map_option (normalized_child [] ''memories'') (map_of t ''memories'')"
      using normalized_get [OF _ t(2), of "''memories''"] wf t(1) sorted_keys_distinct [of t]
      by (simp add: normalize_key_aliases_other)
    have "get_path (normalized_child [] ''memories'' w) [''no_memories_if_mcp_or_web_search''] = None"
      if w: "map_of t ''memories'' = Some w" for w
    proof (cases "\<exists>u. w = TTable u")
      case True
      then obtain u n' where u: "w = TTable u" "normalized_with_key_aliases (TTable u) [''memories''] = TTable n'" by auto
      have "wf_toml w" using wf_lookup [OF _ w] wf t(1) by simp
      moreover have "map_of (normalize_key_aliases [''memories''] u) ''no_memories_if_mcp_or_web_search'' = None"
        unfolding normalize_key_aliases_get by auto
      ultimately have "map_of n' ''no_memories_if_mcp_or_web_search'' = None"
        using normalized_get [OF _ u(2)] u(1) sorted_keys_distinct [of u] by simp
      then show ?thesis unfolding normalized_child_def u(1) append_Nil u(2) by simp
    next
      case False
      then show ?thesis by (cases w) (simp_all add: normalized_child_def)
    qed
    with n show ?thesis unfolding t legacy_path_def by (auto split: option.split)
  next
    case False
    then show ?thesis by (cases v) (simp_all add: legacy_path_def)
  qed
  then show ?thesis by (simp add: canonical_at_def)
qed

lemma canonical_merge:
  assumes "wf_toml overlay" "canonical_at [] base"
  shows "canonical_at [] (merge_toml_values base overlay)"
  using merge_get_None [OF assms, of legacy_path] canonical_normalized [OF assms(1)] assms(2)
  by (simp add: canonical_at_def merge_toml_values_def)


section \<open>Well-formed values and overrides\<close>

lemma wf_apply_override: "wf_toml root \<Longrightarrow> wf_toml v \<Longrightarrow> wf_toml (apply_toml_override root path v)"
  by (simp add: apply_toml_override_def wf_override)

text \<open>
  Configuration values stay ordered maps: in the result of a merge, and in the layer of
  the command line's overrides, every table at every depth has its keys in strict order, so no
  key occurs twice, and a merge onto a base without a legacy key in its memories table leaves none.
\<close>

lemma toml_well_formed:
  assumes "wf_toml base" "wf_toml overlay" "list_all (\<lambda>(path, v). wf_toml v) overrides"
  shows "wf_toml (merge_toml_values base overlay) \<and> wf_toml (build_cli_overrides_layer overrides) \<and>
    (canonical_at [] base \<longrightarrow> get_path (merge_toml_values base overlay) legacy_path = None)"
proof -
  have "wf_toml (fold (\<lambda>(path, v) root. apply_toml_override root path v) overrides root)" if "wf_toml root" for root
    using assms(3) that by (induction overrides arbitrary: root) (auto simp: wf_apply_override)
  then show ?thesis
    using assms(1,2) canonical_merge [OF assms(2)]
    by (simp add: merge_toml_values_def wf_merge build_cli_overrides_layer_def default_empty_table_def canonical_at_def)
qed

lemma toml_well_formed_witness:
  "wf_toml (merge_toml_values (TTable [(''memories'', TTable [(''disable_on_external_context'', TBoolean False)])])
     (TTable [(''memories'', TTable [(''no_memories_if_mcp_or_web_search'', TBoolean True)]), (''model'', TString ''o'')]))"
  using toml_well_formed [of "TTable [(''memories'', TTable [(''disable_on_external_context'', TBoolean False)])]"
      "TTable [(''memories'', TTable [(''no_memories_if_mcp_or_web_search'', TBoolean True)]), (''model'', TString ''o'')]" "[]"]
  by simp

lemma override_TTable:
  "override_at current (k # ks) v =
     TTable (tbl_insert k (if ks = [] then v else
         override_at (case map_of (case current of TTable t \<Rightarrow> t | _ \<Rightarrow> []) k of Some e \<Rightarrow> e | None \<Rightarrow> TTable []) ks v)
       (case current of TTable t \<Rightarrow> t | _ \<Rightarrow> []))"
  by (cases ks; cases current) (simp_all add: Let_def)

lemma override_get: "ks \<noteq> [] \<Longrightarrow> get_path (override_at current ks v) ks = Some v"
proof (induction ks arbitrary: current)
  case (Cons k ks)
  then show ?case unfolding override_TTable by (cases "ks = []") simp_all
qed simp

lemma override_other:
  "\<not> prefix ks q \<Longrightarrow> \<not> prefix q ks \<Longrightarrow> get_path (override_at current ks v) q = get_path current q"
proof (induction ks arbitrary: current q)
  case (Cons k ks)
  obtain x q' where q: "q = x # q'" using Cons.prems(2) by (cases q) auto
  let ?t = "case current of TTable t \<Rightarrow> t | _ \<Rightarrow> []"
  have current: "get_path current (x # q') = (case map_of ?t x of None \<Rightarrow> None | Some v \<Rightarrow> get_path v q')"
    by (cases current) simp_all
  show ?case
  proof (cases "x = k")
    case True
    with Cons.prems q have "\<not> prefix ks q'" "\<not> prefix q' ks" "ks \<noteq> []" "q' \<noteq> []" by auto
    with Cons.IH [of q'] True current show ?thesis
      by (auto simp: q override_TTable [of current] neq_Nil_conv split: option.splits)
  next
    case False
    with current show ?thesis by (simp add: q override_TTable [of current])
  qed
qed simp

text \<open>
  An override \<open>-c a.b.c=v\<close> of the command line sets exactly its path: the value is found
  there afterwards, whatever stood in the way, and every path that neither leads to it nor lies below it
  reads as before.
\<close>

lemma override_sets_path:
  assumes "\<not> prefix (split_on (CHR ''.'') path) q" "\<not> prefix q (split_on (CHR ''.'') path)"
  shows "get_path (apply_toml_override root path v) (split_on (CHR ''.'') path) = Some v \<and>
    get_path (apply_toml_override root path v) q = get_path root q"
  using override_get [of "split_on (CHR ''.'') path"] override_other [OF assms]
  by (simp add: apply_toml_override_def)

lemma override_sets_path_witness:
  "get_path (apply_toml_override (TTable [(''a'', TInteger 1), (''z'', TInteger 2)]) ''a.b'' (TBoolean True)) [''z''] = Some (TInteger 2)"
  using override_sets_path [of "''a.b''" "[''z'']" "TTable [(''a'', TInteger 1), (''z'', TInteger 2)]" "TBoolean True"]
  by simp

end
