(* ===== verification/Config_Layers.thy ===== *)
theory Config_Layers
  imports Toml_Merge
begin

text \<open>
  The stack of configuration layers (\<open>config/src/state.rs\<close>, \<open>ConfigLayerSource\<close> of
  \<open>app-server-protocol/src/protocol/v2.rs\<close>): layers from the machine, the user, the project and the command line,
  in the order of their precedence, and the merged view of them. The requirements are carried along,
  of types that are arguments; the version of a layer is a digest of its value, an argument.
  An error of the kind \<open>InvalidData\<close> is its message, \<open>None\<close> is a panic.
\<close>

section \<open>Layers\<close>

datatype config_layer_source =
    Mdm string string
  | System string
  | User string
  | Project string
  | SessionFlags
  | LegacyManagedConfigTomlFromFile string
  | LegacyManagedConfigTomlFromMdm

fun precedence :: "config_layer_source \<Rightarrow> int" where
  "precedence (Mdm domain key) = 0"
| "precedence (System file) = 10"
| "precedence (User file) = 20"
| "precedence (Project dot_codex_folder) = 25"
| "precedence SessionFlags = 30"
| "precedence (LegacyManagedConfigTomlFromFile file) = 40"
| "precedence LegacyManagedConfigTomlFromMdm = 50"

record config_layer_entry =
  layer_name :: config_layer_source
  layer_config :: toml_value
  raw_toml :: "string option"
  layer_version :: string
  disabled_reason :: "string option"

record config_layer_metadata =
  meta_name :: config_layer_source
  meta_version :: string

type_synonym toml_digest = "toml_value \<Rightarrow> string"

definition new_entry :: "toml_digest \<Rightarrow> config_layer_source \<Rightarrow> toml_value \<Rightarrow> config_layer_entry" where
  "new_entry version_for_toml name config =
     \<lparr>layer_name = name, layer_config = config, raw_toml = None, layer_version = version_for_toml config,
      disabled_reason = None\<rparr>"

definition new_with_raw_toml :: "toml_digest \<Rightarrow> config_layer_source \<Rightarrow> toml_value \<Rightarrow> string \<Rightarrow> config_layer_entry" where
  "new_with_raw_toml version_for_toml name config raw =
     \<lparr>layer_name = name, layer_config = config, raw_toml = Some raw, layer_version = version_for_toml config,
      disabled_reason = None\<rparr>"

definition new_disabled :: "toml_digest \<Rightarrow> config_layer_source \<Rightarrow> toml_value \<Rightarrow> string \<Rightarrow> config_layer_entry" where
  "new_disabled version_for_toml name config reason =
     \<lparr>layer_name = name, layer_config = config, raw_toml = None, layer_version = version_for_toml config,
      disabled_reason = Some reason\<rparr>"

definition is_disabled :: "config_layer_entry \<Rightarrow> bool" where
  "is_disabled layer \<longleftrightarrow> disabled_reason layer \<noteq> None"

definition layer_metadata :: "config_layer_entry \<Rightarrow> config_layer_metadata" where
  "layer_metadata layer = \<lparr>meta_name = layer_name layer, meta_version = layer_version layer\<rparr>"

definition config_folder :: "config_layer_entry \<Rightarrow> string option" where
  "config_folder layer =
     (case layer_name layer of
        Mdm _ _ \<Rightarrow> None
      | System file \<Rightarrow> abs_parent file
      | User file \<Rightarrow> abs_parent file
      | Project dot_codex_folder \<Rightarrow> Some dot_codex_folder
      | SessionFlags \<Rightarrow> None
      | LegacyManagedConfigTomlFromFile _ \<Rightarrow> None
      | LegacyManagedConfigTomlFromMdm \<Rightarrow> None)"

section \<open>Stacks\<close>

datatype config_layer_stack_ordering = LowestPrecedenceFirst | HighestPrecedenceFirst

record ('r, 't) config_layer_stack =
  layers :: "config_layer_entry list"
  user_layer_index :: "nat option"
  requirements :: 'r
  requirements_toml :: 't
  ignore_user_and_project_exec_policy_rules :: bool

definition msg_precedence :: string where
  "msg_precedence = ''config layers are not in correct precedence order''"
definition msg_multiple_users :: string where
  "msg_multiple_users = ''multiple user config layers found''"
definition msg_no_parent :: string where
  "msg_no_parent = ''project layer has no parent directory''"
definition msg_project_order :: string where
  "msg_project_order = ''project layers are not ordered from root to cwd''"

text \<open>Paths are compared by their components; the ancestors of a path are its prefixes.\<close>

definition has_ancestor :: "string \<Rightarrow> string \<Rightarrow> bool" where
  "has_ancestor p ancestor \<longleftrightarrow> components ancestor \<in> set (prefixes (components p))"

text \<open>One layer of the check: the index of the user layer and the last project folder seen so far.\<close>

definition verify_project :: "config_layer_source \<Rightarrow> string option \<Rightarrow> (string, string option) result" where
  "verify_project name previous_project_dot_codex_folder =
     (case name of
        Project current \<Rightarrow>
          (case previous_project_dot_codex_folder of
             None \<Rightarrow> Ok (Some current)
           | Some previous \<Rightarrow>
               (case path_parent previous of
                  None \<Rightarrow> Err msg_no_parent
                | Some parent \<Rightarrow>
                    if components previous = components current \<or> \<not> has_ancestor current parent
                    then Err msg_project_order else Ok (Some current)))
      | _ \<Rightarrow> Ok previous_project_dot_codex_folder)"

fun verify_loop :: "nat \<Rightarrow> config_layer_source list \<Rightarrow> nat option \<Rightarrow> string option \<Rightarrow> (string, nat option) result" where
  "verify_loop index [] user_index previous = Ok user_index"
| "verify_loop index (name # names) user_index previous =
     (case name of
        User _ \<Rightarrow>
          if user_index \<noteq> None then Err msg_multiple_users
          else verify_loop (index + 1) names (Some index) previous
      | _ \<Rightarrow>
          (case verify_project name previous of
             Err e \<Rightarrow> Err e
           | Ok previous \<Rightarrow> verify_loop (index + 1) names user_index previous))"

definition verify_layer_ordering :: "config_layer_entry list \<Rightarrow> (string, nat option) result" where
  "verify_layer_ordering ls =
     (if \<not> sorted (map (\<lambda>layer. precedence (layer_name layer)) ls) then Err msg_precedence
      else verify_loop 0 (map layer_name ls) None None)"

definition new_stack :: "config_layer_entry list \<Rightarrow> 'r \<Rightarrow> 't \<Rightarrow> (string, ('r, 't) config_layer_stack) result" where
  "new_stack ls req req_toml =
     (case verify_layer_ordering ls of
        Err e \<Rightarrow> Err e
      | Ok index \<Rightarrow> Ok \<lparr>layers = ls, user_layer_index = index, requirements = req, requirements_toml = req_toml,
          ignore_user_and_project_exec_policy_rules = False\<rparr>)"

definition with_user_and_project_exec_policy_rules_ignored :: "bool \<Rightarrow> ('r, 't) config_layer_stack \<Rightarrow> ('r, 't) config_layer_stack" where
  "with_user_and_project_exec_policy_rules_ignored ignore stack =
     stack\<lparr>ignore_user_and_project_exec_policy_rules := ignore\<rparr>"

definition get_user_layer :: "('r, 't) config_layer_stack \<Rightarrow> config_layer_entry option" where
  "get_user_layer stack =
     (case user_layer_index stack of
        None \<Rightarrow> None
      | Some index \<Rightarrow> if index < length (layers stack) then Some (layers stack ! index) else None)"

definition with_user_config :: "toml_digest \<Rightarrow> string \<Rightarrow> toml_value \<Rightarrow> ('r, 't) config_layer_stack \<Rightarrow>
    ('r, 't) config_layer_stack option" where
  "with_user_config version_for_toml config_toml user_config stack =
     (let user_layer = new_entry version_for_toml (User config_toml) user_config in
      case user_layer_index stack of
        Some index \<Rightarrow>
          if index < length (layers stack) then Some (stack\<lparr>layers := (layers stack)[index := user_layer]\<rparr>) else None
      | None \<Rightarrow>
          (let higher = (\<lambda>layer. precedence (layer_name layer) > precedence (layer_name user_layer));
               index = length (takeWhile (\<lambda>layer. \<not> higher layer) (layers stack)) in
           Some (stack\<lparr>layers := take index (layers stack) @ user_layer # drop index (layers stack),
                       user_layer_index := Some index\<rparr>)))"

definition get_layers :: "config_layer_stack_ordering \<Rightarrow> bool \<Rightarrow> ('r, 't) config_layer_stack \<Rightarrow> config_layer_entry list" where
  "get_layers order include_disabled stack =
     (let ls = filter (\<lambda>layer. include_disabled \<or> \<not> is_disabled layer) (layers stack) in
      if order = HighestPrecedenceFirst then rev ls else ls)"

definition effective_config :: "('r, 't) config_layer_stack \<Rightarrow> toml_value" where
  "effective_config stack =
     fold (\<lambda>layer merged. merge_toml_values merged (layer_config layer)) (get_layers LowestPrecedenceFirst False stack) (TTable [])"

definition stack_origins :: "('r, 't) config_layer_stack \<Rightarrow> config_layer_metadata origins" where
  "stack_origins stack =
     fold (\<lambda>layer origins. record_origins (normalized_with_key_aliases (layer_config layer) []) (layer_metadata layer) [] origins)
       (get_layers LowestPrecedenceFirst False stack) (\<lambda>_. None)"

definition layers_high_to_low :: "('r, 't) config_layer_stack \<Rightarrow> config_layer_entry list" where
  "layers_high_to_low stack = get_layers HighestPrecedenceFirst False stack"

section \<open>The highest layer that speaks decides\<close>

definition canonical_config :: "config_layer_entry \<Rightarrow> toml_value" where
  "canonical_config layer = normalized_with_key_aliases (layer_config layer) []"

definition deciding_layer :: "config_layer_entry list \<Rightarrow> string list \<Rightarrow> config_layer_entry option" where
  "deciding_layer high_to_low q = find (\<lambda>layer. covers (canonical_config layer) q) high_to_low"

definition wf_stack :: "('r, 't) config_layer_stack \<Rightarrow> bool" where
  "wf_stack stack \<longleftrightarrow> list_all (\<lambda>layer. wf_toml (layer_config layer)) (layers stack)"

lemma layers_high_to_low_rev: "layers_high_to_low stack = rev (get_layers LowestPrecedenceFirst False stack)"
  by (simp add: layers_high_to_low_def get_layers_def)

lemma wf_stack_layers: "wf_stack stack \<Longrightarrow> list_all (\<lambda>layer. wf_toml (layer_config layer)) (get_layers order d stack)"
  by (auto simp: wf_stack_def get_layers_def list_all_iff Let_def)

definition merged_layers :: "config_layer_entry list \<Rightarrow> toml_value" where
  "merged_layers ls = fold (\<lambda>layer merged. merge_toml_values merged (layer_config layer)) ls (TTable [])"

lemma merge_layers:
  assumes "list_all (\<lambda>layer. wf_toml (layer_config layer)) ls"
  shows "canonical_at [] (merged_layers ls)"
    and "setting_at (merged_layers ls) q = Option.bind (deciding_layer (rev ls) q) (\<lambda>layer. setting_at (canonical_config layer) q)"
proof -
  have "canonical_at [] (merged_layers ls) \<and>
    (\<forall>q. setting_at (merged_layers ls) q = Option.bind (deciding_layer (rev ls) q) (\<lambda>layer. setting_at (canonical_config layer) q))"
    using assms
  proof (induction ls rule: rev_induct)
    case Nil
    have "setting_at (TTable []) q = None" for q by (cases q) (simp_all add: setting_at_TTable)
    then show ?case by (auto simp: merged_layers_def canonical_at_def legacy_path_def deciding_layer_def)
  next
    case (snoc l ls)
    have merged: "merged_layers (ls @ [l]) = merge_toml_values (merged_layers ls) (layer_config l)"
      by (simp add: merged_layers_def)
    have wf: "wf_toml (layer_config l)" and IH: "canonical_at [] (merged_layers ls)"
        "\<And>q. setting_at (merged_layers ls) q = Option.bind (deciding_layer (rev ls) q) (\<lambda>layer. setting_at (canonical_config layer) q)"
      using snoc by simp_all
    show ?case
      using canonical_merge [OF wf IH(1)] merge_setting [OF wf IH(1)] IH(2)
      by (simp add: merged merge_toml_values_def deciding_layer_def canonical_config_def)
  qed
  then show "canonical_at [] (merged_layers ls)"
    "setting_at (merged_layers ls) q = Option.bind (deciding_layer (rev ls) q) (\<lambda>layer. setting_at (canonical_config layer) q)"
    by simp_all
qed

text \<open>
  C25 (highest_layer_decides). The merged configuration has, at every path, the setting of the highest layer
  that speaks about the path: the enabled layers are asked from the highest precedence down, and the first whose
  value has an entry along the whole path, or a plain value on the way, decides; settings of lower layers
  below a value that is no table are gone. Old names of keys count as the new ones.
\<close>

theorem highest_layer_decides:
  assumes "wf_stack stack"
  shows "setting_at (effective_config stack) q =
    (case deciding_layer (layers_high_to_low stack) q of
       None \<Rightarrow> None
     | Some layer \<Rightarrow> setting_at (canonical_config layer) q)"
  using merge_layers(2) [OF wf_stack_layers [OF assms, of LowestPrecedenceFirst False], of q]
  by (simp add: effective_config_def merged_layers_def layers_high_to_low_rev split: option.split)

definition sample_stack :: "(unit, unit) config_layer_stack" where
  "sample_stack =
     \<lparr>layers = [new_entry (\<lambda>_. ''v1'') (User ''/h/.codex/config.toml'')
                 (TTable [(''memories'', TTable [(''no_memories_if_mcp_or_web_search'', TBoolean True)]), (''model'', TString ''a'')]),
               new_entry (\<lambda>_. ''v2'') SessionFlags (TTable [(''model'', TString ''b'')])],
      user_layer_index = Some 0, requirements = (), requirements_toml = (), ignore_user_and_project_exec_policy_rules = False\<rparr>"

theorem highest_layer_decides_witness:
  "setting_at (effective_config sample_stack) [''model''] = Some (TString ''b'') \<and>
   setting_at (effective_config sample_stack) [''memories'', ''disable_on_external_context''] = Some (TBoolean True)"
proof -
  have wf: "wf_stack sample_stack" by (simp add: wf_stack_def sample_stack_def new_entry_def)
  have "(case deciding_layer (layers_high_to_low sample_stack) [''model''] of None \<Rightarrow> None
       | Some layer \<Rightarrow> setting_at (canonical_config layer) [''model'']) = Some (TString ''b'')"
    "(case deciding_layer (layers_high_to_low sample_stack) [''memories'', ''disable_on_external_context''] of None \<Rightarrow> None
       | Some layer \<Rightarrow> setting_at (canonical_config layer) [''memories'', ''disable_on_external_context'']) = Some (TBoolean True)"
    by code_simp+
  with highest_layer_decides [OF wf] show ?thesis by simp
qed


section \<open>The user layer\<close>

fun is_user :: "config_layer_source \<Rightarrow> bool" where
  "is_user (User file) = True"
| "is_user name = False"

fun projects_ok :: "config_layer_source list \<Rightarrow> string option \<Rightarrow> bool" where
  "projects_ok [] previous \<longleftrightarrow> True"
| "projects_ok (name # names) previous \<longleftrightarrow>
     (case verify_project name previous of Err _ \<Rightarrow> False | Ok previous \<Rightarrow> projects_ok names previous)"

lemma verify_project_user: "is_user name \<Longrightarrow> verify_project name previous = Ok previous"
  by (cases name) (simp_all add: verify_project_def)

lemma projects_ok_users: "projects_ok (filter (\<lambda>n. \<not> is_user n) names) previous = projects_ok names previous"
  by (induction names arbitrary: previous) (auto simp: verify_project_user split: sum.split)

lemma verify_loop_step:
  "verify_loop index (name # names) user_index previous =
     (if is_user name then
        if user_index \<noteq> None then Err msg_multiple_users else verify_loop (index + 1) names (Some index) previous
      else (case verify_project name previous of Err e \<Rightarrow> Err e | Ok previous \<Rightarrow> verify_loop (index + 1) names user_index previous))"
  by (cases name) simp_all

declare verify_loop.simps(2) [simp del]

lemma verify_loop_more_users:
  "verify_loop index names (Some u) previous = Ok r \<longleftrightarrow>
     projects_ok names previous \<and> (\<forall>n \<in> set names. \<not> is_user n) \<and> r = Some u"
  by (induction names arbitrary: index previous)
    (auto simp: verify_loop_step verify_project_user split: sum.splits)

lemma verify_loop_Ok:
  "verify_loop index names None previous = Ok r \<longleftrightarrow> projects_ok names previous \<and>
     ((\<forall>n \<in> set names. \<not> is_user n) \<and> r = None \<or>
      (\<exists>xs n ys. names = xs @ n # ys \<and> is_user n \<and> (\<forall>m \<in> set xs \<union> set ys. \<not> is_user m) \<and> r = Some (index + length xs)))"
proof (induction names arbitrary: index previous)
  case (Cons name names)
  show ?case
  proof (cases "is_user name")
    case True
    have "(\<exists>xs n ys. name # names = xs @ n # ys \<and> is_user n \<and> (\<forall>m \<in> set xs \<union> set ys. \<not> is_user m) \<and> r = Some (index + length xs)) \<longleftrightarrow>
        (\<forall>m \<in> set names. \<not> is_user m) \<and> r = Some index" (is "?split \<longleftrightarrow> ?one")
    proof
      assume ?split
      then obtain xs n ys where split: "name # names = xs @ n # ys" "\<forall>m \<in> set xs \<union> set ys. \<not> is_user m" "r = Some (index + length xs)"
        by blast
      with True show ?one by (cases xs) auto
    qed (use True in \<open>auto intro!: exI [of _ "[]"]\<close>)
    with True show ?thesis by (simp add: verify_loop_step verify_loop_more_users verify_project_user)
  next
    case False
    have "(\<exists>xs n ys. name # names = xs @ n # ys \<and> is_user n \<and> (\<forall>m \<in> set xs \<union> set ys. \<not> is_user m) \<and> r = Some (index + length xs)) \<longleftrightarrow>
        (\<exists>xs n ys. names = xs @ n # ys \<and> is_user n \<and> (\<forall>m \<in> set xs \<union> set ys. \<not> is_user m) \<and> r = Some (index + 1 + length xs))"
      (is "?long \<longleftrightarrow> ?short")
    proof
      assume ?long
      then obtain xs n ys where split: "name # names = xs @ n # ys" "is_user n" "\<forall>m \<in> set xs \<union> set ys. \<not> is_user m"
        "r = Some (index + length xs)" by blast
      with False obtain xs' where "xs = name # xs'" by (cases xs) auto
      with split show ?short by (intro exI [of _ xs'] exI [of _ n] exI [of _ ys]) auto
    next
      assume ?short
      then obtain xs n ys where "names = xs @ n # ys" "is_user n" "\<forall>m \<in> set xs \<union> set ys. \<not> is_user m" "r = Some (index + 1 + length xs)"
        by blast
      with False show ?long by (intro exI [of _ "name # xs"] exI [of _ n] exI [of _ ys]) auto
    qed
    then show ?thesis using False by (auto simp: verify_loop_step Cons.IH split: sum.splits)
  qed
qed auto

text \<open>The stacks that \<open>ConfigLayerStack::new\<close> accepts.\<close>

definition stack_ok :: "('r, 't) config_layer_stack \<Rightarrow> bool" where
  "stack_ok stack \<longleftrightarrow> verify_layer_ordering (layers stack) = Ok (user_layer_index stack)"

lemma new_stack_ok: "new_stack ls req req_toml = Ok stack \<Longrightarrow> stack_ok stack"
  by (auto simp: new_stack_def stack_ok_def split: sum.splits)

lemma verify_Ok:
  "verify_layer_ordering ls = Ok r \<longleftrightarrow> sorted (map (precedence \<circ> layer_name) ls) \<and>
     projects_ok (filter (\<lambda>n. \<not> is_user n) (map layer_name ls)) None \<and>
     ((\<forall>l \<in> set ls. \<not> is_user (layer_name l)) \<and> r = None \<or>
      (\<exists>xs l ys. ls = xs @ l # ys \<and> is_user (layer_name l) \<and> (\<forall>m \<in> set xs \<union> set ys. \<not> is_user (layer_name m)) \<and> r = Some (length xs)))"
proof -
  have "(\<exists>xs n ys. map layer_name ls = xs @ n # ys \<and> is_user n \<and> (\<forall>m \<in> set xs \<union> set ys. \<not> is_user m) \<and> r = Some (length xs)) \<longleftrightarrow>
    (\<exists>xs l ys. ls = xs @ l # ys \<and> is_user (layer_name l) \<and> (\<forall>m \<in> set xs \<union> set ys. \<not> is_user (layer_name m)) \<and> r = Some (length xs))"
    (is "?names \<longleftrightarrow> ?layers")
  proof
    assume ?names
    then obtain xs l ys where "ls = xs @ l # ys" "is_user (layer_name l)"
      "\<forall>m \<in> set (map layer_name xs) \<union> set (map layer_name ys). \<not> is_user m" "r = Some (length (map layer_name xs))"
      by (auto simp: map_eq_append_conv map_eq_Cons_conv)
    then show ?layers by (intro exI [of _ xs] exI [of _ l] exI [of _ ys]) auto
  next
    assume ?layers
    then obtain xs l ys where "ls = xs @ l # ys" "is_user (layer_name l)"
      "\<forall>m \<in> set xs \<union> set ys. \<not> is_user (layer_name m)" "r = Some (length xs)" by blast
    then show ?names by (intro exI [of _ "map layer_name xs"] exI [of _ "layer_name l"] exI [of _ "map layer_name ys"]) auto
  qed
  then show ?thesis by (simp add: verify_layer_ordering_def verify_loop_Ok projects_ok_users comp_def)
qed

lemma verify_with_user:
  assumes "sorted (map (precedence \<circ> layer_name) (xs @ u # ys))"
    and "projects_ok (filter (\<lambda>n. \<not> is_user n) (map layer_name (xs @ u # ys))) None"
    and "is_user (layer_name u)" "\<forall>m \<in> set xs \<union> set ys. \<not> is_user (layer_name m)"
  shows "verify_layer_ordering (xs @ u # ys) = Ok (Some (length xs))"
  using assms unfolding verify_Ok by blast

lemma insert_position:
  fixes f :: "'a \<Rightarrow> int"
  assumes "sorted (map f ls)" "i = length (takeWhile (\<lambda>l. \<not> f l > x) ls)" "f u = x"
  shows "sorted (map f (take i ls @ u # drop i ls))"
proof -
  have low: "\<forall>l \<in> set (take i ls). f l \<le> x"
    unfolding assms(2) takeWhile_eq_take [symmetric] by (auto dest: set_takeWhileD)
  have high: "\<forall>l \<in> set (drop i ls). x < f l"
  proof (cases "drop i ls")
    case (Cons h t)
    then have "x < f h" using assms(2) nth_length_takeWhile [of "\<lambda>l. \<not> f l > x" ls]
      by (metis drop_eq_Nil2 hd_drop_conv_nth leI list.discI list.sel(1))
    moreover have "sorted (map f (h # t))" using assms(1) Cons by (metis drop_map sorted_wrt_drop)
    ultimately show ?thesis unfolding Cons by auto
  qed simp
  have "sorted (map f (take i ls))" "sorted (map f (drop i ls))"
    using assms(1) by (metis take_map sorted_wrt_take) (metis assms(1) drop_map sorted_wrt_drop)
  with low high assms(3) show ?thesis by (fastforce simp: sorted_append)
qed

lemma filter_inserted: "\<not> P u \<Longrightarrow> filter P (take i ls @ u # drop i ls) = filter P ls"
  by (metis append_take_drop_id filter.simps(2) filter_append)

text \<open>
  C40 (user_config_replaced). Giving a stack a user configuration keeps it a stack that the constructor accepts, in
  precedence order with one user layer and the project layers from the root down: the new layer is
  the user layer, at its recorded index, and all other layers stay as they are. The index never panics.
\<close>

theorem user_config_replaced:
  assumes "stack_ok stack"
  shows "\<exists>stack'. with_user_config version_for_toml config_toml user_config stack = Some stack' \<and> stack_ok stack' \<and>
    get_user_layer stack' = Some (new_entry version_for_toml (User config_toml) user_config) \<and>
    filter (\<lambda>l. \<not> is_user (layer_name l)) (layers stack') = filter (\<lambda>l. \<not> is_user (layer_name l)) (layers stack)"
proof -
  let ?ls = "layers stack"
  let ?user = "new_entry version_for_toml (User config_toml) user_config"
  let ?rest = "\<lambda>ls. filter (\<lambda>n. \<not> is_user n) (map layer_name ls)"
  have user: "layer_name ?user = User config_toml" by (simp add: new_entry_def)
  have ok: "verify_layer_ordering ?ls = Ok (user_layer_index stack)" using assms by (simp add: stack_ok_def)
  then have sorted: "sorted (map (precedence \<circ> layer_name) ?ls)" and projects: "projects_ok (?rest ?ls) None"
    by (simp_all add: verify_Ok)
  consider (none) "\<forall>l \<in> set ?ls. \<not> is_user (layer_name l)" "user_layer_index stack = None"
    | (some) xs l ys where "?ls = xs @ l # ys" "is_user (layer_name l)" "\<forall>m \<in> set xs \<union> set ys. \<not> is_user (layer_name m)"
        "user_layer_index stack = Some (length xs)"
    using ok unfolding verify_Ok by (elim conjE disjE exE)
  then show ?thesis
  proof cases
    case none
    let ?i = "length (takeWhile (\<lambda>l. \<not> (precedence \<circ> layer_name) l > 20) ?ls)"
    let ?new = "take ?i ?ls @ ?user # drop ?i ?ls"
    have "sorted (map (precedence \<circ> layer_name) ?new)"
      by (rule insert_position [OF sorted refl]) (simp add: user)
    moreover have rest: "filter (\<lambda>l. \<not> is_user (layer_name l)) ?new = filter (\<lambda>l. \<not> is_user (layer_name l)) ?ls"
      by (rule filter_inserted) (simp add: user)
    moreover from this have "?rest ?new = ?rest ?ls" unfolding filter_map comp_def by (rule arg_cong)
    moreover have "\<forall>m \<in> set (take ?i ?ls) \<union> set (drop ?i ?ls). \<not> is_user (layer_name m)"
      using none(1) in_set_takeD in_set_dropD by fast
    moreover have i: "length (take ?i ?ls) = ?i" using length_takeWhile_le by (metis length_take min.absorb2)
    ultimately have "verify_layer_ordering ?new = Ok (Some ?i)"
      using verify_with_user [of "take ?i ?ls" ?user "drop ?i ?ls"] projects user by simp
    moreover have "with_user_config version_for_toml config_toml user_config stack =
        Some (stack\<lparr>layers := ?new, user_layer_index := Some ?i\<rparr>)"
      using none(2) by (simp add: with_user_config_def Let_def user comp_def)
    moreover have "?new ! ?i = ?user" using i by (simp add: nth_append)
    ultimately show ?thesis using rest i by (simp add: stack_ok_def get_user_layer_def)
  next
    case (some xs l ys)
    let ?new = "xs @ ?user # ys"
    have "precedence (layer_name l) = 20" using some(2) by (cases "layer_name l") simp_all
    then have "map (precedence \<circ> layer_name) ?new = map (precedence \<circ> layer_name) ?ls" by (simp add: some(1) user)
    moreover have rest: "?rest ?new = ?rest ?ls" "filter (\<lambda>l. \<not> is_user (layer_name l)) ?new = filter (\<lambda>l. \<not> is_user (layer_name l)) ?ls"
      using some(1,2) user by simp_all
    ultimately have "verify_layer_ordering ?new = Ok (Some (length xs))"
      using verify_with_user [of xs ?user ys] sorted projects some(3) user by simp
    then show ?thesis
      using rest(2) some(1,4) by (simp add: with_user_config_def stack_ok_def get_user_layer_def list_update_append)
  qed
qed

theorem user_config_replaced_witness:
  "\<exists>stack'. with_user_config (\<lambda>_. ''v3'') ''/h/.codex/config.toml'' (TTable []) sample_stack = Some stack' \<and> stack_ok stack'"
proof -
  have "stack_ok sample_stack" by code_simp
  from user_config_replaced [OF this, of "\<lambda>_. ''v3''" "''/h/.codex/config.toml''" "TTable []"] show ?thesis by blast
qed


section \<open>Origins\<close>

text \<open>The paths at which a value has plain values, with indices for the items of arrays.\<close>

fun recorded :: "toml_value \<Rightarrow> string list set" where
  "recorded (TTable t) = (\<Union>(k, v) \<in> set t. (#) k ` recorded v)"
| "recorded (TArray items) = (\<Union>(i, item) \<in> set (enumerate 0 items). (#) (show_nat i) ` recorded item)"
| "recorded v = {[]}"

definition marks :: "string list \<Rightarrow> toml_value \<Rightarrow> string set" where
  "marks path v = join ''.'' ` {path @ p |p. p \<in> recorded v \<and> path @ p \<noteq> []}"

lemma fold_marks:
  assumes "\<And>x om. x \<in> set xs \<Longrightarrow> f x om = (\<lambda>s. if s \<in> S x then Some m else om s)"
  shows "fold f xs om = (\<lambda>s. if \<exists>x \<in> set xs. s \<in> S x then Some m else om s)"
  using assms
proof (induction xs arbitrary: om)
  case (Cons x xs)
  have "fold f xs (f x om) = (\<lambda>s. if \<exists>x \<in> set xs. s \<in> S x then Some m else f x om s)"
    by (rule Cons.IH) (simp add: Cons.prems)
  then show ?case by (auto simp: fun_eq_iff Cons.prems)
qed simp

lemma marks_TTable: "marks path (TTable t) = (\<Union>(k, v) \<in> set t. marks (path @ [k]) v)"
  by (fastforce simp: marks_def)

lemma marks_TArray: "marks path (TArray items) = (\<Union>(i, item) \<in> set (enumerate 0 items). marks (path @ [show_nat i]) item)"
  by (fastforce simp: marks_def)

lemma record_origins_marks:
  "record_origins v meta path om = (\<lambda>s. if s \<in> marks path v then Some meta else om s)"
proof (induction v meta path om rule: record_origins.induct)
  case (1 table meta path om)
  have "fold (\<lambda>(key, v) om. record_origins v meta (path @ [key]) om) table om =
      (\<lambda>s. if \<exists>x \<in> set table. s \<in> (case x of (key, v) \<Rightarrow> marks (path @ [key]) v) then Some meta else om s)"
    using 1 by (intro fold_marks) auto
  then show ?case by (simp add: marks_TTable)
next
  case (2 items meta path om)
  have "fold (\<lambda>(i, item) om. record_origins item meta (path @ [show_nat i]) om) (enumerate 0 items) om =
      (\<lambda>s. if \<exists>x \<in> set (enumerate 0 items). s \<in> (case x of (i, item) \<Rightarrow> marks (path @ [show_nat i]) item) then Some meta else om s)"
    using 2 by (intro fold_marks) auto
  then show ?case by (simp add: marks_TArray)
qed (auto simp: marks_def fun_eq_iff)

lemma setting_recorded:
  "setting_at v q = Some w \<Longrightarrow> (\<nexists>items. w = TArray items) \<Longrightarrow> q \<in> recorded v"
proof (induction q arbitrary: v)
  case Nil
  then show ?case by (cases v) (auto simp: setting_at_def)
next
  case (Cons k q)
  then obtain t u where "v = TTable t" "map_of t k = Some u" "setting_at u q = Some w"
    by (cases v) (auto simp: setting_at_TTable bind_eq_Some_conv)
  with Cons show ?case by (auto dest!: map_of_SomeD)
qed

lemma recorded_covers: "wf_toml v \<Longrightarrow> q \<in> recorded v \<Longrightarrow> covers v q"
proof (induction v q rule: covers.induct)
  case (1 t k q)
  then obtain u where u: "(k, u) \<in> set t" "q \<in> recorded u" by auto
  then have "map_of t k = Some u" using 1(2) sorted_keys_distinct [of t] by (simp add: map_of_is_SomeI)
  with 1 u show ?case by (auto simp: list_all_iff)
qed simp_all

text \<open>No key of a layer contains a dot, which TOML allows in quotes.\<close>

definition dotless :: "toml_value \<Rightarrow> bool" where
  "dotless v \<longleftrightarrow> (\<forall>p \<in> recorded v. \<forall>k \<in> set p. CHR ''.'' \<notin> set k)"

lemma join_dotless_inject:
  assumes "\<forall>k \<in> set p. CHR ''.'' \<notin> set k" "\<forall>k \<in> set q. CHR ''.'' \<notin> set k" "p \<noteq> []" "q \<noteq> []" "join ''.'' p = join ''.'' q"
  shows "p = q"
  using assms split_on_join by metis

lemma origins_find:
  assumes "deciding_layer (rev ls) q = Some layer" "s \<in> marks [] (canonical_config layer)"
    and "\<And>l. l \<in> set ls \<Longrightarrow> \<not> covers (canonical_config l) q \<Longrightarrow> s \<notin> marks [] (canonical_config l)"
  shows "fold (\<lambda>l. record_origins (canonical_config l) (layer_metadata l) []) ls om s = Some (layer_metadata layer)"
  using assms
proof (induction ls rule: rev_induct)
  case (snoc l ls)
  show ?case
  proof (cases "covers (canonical_config l) q")
    case True
    with snoc.prems have "l = layer" by (simp add: deciding_layer_def)
    with snoc.prems(2) show ?thesis by (simp add: record_origins_marks)
  next
    case False
    with snoc show ?thesis by (simp add: deciding_layer_def record_origins_marks)
  qed
qed (simp add: deciding_layer_def)

text \<open>
  The origins tell where a setting comes from: for every setting of the merged
  configuration that is no array, the entry under its dotted path names the layer that decides
  it, provided that no key contains a dot.
\<close>

lemma origins_name_decider:
  assumes "wf_stack stack" "list_all (\<lambda>l. dotless (canonical_config l)) (layers stack)"
    and "setting_at (effective_config stack) q = Some v" "q \<noteq> []" "\<nexists>items. v = TArray items"
  shows "\<exists>layer. deciding_layer (layers_high_to_low stack) q = Some layer \<and> setting_at (canonical_config layer) q = Some v \<and>
    stack_origins stack (join ''.'' q) = Some (layer_metadata layer)"
proof -
  let ?ls = "get_layers LowestPrecedenceFirst False stack"
  have ls: "set ?ls \<subseteq> set (layers stack)" by (auto simp: get_layers_def)
  obtain layer where layer: "deciding_layer (rev ?ls) q = Some layer" "setting_at (canonical_config layer) q = Some v"
    using merge_layers(2) [OF wf_stack_layers [OF assms(1), of LowestPrecedenceFirst False], of q] assms(3)
    by (auto simp: effective_config_def merged_layers_def bind_eq_Some_conv)
  then have q: "q \<in> recorded (canonical_config layer)" using setting_recorded assms(5) by blast
  have "layer \<in> set (rev ?ls)"
    using layer(1) unfolding deciding_layer_def find_Some_iff by (metis nth_mem)
  then have "layer \<in> set ?ls" by simp
  then have dots: "\<forall>k \<in> set q. CHR ''.'' \<notin> set k" using q assms(2) ls by (auto simp: list_all_iff dotless_def)
  have "join ''.'' q \<notin> marks [] (canonical_config l)" if l: "l \<in> set ?ls" "\<not> covers (canonical_config l) q" for l
  proof
    assume "join ''.'' q \<in> marks [] (canonical_config l)"
    then obtain p where p: "p \<in> recorded (canonical_config l)" "p \<noteq> []" "join ''.'' q = join ''.'' p" by (auto simp: marks_def)
    have "\<forall>k \<in> set p. CHR ''.'' \<notin> set k" using p(1) l(1) assms(2) ls by (auto simp: list_all_iff dotless_def)
    with join_dotless_inject [OF dots _ assms(4) p(2,3)] have "q = p" by blast
    moreover have "wf_toml (canonical_config l)"
      using l(1) ls assms(1) by (auto simp: wf_stack_def list_all_iff canonical_config_def wf_normalized)
    ultimately show False using recorded_covers p(1) l(2) by blast
  qed
  moreover have "join ''.'' q \<in> marks [] (canonical_config layer)" using q assms(4) by (auto simp: marks_def)
  ultimately have "fold (\<lambda>l. record_origins (canonical_config l) (layer_metadata l) []) ?ls (\<lambda>_. None) (join ''.'' q) =
      Some (layer_metadata layer)" using origins_find [OF layer(1)] by blast
  with layer show ?thesis by (auto simp: stack_origins_def canonical_config_def [abs_def] layers_high_to_low_rev)
qed

lemma origins_name_decider_witness:
  "stack_origins sample_stack ''model'' = Some \<lparr>meta_name = SessionFlags, meta_version = ''v2''\<rparr>"
proof -
  have wf: "wf_stack sample_stack" by (simp add: wf_stack_def sample_stack_def new_entry_def)
  have "list_all (\<lambda>l. dotless (canonical_config l)) (layers sample_stack)"
    by (auto simp: sample_stack_def new_entry_def dotless_def canonical_config_def normalize_key_aliases_def
        CONFIG_KEY_ALIASES_def apply_alias_def tbl_remove_def)
  moreover have "setting_at (effective_config sample_stack) [''model''] = Some (TString ''b'')"
    and decides: "map_option layer_metadata (deciding_layer (layers_high_to_low sample_stack) [''model'']) =
      Some \<lparr>meta_name = SessionFlags, meta_version = ''v2''\<rparr>" by code_simp+
  ultimately show ?thesis using origins_name_decider [OF wf, of "[''model'']" "TString ''b''"] decides by auto
qed

text \<open>
  Origins of arrays go stale: when a higher layer replaces an array by a shorter one, the origins keep entries
  for items that the merged configuration does not have.
\<close>

lemma stale_array_origin:
  "let stack = \<lparr>layers = [new_entry (\<lambda>_. ''v1'') (User ''/c'') (TTable [(''a'', TArray [TInteger 1, TInteger 2])]),
                 new_entry (\<lambda>_. ''v2'') SessionFlags (TTable [(''a'', TArray [TInteger 3])])],
               user_layer_index = Some 0, requirements = (), requirements_toml = (), ignore_user_and_project_exec_policy_rules = False\<rparr>
   in setting_at (effective_config stack) [''a''] = Some (TArray [TInteger 3]) \<and>
      stack_origins stack ''a.1'' = Some \<lparr>meta_name = User ''/c'', meta_version = ''v1''\<rparr>"
  by code_simp

end
