(* ===== verification/Policy_Load.thy ===== *)
theory Policy_Load
  imports Exec_Approval Config_Layers
begin

text \<open>
  Loading the execution policy (\<open>core/src/exec_policy.rs\<close>: \<open>load_exec_policy\<close>, \<open>collect_policy_files\<close>;
  \<open>config/src/requirements_exec_policy.rs\<close>): the \<open>*.rules\<close> files of the enabled configuration layers
  are parsed in order into one policy, and the rules of the managed requirements are laid over it.
  Directories, files and the Starlark evaluator are arguments: the evaluator turns a file into the
  calls it makes, and the error that ended it, if any.
\<close>

section \<open>Requirement rules\<close>

datatype decision_toml = AllowToml | PromptToml | ForbiddenToml

fun as_decision :: "decision_toml \<Rightarrow> decision" where
  "as_decision AllowToml = Allow"
| "as_decision PromptToml = Prompt"
| "as_decision ForbiddenToml = Forbidden"

record pattern_token_toml =
  toml_token :: "string option"
  toml_any_of :: "string list option"

record prefix_rule_toml =
  toml_pattern :: "pattern_token_toml list"
  toml_decision :: "decision_toml option"
  toml_justification :: "string option"

datatype requirements_parse_error =
    EmptyPrefixRules
  | EmptyPattern nat
  | InvalidPatternToken nat nat string
  | EmptyJustification nat
  | MissingDecision nat
  | AllowDecisionNotAllowed nat

definition parse_pattern_token_toml :: "nat \<Rightarrow> nat \<Rightarrow> pattern_token_toml \<Rightarrow> (requirements_parse_error, pattern_token) result" where
  "parse_pattern_token_toml rule_index token_index token =
     (case (toml_token token, toml_any_of token) of
        (Some single, None) \<Rightarrow>
          if trim single = [] then Err (InvalidPatternToken rule_index token_index ''token cannot be empty'')
          else Ok (Single single)
      | (None, Some alts) \<Rightarrow>
          if alts = [] then Err (InvalidPatternToken rule_index token_index ''any_of cannot be empty'')
          else if list_ex (\<lambda>alt. trim alt = []) alts
          then Err (InvalidPatternToken rule_index token_index ''any_of cannot include empty tokens'')
          else Ok (Alts alts)
      | (Some _, Some _) \<Rightarrow> Err (InvalidPatternToken rule_index token_index ''set either token or any_of, not both'')
      | (None, None) \<Rightarrow> Err (InvalidPatternToken rule_index token_index ''set either token or any_of''))"

fun parse_tokens_toml :: "nat \<Rightarrow> nat \<Rightarrow> pattern_token_toml list \<Rightarrow> (requirements_parse_error, pattern_token list) result" where
  "parse_tokens_toml rule_index token_index [] = Ok []"
| "parse_tokens_toml rule_index token_index (t # ts) =
     (case parse_pattern_token_toml rule_index token_index t of
        Err e \<Rightarrow> Err e
      | Ok token \<Rightarrow>
          (case parse_tokens_toml rule_index (token_index + 1) ts of
             Err e \<Rightarrow> Err e
           | Ok tokens \<Rightarrow> Ok (token # tokens)))"

definition add_requirement_rule :: "nat \<Rightarrow> prefix_rule_toml \<Rightarrow> multimap \<Rightarrow> (requirements_parse_error, multimap) result" where
  "add_requirement_rule rule_index rule rules =
     (if (case toml_justification rule of Some j \<Rightarrow> trim j = [] | None \<Rightarrow> False) then Err (EmptyJustification rule_index)
      else if toml_pattern rule = [] then Err (EmptyPattern rule_index)
      else
        (case parse_tokens_toml rule_index 0 (toml_pattern rule) of
           Err e \<Rightarrow> Err e
         | Ok pattern_tokens \<Rightarrow>
             (case toml_decision rule of
                Some AllowToml \<Rightarrow> Err (AllowDecisionNotAllowed rule_index)
              | None \<Rightarrow> Err (MissingDecision rule_index)
              | Some d \<Rightarrow>
                  (case pattern_tokens of
                     [] \<Rightarrow> Err (EmptyPattern rule_index)
                   | first_token # rest \<Rightarrow>
                       Ok (fold (\<lambda>head. mm_insert head
                             \<lparr>rule_pattern = \<lparr>pat_first = head, pat_rest = rest\<rparr>, rule_decision = as_decision d,
                              rule_justification = toml_justification rule\<rparr>)
                           (alternatives first_token) rules)))))"

fun requirement_rules_loop :: "nat \<Rightarrow> prefix_rule_toml list \<Rightarrow> multimap \<Rightarrow> (requirements_parse_error, multimap) result" where
  "requirement_rules_loop rule_index [] rules = Ok rules"
| "requirement_rules_loop rule_index (rule # more_rules) rules =
     (case add_requirement_rule rule_index rule rules of
        Err e \<Rightarrow> Err e
      | Ok rules \<Rightarrow> requirement_rules_loop (rule_index + 1) more_rules rules)"

definition to_policy :: "prefix_rule_toml list \<Rightarrow> (requirements_parse_error, policy) result" where
  "to_policy prefix_rules =
     (if prefix_rules = [] then Err EmptyPrefixRules
      else (case requirement_rules_loop 0 prefix_rules [] of
        Err e \<Rightarrow> Err e
      | Ok rules \<Rightarrow> Ok (empty_policy\<lparr>rules_by_program := rules\<rparr>)))"

section \<open>Loading\<close>

datatype rules_error = StarlarkError string | RulesError policy_error

datatype exec_policy_error =
    ReadDir string io_error
  | ReadFile string io_error
  | ParsePolicy string rules_error

type_synonym starlark_evaluator = "string \<Rightarrow> string \<Rightarrow> builtin_call list \<times> string option"

text \<open>A directory is read entry by entry, each with its path and whether it is a plain file.\<close>

type_synonym dir_reader = "string \<Rightarrow> (io_error, (io_error, string \<times> (io_error, bool) result) result list) result"

record load_host =
  read_directory :: dir_reader
  read_rules :: "string \<Rightarrow> (io_error, string) result"
  evaluate :: starlark_evaluator
  rules_lexer :: shell_lexer
  rules_env :: environment

definition path_extension :: "string \<Rightarrow> string option" where
  "path_extension p = Option.bind (file_name p) (\<lambda>n.
     let parts = split_on (CHR ''.'') n in
     if length parts \<le> 1 \<or> join ''.'' (butlast parts) = [] then None else Some (last parts))"

definition RULE_EXTENSION :: string where "RULE_EXTENSION = ''rules''"

fun collect_entries :: "string \<Rightarrow> (io_error, string \<times> (io_error, bool) result) result list \<Rightarrow> (exec_policy_error, string list) result" where
  "collect_entries dir [] = Ok []"
| "collect_entries dir (Err e # entries) = Err (ReadDir dir e)"
| "collect_entries dir (Ok (path, file_type) # entries) =
     (case file_type of
        Err e \<Rightarrow> Err (ReadDir dir e)
      | Ok is_file \<Rightarrow>
          (case collect_entries dir entries of
             Err e \<Rightarrow> Err e
           | Ok paths \<Rightarrow> Ok (if path_extension path = Some RULE_EXTENSION \<and> is_file then path # paths else paths)))"

text \<open>The paths of one directory are sorted by their last component, which is the order of the paths.\<close>

definition collect_policy_files :: "dir_reader \<Rightarrow> string \<Rightarrow> (exec_policy_error, string list) result" where
  "collect_policy_files rd dir =
     (case rd dir of
        Err e \<Rightarrow> if err_kind e = NotFound then Ok [] else Err (ReadDir dir e)
      | Ok entries \<Rightarrow> (case collect_entries dir entries of Err e \<Rightarrow> Err e | Ok paths \<Rightarrow> Ok (sort paths)))"

fun collect_layers :: "dir_reader \<Rightarrow> string option \<Rightarrow> bool \<Rightarrow> config_layer_entry list \<Rightarrow> (exec_policy_error, string list) result" where
  "collect_layers rd home ignore_rules [] = Ok []"
| "collect_layers rd home ignore_rules (layer # ls) =
     (if ignore_rules \<and> (case layer_name layer of User _ \<Rightarrow> True | Project _ \<Rightarrow> True | _ \<Rightarrow> False)
      then collect_layers rd home ignore_rules ls
      else
        (case config_folder layer of
           None \<Rightarrow> collect_layers rd home ignore_rules ls
         | Some folder \<Rightarrow>
             (case collect_policy_files rd (abs_join home folder RULES_DIR_NAME) of
                Err e \<Rightarrow> Err e
              | Ok paths \<Rightarrow>
                  (case collect_layers rd home ignore_rules ls of Err e \<Rightarrow> Err e | Ok more_paths \<Rightarrow> Ok (paths @ more_paths)))))"

text \<open>\<open>PolicyParser::parse\<close> with the evaluator's own errors.\<close>

definition parse_rules_file :: "load_host \<Rightarrow> string \<Rightarrow> string \<Rightarrow> policy_builder \<Rightarrow> policy_builder \<times> (rules_error, unit) result" where
  "parse_rules_file host identifier contents b =
     (case evaluate host identifier contents of
        (calls, None) \<Rightarrow>
          (case parse_policy (rules_lexer host) (rules_env host) calls b of
             (b', Err e) \<Rightarrow> (b', Err (RulesError e))
           | (b', Ok _) \<Rightarrow> (b', Ok ()))
      | (calls, Some failure) \<Rightarrow>
          (case run_calls (rules_lexer host) (rules_env host) calls b of
             (b', Err e) \<Rightarrow> (b', Err (RulesError e))
           | (b', Ok _) \<Rightarrow> (b', Err (StarlarkError failure))))"

fun parse_files :: "load_host \<Rightarrow> string list \<Rightarrow> policy_builder \<Rightarrow> (exec_policy_error, policy_builder) result" where
  "parse_files host [] b = Ok b"
| "parse_files host (path # paths) b =
     (case read_rules host path of
        Err e \<Rightarrow> Err (ReadFile path e)
      | Ok contents \<Rightarrow>
          (case parse_rules_file host path contents b of
             (b', Err e) \<Rightarrow> Err (ParsePolicy path e)
           | (b', Ok _) \<Rightarrow> parse_files host paths b'))"

definition load_exec_policy :: "load_host \<Rightarrow> ('r \<Rightarrow> policy option) \<Rightarrow> ('r, 't) config_layer_stack \<Rightarrow> (exec_policy_error, policy) result" where
  "load_exec_policy host exec_policy config_stack =
     (case collect_layers (read_directory host) (env_home (rules_env host))
          (ignore_user_and_project_exec_policy_rules config_stack) (get_layers LowestPrecedenceFirst False config_stack) of
        Err e \<Rightarrow> Err e
      | Ok policy_paths \<Rightarrow>
          (case parse_files host policy_paths new_builder of
             Err e \<Rightarrow> Err e
           | Ok b \<Rightarrow>
               (case exec_policy (requirements config_stack) of
                  None \<Rightarrow> Ok (build b)
                | Some requirements_policy \<Rightarrow> Ok (merge_overlay (build b) requirements_policy))))"

definition load_exec_policy_with_warning :: "load_host \<Rightarrow> ('r \<Rightarrow> policy option) \<Rightarrow> ('r, 't) config_layer_stack \<Rightarrow>
    (exec_policy_error, policy \<times> exec_policy_error option) result" where
  "load_exec_policy_with_warning host exec_policy config_stack =
     (case load_exec_policy host exec_policy config_stack of
        Ok p \<Rightarrow> Ok (p, None)
      | Err (ParsePolicy path e) \<Rightarrow> Ok (empty_policy, Some (ParsePolicy path e))
      | Err e \<Rightarrow> Err e)"

definition load_manager :: "load_host \<Rightarrow> ('r \<Rightarrow> policy option) \<Rightarrow> 'fs \<Rightarrow> ('r, 't) config_layer_stack \<Rightarrow>
    (exec_policy_error, 'fs exec_policy_manager) result" where
  "load_manager host exec_policy fs config_stack =
     (case load_exec_policy_with_warning host exec_policy config_stack of
        Err e \<Rightarrow> Err e
      | Ok (p, warning) \<Rightarrow> Ok \<lparr>current_policy = p, policy_files = fs\<rparr>)"

definition check_execpolicy_for_warnings :: "load_host \<Rightarrow> ('r \<Rightarrow> policy option) \<Rightarrow> ('r, 't) config_layer_stack \<Rightarrow>
    (exec_policy_error, exec_policy_error option) result" where
  "check_execpolicy_for_warnings host exec_policy config_stack =
     (case load_exec_policy_with_warning host exec_policy config_stack of Err e \<Rightarrow> Err e | Ok (_, warning) \<Rightarrow> Ok warning)"

section \<open>Managed rules bind\<close>












text \<open>Requirements that forbid \<open>rm\<close>, and a rules file that allows it.\<close>

definition sample_requirements :: "prefix_rule_toml list" where
  "sample_requirements = [\<lparr>toml_pattern = [\<lparr>toml_token = Some ''rm'', toml_any_of = None\<rparr>],
     toml_decision = Some ForbiddenToml, toml_justification = None\<rparr>]"

definition sample_load_host :: "builtin_call list \<Rightarrow> load_host" where
  "sample_load_host calls =
     \<lparr>read_directory = (\<lambda>d. if d = ''/h/.codex/rules'' then Ok [Ok (''/h/.codex/rules/a.rules'', Ok True)]
        else Err \<lparr>err_kind = NotFound, err_message = []\<rparr>),
      read_rules = (\<lambda>_. Ok ''''), evaluate = (\<lambda>_ _. (calls, None)), rules_lexer = plain_lexer, rules_env = sample_env\<rparr>"

definition managed_stack :: "(policy option, unit) config_layer_stack" where
  "managed_stack = \<lparr>layers = [new_entry (\<lambda>_. ''v'') (User ''/h/.codex/config.toml'') (TTable [])], user_layer_index = Some 0,
     requirements = (case to_policy sample_requirements of Ok rp \<Rightarrow> Some rp | Err _ \<Rightarrow> None), requirements_toml = (),
     ignore_user_and_project_exec_policy_rules = False\<rparr>"



text \<open>
  A rules file that cannot be parsed switches the managed requirements off: the manager then starts with the
  empty policy, without the overlay, and reports a warning.
\<close>

lemma broken_file_drops_requirements:
  "\<exists>mgr. load_manager (sample_load_host [PrefixRuleCall [] None None None None None]) id () managed_stack = Ok mgr \<and>
     requirements managed_stack \<noteq> None \<and> current_policy mgr = empty_policy"
proof -
  let ?host = "sample_load_host [PrefixRuleCall [] None None None None None]"
  have "case load_exec_policy ?host id managed_stack of Err (ParsePolicy path e) \<Rightarrow> True | _ \<Rightarrow> False"
    "\<not> Option.is_none (requirements managed_stack)" by code_simp+
  then show ?thesis
    by (auto simp: load_manager_def load_exec_policy_with_warning_def Option.is_none_def split: sum.splits exec_policy_error.splits)
qed

end
