(* ===== verification/Hidden_Tags.thy ===== *)
theory Hidden_Tags
  imports Rust_Prelude
begin

text \<open>
  \<open>codex-rs/utils/stream-parser/src\<close>: \<open>stream_text.rs\<close>, \<open>inline_hidden_tag.rs\<close> and \<open>citation.rs\<close>. Text arrives
  in chunks; a parser shows what is safe to show and keeps back what may still become a tag.

  The trait \<open>StreamTextParser\<close> is the locale \<open>stream_parser\<close>: a state, \<open>push_str\<close> and the law that makes the
  chunking irrelevant. \<open>InlineHiddenTagParser::new\<close> rejects empty delimiters; on such a parser,
  which therefore does not exist, the loop of the model stops where that of the code would not.
\<close>

section \<open>Chunks of output\<close>

record 'e stream_text_chunk =
  visible_text :: string
  extracted :: "'e list"

definition no_output :: "'e stream_text_chunk" where
  "no_output = \<lparr>visible_text = [], extracted = []\<rparr>"

definition chunk_is_empty :: "'e stream_text_chunk \<Rightarrow> bool" where
  "chunk_is_empty c \<longleftrightarrow> visible_text c = [] \<and> extracted c = []"

text \<open>What a caller collects from one chunk and the next.\<close>

definition append_chunk :: "'e stream_text_chunk \<Rightarrow> 'e stream_text_chunk \<Rightarrow> 'e stream_text_chunk" where
  "append_chunk a b = \<lparr>visible_text = visible_text a @ visible_text b, extracted = extracted a @ extracted b\<rparr>"

lemma append_chunk_monoid [simp]:
  "append_chunk no_output c = c"
  "append_chunk c no_output = c"
  "append_chunk (append_chunk a b) c = append_chunk a (append_chunk b c)"
  by (simp_all add: append_chunk_def no_output_def)

lemma no_output_sel [simp]: "visible_text no_output = []" "extracted no_output = []"
  by (simp_all add: no_output_def)

section \<open>The parser\<close>

record 't inline_tag_spec =
  spec_tag :: 't
  spec_open :: string
  spec_close :: string

record 't active_tag =
  act_tag :: 't
  act_close :: string
  act_content :: string

record 't hidden_parser =
  specs :: "'t inline_tag_spec list"
  pending :: string
  active :: "'t active_tag option"

text \<open>\<open>None\<close>: one of the assertions fails.\<close>

definition new_hidden_parser :: "'t inline_tag_spec list \<Rightarrow> 't hidden_parser option" where
  "new_hidden_parser ss =
     (if ss = [] \<or> list_ex (\<lambda>s. spec_open s = [] \<or> spec_close s = []) ss then None
      else Some \<lparr>specs = ss, pending = [], active = None\<rparr>)"

text \<open>\<open>for k in (1..=max).rev()\<close>.\<close>

fun suffix_prefix_loop :: "string \<Rightarrow> string \<Rightarrow> nat \<Rightarrow> nat" where
  "suffix_prefix_loop s needle 0 = 0"
| "suffix_prefix_loop s needle (Suc k) =
     (if is_char_boundary needle (Suc k) \<and> suffix (take (Suc k) needle) s then Suc k
      else suffix_prefix_loop s needle k)"

definition longest_suffix_prefix_len :: "string \<Rightarrow> string \<Rightarrow> nat" where
  "longest_suffix_prefix_len s needle = suffix_prefix_loop s needle (min (length s) (length needle - 1))"

text \<open>The candidates \<open>(pos, len, idx)\<close> and the one that comes first; of two at one place the longer one.\<close>

definition open_before :: "nat \<times> nat \<times> nat \<Rightarrow> nat \<times> nat \<times> nat \<Rightarrow> bool" where
  "open_before a b = (case (a, b) of ((pa, la, ia), (pb, lb, ib)) \<Rightarrow>
     pa < pb \<or> pa = pb \<and> (lb < la \<or> lb = la \<and> ia < ib))"

definition open_candidates :: "'t inline_tag_spec list \<Rightarrow> string \<Rightarrow> (nat \<times> nat \<times> nat) list" where
  "open_candidates ss p =
     List.map_filter (\<lambda>idx. map_option (\<lambda>pos. (pos, length (spec_open (ss ! idx)), idx)) (str_find p (spec_open (ss ! idx))))
       [0..<length ss]"

definition find_next_open :: "'t inline_tag_spec list \<Rightarrow> string \<Rightarrow> (nat \<times> nat) option" where
  "find_next_open ss p =
     (case open_candidates ss p of
        [] \<Rightarrow> None
      | c # cs \<Rightarrow> (case fold (\<lambda>x best. if open_before x best then x else best) cs c of (pos, _, idx) \<Rightarrow> Some (pos, idx)))"

definition max_open_prefix_suffix_len :: "'t inline_tag_spec list \<Rightarrow> string \<Rightarrow> nat" where
  "max_open_prefix_suffix_len ss p = fold max (map (\<lambda>s. longest_suffix_prefix_len p (spec_open s)) ss) 0"

lemma fold_select: "fold (\<lambda>x best. if P x best then x else best) cs c \<in> set (c # cs)"
  by (induction cs arbitrary: c) auto

lemma find_next_open_Some:
  assumes "find_next_open ss p = Some (pos, idx)"
  shows "idx < length ss \<and> str_find p (spec_open (ss ! idx)) = Some pos"
proof -
  have cands: "i < length ss \<and> str_find p (spec_open (ss ! i)) = Some q" if "(q, l, i) \<in> set (open_candidates ss p)" for q l i
    using that by (auto simp: open_candidates_def List.map_filter_def)
  obtain c cs where c: "open_candidates ss p = c # cs" using assms by (auto simp: find_next_open_def split: list.splits)
  with assms obtain l where "fold (\<lambda>x best. if open_before x best then x else best) cs c = (pos, l, idx)"
    by (auto simp: find_next_open_def split: prod.splits)
  with fold_select [of open_before cs c] c have "(pos, l, idx) \<in> set (open_candidates ss p)" by simp
  with cands show ?thesis by blast
qed

lemma str_find_drop_less: "str_find p needle = Some i \<Longrightarrow> needle \<noteq> [] \<Longrightarrow> length p - (i + length needle) < length p"
  by (cases p) (auto simp: str_find_Some)

text \<open>
  The loop of \<open>push_str\<close>. The constructor refuses empty delimiters, so the two branches for them are never taken
  (\<open>new_hidden_parser\<close>); they make the loop end on every argument.
\<close>

function push_loop :: "'t inline_tag_spec list \<Rightarrow> string \<Rightarrow> 't active_tag option \<Rightarrow> ('t \<times> string) stream_text_chunk \<Rightarrow>
    (string \<times> 't active_tag option) \<times> ('t \<times> string) stream_text_chunk" where
  "push_loop ss p (Some a) out =
     (case str_find p (act_close a) of
        Some close_idx \<Rightarrow>
          if act_close a = [] then ((p, Some a), out)
          else push_loop ss (drop (close_idx + length (act_close a)) p) None
                 (out\<lparr>extracted := extracted out @ [(act_tag a, act_content a @ take close_idx p)]\<rparr>)
      | None \<Rightarrow>
          (let keep = longest_suffix_prefix_len p (act_close a); n = length p - keep in
           ((drop n p, Some (a\<lparr>act_content := act_content a @ take n p\<rparr>)), out)))"
| "push_loop ss p None out =
     (case find_next_open ss p of
        Some (open_idx, spec_idx) \<Rightarrow>
          (let spec = ss ! spec_idx in
           if spec_open spec = [] then ((p, None), out)
           else push_loop ss (drop (open_idx + length (spec_open spec)) p)
                  (Some \<lparr>act_tag = spec_tag spec, act_close = spec_close spec, act_content = []\<rparr>)
                  (out\<lparr>visible_text := visible_text out @ take open_idx p\<rparr>))
      | None \<Rightarrow>
          (let keep = max_open_prefix_suffix_len ss p; n = length p - keep in
           ((drop n p, None), out\<lparr>visible_text := visible_text out @ take n p\<rparr>)))"
  by pat_completeness auto

termination
proof (relation "measure (\<lambda>(ss, p, a, out). length p)", goal_cases)
  case (2 ss p a out i)
  then show ?case using str_find_drop_less [of p "act_close a" i] by simp
next
  case (3 ss p out x i j spec)
  then have "str_find p (spec_open (ss ! j)) = Some i" using find_next_open_Some by blast
  with 3 str_find_drop_less [of p "spec_open (ss ! j)" i] show ?case by simp
qed simp

definition push_str :: "'t hidden_parser \<Rightarrow> string \<Rightarrow> 't hidden_parser \<times> ('t \<times> string) stream_text_chunk" where
  "push_str st chunk =
     (case push_loop (specs st) (pending st @ chunk) (active st) no_output of
        ((p, a), out) \<Rightarrow> (st\<lparr>pending := p, active := a\<rparr>, out))"

definition finish :: "'t hidden_parser \<Rightarrow> 't hidden_parser \<times> ('t \<times> string) stream_text_chunk" where
  "finish st =
     (case active st of
        Some a \<Rightarrow> (st\<lparr>pending := [], active := None\<rparr>,
                   no_output\<lparr>extracted := [(act_tag a, act_content a @ pending st)]\<rparr>)
      | None \<Rightarrow> (st\<lparr>pending := []\<rparr>, no_output\<lparr>visible_text := pending st\<rparr>))"

section \<open>Citations\<close>

datatype citation_tag = Citation

definition CITATION_OPEN :: string where "CITATION_OPEN = ''<oai-mem-citation>''"
definition CITATION_CLOSE :: string where "CITATION_CLOSE = ''</oai-mem-citation>''"

definition citation_specs :: "citation_tag inline_tag_spec list" where
  "citation_specs = [\<lparr>spec_tag = Citation, spec_open = CITATION_OPEN, spec_close = CITATION_CLOSE\<rparr>]"

definition new_citation_parser :: "citation_tag hidden_parser" where
  "new_citation_parser = \<lparr>specs = citation_specs, pending = [], active = None\<rparr>"

definition contents_only :: "('t \<times> string) stream_text_chunk \<Rightarrow> string stream_text_chunk" where
  "contents_only c = \<lparr>visible_text = visible_text c, extracted = map snd (extracted c)\<rparr>"

definition citation_push_str :: "citation_tag hidden_parser \<Rightarrow> string \<Rightarrow> citation_tag hidden_parser \<times> string stream_text_chunk" where
  "citation_push_str st chunk = (case push_str st chunk of (st', out) \<Rightarrow> (st', contents_only out))"

definition citation_finish :: "citation_tag hidden_parser \<Rightarrow> citation_tag hidden_parser \<times> string stream_text_chunk" where
  "citation_finish st = (case finish st of (st', out) \<Rightarrow> (st', contents_only out))"

definition strip_citations :: "string \<Rightarrow> string \<times> string list" where
  "strip_citations text =
     (case citation_push_str new_citation_parser text of
        (st, out) \<Rightarrow> (case citation_finish st of
           (_, tail) \<Rightarrow> (visible_text out @ visible_text tail, extracted out @ extracted tail)))"

section \<open>What is held back\<close>

definition ascii :: "string \<Rightarrow> bool" where
  "ascii s \<longleftrightarrow> list_all (\<lambda>c. (of_char c :: nat) < 128) s"

lemma ascii_boundary: "ascii s \<Longrightarrow> k \<le> length s \<Longrightarrow> is_char_boundary s k"
proof -
  assume s: "ascii s" and k: "k \<le> length s"
  have "\<not> is_cont (s ! k)" if "k < length s"
  proof -
    have "(of_char (s ! k) :: nat) < 128" using s that by (simp add: ascii_def list_all_length)
    then show ?thesis by (simp add: is_cont_def)
  qed
  with k show ?thesis by (auto simp: is_char_boundary_def)
qed

text \<open>The longest proper prefix of the delimiter at the end of the text.\<close>

definition longest_held :: "string \<Rightarrow> string \<Rightarrow> nat \<Rightarrow> bool" where
  "longest_held s needle k \<longleftrightarrow> k < length needle \<and> k \<le> length s \<and> suffix (take k needle) s \<and>
     (\<forall>j. k < j \<and> j < length needle \<and> j \<le> length s \<longrightarrow> \<not> suffix (take j needle) s)"

lemma suffix_prefix_loop_spec:
  assumes "ascii needle" "m < length needle"
  shows "suffix_prefix_loop s needle m \<le> m \<and> suffix (take (suffix_prefix_loop s needle m) needle) s \<and>
    (\<forall>j. suffix_prefix_loop s needle m < j \<and> j \<le> m \<longrightarrow> \<not> suffix (take j needle) s)"
  using assms(2)
proof (induction m)
  case (Suc m)
  have boundary: "is_char_boundary needle (Suc m)" using assms(1) Suc.prems by (simp add: ascii_boundary)
  show ?case
  proof (cases "suffix (take (Suc m) needle) s")
    case False
    with Suc show ?thesis by (auto simp: le_Suc_eq)
  qed (use boundary in auto)
qed auto

lemma longest_held:
  assumes "needle \<noteq> []" "ascii needle"
  shows "longest_held s needle (longest_suffix_prefix_len s needle)"
proof -
  let ?m = "min (length s) (length needle - 1)"
  have m: "?m < length needle" using assms(1) by (cases needle) auto
  from suffix_prefix_loop_spec [OF assms(2) m, of s] m show ?thesis
    by (auto simp: longest_held_def longest_suffix_prefix_len_def)
qed

lemma longest_held_unique: "longest_held s needle k \<Longrightarrow> longest_held s needle k' \<Longrightarrow> k = k'"
  unfolding longest_held_def by (metis linorder_neqE_nat)

lemma str_find_shift:
  assumes "\<And>i. i < length e \<Longrightarrow> \<not> prefix needle (drop i (e @ q))"
  shows "str_find (e @ q) needle = map_option ((+) (length e)) (str_find q needle)"
  using assms
proof (induction e)
  case Nil
  then show ?case by (simp add: map_option.id [unfolded id_def] cong: option.map_cong)
next
  case (Cons c e)
  have "\<not> prefix needle (drop i (e @ q))" if "i < length e" for i using Cons.prems [of "Suc i"] that by simp
  then have "str_find (e @ q) needle = map_option ((+) (length e)) (str_find q needle)" by (rule Cons.IH)
  moreover have "\<not> prefix needle (c # e @ q)" using Cons.prems [of 0] by simp
  ultimately show ?case by (simp add: option.map_comp comp_def)
qed

text \<open>An occurrence that begins in the text before the held part would have been found or held.\<close>

lemma no_early_occurrence:
  assumes "str_find p needle = None" "longest_held p needle k" "i < length p - k"
  shows "\<not> prefix needle (drop i (p @ t))"
proof
  assume occ: "prefix needle (drop i (p @ t))"
  have i: "i < length p" using assms(3) by simp
  then have d: "drop i (p @ t) = drop i p @ t" by simp
  show False
  proof (cases "length needle \<le> length p - i")
    case True
    with occ d have "prefix needle (drop i p)"
      by (metis append_eq_conv_conj length_drop prefix_def prefix_length_prefix prefixI)
    with assms(1) i show False by (auto simp: str_find_None)
  next
    case False
    then obtain r where r: "needle = drop i p @ r"
      using occ d by (metis length_drop linorder_not_le nat_less_le prefix_def prefix_length_prefix prefixI)
    let ?j = "length p - i"
    have "take ?j needle = drop i p" using r i by simp
    then have "suffix (take ?j needle) p" by (simp add: suffix_drop)
    moreover have "k < ?j" "?j < length needle" "?j \<le> length p" using assms(3) i False by auto
    ultimately show False using assms(2) by (auto simp: longest_held_def)
  qed
qed

lemma suffix_append_take:
  assumes "suffix (take m needle) (p @ t)" "length t < m" "m \<le> length needle"
  shows "suffix (take (m - length t) needle) p"
proof -
  obtain u where u: "p @ t = u @ take m needle" using assms(1) by (auto simp: suffix_def)
  then have "take (length (p @ t) - length t) (p @ t) = take (length (u @ take m needle) - length t) (u @ take m needle)"
    by simp
  then have "p = u @ take (m - length t) needle" using assms(2,3) by (simp add: min_def)
  then show ?thesis by (auto simp: suffix_def)
qed

lemma longest_held_shift:
  assumes "longest_held p needle k" "longest_held (p @ t) needle k2" "n = length p - k"
  shows "longest_held (drop n p @ t) needle k2"
proof -
  have k: "k \<le> length p" "k < length needle" using assms(1) by (auto simp: longest_held_def)
  have len: "length (drop n p) = k" using assms(3) k by simp
  have split: "p @ t = take n p @ drop n p @ t" by simp
  have bound: "k2 \<le> k + length t"
  proof (rule ccontr)
    assume "\<not> k2 \<le> k + length t"
    then have j: "k < k2 - length t" "length t < k2" by simp_all
    have k2: "k2 < length needle" "k2 \<le> length p + length t" "suffix (take k2 needle) (p @ t)"
      using assms(2) by (simp_all add: longest_held_def)
    then have "suffix (take (k2 - length t) needle) p" using j(2) by (intro suffix_append_take) simp_all
    moreover have "k2 - length t < length needle" "k2 - length t \<le> length p" using k2 by simp_all
    ultimately show False using assms(1) j(1) by (simp add: longest_held_def)
  qed
  have same: "suffix (take j needle) (p @ t) \<longleftrightarrow> suffix (take j needle) (drop n p @ t)" if "j \<le> k + length t" for j
  proof
    assume "suffix (take j needle) (p @ t)"
    moreover have "suffix (drop n p @ t) (p @ t)" using split by (metis suffixI)
    moreover have "length (take j needle) \<le> length (drop n p @ t)" using that len by simp
    ultimately show "suffix (take j needle) (drop n p @ t)" by (rule suffix_length_suffix)
  next
    assume "suffix (take j needle) (drop n p @ t)"
    moreover have "suffix (drop n p @ t) (p @ t)" using split by (metis suffixI)
    ultimately show "suffix (take j needle) (p @ t)" by (rule suffix_order.trans)
  qed
  show ?thesis using assms(2) bound len same k unfolding longest_held_def by auto
qed

lemma held_back:
  assumes "needle \<noteq> []" "ascii needle" "str_find p needle = None" "n = length p - longest_suffix_prefix_len p needle"
  shows "str_find (p @ t) needle = map_option ((+) n) (str_find (drop n p @ t) needle)"
    and "longest_suffix_prefix_len (p @ t) needle = longest_suffix_prefix_len (drop n p @ t) needle"
    and "longest_suffix_prefix_len (drop n p @ t) needle \<le> length (drop n p @ t)"
proof -
  note held = longest_held [OF assms(1,2)]
  have n: "n \<le> length p" using assms(4) by simp
  show "str_find (p @ t) needle = map_option ((+) n) (str_find (drop n p @ t) needle)"
  proof -
    have "\<not> prefix needle (drop i (take n p @ drop n p @ t))" if "i < length (take n p)" for i
      using no_early_occurrence [OF assms(3) held, of i t] that assms(4) by (metis append.assoc append_take_drop_id length_take min.strict_boundedE)
    from str_find_shift [OF this] n show ?thesis by (metis append.assoc append_take_drop_id length_take min.absorb2)
  qed
  show "longest_suffix_prefix_len (p @ t) needle = longest_suffix_prefix_len (drop n p @ t) needle"
    using longest_held_unique [OF longest_held_shift [OF held held assms(4)] held] .
  show "longest_suffix_prefix_len (drop n p @ t) needle \<le> length (drop n p @ t)"
    using held [of "drop n p @ t"] by (simp add: longest_held_def)
qed

lemma str_find_append:
  assumes "str_find p needle = Some i"
  shows "str_find (p @ t) needle = Some i"
proof -
  have i: "prefix needle (drop i p)" "i \<le> length p" "\<forall>j < i. \<not> prefix needle (drop j p)"
    using assms by (auto simp: str_find_Some)
  have "i + length needle \<le> length p" using i(1,2) prefix_length_le by fastforce
  moreover have "\<not> prefix needle (drop j (p @ t))" if "j < i" for j
  proof
    assume "prefix needle (drop j (p @ t))"
    moreover have "length needle \<le> length (drop j p)" using that calculation(1) \<open>i + length needle \<le> length p\<close> by simp
    ultimately have "prefix needle (drop j p)" by (metis drop_append prefix_def prefix_length_prefix prefixI)
    with i(3) that show False by blast
  qed
  moreover have "prefix needle (drop i (p @ t))" using i(1) by simp
  ultimately show ?thesis using i(2) by (auto simp: str_find_Some)
qed

section \<open>Chunks do not matter\<close>

text \<open>
  What a user of a stream parser relies on: a text pushed in two pieces leaves the same state and the
  same collected output as the whole. \<open>inv\<close> holds of the states a parser can be in.
\<close>

fun run_chunks :: "('s \<Rightarrow> 'c list \<Rightarrow> 's \<times> 'o) \<Rightarrow> ('o \<Rightarrow> 'o \<Rightarrow> 'o) \<Rightarrow> 'o \<Rightarrow> 's \<Rightarrow> 'c list list \<Rightarrow> 's \<times> 'o" where
  "run_chunks push add none st [] = (st, none)"
| "run_chunks push add none st (c # cs) =
     (case push st c of (st', o1) \<Rightarrow> (case run_chunks push add none st' cs of (st'', o2) \<Rightarrow> (st'', add o1 o2)))"

locale stream_parser =
  fixes push :: "'s \<Rightarrow> 'c list \<Rightarrow> 's \<times> 'o" and add :: "'o \<Rightarrow> 'o \<Rightarrow> 'o" and none :: 'o and inv :: "'s \<Rightarrow> bool"
  assumes append_assoc: "add (add o1 o2) o3 = add o1 (add o2 o3)"
    and append_none: "add o1 none = o1" "add none o1 = o1"
    and push_inv: "inv st \<Longrightarrow> inv (fst (push st c))"
    and push_none: "inv st \<Longrightarrow> push st [] = (st, none)"
    and push_append: "inv st \<Longrightarrow> push st (c @ d) =
      (case push st c of (st', o1) \<Rightarrow> (case push st' d of (st'', o2) \<Rightarrow> (st'', add o1 o2)))"
begin

lemma run_chunks_whole: "inv st \<Longrightarrow> run_chunks push add none st cs = push st (concat cs)"
proof (induction cs arbitrary: st)
  case (Cons c cs)
  obtain st' o1 where c: "push st c = (st', o1)" by fastforce
  with Cons push_inv [of st c] show ?case by (simp add: push_append)
qed (simp add: push_none)

lemma chunking_irrelevant:
  "inv st \<Longrightarrow> concat cs = concat ds \<Longrightarrow> run_chunks push add none st cs = run_chunks push add none st ds"
  by (simp add: run_chunks_whole)

end

text \<open>The parser of one tag.\<close>

definition wf_spec :: "'t inline_tag_spec \<Rightarrow> bool" where
  "wf_spec s \<longleftrightarrow> spec_open s \<noteq> [] \<and> spec_close s \<noteq> [] \<and> ascii (spec_open s) \<and> ascii (spec_close s)"

lemma find_next_open_one: "find_next_open [s] p = map_option (\<lambda>i. (i, 0)) (str_find p (spec_open s))"
  by (cases "str_find p (spec_open s)") (simp_all add: find_next_open_def open_candidates_def)

lemma max_open_one: "max_open_prefix_suffix_len [s] p = longest_suffix_prefix_len p (spec_open s)"
  by (simp add: max_open_prefix_suffix_len_def)

text \<open>One turn of the loop, for one tag.\<close>

lemma push_loop_steps:
  shows close_found: "str_find p (act_close a) = Some i \<Longrightarrow> act_close a \<noteq> [] \<Longrightarrow>
      push_loop [s] p (Some a) out = push_loop [s] (drop (i + length (act_close a)) p) None
        (out\<lparr>extracted := extracted out @ [(act_tag a, act_content a @ take i p)]\<rparr>)"
    and close_held: "str_find p (act_close a) = None \<Longrightarrow> n = length p - longest_suffix_prefix_len p (act_close a) \<Longrightarrow>
      push_loop [s] p (Some a) out = ((drop n p, Some (a\<lparr>act_content := act_content a @ take n p\<rparr>)), out)"
    and open_found: "str_find p (spec_open s) = Some i \<Longrightarrow> spec_open s \<noteq> [] \<Longrightarrow>
      push_loop [s] p None out = push_loop [s] (drop (i + length (spec_open s)) p)
        (Some \<lparr>act_tag = spec_tag s, act_close = spec_close s, act_content = []\<rparr>)
        (out\<lparr>visible_text := visible_text out @ take i p\<rparr>)"
    and open_held: "str_find p (spec_open s) = None \<Longrightarrow> n = length p - longest_suffix_prefix_len p (spec_open s) \<Longrightarrow>
      push_loop [s] p None out = ((drop n p, None), out\<lparr>visible_text := visible_text out @ take n p\<rparr>)"
  by (subst push_loop.simps, simp add: find_next_open_one max_open_one Let_def)+

declare push_loop.simps [simp del]

lemma take_held: "n \<le> length p \<Longrightarrow> take (n + i) (p @ t) = take n p @ take i (drop n p @ t)"
  by (metis append.assoc append_take_drop_id length_take min.absorb2 take_add append_eq_conv_conj)

lemma drop_held: "n \<le> length p \<Longrightarrow> drop (n + i + m) (p @ t) = drop (i + m) (drop n p @ t)"
  by (simp add: ac_simps)

lemma drop_held2: "n \<le> length p \<Longrightarrow> drop (n + i) (p @ t) = drop i (drop n p @ t)"
  using drop_held [of n p i 0 t] by simp

lemma found_in_range: "str_find p needle = Some i \<Longrightarrow> i + length needle \<le> length p"
  using prefix_length_le [of needle "drop i p"] by (cases "i \<le> length p") (auto simp: str_find_Some)

text \<open>A text that is found or held is treated alike when more text follows.\<close>

lemma push_loop_append_close:
  assumes "act_close a \<noteq> []" "ascii (act_close a)" "str_find p (act_close a) = None"
  shows "push_loop [s] (p @ t) (Some a) out =
    (case push_loop [s] p (Some a) out of ((p', a'), out') \<Rightarrow> push_loop [s] (p' @ t) a' out')"
proof -
  define n where "n = length p - longest_suffix_prefix_len p (act_close a)"
  let ?a = "a\<lparr>act_content := act_content a @ take n p\<rparr>"
  note held = held_back [OF assms(1-3) n_def, of t]
  have n: "n \<le> length p" by (simp add: n_def)
  have left: "push_loop [s] p (Some a) out = ((drop n p, Some ?a), out)"
    by (rule close_held [OF assms(3) n_def])
  show ?thesis
  proof (cases "str_find (drop n p @ t) (act_close a)")
    case (Some i)
    then have found: "str_find (p @ t) (act_close a) = Some (n + i)" using held(1) by simp
    have "str_find (drop n p @ t) (act_close ?a) = Some i" using Some by simp
    from close_found [OF this, of s out] close_found [OF found assms(1), of s out] assms(1) n
    show ?thesis by (simp add: left take_held drop_held del: take_append drop_append)
  next
    case None
    then have "str_find (p @ t) (act_close a) = None" "str_find (drop n p @ t) (act_close ?a) = None"
      using held(1) by simp_all
    moreover have "length (p @ t) - longest_suffix_prefix_len (p @ t) (act_close a) =
        n + (length (drop n p @ t) - longest_suffix_prefix_len (drop n p @ t) (act_close ?a))"
      using held(2,3) n by simp
    ultimately show ?thesis
      using close_held [of "p @ t" a _ s out] close_held [of "drop n p @ t" ?a _ s out] n
      by (simp add: left take_held drop_held2 del: take_append drop_append length_append length_drop)
  qed
qed

lemma push_loop_append_open:
  assumes "spec_open s \<noteq> []" "ascii (spec_open s)" "str_find p (spec_open s) = None"
  shows "push_loop [s] (p @ t) None out =
    (case push_loop [s] p None out of ((p', a'), out') \<Rightarrow> push_loop [s] (p' @ t) a' out')"
proof -
  define n where "n = length p - longest_suffix_prefix_len p (spec_open s)"
  note held = held_back [OF assms n_def, of t]
  have n: "n \<le> length p" by (simp add: n_def)
  have left: "push_loop [s] p None out = ((drop n p, None), out\<lparr>visible_text := visible_text out @ take n p\<rparr>)"
    by (rule open_held [OF assms(3) n_def])
  show ?thesis
  proof (cases "str_find (drop n p @ t) (spec_open s)")
    case (Some i)
    then have found: "str_find (p @ t) (spec_open s) = Some (n + i)" using held(1) by simp
    from open_found [OF Some assms(1)] open_found [OF found assms(1), of out] n
    show ?thesis by (simp add: left take_held drop_held del: take_append drop_append)
  next
    case None
    then have "str_find (p @ t) (spec_open s) = None" using held(1) by simp
    moreover have "length (p @ t) - longest_suffix_prefix_len (p @ t) (spec_open s) =
        n + (length (drop n p @ t) - longest_suffix_prefix_len (drop n p @ t) (spec_open s))"
      using held(2,3) n by simp
    ultimately show ?thesis
      using open_held [of "p @ t" s _ out] open_held [OF None] n
      by (simp add: left take_held drop_held2 del: take_append drop_append length_append length_drop)
  qed
qed

lemma push_loop_append:
  assumes "wf_spec s" "\<And>b. a = Some b \<Longrightarrow> act_close b = spec_close s"
  shows "push_loop [s] (p @ t) a out =
    (case push_loop [s] p a out of ((p', a'), out') \<Rightarrow> push_loop [s] (p' @ t) a' out')"
  using assms(2)
proof (induction "length p" arbitrary: p a out rule: less_induct)
  case less
  show ?case
  proof (cases a)
    case (Some b)
    have close: "act_close b \<noteq> []" "ascii (act_close b)" using less.prems Some assms(1) by (auto simp: wf_spec_def)
    show ?thesis
    proof (cases "str_find p (act_close b)")
      case (Some i)
      have "length (drop (i + length (act_close b)) p) < length p" using str_find_drop_less [OF Some close(1)] by simp
      from less.hyps [OF this, of None] found_in_range [OF Some] close(1) \<open>a = Some b\<close>
        close_found [OF Some close(1), of s] close_found [OF str_find_append [OF Some] close(1), of s]
      show ?thesis by simp
    qed (simp add: Some push_loop_append_close [OF close])
  next
    case None
    have opens: "spec_open s \<noteq> []" "ascii (spec_open s)" using assms(1) by (auto simp: wf_spec_def)
    show ?thesis
    proof (cases "str_find p (spec_open s)")
      case (Some i)
      have "length (drop (i + length (spec_open s)) p) < length p" using str_find_drop_less [OF Some opens(1)] by simp
      from less.hyps [OF this, of "Some \<lparr>act_tag = spec_tag s, act_close = spec_close s, act_content = []\<rparr>"]
        found_in_range [OF Some] opens(1) None
        open_found [OF Some opens(1)] open_found [OF str_find_append [OF Some] opens(1)]
      show ?thesis by simp
    qed (simp add: None push_loop_append_open [OF opens])
  qed
qed

lemma push_loop_close:
  assumes "wf_spec s" "\<And>b. a = Some b \<Longrightarrow> act_close b = spec_close s" "push_loop [s] p a out = ((p', a'), out')" "a' = Some b"
  shows "act_close b = spec_close s"
  using assms(2-4)
proof (induction "length p" arbitrary: p a out rule: less_induct)
  case less
  show ?case
  proof (cases a)
    case (Some c)
    have close: "act_close c \<noteq> []" using less.prems(1) Some assms(1) by (auto simp: wf_spec_def)
    show ?thesis
    proof (cases "str_find p (act_close c)")
      case None
      from close_held [OF this refl, of s out] less.prems Some show ?thesis by auto
    next
      case (Some i)
      have "length (drop (i + length (act_close c)) p) < length p" using str_find_drop_less [OF Some close] by simp
      from less.hyps [OF this, of None] close_found [OF Some close, of s out] less.prems \<open>a = Some c\<close> show ?thesis by simp
    qed
  next
    case None
    have opens: "spec_open s \<noteq> []" using assms(1) by (auto simp: wf_spec_def)
    show ?thesis
    proof (cases "str_find p (spec_open s)")
      case None
      from open_held [OF this refl, of out] less.prems \<open>a = None\<close> show ?thesis by auto
    next
      case (Some i)
      have "length (drop (i + length (spec_open s)) p) < length p" using str_find_drop_less [OF Some opens] by simp
      from less.hyps [OF this, of "Some \<lparr>act_tag = spec_tag s, act_close = spec_close s, act_content = []\<rparr>"]
        open_found [OF Some opens, of out] less.prems None show ?thesis by simp
    qed
  qed
qed

text \<open>The output so far is only ever added to.\<close>

lemma push_loop_out:
  assumes "wf_spec s" "\<And>b. a = Some b \<Longrightarrow> act_close b = spec_close s"
  shows "push_loop [s] p a (append_chunk o1 o2) =
    (case push_loop [s] p a o2 of (st, o3) \<Rightarrow> (st, append_chunk o1 o3))"
  using assms(2)
proof (induction "length p" arbitrary: p a o2 rule: less_induct)
  case less
  have grow: "(append_chunk o1 o2)\<lparr>extracted := extracted (append_chunk o1 o2) @ es\<rparr> =
      append_chunk o1 (o2\<lparr>extracted := extracted o2 @ es\<rparr>)"
    "(append_chunk o1 o2)\<lparr>visible_text := visible_text (append_chunk o1 o2) @ v\<rparr> =
      append_chunk o1 (o2\<lparr>visible_text := visible_text o2 @ v\<rparr>)" for es v
    by (simp_all add: append_chunk_def)
  show ?case
  proof (cases a)
    case (Some c)
    have close: "act_close c \<noteq> []" using less.prems(1) Some assms(1) by (auto simp: wf_spec_def)
    show ?thesis
    proof (cases "str_find p (act_close c)")
      case None
      then show ?thesis using Some by (simp add: close_held [OF None refl])
    next
      case (Some i)
      have "length (drop (i + length (act_close c)) p) < length p" using str_find_drop_less [OF Some close] by simp
      from less.hyps [OF this, of None] \<open>a = Some c\<close> show ?thesis
        by (simp add: close_found [OF Some close] grow)
    qed
  next
    case None
    have opens: "spec_open s \<noteq> []" using assms(1) by (auto simp: wf_spec_def)
    show ?thesis
    proof (cases "str_find p (spec_open s)")
      case None
      then show ?thesis using \<open>a = None\<close> by (simp add: open_held [OF None refl] grow)
    next
      case (Some i)
      have "length (drop (i + length (spec_open s)) p) < length p" using str_find_drop_less [OF Some opens] by simp
      from less.hyps [OF this, of "Some \<lparr>act_tag = spec_tag s, act_close = spec_close s, act_content = []\<rparr>"] None
      show ?thesis by (simp add: open_found [OF Some opens] grow)
    qed
  qed
qed

text \<open>The states of a parser of one tag: everything that could be decided has been.\<close>

definition hidden_inv :: "'t inline_tag_spec \<Rightarrow> 't hidden_parser \<Rightarrow> bool" where
  "hidden_inv s st \<longleftrightarrow> wf_spec s \<and> specs st = [s] \<and>
     (case active st of Some b \<Rightarrow> act_close b = spec_close s | None \<Rightarrow> True) \<and>
     push_loop [s] (pending st) (active st) no_output = ((pending st, active st), no_output)"

lemma push_loop_settled:
  assumes "wf_spec s" "\<And>b. a = Some b \<Longrightarrow> act_close b = spec_close s" "push_loop [s] p a out = ((p', a'), out')"
  shows "push_loop [s] p' a' no_output = ((p', a'), no_output)"
proof -
  have again: "push_loop [s] p' a' out' = ((p', a'), out')"
    using push_loop_append [OF assms(1), of a p "[]" out] assms(2,3) by simp
  obtain st o3 where run: "push_loop [s] p' a' no_output = (st, o3)" by fastforce
  with push_loop_out [OF assms(1), of a' p' out' no_output] push_loop_close [OF assms(1,2,3)] again
  have "st = (p', a')" "append_chunk out' o3 = out'" by auto
  then show ?thesis using run by (cases o3; cases out') (auto simp: append_chunk_def no_output_def)
qed

lemma hidden_inv_step:
  assumes "hidden_inv s st"
  shows "hidden_inv s (fst (push_str st c))"
proof -
  obtain p a out where run: "push_loop [s] (pending st @ c) (active st) no_output = ((p, a), out)"
    by (metis surj_pair)
  have st: "wf_spec s" "specs st = [s]" "\<And>b. active st = Some b \<Longrightarrow> act_close b = spec_close s"
    using assms by (auto simp: hidden_inv_def split: option.splits)
  from push_loop_settled [OF st(1,3) run] push_loop_close [OF st(1,3) run] run st(1,2) show ?thesis
    by (simp add: hidden_inv_def push_str_def split: option.splits)
qed

lemma hidden_push_append:
  assumes "hidden_inv s st"
  shows "push_str st (c @ d) =
    (case push_str st c of (st', o1) \<Rightarrow> (case push_str st' d of (st'', o2) \<Rightarrow> (st'', append_chunk o1 o2)))"
proof -
  have st: "wf_spec s" "specs st = [s]" "\<And>b. active st = Some b \<Longrightarrow> act_close b = spec_close s"
    using assms by (auto simp: hidden_inv_def split: option.splits)
  obtain p a out where run: "push_loop [s] (pending st @ c) (active st) no_output = ((p, a), out)"
    by (metis surj_pair)
  have "push_loop [s] (p @ d) a out = (case push_loop [s] (p @ d) a no_output of (st, o3) \<Rightarrow> (st, append_chunk out o3))"
    using push_loop_out [OF st(1), of a "p @ d" out no_output] push_loop_close [OF st(1,3) run] by simp
  with push_loop_append [OF st(1), of "active st" "pending st @ c" d no_output] st(3) run st(2) show ?thesis
    by (simp add: push_str_def split: prod.split)
qed

interpretation hidden: stream_parser push_str append_chunk no_output "hidden_inv s" for s
proof
  show "push_str st [] = (st, no_output)" if "hidden_inv s st" for st
    using that by (simp add: hidden_inv_def push_str_def)
qed (simp_all add: hidden_inv_step hidden_push_append)

definition citation_spec :: "citation_tag inline_tag_spec" where
  "citation_spec = \<lparr>spec_tag = Citation, spec_open = CITATION_OPEN, spec_close = CITATION_CLOSE\<rparr>"

lemma wf_citation_spec: "wf_spec citation_spec"
  by code_simp

lemma new_citation_inv: "hidden_inv citation_spec new_citation_parser"
proof -
  have "str_find [] (spec_open citation_spec) = None" by code_simp
  from open_held [OF this refl, of no_output] show ?thesis
    using wf_citation_spec
    by (simp add: hidden_inv_def new_citation_parser_def citation_specs_def citation_spec_def [symmetric] no_output_def)
qed

lemma contents_only_append: "contents_only (append_chunk a b) = append_chunk (contents_only a) (contents_only b)"
  by (simp add: contents_only_def append_chunk_def)

lemma contents_only_none: "contents_only no_output = no_output"
  by (simp add: contents_only_def no_output_def)

interpretation citations: stream_parser citation_push_str append_chunk no_output "hidden_inv citation_spec"
proof
  show "citation_push_str st [] = (st, no_output)" if "hidden_inv citation_spec st" for st
    using hidden.push_none [OF that] by (simp add: citation_push_str_def contents_only_none)
  show "citation_push_str st (c @ d) = (case citation_push_str st c of (st', o1) \<Rightarrow>
      (case citation_push_str st' d of (st'', o2) \<Rightarrow> (st'', append_chunk o1 o2)))"
    if "hidden_inv citation_spec st" for st c d
    using hidden.push_append [OF that, of c d]
    by (simp add: citation_push_str_def contents_only_append split: prod.splits)
  show "hidden_inv citation_spec (fst (citation_push_str st c))" if "hidden_inv citation_spec st" for st c
    using hidden_inv_step [OF that, of c] by (cases "push_str st c") (simp add: citation_push_str_def)
qed simp_all

text \<open>
  C26 (citations_any_chunking). The chunks in which an assistant message arrives do not matter: however the
  text is cut, also inside a tag, pushing the pieces and finishing gives the visible text and the
  citations of the whole text.
\<close>

theorem citations_any_chunking:
  "(case run_chunks citation_push_str append_chunk no_output new_citation_parser chunks of
      (st, out) \<Rightarrow> (case citation_finish st of
        (_, tail) \<Rightarrow> (visible_text (append_chunk out tail), extracted (append_chunk out tail)))) =
   strip_citations (concat chunks)"
  by (simp add: citations.run_chunks_whole [OF new_citation_inv] strip_citations_def append_chunk_def
      split: prod.split)

section \<open>What is hidden and what is shown\<close>

text \<open>A text before a delimiter that does not complete the delimiter early.\<close>

definition clear_of :: "string \<Rightarrow> string \<Rightarrow> bool" where
  "clear_of needle v \<longleftrightarrow> str_find (v @ needle) needle = Some (length v)"

lemma push_loop_piece:
  assumes "wf_spec s" "clear_of (spec_open s) v" "clear_of (spec_close s) c"
  shows "push_loop [s] (v @ spec_open s @ c @ spec_close s @ rest) None out =
    push_loop [s] rest None
      (out\<lparr>visible_text := visible_text out @ v, extracted := extracted out @ [(spec_tag s, c)]\<rparr>)"
proof -
  have delims: "spec_open s \<noteq> []" "spec_close s \<noteq> []" using assms(1) by (auto simp: wf_spec_def)
  have "str_find (v @ spec_open s @ c @ spec_close s @ rest) (spec_open s) = Some (length v)"
    using str_find_append [OF assms(2) [unfolded clear_of_def], of "c @ spec_close s @ rest"] by simp
  moreover have "str_find (c @ spec_close s @ rest) (act_close \<lparr>act_tag = spec_tag s, act_close = spec_close s, act_content = []\<rparr>) =
      Some (length c)"
    using str_find_append [OF assms(3) [unfolded clear_of_def], of rest] by simp
  ultimately show ?thesis using delims by (simp add: open_found close_found)
qed

definition cite :: "string \<times> string \<Rightarrow> string" where
  "cite vc = fst vc @ CITATION_OPEN @ snd vc @ CITATION_CLOSE"

lemma push_loop_pieces:
  assumes "list_all (\<lambda>(v, c). clear_of CITATION_OPEN v \<and> clear_of CITATION_CLOSE c) ps"
  shows "push_loop citation_specs (concat (map cite ps) @ rest) None out =
    push_loop citation_specs rest None (out\<lparr>visible_text := visible_text out @ concat (map fst ps),
       extracted := extracted out @ map (\<lambda>p. (Citation, snd p)) ps\<rparr>)"
  using assms
proof (induction ps arbitrary: out)
  case (Cons p ps)
  obtain v c where p: "p = (v, c)" by (cases p)
  have "push_loop [citation_spec] (v @ CITATION_OPEN @ c @ CITATION_CLOSE @ concat (map cite ps) @ rest) None out =
      push_loop [citation_spec] (concat (map cite ps) @ rest) None
        (out\<lparr>visible_text := visible_text out @ v, extracted := extracted out @ [(Citation, c)]\<rparr>)"
    using push_loop_piece [OF wf_citation_spec, of v c "concat (map cite ps) @ rest" out] Cons.prems p
    by (simp add: citation_spec_def)
  with Cons p show ?case by (simp add: cite_def [of "(v, c)"] citation_specs_def citation_spec_def [symmetric])
qed simp

text \<open>
  In a complete message the visible text is the text outside the citation tags
  and the citations are the texts between them, in order; an opening tag that is never closed hides
  the rest of the message, which becomes the last citation.
\<close>

lemma strip_citations_exact:
  assumes "list_all (\<lambda>(v, c). clear_of CITATION_OPEN v \<and> clear_of CITATION_CLOSE c) ps"
    and "str_find v CITATION_OPEN = None" "clear_of CITATION_OPEN v" "str_find c CITATION_CLOSE = None"
  shows "strip_citations (concat (map cite ps) @ v) = (concat (map fst ps) @ v, map snd ps) \<and>
    strip_citations (concat (map cite ps) @ v @ CITATION_OPEN @ c) = (concat (map fst ps) @ v, map snd ps @ [c])"
proof
  let ?o = "no_output\<lparr>visible_text := concat (map fst ps), extracted := map (\<lambda>p. (Citation, snd p)) ps\<rparr>"
  have specs: "citation_specs = [citation_spec]" by (simp add: citation_specs_def citation_spec_def)
  have delims: "spec_open citation_spec = CITATION_OPEN" "spec_close citation_spec = CITATION_CLOSE" "CITATION_OPEN \<noteq> []"
    by (simp_all add: citation_spec_def CITATION_OPEN_def)
  have start: "push_loop [citation_spec] (concat (map cite ps) @ rest) None no_output = push_loop [citation_spec] rest None ?o" for rest
    using push_loop_pieces [OF assms(1), of rest no_output] by (simp add: specs)
  let ?n = "length v - longest_suffix_prefix_len v CITATION_OPEN"
  have "push_loop [citation_spec] v None ?o = ((drop ?n v, None), ?o\<lparr>visible_text := visible_text ?o @ take ?n v\<rparr>)"
    using open_held [of v citation_spec ?n ?o] assms(2) by (simp add: delims)
  then show "strip_citations (concat (map cite ps) @ v) = (concat (map fst ps) @ v, map snd ps)"
    by (simp add: strip_citations_def citation_push_str_def push_str_def new_citation_parser_def specs start
        citation_finish_def finish_def contents_only_def comp_def)
  have found: "str_find (v @ CITATION_OPEN @ c) CITATION_OPEN = Some (length v)"
    using str_find_append [OF assms(3) [unfolded clear_of_def], of c] by simp
  let ?a = "\<lparr>act_tag = spec_tag citation_spec, act_close = CITATION_CLOSE, act_content = []\<rparr>"
  let ?m = "length c - longest_suffix_prefix_len c CITATION_CLOSE"
  have "push_loop [citation_spec] (v @ CITATION_OPEN @ c) None ?o =
      push_loop [citation_spec] c (Some ?a) (?o\<lparr>visible_text := visible_text ?o @ v\<rparr>)"
    using open_found [of "v @ CITATION_OPEN @ c" citation_spec "length v" ?o] found delims by simp
  also have "\<dots> = ((drop ?m c, Some (?a\<lparr>act_content := take ?m c\<rparr>)), ?o\<lparr>visible_text := visible_text ?o @ v\<rparr>)"
    using close_held [of c ?a ?m] assms(4) by simp
  finally show "strip_citations (concat (map cite ps) @ v @ CITATION_OPEN @ c) = (concat (map fst ps) @ v, map snd ps @ [c])"
    by (simp add: strip_citations_def citation_push_str_def push_str_def new_citation_parser_def specs start
        citation_finish_def finish_def contents_only_def comp_def)
qed

lemma strip_citations_exact_witness:
  "strip_citations (cite (''hello '', ''doc A'') @ '' world'') = (''hello  world'', [''doc A'']) \<and>
   strip_citations (cite (''hello '', ''doc A'') @ '' world'' @ CITATION_OPEN @ ''cut'') = (''hello  world'', [''doc A'', ''cut''])"
proof -
  have "list_all (\<lambda>(v, c). clear_of CITATION_OPEN v \<and> clear_of CITATION_CLOSE c) [(''hello '', ''doc A'')]"
    "str_find '' world'' CITATION_OPEN = None" "clear_of CITATION_OPEN '' world''" "str_find ''cut'' CITATION_CLOSE = None"
    by code_simp+
  from strip_citations_exact [OF this] show ?thesis by simp
qed

end
