(* ===== verification/Tagged_Lines.thy ===== *)
theory Tagged_Lines
  imports Hidden_Tags
begin

text \<open>
  \<open>codex-rs/utils/stream-parser/src\<close>: \<open>tagged_line_parser.rs\<close>, \<open>proposed_plan.rs\<close> and \<open>assistant_text.rs\<close>. A tag
  alone on a line opens or closes a block; each line is buffered until it is certain that it is not
  a tag. The parser works on characters, each a string of its bytes.
\<close>

section \<open>The line parser\<close>

record 't tag_spec =
  ts_open :: string
  ts_close :: string
  ts_tag :: 't

datatype 't tagged_line_segment = Normal string | TagStart 't | TagDelta 't string | TagEnd 't

record 't line_parser =
  lp_specs :: "'t tag_spec list"
  active_tag :: "'t option"
  detect_tag :: bool
  line_buffer :: string

definition new_line_parser :: "'t tag_spec list \<Rightarrow> 't line_parser" where
  "new_line_parser ss = \<lparr>lp_specs = ss, active_tag = None, detect_tag = True, line_buffer = []\<rparr>"

fun push_segment :: "'t tagged_line_segment list \<Rightarrow> 't tagged_line_segment \<Rightarrow> 't tagged_line_segment list" where
  "push_segment segs (Normal delta) =
     (if delta = [] then segs
      else if segs = [] then [Normal delta]
      else (case last segs of
              Normal existing \<Rightarrow> butlast segs @ [Normal (existing @ delta)]
            | _ \<Rightarrow> segs @ [Normal delta]))"
| "push_segment segs (TagDelta tag delta) =
     (if delta = [] then segs
      else if segs = [] then [TagDelta tag delta]
      else (case last segs of
              TagDelta existing_tag existing \<Rightarrow>
                if existing_tag = tag then butlast segs @ [TagDelta tag (existing @ delta)]
                else segs @ [TagDelta tag delta]
            | _ \<Rightarrow> segs @ [TagDelta tag delta]))"
| "push_segment segs seg = segs @ [seg]"

definition push_text :: "'t line_parser \<Rightarrow> string \<Rightarrow> 't tagged_line_segment list \<Rightarrow> 't tagged_line_segment list" where
  "push_text st text segs =
     (case active_tag st of
        Some tag \<Rightarrow> push_segment segs (TagDelta tag text)
      | None \<Rightarrow> push_segment segs (Normal text))"

definition is_tag_prefix :: "'t line_parser \<Rightarrow> string \<Rightarrow> bool" where
  "is_tag_prefix st slug \<longleftrightarrow>
     (let slug = trim_end slug in list_ex (\<lambda>s. prefix slug (ts_open s) \<or> prefix slug (ts_close s)) (lp_specs st))"

definition match_open :: "'t line_parser \<Rightarrow> string \<Rightarrow> 't option" where
  "match_open st slug = map_option ts_tag (find (\<lambda>s. ts_open s = slug) (lp_specs st))"

definition match_close :: "'t line_parser \<Rightarrow> string \<Rightarrow> 't option" where
  "match_close st slug = map_option ts_tag (find (\<lambda>s. ts_close s = slug) (lp_specs st))"

definition line_slug :: "string \<Rightarrow> string" where
  "line_slug line =
     (let without_newline = (case strip_suffix [nl] line of Some l \<Rightarrow> l | None \<Rightarrow> line) in
      trim_end (trim_start without_newline))"

text \<open>What a line that is a tag does: the segment it emits and the tag that is open afterwards.\<close>

definition tag_line :: "'t line_parser \<Rightarrow> string \<Rightarrow> ('t tagged_line_segment \<times> 't option) option" where
  "tag_line st slug =
     (case match_open st slug of
        Some tag \<Rightarrow>
          if active_tag st = None then Some (TagStart tag, Some tag)
          else if match_close st slug \<noteq> None \<and> active_tag st = match_close st slug
          then Some (TagEnd (the (match_close st slug)), None) else None
      | None \<Rightarrow>
          if match_close st slug \<noteq> None \<and> active_tag st = match_close st slug
          then Some (TagEnd (the (match_close st slug)), None) else None)"

definition finish_line :: "'t line_parser \<Rightarrow> 't tagged_line_segment list \<Rightarrow> 't line_parser \<times> 't tagged_line_segment list" where
  "finish_line st segs =
     (let line = line_buffer st; st = st\<lparr>line_buffer := []\<rparr> in
      case tag_line st (line_slug line) of
        Some (seg, tag) \<Rightarrow> (st\<lparr>active_tag := tag, detect_tag := True\<rparr>, push_segment segs seg)
      | None \<Rightarrow> (st\<lparr>detect_tag := True\<rparr>, push_text st line segs))"

text \<open>One character: the state, the run of plain text and the segments.\<close>

definition parse_char :: "'t line_parser \<Rightarrow> string \<Rightarrow> 't tagged_line_segment list \<Rightarrow> string \<Rightarrow>
    't line_parser \<times> string \<times> 't tagged_line_segment list" where
  "parse_char st run segs ch =
     (if detect_tag st then
        (let segs = (if run \<noteq> [] then push_text st run segs else segs);
             st = st\<lparr>line_buffer := line_buffer st @ ch\<rparr> in
         if ch = [nl] then (case finish_line st segs of (st, segs) \<Rightarrow> (st, [], segs))
         else
           (let slug = trim_start (line_buffer st) in
            if slug = [] \<or> is_tag_prefix st slug then (st, [], segs)
            else
              (let buffered = line_buffer st; st = st\<lparr>line_buffer := [], detect_tag := False\<rparr> in
               (st, [], push_text st buffered segs))))
      else
        (let run = run @ ch in
         if ch = [nl] then (st\<lparr>detect_tag := True\<rparr>, [], push_text st run segs)
         else (st, run, segs)))"

fun parse_loop :: "'t line_parser \<Rightarrow> string \<Rightarrow> 't tagged_line_segment list \<Rightarrow> string list \<Rightarrow>
    't line_parser \<times> string \<times> 't tagged_line_segment list" where
  "parse_loop st run segs [] = (st, run, segs)"
| "parse_loop st run segs (ch # chs) =
     (case parse_char st run segs ch of (st, run, segs) \<Rightarrow> parse_loop st run segs chs)"

definition parse_line_chars :: "'t line_parser \<Rightarrow> string list \<Rightarrow> 't line_parser \<times> 't tagged_line_segment list" where
  "parse_line_chars st chs =
     (case parse_loop st [] [] chs of
        (st, run, segs) \<Rightarrow> (st, if run \<noteq> [] then push_text st run segs else segs))"

definition parse_lines :: "'t line_parser \<Rightarrow> string \<Rightarrow> 't line_parser \<times> 't tagged_line_segment list" where
  "parse_lines st delta = parse_line_chars st (chars delta)"

definition finish_lines :: "'t line_parser \<Rightarrow> 't line_parser \<times> 't tagged_line_segment list" where
  "finish_lines st =
     (let (st, segs) =
        (if line_buffer st = [] then (st, [])
         else
           (let buffered = line_buffer st; st = st\<lparr>line_buffer := []\<rparr> in
            case tag_line st (line_slug buffered) of
              Some (seg, tag) \<Rightarrow> (st\<lparr>active_tag := tag\<rparr>, push_segment [] seg)
            | None \<Rightarrow> (st, push_text st buffered []))) in
      case active_tag st of
        Some tag \<Rightarrow> (st\<lparr>active_tag := None, detect_tag := True\<rparr>, push_segment segs (TagEnd tag))
      | None \<Rightarrow> (st\<lparr>detect_tag := True\<rparr>, segs))"

section \<open>Proposed plans\<close>

definition PLAN_OPEN_TAG :: string where "PLAN_OPEN_TAG = ''<proposed_plan>''"
definition PLAN_CLOSE_TAG :: string where "PLAN_CLOSE_TAG = ''</proposed_plan>''"

datatype plan_tag = ProposedPlan

datatype proposed_plan_segment =
    PlanNormal string
  | ProposedPlanStart
  | ProposedPlanDelta string
  | ProposedPlanEnd

definition new_plan_parser :: "plan_tag line_parser" where
  "new_plan_parser =
     new_line_parser [\<lparr>ts_open = PLAN_OPEN_TAG, ts_close = PLAN_CLOSE_TAG, ts_tag = ProposedPlan\<rparr>]"

fun plan_segment :: "plan_tag tagged_line_segment \<Rightarrow> proposed_plan_segment" where
  "plan_segment (Normal text) = PlanNormal text"
| "plan_segment (TagStart _) = ProposedPlanStart"
| "plan_segment (TagDelta _ text) = ProposedPlanDelta text"
| "plan_segment (TagEnd _) = ProposedPlanEnd"

fun normal_text :: "proposed_plan_segment \<Rightarrow> string" where
  "normal_text (PlanNormal text) = text"
| "normal_text _ = []"

definition map_segments :: "plan_tag tagged_line_segment list \<Rightarrow> proposed_plan_segment stream_text_chunk" where
  "map_segments segs =
     \<lparr>visible_text = concat (map (normal_text \<circ> plan_segment) segs), extracted = map plan_segment segs\<rparr>"

definition plan_push_str :: "plan_tag line_parser \<Rightarrow> string \<Rightarrow> plan_tag line_parser \<times> proposed_plan_segment stream_text_chunk" where
  "plan_push_str st chunk = (case parse_lines st chunk of (st, segs) \<Rightarrow> (st, map_segments segs))"

definition plan_finish :: "plan_tag line_parser \<Rightarrow> plan_tag line_parser \<times> proposed_plan_segment stream_text_chunk" where
  "plan_finish st = (case finish_lines st of (st, segs) \<Rightarrow> (st, map_segments segs))"

definition strip_proposed_plan_blocks :: "string \<Rightarrow> string" where
  "strip_proposed_plan_blocks text =
     (case plan_push_str new_plan_parser text of
        (st, out) \<Rightarrow> visible_text out @ visible_text (snd (plan_finish st)))"

fun plan_text_step :: "proposed_plan_segment \<Rightarrow> bool \<times> string \<Rightarrow> bool \<times> string" where
  "plan_text_step ProposedPlanStart (saw, text) = (True, [])"
| "plan_text_step (ProposedPlanDelta delta) (saw, text) = (saw, text @ delta)"
| "plan_text_step _ (saw, text) = (saw, text)"

definition extract_proposed_plan_text :: "string \<Rightarrow> string option" where
  "extract_proposed_plan_text text =
     (case plan_push_str new_plan_parser text of
        (st, out) \<Rightarrow>
          (case fold plan_text_step (extracted out @ extracted (snd (plan_finish st))) (False, []) of
             (saw_plan_block, plan_text) \<Rightarrow> if saw_plan_block then Some plan_text else None))"

section \<open>Assistant text\<close>

record assistant_text_chunk =
  at_visible_text :: string
  at_citations :: "string list"
  at_plan_segments :: "proposed_plan_segment list"

record assistant_text_parser =
  plan_mode :: bool
  at_citation_parser :: "citation_tag hidden_parser"
  at_plan_parser :: "plan_tag line_parser"

definition new_assistant_parser :: "bool \<Rightarrow> assistant_text_parser" where
  "new_assistant_parser mode =
     \<lparr>plan_mode = mode, at_citation_parser = new_citation_parser, at_plan_parser = new_plan_parser\<rparr>"

definition parse_visible_text :: "assistant_text_parser \<Rightarrow> string \<Rightarrow> assistant_text_parser \<times> assistant_text_chunk" where
  "parse_visible_text st text =
     (if \<not> plan_mode st then (st, \<lparr>at_visible_text = text, at_citations = [], at_plan_segments = []\<rparr>)
      else
        (case plan_push_str (at_plan_parser st) text of
           (p, out) \<Rightarrow> (st\<lparr>at_plan_parser := p\<rparr>,
             \<lparr>at_visible_text = visible_text out, at_citations = [], at_plan_segments = extracted out\<rparr>)))"

definition assistant_push_str :: "assistant_text_parser \<Rightarrow> string \<Rightarrow> assistant_text_parser \<times> assistant_text_chunk" where
  "assistant_push_str st chunk =
     (case citation_push_str (at_citation_parser st) chunk of
        (c, cout) \<Rightarrow>
          (case parse_visible_text (st\<lparr>at_citation_parser := c\<rparr>) (visible_text cout) of
             (st, out) \<Rightarrow> (st, out\<lparr>at_citations := extracted cout\<rparr>)))"

definition assistant_finish :: "assistant_text_parser \<Rightarrow> assistant_text_parser \<times> assistant_text_chunk" where
  "assistant_finish st =
     (case citation_finish (at_citation_parser st) of
        (c, cout) \<Rightarrow>
          (case parse_visible_text (st\<lparr>at_citation_parser := c\<rparr>) (visible_text cout) of
             (st, out) \<Rightarrow>
               (case (if plan_mode st then
                        (case plan_finish (at_plan_parser st) of
                           (p, tail) \<Rightarrow> (st\<lparr>at_plan_parser := p\<rparr>,
                             if chunk_is_empty tail then out
                             else out\<lparr>at_visible_text := at_visible_text out @ visible_text tail,
                                      at_plan_segments := at_plan_segments out @ extracted tail\<rparr>))
                      else (st, out)) of
                  (st, out) \<Rightarrow> (st, out\<lparr>at_citations := extracted cout\<rparr>))))"

section \<open>Chunks do not matter\<close>

text \<open>Segments cut into single bytes: what is left when the grouping of text is forgotten.\<close>

fun atoms :: "'t tagged_line_segment \<Rightarrow> 't tagged_line_segment list" where
  "atoms (Normal text) = map (\<lambda>c. Normal [c]) text"
| "atoms (TagDelta tag text) = map (\<lambda>c. TagDelta tag [c]) text"
| "atoms seg = [seg]"

definition flatten :: "'t tagged_line_segment list \<Rightarrow> 't tagged_line_segment list" where
  "flatten segs = concat (map atoms segs)"

lemma flatten_append [simp]: "flatten (a @ b) = flatten a @ flatten b"
  and flatten_Nil [simp]: "flatten [] = []"
  by (simp_all add: flatten_def)

lemma flatten_push [simp]: "flatten (push_segment segs seg) = flatten segs @ atoms seg"
proof (cases segs rule: rev_cases)
  case (snoc ss s)
  then show ?thesis by (cases seg; cases s) (auto simp: flatten_def)
qed (cases seg; simp add: flatten_def)

declare push_segment.simps [simp del]

definition text_atoms :: "'t line_parser \<Rightarrow> string \<Rightarrow> 't tagged_line_segment list" where
  "text_atoms st text = (case active_tag st of Some tag \<Rightarrow> atoms (TagDelta tag text) | None \<Rightarrow> atoms (Normal text))"

lemma flatten_push_text [simp]: "flatten (push_text st text segs) = flatten segs @ text_atoms st text"
  by (simp add: push_text_def text_atoms_def split: option.split)

lemma text_atoms_append [simp]: "text_atoms st (a @ b) = text_atoms st a @ text_atoms st b"
  and text_atoms_Nil [simp]: "text_atoms st [] = []"
  and text_atoms_cong [simp]: "text_atoms (st\<lparr>line_buffer := b\<rparr>) = text_atoms st"
    "text_atoms (st\<lparr>detect_tag := d\<rparr>) = text_atoms st"
  by (auto simp: text_atoms_def fun_eq_iff split: option.split)

text \<open>Everything emitted so far, with the run that is still open.\<close>

definition emitted :: "'t line_parser \<times> string \<times> 't tagged_line_segment list \<Rightarrow> 't tagged_line_segment list" where
  "emitted x = (case x of (st, run, segs) \<Rightarrow> flatten segs @ text_atoms st run)"

lemma finish_line_emits:
  "fst (finish_line st segs) = fst (finish_line st [])"
  "flatten (snd (finish_line st segs)) = flatten segs @ flatten (snd (finish_line st []))"
  by (auto simp: finish_line_def Let_def split: option.split)

lemma parse_char_emits:
  "fst (parse_char st run segs ch) = fst (parse_char st [] [] ch) \<and>
   emitted (parse_char st run segs ch) = emitted (st, run, segs) @ emitted (parse_char st [] [] ch)"
proof (cases "detect_tag st")
  case False
  then show ?thesis by (simp add: parse_char_def emitted_def)
next
  case True
  let ?segs = "if run \<noteq> [] then push_text st run segs else segs"
  have segs: "flatten ?segs = emitted (st, run, segs)" by (simp add: emitted_def)
  let ?st = "st\<lparr>line_buffer := line_buffer st @ ch\<rparr>"
  show ?thesis
  proof (cases "ch = [nl]")
    case nl: True
    have "parse_char st run segs ch = (fst (finish_line ?st ?segs), [], snd (finish_line ?st ?segs))"
      "parse_char st [] [] ch = (fst (finish_line ?st []), [], snd (finish_line ?st []))"
      using True nl by (simp_all add: parse_char_def Let_def split: prod.split)
    with finish_line_emits [of ?st ?segs] segs show ?thesis by (simp add: emitted_def)
  next
    case False
    with True segs show ?thesis by (simp add: parse_char_def Let_def emitted_def)
  qed
qed

lemma parse_loop_emits:
  "fst (parse_loop st run segs chs) = fst (parse_loop st [] [] chs) \<and>
   emitted (parse_loop st run segs chs) = emitted (st, run, segs) @ emitted (parse_loop st [] [] chs)"
proof (induction chs arbitrary: st run segs)
  case Nil
  then show ?case by (simp add: emitted_def)
next
  case (Cons ch chs)
  obtain st1 run1 segs1 where one: "parse_char st run segs ch = (st1, run1, segs1)" by (metis surj_pair)
  obtain st2 run2 segs2 where two: "parse_char st [] [] ch = (st2, run2, segs2)" by (metis surj_pair)
  from parse_char_emits [of st run segs ch] one two
  have "st1 = st2" "emitted (st1, run1, segs1) = emitted (st, run, segs) @ emitted (st2, run2, segs2)" by auto
  with Cons.IH [of st1 run1 segs1] Cons.IH [of st2 run2 segs2] one two show ?case by simp
qed

lemma parse_loop_append:
  "parse_loop st run segs (as @ bs) = (case parse_loop st run segs as of (st, run, segs) \<Rightarrow> parse_loop st run segs bs)"
  by (induction as arbitrary: st run segs) (auto split: prod.split)

definition push_chars :: "'t line_parser \<Rightarrow> string list \<Rightarrow> 't line_parser \<times> 't tagged_line_segment list" where
  "push_chars st chs = map_prod id flatten (parse_line_chars st chs)"

lemma push_chars_loop: "push_chars st chs = (fst (parse_loop st [] [] chs), emitted (parse_loop st [] [] chs))"
  by (auto simp: push_chars_def parse_line_chars_def emitted_def split: prod.split)

interpretation lines: stream_parser push_chars "(@)" "[]" "\<lambda>_. True"
proof
  show "push_chars st [] = (st, [])" for st :: "'t line_parser"
    by (simp add: push_chars_loop emitted_def)
  show "push_chars st (c @ d) = (case push_chars st c of (st', o1) \<Rightarrow>
      (case push_chars st' d of (st'', o2) \<Rightarrow> (st'', o1 @ o2)))" for st :: "'t line_parser" and c d
  proof -
    obtain st1 run1 segs1 where c: "parse_loop st [] [] c = (st1, run1, segs1)" by (metis surj_pair)
    with parse_loop_emits [of st1 run1 segs1 d] show ?thesis
      by (simp add: push_chars_loop parse_loop_append)
  qed
qed simp_all

lemma chars_append: "b = [] \<or> \<not> is_cont (hd b) \<Longrightarrow> chars (a @ b) = chars a @ chars b"
proof (induction a rule: chars.induct)
  case (2 c cs)
  have "takeWhile is_cont (cs @ b) = takeWhile is_cont cs \<and> dropWhile is_cont (cs @ b) = dropWhile is_cont cs @ b"
  proof (cases "list_all is_cont cs")
    case True
    then have "takeWhile is_cont cs = cs" by (simp add: list_all_iff takeWhile_eq_all_conv)
    moreover have "takeWhile is_cont b = []" "dropWhile is_cont b = b" using 2(2) by (cases b; simp)+
    ultimately show ?thesis using True by (simp add: list_all_iff takeWhile_append dropWhile_append) (metis takeWhile_eq_all_conv)
  next
    case False
    then show ?thesis by (auto simp: list_all_iff takeWhile_append dropWhile_append)
  qed
  with 2 show ?case by simp
qed simp

lemma hd_concat: "list_all (\<lambda>c. c = [] \<or> \<not> is_cont (hd c)) cs \<Longrightarrow> concat cs = [] \<or> \<not> is_cont (hd (concat cs))"
proof (induction cs)
  case (Cons c cs)
  then show ?case by (cases c) auto
qed simp

lemma chars_concat:
  "list_all (\<lambda>c. c = [] \<or> \<not> is_cont (hd c)) cs \<Longrightarrow> chars (concat cs) = concat (map chars cs)"
proof (induction cs)
  case (Cons c cs)
  have "concat cs = [] \<or> \<not> is_cont (hd (concat cs))" using Cons.prems by (intro hd_concat) simp
  with Cons show ?case by (simp add: chars_append)
qed simp

text \<open>What the users of plan segments read off them does not depend on the grouping either.\<close>

definition plan_of :: "plan_tag tagged_line_segment list \<Rightarrow> string \<times> (bool \<times> string)" where
  "plan_of segs = (concat (map (normal_text \<circ> plan_segment) segs), fold plan_text_step (map plan_segment segs) (False, []))"

lemma visible_flatten: "concat (map (normal_text \<circ> plan_segment) (flatten segs)) = concat (map (normal_text \<circ> plan_segment) segs)"
proof (induction segs)
  case (Cons seg segs)
  have "concat (map (normal_text \<circ> plan_segment) (atoms seg)) = normal_text (plan_segment seg)"
    by (cases seg) (simp_all add: comp_def concat_map_singleton map_idI)
  with Cons show ?case by (simp add: flatten_def comp_def)
qed simp

lemma plan_text_flatten: "fold plan_text_step (map plan_segment (flatten segs)) acc = fold plan_text_step (map plan_segment segs) acc"
proof (induction segs arbitrary: acc)
  case (Cons seg segs)
  obtain saw t where acc: "acc = (saw, t)" by (cases acc)
  have "fold plan_text_step (map (\<lambda>c. ProposedPlanDelta [c]) d) (saw, t) = (saw, t @ d)" for d saw t
    by (induction d arbitrary: t) simp_all
  moreover have "fold plan_text_step (map (\<lambda>c. PlanNormal [c]) d) (saw, t) = (saw, t)" for d saw t
    by (induction d) simp_all
  ultimately have "fold plan_text_step (map plan_segment (atoms seg)) acc = plan_text_step (plan_segment seg) acc"
    by (cases seg) (simp_all add: acc comp_def)
  with Cons show ?case by (simp add: flatten_def)
qed simp

lemma plan_of_flatten: "flatten segs = flatten segs' \<Longrightarrow> plan_of segs = plan_of segs'"
  unfolding plan_of_def by (metis visible_flatten plan_text_flatten)

lemma map_segments_append: "map_segments (a @ b) = append_chunk (map_segments a) (map_segments b)"
  by (simp add: map_segments_def append_chunk_def)

lemma run_plan_chunks:
  "\<exists>segs. run_chunks plan_push_str append_chunk no_output st cs =
     (fst (run_chunks push_chars (@) [] st (map chars cs)), map_segments segs) \<and>
     flatten segs = snd (run_chunks push_chars (@) [] st (map chars cs))"
proof (induction cs arbitrary: st)
  case Nil
  then show ?case by (intro exI [of _ "[]"]) (simp add: map_segments_def no_output_def)
next
  case (Cons c cs)
  obtain st1 segs1 where one: "parse_line_chars st (chars c) = (st1, segs1)" by fastforce
  from Cons.IH [of st1] obtain segs where IH:
    "run_chunks plan_push_str append_chunk no_output st1 cs = (fst (run_chunks push_chars (@) [] st1 (map chars cs)), map_segments segs)"
    "flatten segs = snd (run_chunks push_chars (@) [] st1 (map chars cs))" by blast
  have "plan_push_str st c = (st1, map_segments segs1)" using one by (simp add: plan_push_str_def parse_lines_def)
  moreover have "push_chars st (chars c) = (st1, flatten segs1)" using one by (simp add: push_chars_def)
  ultimately show ?case using IH
    by (intro exI [of _ "segs1 @ segs"]) (simp add: map_segments_append split: prod.split)
qed

text \<open>
  C33 (plan_any_chunking). The chunks in which a proposed plan arrives do not matter: for every way to cut
  a text at characters, the visible text that is collected is the text without its plan blocks,
  and the plan read off the collected segments is the plan of the whole text.
\<close>

theorem plan_any_chunking:
  assumes "list_all (\<lambda>c. c = [] \<or> \<not> is_cont (hd c)) chunks"
  shows "case run_chunks plan_push_str append_chunk no_output new_plan_parser chunks of (st, out) \<Rightarrow>
    let all = append_chunk out (snd (plan_finish st)) in
      visible_text all = strip_proposed_plan_blocks (concat chunks) \<and>
      (case fold plan_text_step (extracted all) (False, []) of
         (saw, plan) \<Rightarrow> (if saw then Some plan else None) = extract_proposed_plan_text (concat chunks))"
proof -
  obtain segs where segs:
    "run_chunks plan_push_str append_chunk no_output new_plan_parser chunks =
       (fst (run_chunks push_chars (@) [] new_plan_parser (map chars chunks)), map_segments segs)"
    "flatten segs = snd (run_chunks push_chars (@) [] new_plan_parser (map chars chunks))"
    using run_plan_chunks by blast
  obtain st segs' where whole: "parse_line_chars new_plan_parser (chars (concat chunks)) = (st, segs')" by fastforce
  have "run_chunks push_chars (@) [] new_plan_parser (map chars chunks) = (st, flatten segs')"
    using lines.run_chunks_whole [of new_plan_parser "map chars chunks"] whole
    by (simp add: chars_concat [OF assms, symmetric] push_chars_def)
  with segs have run: "run_chunks plan_push_str append_chunk no_output new_plan_parser chunks = (st, map_segments segs)"
    "flatten segs = flatten segs'" by simp_all
  have push: "plan_push_str new_plan_parser (concat chunks) = (st, map_segments segs')"
    using whole by (simp add: plan_push_str_def parse_lines_def)
  obtain st' tail where tail: "finish_lines st = (st', tail)" by fastforce
  have "plan_of (segs @ tail) = plan_of (segs' @ tail)" using run(2) by (intro plan_of_flatten) simp
  then have "concat (map (normal_text \<circ> plan_segment) segs) @ concat (map (normal_text \<circ> plan_segment) tail) =
      concat (map (normal_text \<circ> plan_segment) segs') @ concat (map (normal_text \<circ> plan_segment) tail)"
    "fold plan_text_step (map plan_segment segs @ map plan_segment tail) (False, []) =
      fold plan_text_step (map plan_segment segs' @ map plan_segment tail) (False, [])"
    by (simp_all only: plan_of_def map_append concat_append prod.inject)
  with run(1) push tail show ?thesis
    by (simp add: strip_proposed_plan_blocks_def extract_proposed_plan_text_def plan_finish_def map_segments_def
        append_chunk_def Let_def split: prod.split)
qed

theorem plan_any_chunking_witness:
  "case run_chunks plan_push_str append_chunk no_output new_plan_parser [''a'' @ [nl], ''<p''] of
     (st, out) \<Rightarrow> visible_text (append_chunk out (snd (plan_finish st))) = ''a'' @ [nl] @ ''<p''"
proof -
  let ?chunks = "[''a'' @ [nl], ''<p'']"
  have "list_all (\<lambda>c. c = [] \<or> \<not> is_cont (hd c)) ?chunks" by code_simp
  note any = plan_any_chunking [OF this]
  have whole: "strip_proposed_plan_blocks (concat ?chunks) = ''a'' @ [nl] @ ''<p''" by code_simp
  obtain st out where "run_chunks plan_push_str append_chunk no_output new_plan_parser ?chunks = (st, out)" by fastforce
  with any whole show ?thesis by (simp only: prod.case Let_def)
qed

end
