(* ===== verification/Utf8_Stream.thy ===== *)
theory Utf8_Stream
  imports Hidden_Tags
begin

text \<open>
  Bytes to text in front of a stream parser (\<open>utils/stream-parser/src/utf8_stream.rs\<close>): the wrapper keeps the
  bytes of a character that has not arrived completely and hands whole characters to the parser inside.
  \<open>std::str::from_utf8\<close> is modelled with the positions and lengths its error reports: the longest valid
  prefix, and how many bytes are wrong, or none when the input only ends too early.

  The wrapped parser is a parameter. What the theorems need of it is the interface \<open>stream_parser\<close> of the
  stream parsers; the citation parser is one.
\<close>

section \<open>Validation\<close>

abbreviation byte :: "char \<Rightarrow> nat" where
  "byte c \<equiv> of_char c"

datatype utf8_step = Whole nat | Invalid nat | Truncated

text \<open>The second byte of a sequence of three or four bytes, whose range depends on the first.\<close>

definition second_of_three :: "nat \<Rightarrow> nat \<Rightarrow> bool" where
  "second_of_three a b \<longleftrightarrow>
     a = 0xE0 \<and> 0xA0 \<le> b \<and> b \<le> 0xBF \<or> 0xE1 \<le> a \<and> a \<le> 0xEC \<and> 0x80 \<le> b \<and> b \<le> 0xBF \<or>
     a = 0xED \<and> 0x80 \<le> b \<and> b \<le> 0x9F \<or> 0xEE \<le> a \<and> a \<le> 0xEF \<and> 0x80 \<le> b \<and> b \<le> 0xBF"

definition second_of_four :: "nat \<Rightarrow> nat \<Rightarrow> bool" where
  "second_of_four a b \<longleftrightarrow>
     a = 0xF0 \<and> 0x90 \<le> b \<and> b \<le> 0xBF \<or> 0xF1 \<le> a \<and> a \<le> 0xF3 \<and> 0x80 \<le> b \<and> b \<le> 0xBF \<or>
     a = 0xF4 \<and> 0x80 \<le> b \<and> b \<le> 0x8F"

fun tail_bytes_ok :: "nat \<Rightarrow> nat \<Rightarrow> string \<Rightarrow> utf8_step" where
  "tail_bytes_ok n 0 cs = Whole n"
| "tail_bytes_ok n (Suc k) [] = Truncated"
| "tail_bytes_ok n (Suc k) (c # cs) = (if is_cont c then tail_bytes_ok (n + 1) k cs else Invalid n)"

text \<open>The first character of a non-empty input.\<close>

fun utf8_first :: "string \<Rightarrow> utf8_step" where
  "utf8_first [] = Truncated"
| "utf8_first (c # cs) =
     (let a = byte c in
      if a < 0x80 then Whole 1
      else if 0xC2 \<le> a \<and> a \<le> 0xDF then tail_bytes_ok 1 1 cs
      else if 0xE0 \<le> a \<and> a \<le> 0xEF then
        (case cs of [] \<Rightarrow> Truncated | b # bs \<Rightarrow> if second_of_three a (byte b) then tail_bytes_ok 2 1 bs else Invalid 1)
      else if 0xF0 \<le> a \<and> a \<le> 0xF4 then
        (case cs of [] \<Rightarrow> Truncated | b # bs \<Rightarrow> if second_of_four a (byte b) then tail_bytes_ok 2 2 bs else Invalid 1)
      else Invalid 1)"

record utf8_error =
  valid_up_to :: nat
  error_len :: "nat option"

lemma tail_bytes_ok_pos: "tail_bytes_ok n k cs = Whole m \<Longrightarrow> n \<le> m \<and> m \<le> n + length cs \<and> m = n + k"
  by (induction n k cs rule: tail_bytes_ok.induct) (auto split: if_splits)

lemma utf8_first_bounds: "utf8_first cs = Whole n \<Longrightarrow> 0 < n \<and> n \<le> length cs"
  by (cases cs)
    (auto simp: Let_def split: if_splits list.splits dest: tail_bytes_ok_pos)

function from_utf8_at :: "nat \<Rightarrow> string \<Rightarrow> (utf8_error, unit) result" where
  "from_utf8_at i cs =
     (if cs = [] then Ok ()
      else
        (case utf8_first cs of
           Whole n \<Rightarrow> from_utf8_at (i + n) (drop n cs)
         | Invalid n \<Rightarrow> Err \<lparr>valid_up_to = i, error_len = Some n\<rparr>
         | Truncated \<Rightarrow> Err \<lparr>valid_up_to = i, error_len = None\<rparr>))"
  by pat_completeness auto
termination
  by (relation "measure (\<lambda>(i, cs). length cs)") (auto dest: utf8_first_bounds)

declare from_utf8_at.simps [simp del]

definition from_utf8 :: "string \<Rightarrow> (utf8_error, unit) result" where
  "from_utf8 cs = from_utf8_at 0 cs"

section \<open>The wrapper\<close>

datatype utf8_stream_parser_error = InvalidUtf8 nat nat | IncompleteUtf8AtEof

fun show_utf8_error :: "utf8_stream_parser_error \<Rightarrow> string" where
  "show_utf8_error (InvalidUtf8 v n) =
     ''invalid UTF-8 in streamed bytes at offset '' @ show_nat v @ '' (error length '' @ show_nat n @ '')''"
| "show_utf8_error IncompleteUtf8AtEof = ''incomplete UTF-8 code point at end of stream''"

record 's utf8_parser =
  inner :: 's
  pending_utf8 :: string

definition new_utf8_parser :: "'s \<Rightarrow> 's utf8_parser" where
  "new_utf8_parser p = \<lparr>inner = p, pending_utf8 = []\<rparr>"

definition push_bytes :: "('s \<Rightarrow> string \<Rightarrow> 's \<times> 'e stream_text_chunk) \<Rightarrow> 's utf8_parser \<Rightarrow> string \<Rightarrow>
    's utf8_parser \<times> (utf8_stream_parser_error, 'e stream_text_chunk) result" where
  "push_bytes push st chunk =
     (let buf = pending_utf8 st @ chunk; old_len = length (pending_utf8 st) in
      case from_utf8 buf of
        Ok _ \<Rightarrow> (case push (inner st) buf of (p, out) \<Rightarrow> (st\<lparr>inner := p, pending_utf8 := []\<rparr>, Ok out))
      | Err err \<Rightarrow>
          (case error_len err of
             Some n \<Rightarrow> (st\<lparr>pending_utf8 := take old_len buf\<rparr>, Err (InvalidUtf8 (valid_up_to err) n))
           | None \<Rightarrow>
               if valid_up_to err = 0 then (st\<lparr>pending_utf8 := buf\<rparr>, Ok no_output)
               else
                 (case from_utf8 (take (valid_up_to err) buf) of
                    Ok _ \<Rightarrow>
                      (case push (inner st) (take (valid_up_to err) buf) of
                         (p, out) \<Rightarrow> (st\<lparr>inner := p, pending_utf8 := drop (valid_up_to err) buf\<rparr>, Ok out))
                  | Err prefix_err \<Rightarrow>
                      (st\<lparr>pending_utf8 := take old_len buf\<rparr>,
                       Err (InvalidUtf8 (valid_up_to prefix_err)
                              (case error_len prefix_err of Some n \<Rightarrow> n | None \<Rightarrow> 0))))))"

text \<open>The second validation in \<open>finish\<close> is of the same bytes as the first and cannot fail after it.\<close>

definition finish_bytes :: "('s \<Rightarrow> string \<Rightarrow> 's \<times> 'e stream_text_chunk) \<Rightarrow> ('s \<Rightarrow> 's \<times> 'e stream_text_chunk) \<Rightarrow>
    's utf8_parser \<Rightarrow> 's utf8_parser \<times> (utf8_stream_parser_error, 'e stream_text_chunk) result" where
  "finish_bytes push fin st =
     (case (if pending_utf8 st = [] then Ok () else from_utf8 (pending_utf8 st)) of
        Err err \<Rightarrow>
          (st, Err (case error_len err of Some n \<Rightarrow> InvalidUtf8 (valid_up_to err) n | None \<Rightarrow> IncompleteUtf8AtEof))
      | Ok _ \<Rightarrow>
          (case (if pending_utf8 st = [] then (inner st, no_output) else push (inner st) (pending_utf8 st)) of
             (p, out) \<Rightarrow>
               (case fin p of (p', tail) \<Rightarrow> (st\<lparr>inner := p', pending_utf8 := []\<rparr>, Ok (append_chunk out tail)))))"

definition into_inner :: "'s utf8_parser \<Rightarrow> (utf8_stream_parser_error, 's) result" where
  "into_inner st =
     (if pending_utf8 st = [] then Ok (inner st)
      else
        (case from_utf8 (pending_utf8 st) of
           Ok _ \<Rightarrow> Ok (inner st)
         | Err err \<Rightarrow> Err (case error_len err of Some n \<Rightarrow> InvalidUtf8 (valid_up_to err) n | None \<Rightarrow> IncompleteUtf8AtEof)))"

definition into_inner_lossy :: "'s utf8_parser \<Rightarrow> 's" where
  "into_inner_lossy st = inner st"


section \<open>Prefixes and extensions of an input\<close>

lemma tail_bytes_ok_append: "tail_bytes_ok n k cs \<noteq> Truncated \<Longrightarrow> tail_bytes_ok n k (cs @ ds) = tail_bytes_ok n k cs"
  by (induction n k cs rule: tail_bytes_ok.induct) (auto split: if_splits)

lemma tail_bytes_ok_take: "tail_bytes_ok n k cs = Whole m \<Longrightarrow> tail_bytes_ok n k (take (m - n) cs) = Whole m"
proof (induction n k cs rule: tail_bytes_ok.induct)
  case (3 n k c cs)
  then have "is_cont c" "tail_bytes_ok (n + 1) k cs = Whole m" by (auto split: if_splits)
  with 3 tail_bytes_ok_pos [of "n + 1" k cs m] show ?case by (cases "m - n") (auto simp: Suc_diff_le)
qed simp_all

lemma utf8_first_append: "utf8_first cs \<noteq> Truncated \<Longrightarrow> utf8_first (cs @ ds) = utf8_first cs"
  by (cases cs) (auto simp: Let_def tail_bytes_ok_append split: list.splits)

lemma utf8_first_le4: "utf8_first cs = Whole n \<Longrightarrow> n = 1 \<or> n = 2 \<or> n = 3 \<or> n = 4"
  by (cases cs) (auto simp: Let_def split: if_splits list.splits dest!: tail_bytes_ok_pos)

lemma utf8_first_take:
  assumes "utf8_first cs = Whole n"
  shows "utf8_first (take n cs) = Whole n"
proof -
  have "n \<le> length cs" using utf8_first_bounds [OF assms] by simp
  with assms utf8_first_le4 [OF assms] show ?thesis
    by (elim disjE; cases cs; cases "tl cs")
      (auto simp: Let_def numeral_eq_Suc split: if_splits dest: tail_bytes_ok_take)
qed

lemma tail_bytes_ok_Invalid: "tail_bytes_ok n k cs = Invalid m \<Longrightarrow> n \<le> m \<and> m < n + k"
  by (induction n k cs rule: tail_bytes_ok.induct) (auto split: if_splits)

lemma utf8_first_Invalid: "utf8_first cs = Invalid n \<Longrightarrow> 1 \<le> n \<and> n \<le> 3"
  by (cases cs) (auto simp: Let_def split: if_splits list.splits dest: tail_bytes_ok_Invalid)

lemma tail_bytes_ok_Truncated: "tail_bytes_ok n k cs = Truncated \<Longrightarrow> length cs < k"
  by (induction n k cs rule: tail_bytes_ok.induct) (auto split: if_splits)

lemma utf8_first_Truncated: "utf8_first cs = Truncated \<Longrightarrow> length cs \<le> 3"
  by (cases cs) (auto simp: Let_def split: if_splits list.splits dest!: tail_bytes_ok_Truncated)

lemma from_utf8_at_Nil [simp]: "from_utf8_at i [] = Ok ()"
  by (simp add: from_utf8_at.simps)

lemma from_utf8_append:
  "from_utf8_at i cs = Ok () \<Longrightarrow> from_utf8_at i (cs @ ds) = from_utf8_at (i + length cs) ds"
proof (induction i cs rule: from_utf8_at.induct)
  case (1 i cs)
  show ?case
  proof (cases "cs = []")
    case False
    with 1(2) obtain n where n: "utf8_first cs = Whole n" "from_utf8_at (i + n) (drop n cs) = Ok ()"
      by (subst (asm) from_utf8_at.simps) (auto split: utf8_step.splits)
    note bounds = utf8_first_bounds [OF n(1)]
    have "utf8_first (cs @ ds) = Whole n" using n(1) by (simp add: utf8_first_append)
    then have "from_utf8_at i (cs @ ds) = from_utf8_at (i + n) (drop n cs @ ds)"
      using False bounds by (subst from_utf8_at.simps) simp
    also have "\<dots> = from_utf8_at (i + n + length (drop n cs)) ds" using 1(1) [OF False n] .
    finally show ?thesis using bounds by simp
  qed simp
qed

text \<open>An error splits the input into a valid part and a rest that cannot go on.\<close>

lemma from_utf8_Err:
  "from_utf8_at i cs = Err e \<Longrightarrow>
     \<exists>good rest. cs = good @ rest \<and> valid_up_to e = i + length good \<and> from_utf8_at i good = Ok () \<and> rest \<noteq> [] \<and>
       utf8_first rest = (case error_len e of None \<Rightarrow> Truncated | Some n \<Rightarrow> Invalid n)"
proof (induction i cs rule: from_utf8_at.induct)
  case (1 i cs)
  then have "cs \<noteq> []" by auto
  show ?case
  proof (cases "utf8_first cs")
    case (Whole n)
    note bounds = utf8_first_bounds [OF Whole]
    have "from_utf8_at (i + n) (drop n cs) = Err e"
      using 1(2) \<open>cs \<noteq> []\<close> Whole by (subst (asm) from_utf8_at.simps) simp
    from 1(1) [OF \<open>cs \<noteq> []\<close> Whole this] obtain good rest where gr: "drop n cs = good @ rest"
      "valid_up_to e = i + n + length good" "from_utf8_at (i + n) good = Ok ()" "rest \<noteq> []"
      "utf8_first rest = (case error_len e of None \<Rightarrow> Truncated | Some n \<Rightarrow> Invalid n)" by blast
    have first: "utf8_first (take n cs) = Whole n" by (rule utf8_first_take [OF Whole])
    have len: "length (take n cs) = n" using bounds by simp
    have "take n cs \<noteq> []" using bounds by auto
    with first len have "from_utf8_at i (take n cs) = Ok ()" by (subst from_utf8_at.simps) simp
    from from_utf8_append [OF this, of good] gr(3) len have "from_utf8_at i (take n cs @ good) = Ok ()" by simp
    moreover have "cs = (take n cs @ good) @ rest" using gr(1) by (metis append.assoc append_take_drop_id)
    ultimately show ?thesis using gr len by (intro exI [of _ "take n cs @ good"] exI [of _ rest]) simp
  next
    case (Invalid n)
    with 1(2) \<open>cs \<noteq> []\<close> have "e = \<lparr>valid_up_to = i, error_len = Some n\<rparr>" by (subst (asm) from_utf8_at.simps) auto
    with Invalid \<open>cs \<noteq> []\<close> show ?thesis by (intro exI [of _ "[]"] exI [of _ cs]) simp
  next
    case Truncated
    with 1(2) \<open>cs \<noteq> []\<close> have "e = \<lparr>valid_up_to = i, error_len = None\<rparr>" by (subst (asm) from_utf8_at.simps) auto
    with Truncated \<open>cs \<noteq> []\<close> show ?thesis by (intro exI [of _ "[]"] exI [of _ cs]) simp
  qed
qed


lemma from_utf8_at_Ok: "from_utf8_at i cs = Ok () \<Longrightarrow> from_utf8_at j cs = Ok ()"
proof (induction i cs arbitrary: j rule: from_utf8_at.induct)
  case (1 i cs)
  show ?case
  proof (cases "cs = []")
    case False
    with 1(2) obtain n where n: "utf8_first cs = Whole n" "from_utf8_at (i + n) (drop n cs) = Ok ()"
      by (subst (asm) from_utf8_at.simps) (auto split: utf8_step.splits)
    with 1(1) [OF False n(1,2), of "j + n"] False show ?thesis by (subst from_utf8_at.simps) simp
  qed simp
qed

lemma from_utf8_split: "from_utf8 cs = Ok () \<Longrightarrow> from_utf8 (cs @ ds) = Ok () \<longleftrightarrow> from_utf8 ds = Ok ()"
  unfolding from_utf8_def using from_utf8_append [of 0 cs ds] from_utf8_at_Ok by metis

lemma from_utf8_ErrE:
  assumes "from_utf8 cs = Err e"
  obtains good rest where "cs = good @ rest" "valid_up_to e = length good" "from_utf8 good = Ok ()" "rest \<noteq> []"
    "utf8_first rest = (case error_len e of None \<Rightarrow> Truncated | Some n \<Rightarrow> Invalid n)"
  using from_utf8_Err [OF assms [unfolded from_utf8_def]] by (auto simp: from_utf8_def)

lemma invalid_stays_invalid:
  assumes "from_utf8 cs = Err e" "error_len e = Some n"
  shows "from_utf8 (cs @ ds) \<noteq> Ok ()"
proof
  assume ok: "from_utf8 (cs @ ds) = Ok ()"
  from assms obtain good rest where gr: "cs = good @ rest" "from_utf8 good = Ok ()" "rest \<noteq> []" "utf8_first rest = Invalid n"
    by (elim from_utf8_ErrE) simp
  with ok have "from_utf8 (rest @ ds) = Ok ()" using from_utf8_split [OF gr(2), of "rest @ ds"] by simp
  moreover have "utf8_first (rest @ ds) = Invalid n" using gr(4) by (simp add: utf8_first_append)
  ultimately show False using gr(3) unfolding from_utf8_def by (subst (asm) from_utf8_at.simps) simp
qed

section \<open>Pushing bytes\<close>

text \<open>
  No byte is lost and none is delivered twice: a push that succeeds hands the complete
  characters of the buffered and the new bytes to the parser inside, as one text, and keeps the rest, an
  unfinished character of at most three bytes; a push that fails reports where the valid part ends and
  the length of the wrong sequence, and leaves the wrapper and the parser as they were.
\<close>

lemma utf8_push_exact:
  "case push_bytes push st chunk of
     (st', Err e) \<Rightarrow> st' = st \<and> (\<exists>v n. e = InvalidUtf8 v n \<and> 1 \<le> n \<and> n \<le> 3 \<and>
        from_utf8 (take v (pending_utf8 st @ chunk)) = Ok () \<and>
        utf8_first (drop v (pending_utf8 st @ chunk)) = Invalid n)
   | (st', Ok out) \<Rightarrow> (\<exists>complete. pending_utf8 st @ chunk = complete @ pending_utf8 st' \<and> from_utf8 complete = Ok () \<and>
        (pending_utf8 st' = [] \<or> utf8_first (pending_utf8 st') = Truncated \<and> length (pending_utf8 st') \<le> 3) \<and>
        ((inner st', out) = push (inner st) complete \<or> complete = [] \<and> inner st' = inner st \<and> out = no_output))"
proof (cases "from_utf8 (pending_utf8 st @ chunk)")
  case (Inr u)
  then show ?thesis by (auto simp: push_bytes_def Let_def split: prod.split)
next
  case (Inl e)
  then obtain good rest where gr: "pending_utf8 st @ chunk = good @ rest" "valid_up_to e = length good"
    "from_utf8 good = Ok ()" "rest \<noteq> []"
    "utf8_first rest = (case error_len e of None \<Rightarrow> Truncated | Some n \<Rightarrow> Invalid n)" by (elim from_utf8_ErrE)
  have parts: "take (length good) (pending_utf8 st @ chunk) = good" "drop (length good) (pending_utf8 st @ chunk) = rest"
    using gr(1) by simp_all
  show ?thesis
  proof (cases "error_len e")
    case (Some n)
    with gr(5) have "utf8_first rest = Invalid n" by simp
    with Inl Some gr(2,3) parts utf8_first_Invalid [of rest n] show ?thesis
      by (auto simp: push_bytes_def Let_def)
  next
    case None
    with gr(5) have wait: "utf8_first rest = Truncated" "length rest \<le> 3" using utf8_first_Truncated by simp_all
    show ?thesis
    proof (cases "good = []")
      case True
      with Inl None gr wait show ?thesis by (auto simp: push_bytes_def Let_def)
    next
      case False
      with Inl None gr parts wait show ?thesis
        by (auto simp: push_bytes_def Let_def split: prod.split)
    qed
  qed
qed

lemma utf8_push_exact_witness:
  "snd (push_bytes citation_push_str (new_utf8_parser new_citation_parser) [CHR 0xC3]) = Ok no_output \<and>
   (\<exists>complete. [CHR 0xC3] = complete @
      pending_utf8 (fst (push_bytes citation_push_str (new_utf8_parser new_citation_parser) [CHR 0xC3])))"
proof -
  have run: "push_bytes citation_push_str (new_utf8_parser new_citation_parser) [CHR 0xC3] =
      (\<lparr>inner = new_citation_parser, pending_utf8 = [CHR 0xC3]\<rparr>, Ok no_output)" by code_simp
  then show ?thesis
    using utf8_push_exact [where push = citation_push_str and st = "new_utf8_parser new_citation_parser" and chunk = "[CHR 0xC3]"]
    by (auto simp: new_utf8_parser_def)
qed

section \<open>Any chunking of a valid text\<close>

text \<open>The chunks of a stream in order, up to the first error.\<close>

fun run_bytes :: "('s \<Rightarrow> string \<Rightarrow> 's \<times> 'e stream_text_chunk) \<Rightarrow> 's utf8_parser \<Rightarrow> string list \<Rightarrow>
    's utf8_parser \<times> (utf8_stream_parser_error, 'e stream_text_chunk) result" where
  "run_bytes push st [] = (st, Ok no_output)"
| "run_bytes push st (c # cs) =
     (case push_bytes push st c of
        (st', Err e) \<Rightarrow> (st', Err e)
      | (st', Ok o1) \<Rightarrow>
          (case run_bytes push st' cs of
             (st'', Err e) \<Rightarrow> (st'', Err e)
           | (st'', Ok o2) \<Rightarrow> (st'', Ok (append_chunk o1 o2))))"

text \<open>A stream parser of texts: the interface with the output chunks of the stream parsers.\<close>

locale text_parser = stream_parser push append_chunk no_output inv
  for push :: "'s \<Rightarrow> string \<Rightarrow> 's \<times> 'e stream_text_chunk" and inv :: "'s \<Rightarrow> bool"
begin

lemma push_split: "inv p \<Longrightarrow> push p a = (p1, o1) \<Longrightarrow> push p1 b = (p2, o2) \<Longrightarrow> push p (a @ b) = (p2, append_chunk o1 o2)"
  by (simp add: push_append)

lemma run_bytes_whole:
  assumes "inv (inner st)" "from_utf8 (pending_utf8 st @ concat chunks) = Ok ()"
    and "pending_utf8 st = [] \<or> utf8_first (pending_utf8 st) = Truncated"
  shows "\<exists>p out. run_bytes push st chunks = (\<lparr>inner = p, pending_utf8 = []\<rparr>, Ok out) \<and>
    push (inner st) (pending_utf8 st @ concat chunks) = (p, out)"
  using assms
proof (induction chunks arbitrary: st)
  case Nil
  then have "pending_utf8 st = []" unfolding from_utf8_def by (subst (asm) from_utf8_at.simps) (auto split: if_splits)
  with Nil.prems(1) push_none [of "inner st"] show ?case by (cases st) simp
next
  case (Cons c cs)
  let ?buf = "pending_utf8 st @ c"
  have all: "from_utf8 (?buf @ concat cs) = Ok ()" using Cons.prems(2) by simp
  have step: "\<exists>p out. run_bytes push st (c # cs) = (\<lparr>inner = p, pending_utf8 = []\<rparr>, Ok out) \<and>
      push (inner st) (pending_utf8 st @ concat (c # cs)) = (p, out)"
    if run: "push_bytes push st c = (\<lparr>inner = p1, pending_utf8 = rest\<rparr>, Ok o1)" and buf: "?buf = good @ rest"
      and good: "from_utf8 good = Ok ()" "push (inner st) good = (p1, o1)" "rest = [] \<or> utf8_first rest = Truncated"
    for p1 rest o1 good
  proof -
    have "inv p1" using push_inv [OF Cons.prems(1), of good] good(2) by simp
    moreover have "from_utf8 (rest @ concat cs) = Ok ()" using all from_utf8_split [OF good(1)] by (simp add: buf)
    ultimately obtain p out where rec: "run_bytes push \<lparr>inner = p1, pending_utf8 = rest\<rparr> cs = (\<lparr>inner = p, pending_utf8 = []\<rparr>, Ok out)"
      "push p1 (rest @ concat cs) = (p, out)"
      using Cons.IH [of "\<lparr>inner = p1, pending_utf8 = rest\<rparr>"] good(3) by auto
    have "pending_utf8 st @ concat (c # cs) = good @ rest @ concat cs" using buf by (metis append.assoc concat.simps(2))
    then have "push (inner st) (pending_utf8 st @ concat (c # cs)) = (p, append_chunk o1 out)"
      using push_split [OF Cons.prems(1) good(2) rec(2)] by (simp only:)
    with run rec show ?thesis by simp
  qed
  show ?case
  proof (cases "from_utf8 ?buf")
    case (Inr u)
    obtain p1 o1 where "push (inner st) ?buf = (p1, o1)" by fastforce
    with Inr show ?thesis by (intro step [of p1 "[]" o1 ?buf]) (cases st; simp add: push_bytes_def)+
  next
    case (Inl e)
    then have none: "error_len e = None" using invalid_stays_invalid [OF Inl, of _ "concat cs"] all by (cases "error_len e") auto
    from Inl obtain good rest where gr: "?buf = good @ rest" "valid_up_to e = length good" "from_utf8 good = Ok ()"
      "utf8_first rest = Truncated" using none by (elim from_utf8_ErrE) simp
    show ?thesis
    proof (cases "good = []")
      case True
      with Inl none gr push_none [OF Cons.prems(1)] show ?thesis
        by (intro step [of "inner st" rest no_output "[]"]) (cases st; simp add: push_bytes_def)+
    next
      case False
      obtain p1 o1 where "push (inner st) good = (p1, o1)" by fastforce
      with False Inl none gr show ?thesis
        by (intro step [of p1 rest o1 good]) (cases st; simp add: push_bytes_def Let_def)+
    qed
  qed
qed

end

interpretation citation_text: text_parser citation_push_str "hidden_inv citation_spec"
  by unfold_locales

text \<open>
  C39 (utf8_any_chunking). Bytes that are valid UTF-8 as a whole may be cut anywhere, also inside a character
  and inside a tag: pushing the pieces and finishing succeeds and gives the visible text and the
  citations of the whole text.
\<close>

theorem utf8_any_chunking:
  assumes "from_utf8 (concat chunks) = Ok ()"
  shows "\<exists>st out st' tail. run_bytes citation_push_str (new_utf8_parser new_citation_parser) chunks = (st, Ok out) \<and>
    finish_bytes citation_push_str citation_finish st = (st', Ok tail) \<and>
    strip_citations (concat chunks) = (visible_text (append_chunk out tail), extracted (append_chunk out tail))"
proof -
  let ?st = "new_utf8_parser new_citation_parser"
  obtain p out where run: "run_bytes citation_push_str ?st chunks = (\<lparr>inner = p, pending_utf8 = []\<rparr>, Ok out)"
    "citation_push_str new_citation_parser (concat chunks) = (p, out)"
    using citation_text.run_bytes_whole [of ?st chunks] assms new_citation_inv by (auto simp: new_utf8_parser_def)
  obtain p' tail where fin: "citation_finish p = (p', tail)" by fastforce
  have "finish_bytes citation_push_str citation_finish \<lparr>inner = p, pending_utf8 = []\<rparr> = (\<lparr>inner = p', pending_utf8 = []\<rparr>, Ok tail)"
    using fin by (simp add: finish_bytes_def append_chunk_monoid)
  moreover have "strip_citations (concat chunks) = (visible_text (append_chunk out tail), extracted (append_chunk out tail))"
    using run(2) fin by (simp add: strip_citations_def append_chunk_def)
  ultimately show ?thesis using run(1) by blast
qed

theorem utf8_any_chunking_witness:
  "\<exists>st out. run_bytes citation_push_str (new_utf8_parser new_citation_parser) [[CHR 0xC3], [CHR 0xA9]] = (st, Ok out)"
proof -
  have "from_utf8 (concat [[CHR 0xC3], [CHR 0xA9]]) = Ok ()" by code_simp
  from utf8_any_chunking [OF this] show ?thesis by blast
qed

end
