(* ===== verification/Head_Tail_Buffer.thy ===== *)
theory Head_Tail_Buffer
  imports Rust_Prelude
begin

text \<open>
  The capped buffer for the output of a process (\<open>core/src/unified_exec/head_tail_buffer.rs\<close>): it keeps
  the beginning and the end of what was written and drops the middle. A buffer is its record; the
  operations take the buffer and return it updated. Bytes are characters, counters are \<open>usize\<close> with the
  saturating operations of the source.

  The theorem is a refinement: after any sequence of chunks the buffer holds what the specification
  computes from the whole output, and its counters are exact.
\<close>

section \<open>The buffer\<close>

record head_tail_buffer =
  max_bytes :: nat
  head_budget :: nat
  tail_budget :: nat
  head_chunks :: "string list"
  tail_chunks :: "string list"
  head_bytes :: nat
  tail_bytes :: nat
  omitted_bytes :: nat

definition new_buffer :: "nat \<Rightarrow> head_tail_buffer" where
  "new_buffer m =
     (let h = m div 2 in
      \<lparr>max_bytes = m, head_budget = h, tail_budget = m - h, head_chunks = [], tail_chunks = [],
       head_bytes = 0, tail_bytes = 0, omitted_bytes = 0\<rparr>)"

definition UNIFIED_EXEC_OUTPUT_MAX_BYTES :: nat where
  "UNIFIED_EXEC_OUTPUT_MAX_BYTES = 1024 * 1024"

definition default_buffer :: head_tail_buffer where
  "default_buffer = new_buffer UNIFIED_EXEC_OUTPUT_MAX_BYTES"

definition retained_bytes :: "head_tail_buffer \<Rightarrow> nat" where
  "retained_bytes b = saturating_add (head_bytes b) (tail_bytes b)"

text \<open>The loop over the chunks at the front of the tail, with the two counters.\<close>

fun trim_loop :: "nat \<Rightarrow> string list \<Rightarrow> nat \<Rightarrow> nat \<Rightarrow> string list \<times> nat \<times> nat" where
  "trim_loop excess [] tb omitted = ([], tb, omitted)"
| "trim_loop excess (front # rest) tb omitted =
     (if excess = 0 then (front # rest, tb, omitted)
      else if length front \<le> excess then
        trim_loop (excess - length front) rest (tb - length front) (saturating_add omitted (length front))
      else (drop excess front # rest, tb - excess, saturating_add omitted excess))"

definition trim_tail_to_budget :: "head_tail_buffer \<Rightarrow> head_tail_buffer" where
  "trim_tail_to_budget b =
     (case trim_loop (tail_bytes b - tail_budget b) (tail_chunks b) (tail_bytes b) (omitted_bytes b) of
        (ts, tb, omitted) \<Rightarrow> b\<lparr>tail_chunks := ts, tail_bytes := tb, omitted_bytes := omitted\<rparr>)"

definition push_to_tail :: "string \<Rightarrow> head_tail_buffer \<Rightarrow> head_tail_buffer" where
  "push_to_tail chunk b =
     (if tail_budget b = 0 then b\<lparr>omitted_bytes := saturating_add (omitted_bytes b) (length chunk)\<rparr>
      else if tail_budget b \<le> length chunk then
        (let start = length chunk - tail_budget b; kept = drop start chunk; dropped = length chunk - length kept in
         b\<lparr>omitted_bytes := saturating_add (saturating_add (omitted_bytes b) (tail_bytes b)) dropped,
           tail_chunks := [kept], tail_bytes := length kept\<rparr>)
      else trim_tail_to_budget
        (b\<lparr>tail_bytes := saturating_add (tail_bytes b) (length chunk), tail_chunks := tail_chunks b @ [chunk]\<rparr>))"

definition push_chunk :: "string \<Rightarrow> head_tail_buffer \<Rightarrow> head_tail_buffer" where
  "push_chunk chunk b =
     (if max_bytes b = 0 then b\<lparr>omitted_bytes := saturating_add (omitted_bytes b) (length chunk)\<rparr>
      else if head_bytes b < head_budget b then
        (let remaining_head = head_budget b - head_bytes b in
         if length chunk \<le> remaining_head then
           b\<lparr>head_bytes := saturating_add (head_bytes b) (length chunk), head_chunks := head_chunks b @ [chunk]\<rparr>
         else
           (let head_part = take remaining_head chunk; tail_part = drop remaining_head chunk;
                b = (if head_part \<noteq> [] then
                       b\<lparr>head_bytes := saturating_add (head_bytes b) (length head_part),
                         head_chunks := head_chunks b @ [head_part]\<rparr>
                     else b) in
            push_to_tail tail_part b))
      else push_to_tail chunk b)"

definition snapshot_chunks :: "head_tail_buffer \<Rightarrow> string list" where
  "snapshot_chunks b = head_chunks b @ tail_chunks b"

definition to_bytes :: "head_tail_buffer \<Rightarrow> string" where
  "to_bytes b = fold (\<lambda>c out. out @ c) (tail_chunks b) (fold (\<lambda>c out. out @ c) (head_chunks b) [])"

definition drain_chunks :: "head_tail_buffer \<Rightarrow> string list \<times> head_tail_buffer" where
  "drain_chunks b =
     (head_chunks b @ tail_chunks b,
      b\<lparr>head_chunks := [], tail_chunks := [], head_bytes := 0, tail_bytes := 0, omitted_bytes := 0\<rparr>)"

section \<open>What the buffer holds\<close>

text \<open>The specification: the first \<open>h\<close> and the last \<open>t\<close> bytes of the whole output, without overlap.\<close>

definition kept_head :: "nat \<Rightarrow> string \<Rightarrow> string" where
  "kept_head h out = take h out"

definition kept_tail :: "nat \<Rightarrow> nat \<Rightarrow> string \<Rightarrow> string" where
  "kept_tail h t out = drop (max h (length out - t)) out"

definition holds :: "nat \<Rightarrow> nat \<Rightarrow> string \<Rightarrow> head_tail_buffer \<Rightarrow> bool" where
  "holds h t out b \<longleftrightarrow>
     max_bytes b = h + t \<and> head_budget b = h \<and> tail_budget b = t \<and>
     concat (head_chunks b) = kept_head h out \<and> concat (tail_chunks b) = kept_tail h t out \<and>
     head_bytes b = min h (length out) \<and> tail_bytes b = min t (length out - h) \<and>
     omitted_bytes b = min usize_max (length out - (h + t))"

lemma holds_new: "holds (m div 2) (m - m div 2) [] (new_buffer m)"
  by (simp add: holds_def new_buffer_def Let_def kept_head_def kept_tail_def)

lemma trim_loop_drops:
  assumes "excess \<le> length (concat ts)" "length (concat ts) \<le> tb"
  shows "\<exists>ts'. trim_loop excess ts tb (min usize_max om) = (ts', tb - excess, min usize_max (om + excess)) \<and>
     concat ts' = drop excess (concat ts)"
  using assms
proof (induction ts arbitrary: excess tb om)
  case (Cons front rest)
  show ?case
  proof (cases "length front \<le> excess \<and> excess \<noteq> 0")
    case True
    with Cons.prems have bounds: "excess - length front \<le> length (concat rest)" "length (concat rest) \<le> tb - length front"
      by auto
    from Cons.IH [OF bounds, of "om + length front"] True show ?thesis by auto
  qed (use Cons.prems in auto)
qed simp

lemma length_kept_tail: "length (kept_tail h t out) = min t (length out - h)"
  by (simp add: kept_tail_def)

lemma push_to_tail_big:
  assumes "holds h t out b" "h \<le> length out" "t \<le> length chunk"
  shows "holds h t (out @ chunk) (push_to_tail chunk b)"
proof (cases "t = 0")
  case True
  with assms show ?thesis by (simp add: holds_def push_to_tail_def kept_head_def kept_tail_def)
next
  case False
  have "kept_tail h t (out @ chunk) = drop (length chunk - t) chunk"
    using assms(2,3) by (simp add: kept_tail_def)
  moreover have "length out - (h + t) + min t (length out - h) + (length chunk - t) = length out + length chunk - (h + t)"
    using assms(2,3) by linarith
  moreover have "min t (length out + length chunk - h) = t" using assms(2,3) by linarith
  ultimately show ?thesis using assms False
    by (simp add: holds_def push_to_tail_def Let_def kept_head_def)
qed

lemma push_to_tail_small:
  assumes "holds h t out b" "h \<le> length out" "length chunk < t" "t + t \<le> Suc usize_max"
  shows "holds h t (out @ chunk) (push_to_tail chunk b)"
proof -
  note inv = assms(1) [unfolded holds_def]
  let ?ts = "tail_chunks b @ [chunk]" and ?tb = "min t (length out - h) + length chunk"
  have size: "saturating_add (min t (length out - h)) (length chunk) = ?tb"
    using assms(3,4) by (subst saturating_add_exact) auto
  have cat: "concat ?ts = kept_tail h t out @ chunk" and len: "length (concat ?ts) = ?tb"
    using inv by (simp_all add: length_kept_tail)
  obtain ts' where ts': "trim_loop (?tb - t) ?ts ?tb (min usize_max (length out - (h + t))) =
      (ts', ?tb - (?tb - t), min usize_max (length out - (h + t) + (?tb - t)))" "concat ts' = drop (?tb - t) (concat ?ts)"
    using trim_loop_drops [of "?tb - t" ?ts ?tb "length out - (h + t)"] len by auto
  have "max h (length out - t) + (?tb - t) = max h (length out + length chunk - t)"
    "max h (length out + length chunk - t) - length out = 0" "?tb - t - min t (length out - h) = 0"
    using assms(2,3) by linarith+
  then have tail: "concat ts' = kept_tail h t (out @ chunk)"
    unfolding ts'(2) cat drop_append length_kept_tail by (simp add: kept_tail_def add.commute)
  have counts: "length out - (h + t) + (?tb - t) = length out + length chunk - (h + t)"
    "?tb - (?tb - t) = min t (length out + length chunk - h)"
    using assms(2,3) by linarith+
  have "push_to_tail chunk b = b\<lparr>tail_chunks := ts', tail_bytes := min t (length out + length chunk - h),
      omitted_bytes := min usize_max (length out + length chunk - (h + t))\<rparr>"
    using inv assms(3) ts'(1) [unfolded counts] by (simp add: push_to_tail_def trim_tail_to_budget_def size)
  then show ?thesis using inv tail assms(2) by (simp add: holds_def kept_head_def)
qed

lemma push_to_tail_holds:
  assumes "holds h t out b" "h \<le> length out" "t + t \<le> Suc usize_max"
  shows "holds h t (out @ chunk) (push_to_tail chunk b)"
  using push_to_tail_big [OF assms(1,2)] push_to_tail_small [OF assms(1,2) _ assms(3)] by (cases "t \<le> length chunk") simp_all

lemma push_head_holds:
  assumes "holds h t out b" "length out + length chunk \<le> h" "h \<le> usize_max"
  shows "holds h t (out @ chunk) (b\<lparr>head_bytes := saturating_add (head_bytes b) (length chunk),
     head_chunks := head_chunks b @ [chunk]\<rparr>)"
  using assms by (simp add: holds_def saturating_add_exact kept_head_def kept_tail_def)

lemma push_chunk_holds:
  assumes inv: "holds h t out b" and size: "h \<le> usize_max" "t + t \<le> Suc usize_max"
  shows "holds h t (out @ chunk) (push_chunk chunk b)"
proof -
  have fields: "max_bytes b = h + t" "head_budget b = h" "head_bytes b = min h (length out)"
    using inv by (simp_all add: holds_def)
  consider (none) "h + t = 0" | (full) "h + t \<noteq> 0" "h \<le> length out"
    | (fits) "length out < h" "length out + length chunk \<le> h" | (split) "length out < h" "h < length out + length chunk"
    by linarith
  then show ?thesis
  proof cases
    case none
    with inv show ?thesis by (simp add: holds_def push_chunk_def kept_head_def kept_tail_def)
  next
    case full
    with push_to_tail_holds [OF inv full(2) size(2)] fields show ?thesis by (auto simp: push_chunk_def)
  next
    case fits
    with push_head_holds [OF inv fits(2) size(1)] fields show ?thesis
      by (simp add: push_chunk_def Let_def le_diff_conv2)
  next
    case split
    let ?r = "h - length out"
    have "holds h t (out @ take ?r chunk) (b\<lparr>head_bytes := saturating_add (head_bytes b) (length (take ?r chunk)),
        head_chunks := head_chunks b @ [take ?r chunk]\<rparr>)"
      using split by (intro push_head_holds inv size) auto
    from push_to_tail_holds [OF this _ size(2), of "drop ?r chunk"] split
    have "holds h t (out @ chunk) (push_to_tail (drop ?r chunk) (b\<lparr>head_bytes := saturating_add (head_bytes b) (length (take ?r chunk)),
        head_chunks := head_chunks b @ [take ?r chunk]\<rparr>))"
      by simp
    moreover have "take ?r chunk \<noteq> []" "\<not> length chunk \<le> ?r" "h + t \<noteq> 0" "length out < h" using split by auto
    ultimately show ?thesis using fields by (simp add: push_chunk_def Let_def)
  qed
qed

lemma pushes_hold:
  assumes "holds h t out b" "h \<le> usize_max" "t + t \<le> Suc usize_max"
  shows "holds h t (out @ concat chunks) (fold push_chunk chunks b)"
  using assms
proof (induction chunks arbitrary: out b)
  case (Cons c cs)
  from Cons.IH [OF push_chunk_holds [OF Cons.prems] Cons.prems(2,3)] show ?case by simp
qed simp

lemma fold_append: "fold (\<lambda>c out. out @ c) cs out = out @ concat cs"
  by (induction cs arbitrary: out) simp_all

text \<open>
  C36 (buffer_keeps_ends). Whatever chunks a process writes, a buffer for \<open>m\<close> bytes holds the first half of
  \<open>m\<close> and the last bytes of the output up to \<open>m\<close> in all; nothing is dropped before the limit is reached,
  never more than \<open>m\<close> bytes are kept, the counter of dropped bytes is exact (up to the largest \<open>usize\<close>),
  and draining hands out exactly the kept chunks and leaves a fresh buffer.
\<close>

theorem buffer_keeps_ends:
  assumes "m \<le> usize_max"
  shows "let b = fold push_chunk chunks (new_buffer m); out = concat chunks in
    to_bytes b = take (m div 2) out @ drop (max (m div 2) (length out - (m - m div 2))) out \<and>
    retained_bytes b = min m (length out) \<and> omitted_bytes b = min usize_max (length out - m) \<and>
    length (to_bytes b) = retained_bytes b \<and>
    drain_chunks b = (snapshot_chunks b, new_buffer m) \<and> concat (snapshot_chunks b) = to_bytes b"
proof -
  let ?h = "m div 2" and ?t = "m - m div 2" and ?out = "concat chunks"
  have budgets: "?h + ?t = m" "?h \<le> usize_max" "?t + ?t \<le> Suc usize_max" using assms by linarith+
  define b where "b = fold push_chunk chunks (new_buffer m)"
  have inv: "holds ?h ?t ?out b"
    using pushes_hold [OF holds_new budgets(2,3), of chunks] by (simp add: b_def)
  have bytes: "to_bytes b = take ?h ?out @ drop (max ?h (length ?out - ?t)) ?out"
    using inv by (simp add: to_bytes_def fold_append holds_def kept_head_def kept_tail_def)
  have sum: "min ?h (length ?out) + min ?t (length ?out - ?h) = min m (length ?out)" by linarith
  then have retained: "retained_bytes b = min m (length ?out)"
    using inv assms by (simp add: retained_bytes_def holds_def saturating_add_exact)
  have len: "length (to_bytes b) = min m (length ?out)"
    using inv sum by (simp add: to_bytes_def fold_append holds_def kept_head_def length_kept_tail min.commute)
  have "drain_chunks b = (snapshot_chunks b, new_buffer m)" "concat (snapshot_chunks b) = to_bytes b"
    "omitted_bytes b = min usize_max (length ?out - m)"
    using inv budgets(1) by (simp_all add: drain_chunks_def snapshot_chunks_def new_buffer_def Let_def holds_def to_bytes_def fold_append)
  with bytes retained len show ?thesis by (simp add: Let_def b_def)
qed

theorem buffer_keeps_ends_witness:
  "to_bytes (fold push_chunk [''abc'', ''defg'', ''hi''] (new_buffer 5)) = ''abghi'' \<and>
   omitted_bytes (fold push_chunk [''abc'', ''defg'', ''hi''] (new_buffer 5)) = 4"
  using buffer_keeps_ends [of 5 "[''abc'', ''defg'', ''hi'']"] by (simp add: Let_def usize_max_def)

end
