(* ===== verification/Spec2Isabelle.thy ===== *)
theory Spec2Isabelle
  imports Proxy_Policy Context_History Tool_Handlers Policy_Load Tagged_Lines Utf8_Stream Head_Tail_Buffer
begin

text \<open>
  A verification library for the Rust workspace \<open>codex-rs\<close>, a coding agent that runs on the user's machine.
  A language model proposes commands and patches; the program decides whether they run, applies the
  patches to files, and shows what the model says. The library models the parts in which a mistake does
  damage: what is allowed to run and after which question, what a patch does to files, which
  configuration is in force, and what of a stream or of an output reaches the user or the model.

  \<^bold>\<open>How the program is put together.\<close> The session (\<open>core/src\<close>) receives items from the model. Text goes
  through the stream parsers (\<open>utils/stream-parser\<close>), which take out citations and plan blocks. A shell
  command is parsed (\<open>shell-command\<close>), classified, checked against the execution policy (\<open>execpolicy\<close>), and
  the result is an approval requirement (\<open>core/src/exec_policy.rs\<close>). The policy comes from rules files
  of the configuration layers and from managed requirements (\<open>config\<close>); accepting a question may
  add a rule to it. An \<open>apply_patch\<close> command is recognised, previewed and applied (\<open>apply-patch\<close>). The output of
  processes is kept in a bounded buffer and truncated for the model (\<open>utils/output-truncation\<close>). Network requests of commands go through a
  proxy (\<open>network-proxy\<close>) that decides host by host, within the limits of the managed configuration.

  \<^bold>\<open>Conventions.\<close> Strings are lists of bytes, \<open>Result\<close> is a sum with \<open>Ok\<close> and \<open>Err\<close>, and \<open>None\<close> of an option
  result is a panic (\<open>Rust_Prelude\<close>). Structs are records, enums are datatypes, every operation is one
  definition with the branches of the source, errors included. Code of other packages and the operating system are
  arguments: the bash grammar (tree-sitter), the shell lexer, the Starlark evaluator, the JSON encoder, the
  line diff, the process that parses PowerShell, globs, URLs, name lookup, digests, the file system, the home and current directories. What is relied on of an argument is
  a hypothesis or a locale, and is shown to be satisfiable by an instance. All functions are total:
  loops are recursive functions with a termination proof, and no fuel is used. The one loop that starts again whenever others have changed
  the state (updates of the proxy) takes what others do as a list of rounds and gives \<open>None\<close> where the list ends. The Unix branches are modelled.

  \<^bold>\<open>Theories.\<close>

  \<^item> \<open>Rust_Prelude\<close>: results, slices, strings, characters and lines of the standard library, with their laws.

  \<^item> Patches. \<open>Patch_Parser\<close> is \<open>apply-patch/src/parser.rs\<close>; \<open>Patch_Roundtrip\<close> shows that parsing a printed patch gives it
    back and that the streaming parser agrees with the strict one. \<open>Seek_Sequence\<close> is \<open>seek_sequence.rs\<close>: the search
    finds the first match of the best quality. \<open>Patch_Apply\<close> computes the new contents of a file (\<open>lib.rs\<close>): the
    result is the simultaneous replacement of the located chunks. \<open>Patch_Fs\<close> applies hunks to a file system
    that is a parameter with laws: what a successful patch leaves, and that nothing else is touched.
    \<open>Patch_Invocation\<close> is \<open>invocation.rs\<close>: the preview is what applying the patch does. \<open>Patch_Safety\<close> is
    \<open>core/src/safety.rs\<close>: a patch approved without a question stays within the permissions.

  \<^item> Permissions. \<open>Fs_Permissions\<close> is \<open>protocol/src/permissions.rs\<close> with the older policies of \<open>protocol.rs\<close>; in \<open>Permission_Rules\<close>
    the most specific entry decides, the roots handed to the sandbox implement the policy, and the protected folders
    of a workspace stay read-only. \<open>Permission_Profiles\<close> is \<open>sandboxing/src/policy_transforms.rs\<close> with the profiles of
    \<open>models.rs\<close>: what is granted of a request stays within it, and a profile can be written and read back.

  \<^item> Tools. \<open>Exec_Output\<close> holds outputs and their judgement (\<open>core/src/exec.rs\<close>). \<open>Tool_Approval\<close> is \<open>core/src/tools/sandboxing.rs\<close> and
    the approval side of the runtimes: approvals kept for the session implement a set of keys. \<open>Tool_Orchestrator\<close> is
    \<open>core/src/tools/orchestrator.rs\<close>: every attempt follows an approval, an attempt without a sandbox follows one made for it or
    required before, and calls registered for network approval are taken out again. \<open>Tool_Handlers\<close> holds the shell and patch
    handlers (\<open>core/src/tools/handlers\<close>): a command leaves the sandbox only with an approval or when all of its script is
    cleared. \<open>Network_Approval\<close> is
    \<open>core/src/tools/network_approval.rs\<close> as a step relation, one lock per step: at most one question for a host is open at a
    time, also when the approved hosts of another session are taken over, and every request is answered after at most eleven moves of its task and
    those it waits for.

  \<^item> Network proxy. \<open>Proxy_Hosts\<close> is \<open>network-proxy/src/policy.rs\<close>: addresses that are not public, host names, patterns and their sets; comparing
    two patterns decides inclusion. \<open>Proxy_Settings\<close> holds the settings of \<open>config.rs\<close> and the managed constraints of \<open>state.rs\<close>.
    \<open>Proxy_Policy\<close> is \<open>runtime.rs\<close> and \<open>network_policy.rs\<close>: the state, its reloads and updates, and the decision on a request. What is
    let through is not denied, not local against the settings, and listed or approved by the decider; the managed lists bind in every state
    that reloads and updates lead to.

  \<^item> Paths. \<open>Absolute_Path\<close> is \<open>utils/absolute-path\<close>: resolution yields absolute normalised paths, once and for all.

  \<^item> Policy. \<open>Exec_Policy\<close> holds rules, matching and decisions (\<open>execpolicy/src\<close>): the strictest matching rule
    decides, overlays only restrict, the last network rule wins. \<open>Policy_Builder\<close> is \<open>parser.rs\<close>: the invariant of
    what a file leaves behind, and that the examples of a file hold in the finished policy. \<open>Policy_Amend\<close> is
    \<open>amend.rs\<close>: a rule is written once. \<open>Bash_Words\<close> and \<open>Command_Safety\<close> are \<open>shell-command/src\<close>: a script is
    accepted only if it consists of plain commands, which are returned in order; a safe command, PowerShell invocations included, is never a
    dangerous one. \<open>Exec_Approval\<close> is the decision of \<open>core/src/exec_policy.rs\<close>: the strictest verdict
    on the commands of a script decides, dangerous commands ask, and accepting the proposed rule settles the question.

  \<^item> Configuration. \<open>Toml_Merge\<close> holds values, aliases, merge and overrides; \<open>Config_Layers\<close> the stack of layers
    (\<open>config/src/state.rs\<close>): the highest layer that speaks about a path decides, the origins name it, and a
    user configuration can be exchanged without breaking the stack. \<open>Policy_Load\<close> loads the policy from the layers:
    managed rules bind whatever the files say.

  \<^item> Streams and output. \<open>Hidden_Tags\<close>, \<open>Tagged_Lines\<close> and \<open>Utf8_Stream\<close> are \<open>utils/stream-parser/src\<close>: the chunking of the
    input does not matter, and what is hidden is exactly what the tags enclose. \<open>Truncation\<close> is
    \<open>utils/output-truncation\<close> and \<open>utils/string\<close>: budgets and markers are exact. \<open>Head_Tail_Buffer\<close> is
    \<open>core/src/unified_exec/head_tail_buffer.rs\<close>: the buffer keeps the two ends of the output.

  \<^item> Conversation. \<open>Response_Items\<close> holds the items, the fragments that the program injects, token counts at the width of
    \<open>i64\<close> and estimates; \<open>Context_History\<close> is \<open>core/src/context_manager\<close>: what is sent to the model pairs calls and outputs, items
    are removed in pairs, and a rollback drops the last turns and the context updates right before them, nothing else.

  \<^bold>\<open>Interfaces.\<close> The locales state what one part relies on of another and are interpreted on the model: the
  multimap of rules (\<open>multi_map\<close>), tables (\<open>key_table\<close>), stream parsers (\<open>stream_parser\<close>, extended to text by
  \<open>text_parser\<close>), the passes of the search (\<open>scan_pass\<close>), what the orchestrator relies on of a runtime (\<open>guarded_runtime\<close>,
  interpreted on the three runtimes), and calls with their outputs (\<open>keyed_pairs\<close>).

  \<^bold>\<open>Not modelled.\<close> The asynchronous session and its tasks, HTTP and event streams, the login flow, the sandboxes of
  the operating systems, the terminal interface, the servers, the database and rollout files: input and
  output around the modelled decisions, or declarations of wire formats. Of the modelled files, the
  formatting of messages for display, Windows branches and test helpers are left out.
  The servers of the network proxy, the account registry (\<open>login/src/auth\<close>) and the remaining tool handlers are not covered either.
\<close>

end
